(* ===== verification/Prelude.thy ===== *)
theory Prelude
  imports Main "HOL-Library.Word" "HOL-Library.Product_Lexorder"
begin

text \<open>
  What every other theory shares: the result monad (Rust's \<open>Result\<close> and its
  \<open>?\<close> operator), Rust's saturating integer operations on \<open>u64\<close> and
  \<open>u32\<close> quantities kept as \<open>nat\<close>, durations and instants, and the
  collections of simplification rules the component theories extend.
\<close>

named_theorems result_simps \<open>evaluation of the result monad\<close>
named_theorems clock_simps \<open>unit conversions of durations\<close>
named_theorems frame_simps \<open>what an operation leaves unchanged\<close>

section \<open>Results\<close>

text \<open>\<open>Result<T, E>\<close> is \<open>E + T\<close>; \<open>rbind\<close> is the \<open>?\<close> operator.\<close>

fun rbind :: "'e + 'a \<Rightarrow> ('a \<Rightarrow> 'e + 'b) \<Rightarrow> 'e + 'b" where
  "rbind (Inl e) f = Inl e"
| "rbind (Inr a) f = f a"

lemma rbind_Inr_iff:
  "rbind r f = Inr b \<longleftrightarrow> (\<exists>a. r = Inr a \<and> f a = Inr b)"
  by (cases r) auto

lemma rbind_Inl_iff:
  "rbind r f = Inl e \<longleftrightarrow> r = Inl e \<or> (\<exists>a. r = Inr a \<and> f a = Inl e)"
  by (cases r) auto

lemma rbind_assoc [result_simps]:
  "rbind (rbind r f) g = rbind r (\<lambda>a. rbind (f a) g)"
  by (cases r) auto

section \<open>Unsigned machine quantities\<close>

text \<open>
  Counters, byte counts and microsecond values of the program are \<open>u64\<close>. They are
  kept as \<open>nat\<close>; where the source writes a saturating operation the bound is written
  out here. Subtraction on \<open>nat\<close> is \<open>saturating_sub\<close> as it stands.
\<close>

definition u64_max :: nat where "u64_max = 18446744073709551615"
definition u32_max :: nat where "u32_max = 4294967295"

definition sat_mul :: "nat \<Rightarrow> nat \<Rightarrow> nat" where
  "sat_mul a b = min (a * b) u64_max"

definition sat_add :: "nat \<Rightarrow> nat \<Rightarrow> nat" where
  "sat_add a b = min (a + b) u64_max"

definition sat_mul32 :: "nat \<Rightarrow> nat \<Rightarrow> nat" where
  "sat_mul32 a b = min (a * b) u32_max"

lemma sat_mul_le: "sat_mul a b \<le> u64_max" and sat_add_le: "sat_add a b \<le> u64_max"
  by (simp_all add: sat_mul_def sat_add_def)

lemma sat_mul_exact: "a * b \<le> u64_max \<Longrightarrow> sat_mul a b = a * b"
  and sat_add_exact: "a + b \<le> u64_max \<Longrightarrow> sat_add a b = a + b"
  by (simp_all add: sat_mul_def sat_add_def)

lemma sat_mul_mono: "a \<le> a' \<Longrightarrow> b \<le> b' \<Longrightarrow> sat_mul a b \<le> sat_mul a' b'"
  by (simp add: sat_mul_def min.coboundedI1 mult_le_mono)

lemma sat_add_mono: "a \<le> a' \<Longrightarrow> b \<le> b' \<Longrightarrow> sat_add a b \<le> sat_add a' b'"
  by (simp add: sat_add_def min_def)

text \<open>\<open>Ord::clamp\<close>. Rust panics when \<open>lo > hi\<close>; the callers keep \<open>lo \<le> hi\<close>.\<close>

definition clamp_nat :: "nat \<Rightarrow> nat \<Rightarrow> nat \<Rightarrow> nat" where
  "clamp_nat x lo hi = (if x < lo then lo else if hi < x then hi else x)"

lemma clamp_nat_bounds:
  assumes "lo \<le> hi"
  shows "lo \<le> clamp_nat x lo hi" and "clamp_nat x lo hi \<le> hi"
  using assms by (auto simp: clamp_nat_def)

lemma clamp_nat_id: "lo \<le> x \<Longrightarrow> x \<le> hi \<Longrightarrow> clamp_nat x lo hi = x"
  by (simp add: clamp_nat_def)

lemma clamp_nat_mono: "lo \<le> hi \<Longrightarrow> x \<le> y \<Longrightarrow> clamp_nat x lo hi \<le> clamp_nat y lo hi"
  by (auto simp: clamp_nat_def)

section \<open>Durations and instants\<close>

text \<open>
  A \<open>Duration\<close> is a number of nanoseconds and an \<open>Instant\<close> the nanoseconds since
  the process anchor of \<open>metrics::mono_us\<close>. Every operation that reads the clock takes
  the instant as an argument; \<open>Instant::elapsed\<close> and \<open>saturating_duration_since\<close>
  saturate at zero, which is \<open>nat\<close> subtraction.
\<close>

type_synonym duration = nat
type_synonym instant = nat

definition from_micros :: "nat \<Rightarrow> duration" where "from_micros us = us * 1000"
definition from_millis :: "nat \<Rightarrow> duration" where "from_millis ms = ms * 1000000"
definition from_secs :: "nat \<Rightarrow> duration" where "from_secs s = s * 1000000000"
definition as_micros :: "duration \<Rightarrow> nat" where "as_micros d = d div 1000"
definition as_millis :: "duration \<Rightarrow> nat" where "as_millis d = d div 1000000"

definition mono_us :: "instant \<Rightarrow> nat" where "mono_us now = now div 1000"
definition mono_ms :: "instant \<Rightarrow> nat" where "mono_ms now = now div 1000000"

definition elapsed :: "instant \<Rightarrow> instant \<Rightarrow> duration" where
  "elapsed now t = now - t"

lemma as_micros_from_micros [simp]: "as_micros (from_micros us) = us"
  by (simp add: as_micros_def from_micros_def)

lemma as_micros_mono: "d \<le> e \<Longrightarrow> as_micros d \<le> as_micros e"
  by (simp add: as_micros_def div_le_mono)

lemma from_micros_mono: "a \<le> b \<Longrightarrow> from_micros a \<le> from_micros b"
  by (simp add: from_micros_def)

lemma from_micros_less: "from_micros a < from_micros b \<longleftrightarrow> a < b"
  and from_micros_le: "from_micros a \<le> from_micros b \<longleftrightarrow> a \<le> b"
  by (simp_all add: from_micros_def)

lemma from_micros_as_micros_le: "from_micros (as_micros d) \<le> d"
  by (simp add: from_micros_def as_micros_def)

lemmas duration_unit_defs [clock_simps] =
  from_micros_def from_millis_def from_secs_def as_micros_def as_millis_def

section \<open>Exponential averages\<close>

text \<open>The \<open>7/8\<close> average the program uses for ACK RTTs, holes and rates.\<close>

definition ewma8 :: "nat \<Rightarrow> nat \<Rightarrow> nat" where
  "ewma8 cur s = (cur * 7 + s) div 8"

lemma ewma8_between:
  shows "min cur s \<le> ewma8 cur s" and "ewma8 cur s \<le> max cur s"
  by (auto simp: ewma8_def min_def max_def)

lemma ewma8_down: "s < cur \<Longrightarrow> ewma8 cur s < cur"
  and ewma8_up: "cur \<le> s \<Longrightarrow> cur \<le> ewma8 cur s"
  by (auto simp: ewma8_def)

lemma ewma8_fix: "ewma8 c c = c"
  by (simp add: ewma8_def)

section \<open>Lists\<close>

lemma set_filter_subset [intro]: "set (filter P xs) \<subseteq> set xs"
  by auto

lemma find_Some_in: "find P xs = Some x \<Longrightarrow> x \<in> set xs \<and> P x"
  by (auto simp: find_Some_iff in_set_conv_nth)

text \<open>\<open>filter\<close> with the unfiltered list when nothing survives (the program's \<open>..._or_all\<close>).\<close>

definition filter_or_all :: "('a \<Rightarrow> bool) \<Rightarrow> 'a list \<Rightarrow> 'a list" where
  "filter_or_all P xs = (let ys = filter P xs in if ys = [] then xs else ys)"

lemma filter_or_all_subset: "set (filter_or_all P xs) \<subseteq> set xs"
  by (auto simp: filter_or_all_def Let_def)

lemma filter_or_all_empty_iff [simp]: "filter_or_all P xs = [] \<longleftrightarrow> xs = []"
  by (auto simp: filter_or_all_def Let_def)

lemma filter_or_all_fit:
  "\<exists>x\<in>set xs. P x \<Longrightarrow> y \<in> set (filter_or_all P xs) \<Longrightarrow> P y"
  by (auto simp: filter_or_all_def Let_def filter_empty_conv split: if_splits)

lemma set_filter_or_all_cong:
  "set xs = set ys \<Longrightarrow> set (filter_or_all P xs) = set (filter_or_all P ys)"
  unfolding filter_or_all_def Let_def
  by (auto simp: filter_empty_conv)

text \<open>Minimum of a list that may be empty (\<open>Iterator::min\<close>).\<close>

definition list_min :: "'a::linorder list \<Rightarrow> 'a option" where
  "list_min xs = (if xs = [] then None else Some (fold min (tl xs) (hd xs)))"

lemma list_min_Nil [simp]: "list_min [] = None"
  by (simp add: list_min_def)

lemma list_min_None [simp]: "list_min xs = None \<longleftrightarrow> xs = []"
  by (simp add: list_min_def)

lemma list_min_Min: "xs \<noteq> [] \<Longrightarrow> list_min xs = Some (Min (set xs))"
  by (cases xs) (simp_all add: list_min_def Min.set_eq_fold [symmetric])

lemma list_min_Some:
  "list_min xs = Some m \<longleftrightarrow> m \<in> set xs \<and> (\<forall>x\<in>set xs. m \<le> x)"
proof (cases "xs = []")
  case False
  have "Some (Min (set xs)) = Some m \<longleftrightarrow> m \<in> set xs \<and> (\<forall>x\<in>set xs. m \<le> x)"
    using False by (auto intro: Min_eqI)
  then show ?thesis by (simp add: list_min_Min False)
qed (simp add: list_min_def)

lemma list_min_cong: "set xs = set ys \<Longrightarrow> list_min xs = list_min ys"
  by (cases "xs = []"; cases "ys = []") (auto simp: list_min_Min)

text \<open>\<open>Option::or_else\<close>.\<close>

definition or_else :: "'a option \<Rightarrow> 'a option \<Rightarrow> 'a option" where
  "or_else a b = (case a of None \<Rightarrow> b | Some x \<Rightarrow> Some x)"

lemma or_else_simps [simp]:
  "or_else None b = b" "or_else (Some x) b = Some x" "or_else a None = a"
  by (auto simp: or_else_def split: option.splits)

lemma or_else_eq_None [simp]: "or_else a b = None \<longleftrightarrow> a = None \<and> b = None"
  by (auto simp: or_else_def split: option.splits)

lemma or_else_eq_Some: "or_else a b = Some x \<longleftrightarrow> a = Some x \<or> (a = None \<and> b = Some x)"
  by (auto simp: or_else_def split: option.splits)

end
