(* ===== verification/Wire_Frame.thy ===== *)
theory Wire_Frame
  imports Prelude
begin

text \<open>
  \<open>nya-proto/src/frame.rs\<close>: the frames of the wire protocol, \<open>Frame::encode\<close>,
  \<open>Frame::decode\<close> with its parser, and \<open>Target::parse\<close> with its display.
  A byte is an \<open>8 word\<close>. The wider integer fields are the numbers the session computes
  with, so they are \<open>nat\<close>; their width is the bound in \<open>frame_wf\<close>, and the encoder
  writes them modulo that width. A \<open>String\<close> is the list of its UTF-8 bytes, so that
  \<open>as_bytes\<close> is the identity and \<open>from_utf8\<close> a test; \<open>\<lbrakk>u8; N\<rbrakk>\<close> arrays are lists
  whose length the well-formedness predicate fixes.
\<close>

type_synonym byte = "8 word"
type_synonym bytes = "byte list"
type_synonym u8 = "8 word"
type_synonym u16 = nat
type_synonym u32 = nat
type_synonym u64 = nat

section \<open>Constants\<close>

definition SESSION_ID_LEN :: nat where "SESSION_ID_LEN = 16"
definition NONCE_LEN :: nat where "NONCE_LEN = 32"
definition PROOF_LEN :: nat where "PROOF_LEN = 32"
definition PROTOCOL_VERSION :: u8 where "PROTOCOL_VERSION = 2"
definition MAX_STREAM_PAYLOAD :: nat where "MAX_STREAM_PAYLOAD = 16 * 1024 - 16"
definition MAX_SACK_RANGES :: nat where "MAX_SACK_RANGES = 8"

definition T_PING :: u8 where "T_PING = 0x01"
definition T_PONG :: u8 where "T_PONG = 0x02"
definition T_CREATE :: u8 where "T_CREATE = 0x03"
definition T_CREATE_OK :: u8 where "T_CREATE_OK = 0x04"
definition T_JOIN :: u8 where "T_JOIN = 0x05"
definition T_JOIN_OK :: u8 where "T_JOIN_OK = 0x06"
definition T_HS_ERR :: u8 where "T_HS_ERR = 0x07"
definition T_OPEN :: u8 where "T_OPEN = 0x08"
definition T_DATA :: u8 where "T_DATA = 0x09"
definition T_ACK :: u8 where "T_ACK = 0x0a"
definition T_CLOSE :: u8 where "T_CLOSE = 0x0b"
definition T_RESET :: u8 where "T_RESET = 0x0c"
definition T_SESS_CLOSE :: u8 where "T_SESS_CLOSE = 0x0e"

lemmas tag_defs = T_PING_def T_PONG_def T_CREATE_def T_CREATE_OK_def T_JOIN_def
  T_JOIN_OK_def T_HS_ERR_def T_OPEN_def T_DATA_def T_ACK_def T_CLOSE_def T_RESET_def
  T_SESS_CLOSE_def

lemmas len_defs = SESSION_ID_LEN_def NONCE_LEN_def PROOF_LEN_def

section \<open>Messages\<close>

datatype proto_error =
    Io | BadLength nat | Truncated | UnknownType u8 | Invalid string | Version u8

record target =
  host :: bytes
  port :: u16

datatype reset_reason =
    RUnknown | DialFailed | Timeout | PeerReset | SessionDead | Protocol

fun reset_reason_to_u8 :: "reset_reason \<Rightarrow> u8" where
  "reset_reason_to_u8 RUnknown = 0"
| "reset_reason_to_u8 DialFailed = 1"
| "reset_reason_to_u8 Timeout = 2"
| "reset_reason_to_u8 PeerReset = 3"
| "reset_reason_to_u8 SessionDead = 4"
| "reset_reason_to_u8 Protocol = 5"

definition reset_reason_from_u8 :: "u8 \<Rightarrow> reset_reason" where
  "reset_reason_from_u8 v =
     (if v = 1 then DialFailed else if v = 2 then Timeout else if v = 3 then PeerReset
      else if v = 4 then SessionDead else if v = 5 then Protocol else RUnknown)"

record ping =
  ping_seq :: u64
  sent_at_ms :: u64

record create_session =
  cs_version :: u8
  cs_user_id :: bytes
  cs_nonce :: bytes
  cs_proof :: bytes
  cs_path_name :: bytes

record join_session =
  js_session_id :: bytes
  js_path_name :: bytes
  js_proof :: bytes

record stream_open =
  so_stream_id :: u32
  so_target :: target

record stream_data =
  sd_stream_id :: u32
  sd_offset :: u64
  sd_data :: bytes

record stream_ack =
  sa_stream_id :: u32
  sa_acked_offset :: u64
  sa_window :: u32
  sa_sack :: "(u64 \<times> u64) list"

record stream_close =
  sc_stream_id :: u32
  sc_final_offset :: "u64 option"

record stream_reset =
  sr_stream_id :: u32
  sr_reason :: reset_reason

datatype frame =
    Ping ping | Pong ping
  | CreateSession create_session | CreateSessionOk bytes
  | JoinSession join_session | JoinSessionOk
  | HandshakeErr bytes
  | StreamOpen stream_open | StreamData stream_data | StreamAck stream_ack
  | StreamClose stream_close | StreamReset stream_reset
  | SessionClose

section \<open>Big-endian integers\<close>

fun be_enc :: "nat \<Rightarrow> nat \<Rightarrow> bytes" where
  "be_enc 0 v = []"
| "be_enc (Suc k) v = be_enc k (v div 256) @ [word_of_nat (v mod 256)]"

definition be_dec :: "bytes \<Rightarrow> nat" where
  "be_dec bs = foldl (\<lambda>a b. a * 256 + unat b) 0 bs"

definition u16_be :: "u16 \<Rightarrow> bytes" where "u16_be w = be_enc 2 w"
definition u32_be :: "u32 \<Rightarrow> bytes" where "u32_be w = be_enc 4 w"
definition u64_be :: "u64 \<Rightarrow> bytes" where "u64_be w = be_enc 8 w"

lemma length_be_enc [simp]: "length (be_enc k v) = k"
  by (induction k arbitrary: v) auto

lemma be_dec_snoc: "be_dec (bs @ [b]) = be_dec bs * 256 + unat b"
  by (simp add: be_dec_def)

lemma be_dec_enc: "be_dec (be_enc k v) = v mod 256 ^ k"
proof (induction k arbitrary: v)
  case 0
  then show ?case by (simp add: be_dec_def)
next
  case (Suc k)
  have "unat (word_of_nat (v mod 256) :: byte) = v mod 256"
    by (simp add: unat_of_nat)
  then have "be_dec (be_enc (Suc k) v) = (v div 256) mod 256 ^ k * 256 + v mod 256"
    by (simp add: be_dec_snoc Suc)
  also have "\<dots> = v mod 256 ^ Suc k"
    by (simp add: mod_mult2_eq mult.commute)
  finally show ?case .
qed

lemma length_be [simp]:
  "length (u16_be a) = 2" "length (u32_be b) = 4" "length (u64_be c) = 8"
  by (simp_all add: u16_be_def u32_be_def u64_be_def)

lemma be_roundtrip [simp]:
  "a < 2 ^ 16 \<Longrightarrow> be_dec (u16_be a) = a"
  "b < 2 ^ 32 \<Longrightarrow> be_dec (u32_be b) = b"
  "c < 2 ^ 64 \<Longrightarrow> be_dec (u64_be c) = c"
  by (simp_all add: u16_be_def u32_be_def u64_be_def be_dec_enc)

section \<open>UTF-8\<close>

text \<open>\<open>String::from_utf8\<close> accepts exactly the well-formed sequences of the Unicode standard.\<close>

definition utf8_cont :: "byte \<Rightarrow> bool" where
  "utf8_cont b \<longleftrightarrow> 0x80 \<le> b \<and> b \<le> 0xBF"

definition utf8_second3 :: "byte \<Rightarrow> byte \<Rightarrow> bool" where
  "utf8_second3 b c \<longleftrightarrow>
     (if b = 0xE0 then 0xA0 \<le> c \<and> c \<le> 0xBF
      else if b = 0xED then 0x80 \<le> c \<and> c \<le> 0x9F
      else utf8_cont c)"

definition utf8_second4 :: "byte \<Rightarrow> byte \<Rightarrow> bool" where
  "utf8_second4 b c \<longleftrightarrow>
     (if b = 0xF0 then 0x90 \<le> c \<and> c \<le> 0xBF
      else if b = 0xF4 then 0x80 \<le> c \<and> c \<le> 0x8F
      else utf8_cont c)"

fun utf8_valid :: "bytes \<Rightarrow> bool" where
  "utf8_valid [] = True"
| "utf8_valid (b # bs) =
     (if b < 0x80 then utf8_valid bs
      else if 0xC2 \<le> b \<and> b \<le> 0xDF then
        (case bs of c # bs' \<Rightarrow> utf8_cont c \<and> utf8_valid bs' | _ \<Rightarrow> False)
      else if 0xE0 \<le> b \<and> b \<le> 0xEF then
        (case bs of c # d # bs' \<Rightarrow> utf8_second3 b c \<and> utf8_cont d \<and> utf8_valid bs'
         | _ \<Rightarrow> False)
      else if 0xF0 \<le> b \<and> b \<le> 0xF4 then
        (case bs of c # d # e # bs' \<Rightarrow>
           utf8_second4 b c \<and> utf8_cont d \<and> utf8_cont e \<and> utf8_valid bs'
         | _ \<Rightarrow> False)
      else False)"

text \<open>ASCII is valid UTF-8.\<close>

lemma utf8_valid_ascii: "\<forall>b\<in>set bs. b < 0x80 \<Longrightarrow> utf8_valid bs"
  by (induction bs) auto

section \<open>Encoding\<close>

definition put_str :: "bytes \<Rightarrow> bytes" where
  "put_str b = (let len = (if length b \<le> 65535 then length b else 65535)
     in u16_be len @ take len b)"

fun put_sack :: "(u64 \<times> u64) list \<Rightarrow> bytes" where
  "put_sack [] = []"
| "put_sack ((a, b) # r) = u64_be a @ u64_be b @ put_sack r"

fun frame_encode :: "frame \<Rightarrow> bytes" where
  "frame_encode (Ping p) = T_PING # u64_be (ping_seq p) @ u64_be (sent_at_ms p)"
| "frame_encode (Pong p) = T_PONG # u64_be (ping_seq p) @ u64_be (sent_at_ms p)"
| "frame_encode (CreateSession c) =
     T_CREATE # cs_version c # put_str (cs_user_id c) @ cs_nonce c @ cs_proof c
       @ put_str (cs_path_name c)"
| "frame_encode (CreateSessionOk sid) = T_CREATE_OK # sid"
| "frame_encode (JoinSession j) =
     T_JOIN # js_session_id j @ put_str (js_path_name j) @ js_proof j"
| "frame_encode JoinSessionOk = [T_JOIN_OK]"
| "frame_encode (HandshakeErr m) = T_HS_ERR # put_str m"
| "frame_encode (StreamOpen s) =
     T_OPEN # u32_be (so_stream_id s) @ u16_be (port (so_target s))
       @ put_str (host (so_target s))"
| "frame_encode (StreamData s) =
     T_DATA # u32_be (sd_stream_id s) @ u64_be (sd_offset s) @ sd_data s"
| "frame_encode (StreamAck s) =
     T_ACK # u32_be (sa_stream_id s) @ u64_be (sa_acked_offset s) @ u32_be (sa_window s)
       @ (if sa_sack s = [] then []
          else (let n = min (length (sa_sack s)) MAX_SACK_RANGES
                in word_of_nat n # put_sack (take n (sa_sack s))))"
| "frame_encode (StreamClose s) =
     T_CLOSE # u32_be (sc_stream_id s)
       @ (case sc_final_offset s of Some off \<Rightarrow> u64_be off | None \<Rightarrow> [])"
| "frame_encode (StreamReset s) =
     T_RESET # u32_be (sr_stream_id s) @ [reset_reason_to_u8 (sr_reason s)]"
| "frame_encode SessionClose = [T_SESS_CLOSE]"

section \<open>Decoding\<close>

text \<open>
  The parser state of the source is the buffer and an offset; here it is the unread rest
  \<open>buf\<lbrakk>off..\<rbrakk>\<close>. \<open>need n\<close> fails when fewer than \<open>n\<close> bytes are left.
\<close>

type_synonym 'a parser = "bytes \<Rightarrow> proto_error + ('a \<times> bytes)"

definition p_bytes :: "nat \<Rightarrow> bytes parser" where
  "p_bytes n r = (if length r < n then Inl Truncated else Inr (take n r, drop n r))"

definition p_u8 :: "u8 parser" where
  "p_u8 r = (case r of [] \<Rightarrow> Inl Truncated | b # r' \<Rightarrow> Inr (b, r'))"

definition p_u16 :: "u16 parser" where
  "p_u16 r = rbind (p_bytes 2 r) (\<lambda>(b, r'). Inr (be_dec b, r'))"

definition p_u32 :: "u32 parser" where
  "p_u32 r = rbind (p_bytes 4 r) (\<lambda>(b, r'). Inr (be_dec b, r'))"

definition p_u64 :: "u64 parser" where
  "p_u64 r = rbind (p_bytes 8 r) (\<lambda>(b, r'). Inr (be_dec b, r'))"

definition p_str :: "bytes parser" where
  "p_str r = rbind (p_u16 r) (\<lambda>(len, r1).
     rbind (p_bytes len r1) (\<lambda>(b, r2).
       if utf8_valid b then Inr (b, r2) else Inl (Invalid ''utf8'')))"

fun p_sack :: "nat \<Rightarrow> (u64 \<times> u64) list parser" where
  "p_sack 0 r = Inr ([], r)"
| "p_sack (Suc n) r =
     rbind (p_u64 r) (\<lambda>(a, r1). rbind (p_u64 r1) (\<lambda>(b, r2).
       rbind (p_sack n r2) (\<lambda>(s, r3). Inr ((a, b) # s, r3))))"

definition p_ping :: "ping parser" where
  "p_ping r = rbind (p_u64 r) (\<lambda>(s, r1). rbind (p_u64 r1) (\<lambda>(t, r2).
     Inr (\<lparr>ping_seq = s, sent_at_ms = t\<rparr>, r2)))"

definition p_create :: "frame parser" where
  "p_create r = rbind (p_u8 r) (\<lambda>(v, r1). rbind (p_str r1) (\<lambda>(u, r2).
     rbind (p_bytes NONCE_LEN r2) (\<lambda>(n, r3). rbind (p_bytes PROOF_LEN r3) (\<lambda>(pf, r4).
       rbind (if r4 = [] then Inr ([], r4) else p_str r4) (\<lambda>(nm, r5).
         Inr (CreateSession \<lparr>cs_version = v, cs_user_id = u, cs_nonce = n, cs_proof = pf,
                cs_path_name = nm\<rparr>, r5))))))"

definition p_join :: "frame parser" where
  "p_join r = rbind (p_bytes SESSION_ID_LEN r) (\<lambda>(sid, r1). rbind (p_str r1) (\<lambda>(nm, r2).
     rbind (p_bytes PROOF_LEN r2) (\<lambda>(pf, r3).
       Inr (JoinSession \<lparr>js_session_id = sid, js_path_name = nm, js_proof = pf\<rparr>, r3))))"

definition p_open :: "frame parser" where
  "p_open r = rbind (p_u32 r) (\<lambda>(i, r1). rbind (p_u16 r1) (\<lambda>(pt, r2).
     rbind (p_str r2) (\<lambda>(h, r3).
       Inr (StreamOpen \<lparr>so_stream_id = i, so_target = \<lparr>host = h, port = pt\<rparr>\<rparr>, r3))))"

definition p_data :: "frame parser" where
  "p_data r = rbind (p_u32 r) (\<lambda>(i, r1). rbind (p_u64 r1) (\<lambda>(off, r2).
     Inr (StreamData \<lparr>sd_stream_id = i, sd_offset = off, sd_data = r2\<rparr>, r2)))"

definition p_ack :: "frame parser" where
  "p_ack r = rbind (p_u32 r) (\<lambda>(i, r1). rbind (p_u64 r1) (\<lambda>(off, r2).
     rbind (p_u32 r2) (\<lambda>(w, r3).
       rbind (if r3 = [] then Inr ([], r3)
              else rbind (p_u8 r3) (\<lambda>(n, r4). p_sack (min (unat n) MAX_SACK_RANGES) r4))
         (\<lambda>(sk, r5). Inr (StreamAck \<lparr>sa_stream_id = i, sa_acked_offset = off,
             sa_window = w, sa_sack = sk\<rparr>, r5)))))"

definition p_close :: "frame parser" where
  "p_close r = rbind (p_u32 r) (\<lambda>(i, r1).
     rbind (if 8 \<le> length r1 then rbind (p_u64 r1) (\<lambda>(o', r2). Inr (Some o', r2))
            else Inr (None, r1))
       (\<lambda>(fo, r2). Inr (StreamClose \<lparr>sc_stream_id = i, sc_final_offset = fo\<rparr>, r2)))"

definition p_reset :: "frame parser" where
  "p_reset r = rbind (p_u32 r) (\<lambda>(i, r1). rbind (p_u8 r1) (\<lambda>(b, r2).
     Inr (StreamReset \<lparr>sr_stream_id = i, sr_reason = reset_reason_from_u8 b\<rparr>, r2)))"

definition p_frame :: "u8 \<Rightarrow> frame parser" where
  "p_frame typ r =
     (if typ = T_PING then rbind (p_ping r) (\<lambda>(p, r'). Inr (Ping p, r'))
      else if typ = T_PONG then rbind (p_ping r) (\<lambda>(p, r'). Inr (Pong p, r'))
      else if typ = T_CREATE then p_create r
      else if typ = T_CREATE_OK then
        rbind (p_bytes SESSION_ID_LEN r) (\<lambda>(sid, r'). Inr (CreateSessionOk sid, r'))
      else if typ = T_JOIN then p_join r
      else if typ = T_JOIN_OK then Inr (JoinSessionOk, r)
      else if typ = T_HS_ERR then rbind (p_str r) (\<lambda>(m, r'). Inr (HandshakeErr m, r'))
      else if typ = T_OPEN then p_open r
      else if typ = T_DATA then p_data r
      else if typ = T_ACK then p_ack r
      else if typ = T_CLOSE then p_close r
      else if typ = T_RESET then p_reset r
      else if typ = T_SESS_CLOSE then Inr (SessionClose, r)
      else Inl (UnknownType typ))"

text \<open>Bytes after a complete body are ignored, as in the source.\<close>

definition frame_decode :: "bytes \<Rightarrow> proto_error + frame" where
  "frame_decode buf = (case buf of
     [] \<Rightarrow> Inl Truncated
   | typ # r \<Rightarrow> rbind (p_frame typ r) (\<lambda>(f, _). Inr f))"


section \<open>Parsing what was printed\<close>

named_theorems parse_simps \<open>a parser applied to the output of its printer\<close>

lemma p_bytes_app [parse_simps]: "length xs = n \<Longrightarrow> p_bytes n (xs @ r) = Inr (xs, r)"
  by (auto simp: p_bytes_def)

lemma p_bytes_all [parse_simps]: "length xs = n \<Longrightarrow> p_bytes n xs = Inr (xs, [])"
  by (auto simp: p_bytes_def)

lemma p_u8_Cons [parse_simps]: "p_u8 (b # r) = Inr (b, r)"
  by (simp add: p_u8_def)

lemma p_int_app [parse_simps]:
  "a < 2 ^ 16 \<Longrightarrow> p_u16 (u16_be a @ r) = Inr (a, r)"
  "b < 2 ^ 32 \<Longrightarrow> p_u32 (u32_be b @ r) = Inr (b, r)"
  "c < 2 ^ 64 \<Longrightarrow> p_u64 (u64_be c @ r) = Inr (c, r)"
  by (simp_all add: p_u16_def p_u32_def p_u64_def p_bytes_app)

lemma p_u64_all [parse_simps]: "c < 2 ^ 64 \<Longrightarrow> p_u64 (u64_be c) = Inr (c, [])"
  using p_int_app(3)[of c "[]"] by simp

definition wf_str :: "bytes \<Rightarrow> bool" where
  "wf_str b \<longleftrightarrow> utf8_valid b \<and> length b \<le> 65535"

lemma p_str_app [parse_simps]:
  assumes "wf_str b"
  shows "p_str (put_str b @ r) = Inr (b, r)"
proof -
  have len: "length b \<le> 65535" and utf: "utf8_valid b"
    using assms by (simp_all add: wf_str_def)
  show ?thesis
    using len utf by (simp add: p_str_def put_str_def Let_def parse_simps)
qed

lemma p_str_all [parse_simps]: "wf_str b \<Longrightarrow> p_str (put_str b) = Inr (b, [])"
  using p_str_app[of b "[]"] by simp

lemma length_put_str: "length (put_str b) = 2 + min (length b) 65535"
  by (simp add: put_str_def Let_def)

lemma put_str_nonempty [simp]: "put_str b \<noteq> []"
  using length_put_str[of b] by auto

definition wf_sack :: "(u64 \<times> u64) list \<Rightarrow> bool" where
  "wf_sack s \<longleftrightarrow> (\<forall>(a, b)\<in>set s. a < 2 ^ 64 \<and> b < 2 ^ 64)"

lemma p_sack_app [parse_simps]:
  "wf_sack s \<Longrightarrow> p_sack (length s) (put_sack s @ r) = Inr (s, r)"
  by (induction s) (auto simp: parse_simps wf_sack_def)

lemma p_sack_all [parse_simps]: "wf_sack s \<Longrightarrow> p_sack (length s) (put_sack s) = Inr (s, [])"
  using p_sack_app[of s "[]"] by simp

lemma length_put_sack [simp]: "length (put_sack s) = 16 * length s"
  by (induction s) auto

text \<open>
  The frames the program builds: integers within their width, array lengths, short valid
  strings, at most 8 ranges.
\<close>

fun frame_wf :: "frame \<Rightarrow> bool" where
  "frame_wf (Ping p) \<longleftrightarrow> ping_seq p < 2 ^ 64 \<and> sent_at_ms p < 2 ^ 64"
| "frame_wf (Pong p) \<longleftrightarrow> ping_seq p < 2 ^ 64 \<and> sent_at_ms p < 2 ^ 64"
|   "frame_wf (CreateSession c) \<longleftrightarrow> wf_str (cs_user_id c) \<and> wf_str (cs_path_name c) \<and>
     length (cs_nonce c) = NONCE_LEN \<and> length (cs_proof c) = PROOF_LEN"
| "frame_wf (CreateSessionOk sid) \<longleftrightarrow> length sid = SESSION_ID_LEN"
| "frame_wf (JoinSession j) \<longleftrightarrow> wf_str (js_path_name j) \<and>
     length (js_session_id j) = SESSION_ID_LEN \<and> length (js_proof j) = PROOF_LEN"
| "frame_wf (HandshakeErr m) \<longleftrightarrow> wf_str m"
| "frame_wf (StreamOpen s) \<longleftrightarrow> so_stream_id s < 2 ^ 32 \<and> port (so_target s) < 2 ^ 16 \<and>
     wf_str (host (so_target s))"
| "frame_wf (StreamData s) \<longleftrightarrow> sd_stream_id s < 2 ^ 32 \<and> sd_offset s < 2 ^ 64"
| "frame_wf (StreamAck s) \<longleftrightarrow> sa_stream_id s < 2 ^ 32 \<and> sa_acked_offset s < 2 ^ 64 \<and>
     sa_window s < 2 ^ 32 \<and> wf_sack (sa_sack s) \<and> length (sa_sack s) \<le> MAX_SACK_RANGES"
| "frame_wf (StreamClose s) \<longleftrightarrow> sc_stream_id s < 2 ^ 32 \<and>
     (case sc_final_offset s of None \<Rightarrow> True | Some off \<Rightarrow> off < 2 ^ 64)"
| "frame_wf (StreamReset s) \<longleftrightarrow> sr_stream_id s < 2 ^ 32"
| "frame_wf _ \<longleftrightarrow> True"

lemma reset_reason_roundtrip [parse_simps]:
  "reset_reason_from_u8 (reset_reason_to_u8 x) = x"
  by (cases x) (simp_all add: reset_reason_from_u8_def)

lemma unat_sack_count:
  "n \<le> MAX_SACK_RANGES \<Longrightarrow> unat (word_of_nat n :: u8) = n"
  by (simp add: MAX_SACK_RANGES_def unat_of_nat)

lemma p_u32_all [parse_simps]: "b < 2 ^ 32 \<Longrightarrow> p_u32 (u32_be b) = Inr (b, [])"
  using p_int_app(2)[of b "[]"] by simp

lemma p_ack_roundtrip:
  assumes "frame_wf (StreamAck s)"
  shows "frame_decode (frame_encode (StreamAck s)) = Inr (StreamAck s)"
proof (cases "sa_sack s = []")
  case True
  then show ?thesis using assms
    by (simp add: frame_decode_def p_frame_def p_ack_def tag_defs parse_simps)
next
  case False
  then show ?thesis using assms
    by (simp add: frame_decode_def p_frame_def p_ack_def tag_defs parse_simps Let_def
        unat_sack_count)
qed

lemma p_close_roundtrip:
  assumes "frame_wf (StreamClose s)"
  shows "frame_decode (frame_encode (StreamClose s)) = Inr (StreamClose s)"
  using assms
  by (cases "sc_final_offset s")
    (simp_all add: frame_decode_def p_frame_def p_close_def tag_defs parse_simps)

lemma frame_roundtrip_aux:
  assumes "frame_wf f"
  shows "frame_decode (frame_encode f) = Inr f"
proof (cases f)
  case (StreamAck s)
  then show ?thesis using assms p_ack_roundtrip by simp
next
  case (StreamClose s)
  then show ?thesis using assms p_close_roundtrip by simp
next
  case (CreateSession c)
  then show ?thesis using assms
    by (simp add: frame_decode_def p_frame_def p_create_def tag_defs parse_simps)
next
  case (JoinSession j)
  then show ?thesis using assms
    by (simp add: frame_decode_def p_frame_def p_join_def tag_defs parse_simps)
next
  case (StreamOpen s)
  then show ?thesis using assms
    by (simp add: frame_decode_def p_frame_def p_open_def tag_defs parse_simps)
next
  case (StreamReset s)
  then show ?thesis using assms
    by (simp add: frame_decode_def p_frame_def p_reset_def tag_defs parse_simps)
qed (use assms in \<open>simp_all add: frame_decode_def p_frame_def p_ping_def p_data_def
  tag_defs parse_simps\<close>)

section \<open>Sizes\<close>

text \<open>A data piece of at most \<open>MAX_STREAM_PAYLOAD\<close> bytes fills a frame with 3 bytes to spare.\<close>

lemma length_encode_data:
  "length (frame_encode (StreamData s)) = 13 + length (sd_data s)"
  by simp

lemma length_encode_ack:
  "length (frame_encode (StreamAck s)) \<le> 146"
  by (simp add: MAX_SACK_RANGES_def Let_def)

lemma frame_encode_nonempty [simp]: "frame_encode f \<noteq> []"
  by (cases f) simp_all

end
