(* ===== verification/Wire_Codec.thy ===== *)
theory Wire_Codec
  imports Wire_Frame
begin

text \<open>
  \<open>nya-proto/src/codec.rs\<close> (the length-prefixed framing of handshake messages) and
  \<open>Target::parse\<close> / \<open>Display for Target\<close> of \<open>frame.rs\<close>. The byte stream of an
  asynchronous reader is the list of bytes it will yield before end of file; a writer is
  the list of bytes written so far.
\<close>

section \<open>Framing\<close>

definition MAX_FRAME_SIZE :: nat where "MAX_FRAME_SIZE = 16 * 1024"

text \<open>\<open>read_frame\<close>, over the payload decoder it calls.\<close>

definition read_payload :: "(bytes \<Rightarrow> proto_error + 'f) \<Rightarrow> bytes \<Rightarrow> proto_error + ('f \<times> bytes)" where
  "read_payload dec r =
     (if length r < 4 then Inl Io
      else let len = be_dec (take 4 r); r1 = drop 4 r in
        if len = 0 \<or> len > MAX_FRAME_SIZE then Inl (BadLength len)
        else if length r1 < len then Inl Io
        else rbind (dec (take len r1)) (\<lambda>f. Inr (f, drop len r1)))"

definition write_payload :: "bytes \<Rightarrow> bytes \<Rightarrow> proto_error + bytes" where
  "write_payload w payload =
     (if length payload > MAX_FRAME_SIZE then Inl (BadLength (length payload))
      else Inr (w @ u32_be (length payload) @ payload))"

definition read_frame :: "bytes \<Rightarrow> proto_error + (frame \<times> bytes)" where
  "read_frame r = read_payload frame_decode r"

definition write_frame :: "bytes \<Rightarrow> frame \<Rightarrow> proto_error + bytes" where
  "write_frame w f = write_payload w (frame_encode f)"

text \<open>
  What the framing needs of a message codec: a decoder that inverts the encoder on
  well-formed messages, and encodings that are never empty (length 0 is refused).
\<close>

locale message_codec =
  fixes enc :: "'f \<Rightarrow> bytes" and dec :: "bytes \<Rightarrow> proto_error + 'f" and wf :: "'f \<Rightarrow> bool"
  assumes dec_enc: "wf f \<Longrightarrow> dec (enc f) = Inr f"
    and enc_nonempty: "enc f \<noteq> []"
begin

lemma length_prefix_dec:
  "n \<le> MAX_FRAME_SIZE \<Longrightarrow> be_dec (u32_be n) = n"
  by (simp add: MAX_FRAME_SIZE_def)

lemma read_framed:
  assumes "wf f" and "length (enc f) \<le> MAX_FRAME_SIZE"
  shows "read_payload dec (u32_be (length (enc f)) @ enc f @ rest) = Inr (f, rest)"
  using assms
  by (simp add: read_payload_def length_prefix_dec dec_enc enc_nonempty)

lemma write_framed:
  "write_payload w (enc f) =
     (if length (enc f) > MAX_FRAME_SIZE then Inl (BadLength (length (enc f)))
      else Inr (w @ u32_be (length (enc f)) @ enc f))"
  by (simp add: write_payload_def)

text \<open>What a writer put on an empty stream, a reader takes off it, message by message.\<close>

lemma read_written:
  assumes "wf f" and "write_payload [] (enc f) = Inr w"
  shows "read_payload dec (w @ rest) = Inr (f, rest)"
  using assms read_framed[of f rest] by (auto simp: write_framed split: if_splits)

end

interpretation nya: message_codec frame_encode frame_decode frame_wf
  by unfold_locales (auto intro: frame_roundtrip_aux)

fun write_frames :: "bytes \<Rightarrow> frame list \<Rightarrow> proto_error + bytes" where
  "write_frames w [] = Inr w"
| "write_frames w (f # fs) = rbind (write_frame w f) (\<lambda>w'. write_frames w' fs)"

fun read_frames :: "nat \<Rightarrow> bytes \<Rightarrow> proto_error + (frame list \<times> bytes)" where
  "read_frames 0 r = Inr ([], r)"
| "read_frames (Suc n) r = rbind (read_frame r) (\<lambda>(f, r1).
     rbind (read_frames n r1) (\<lambda>(fs, r2). Inr (f # fs, r2)))"

lemma write_frame_append:
  "write_frame w f = rbind (write_frame [] f) (\<lambda>x. Inr (w @ x))"
  by (simp add: write_frame_def write_payload_def)

lemma write_frames_append:
  "write_frames w fs = rbind (write_frames [] fs) (\<lambda>x. Inr (w @ x))"
proof (induction fs arbitrary: w)
  case (Cons f fs)
  show ?case
  proof (cases "write_frame [] f")
    case (Inr x)
    then have "write_frames w (f # fs) = write_frames (w @ x) fs"
      by (simp add: write_frame_append[of w])
    also have "\<dots> = rbind (write_frames [] fs) (\<lambda>y. Inr ((w @ x) @ y))" by (rule Cons.IH)
    also have "\<dots> = rbind (write_frames x fs) (\<lambda>y. Inr (w @ y))"
      by (subst Cons.IH[of x]) (simp add: result_simps)
    finally show ?thesis using Inr by simp
  qed (simp add: write_frame_append[of w])
qed simp

lemma write_frames_appendE:
  assumes "write_frames w fs = Inr v"
  obtains x where "write_frames [] fs = Inr x" and "v = w @ x"
proof (cases "write_frames [] fs")
  case (Inl e)
  then show ?thesis using assms write_frames_append[of w fs] by simp
next
  case (Inr x)
  then have "v = w @ x" using assms write_frames_append[of w fs] by simp
  with Inr show ?thesis by (rule that)
qed

lemma read_frames_written_aux:
  assumes "\<forall>f\<in>set fs. frame_wf f" and "write_frames [] fs = Inr w"
  shows "read_frames (length fs) (w @ rest) = Inr (fs, rest)"
  using assms
proof (induction fs arbitrary: w)
  case (Cons f fs)
  from Cons.prems(2) obtain x where x: "write_frame [] f = Inr x"
    and xw: "write_frames x fs = Inr w"
    by (auto simp: rbind_Inr_iff)
  from xw obtain y where y: "write_frames [] fs = Inr y" and w: "w = x @ y"
    by (rule write_frames_appendE)
  have "read_frame (x @ y @ rest) = Inr (f, y @ rest)"
    using Cons.prems(1) x nya.read_written[of f x "y @ rest"]
    by (simp add: read_frame_def write_frame_def)
  moreover have "read_frames (length fs) (y @ rest) = Inr (fs, rest)"
    using Cons.IH[OF _ y] Cons.prems(1) by simp
  ultimately show ?case using w by simp
qed simp

section \<open>Targets\<close>

definition digit_byte :: "nat \<Rightarrow> byte" where
  "digit_byte d = word_of_nat (48 + d)"

fun dec_digits :: "nat \<Rightarrow> bytes" where
  "dec_digits n = (if n < 10 then [digit_byte n]
     else dec_digits (n div 10) @ [digit_byte (n mod 10)])"

declare dec_digits.simps [simp del]

definition digit_val :: "byte \<Rightarrow> nat option" where
  "digit_val b = (if 48 \<le> b \<and> b \<le> 57 then Some (unat b - 48) else None)"

fun digits_val :: "nat \<Rightarrow> bytes \<Rightarrow> nat option" where
  "digits_val acc [] = Some acc"
| "digits_val acc (b # bs) =
     (case digit_val b of None \<Rightarrow> None
      | Some d \<Rightarrow> if acc * 10 + d \<le> 65535 then digits_val (acc * 10 + d) bs else None)"

text \<open>\<open>str::parse::<u16>\<close>: an optional plus sign, at least one digit, no overflow.\<close>

definition parse_u16 :: "bytes \<Rightarrow> nat option" where
  "parse_u16 s = (case s of [] \<Rightarrow> None
     | b # bs \<Rightarrow> if b = 43 \<and> bs \<noteq> [] then digits_val 0 bs else digits_val 0 s)"

text \<open>\<open>rsplit_once(c)\<close> and \<open>rsplit_once\<close> with a two-byte pattern: the last occurrence.\<close>

fun rsplit_byte :: "byte \<Rightarrow> bytes \<Rightarrow> (bytes \<times> bytes) option" where
  "rsplit_byte c [] = None"
| "rsplit_byte c (x # xs) = (case rsplit_byte c xs of
     Some (l, r) \<Rightarrow> Some (x # l, r)
   | None \<Rightarrow> if x = c then Some ([], xs) else None)"

fun rsplit_two :: "byte \<Rightarrow> byte \<Rightarrow> bytes \<Rightarrow> (bytes \<times> bytes) option" where
  "rsplit_two c d [] = None"
| "rsplit_two c d (x # xs) = (case rsplit_two c d xs of
     Some (l, r) \<Rightarrow> Some (x # l, r)
   | None \<Rightarrow> (case xs of y # ys \<Rightarrow> if x = c \<and> y = d then Some ([], ys) else None
              | [] \<Rightarrow> None))"

definition target_display :: "target \<Rightarrow> bytes" where
  "target_display t =
     (if 58 \<in> set (host t) then 91 # host t @ [93, 58] @ dec_digits (port t)
      else host t @ [58] @ dec_digits (port t))"

definition mk_target :: "(bytes \<times> bytes) option \<Rightarrow> proto_error + target" where
  "mk_target sp = (case sp of None \<Rightarrow> Inl (Invalid ''target'')
     | Some (h, p) \<Rightarrow> (case parse_u16 p of None \<Rightarrow> Inl (Invalid ''port'')
         | Some n \<Rightarrow> Inr \<lparr>host = h, port = n\<rparr>))"

definition target_parse :: "bytes \<Rightarrow> proto_error + target" where
  "target_parse s = (case s of
     x # rest \<Rightarrow> if x = 91 then mk_target (rsplit_two 93 58 rest)
                 else mk_target (rsplit_byte 58 s)
   | [] \<Rightarrow> mk_target (rsplit_byte 58 s))"

lemma unat_digit_byte: "d < 10 \<Longrightarrow> unat (digit_byte d) = 48 + d"
  unfolding digit_byte_def by (subst unat_of_nat) simp

lemma digit_val_byte: "d < 10 \<Longrightarrow> digit_val (digit_byte d) = Some d"
  by (simp add: digit_val_def word_le_nat_alt unat_digit_byte)

lemma mk_target_InrE:
  assumes "mk_target sp = Inr u"
  obtains l q where "sp = Some (l, q)" and "host u = l"
  using assms by (cases sp) (auto simp: mk_target_def split: option.splits prod.splits)

lemma digits_val_app:
  "digits_val acc (xs @ ys) = Option.bind (digits_val acc xs) (\<lambda>a. digits_val a ys)"
  by (induction xs arbitrary: acc) (auto split: option.splits)

lemma digits_val_dec: "n \<le> 65535 \<Longrightarrow> digits_val 0 (dec_digits n) = Some n"
proof (induction n rule: dec_digits.induct)
  case (1 n)
  show ?case
  proof (cases "n < 10")
    case True
    then show ?thesis by (simp add: dec_digits.simps[of n] digit_val_byte)
  next
    case False
    then have "digits_val 0 (dec_digits (n div 10)) = Some (n div 10)"
      using 1 by simp
    with False 1(2) show ?thesis
      by (simp add: dec_digits.simps[of n] digits_val_app digit_val_byte div_mult_mod_eq)
  qed
qed

lemma dec_digits_set: "b \<in> set (dec_digits n) \<Longrightarrow> 48 \<le> b \<and> b \<le> 57"
proof (induction n rule: dec_digits.induct)
  case (1 n)
  have d: "48 \<le> digit_byte d \<and> digit_byte d \<le> 57" if "d < 10" for d
    using that by (simp add: word_le_nat_alt unat_digit_byte)
  show ?case
  proof (cases "n < 10")
    case True
    then show ?thesis using 1(2) d[of n] by (simp add: dec_digits.simps[of n])
  next
    case False
    then show ?thesis using 1 d[of "n mod 10"] by (auto simp: dec_digits.simps[of n])
  qed
qed

lemma dec_digits_nonempty [simp]: "dec_digits n \<noteq> []"
  by (subst dec_digits.simps) simp

lemma parse_u16_dec: "n \<le> 65535 \<Longrightarrow> parse_u16 (dec_digits n) = Some n"
proof -
  assume n: "n \<le> 65535"
  obtain b bs where bs: "dec_digits n = b # bs" by (cases "dec_digits n") auto
  have "48 \<le> b" using dec_digits_set[of b n] bs by simp
  then have "b \<noteq> 43" by (auto simp: word_le_nat_alt)
  then show ?thesis using bs digits_val_dec[OF n] by (simp add: parse_u16_def)
qed

lemma rsplit_byte_None: "c \<notin> set r \<Longrightarrow> rsplit_byte c r = None"
  by (induction r) auto

lemma rsplit_byte_last: "c \<notin> set r \<Longrightarrow> rsplit_byte c (l @ c # r) = Some (l, r)"
  by (induction l) (auto simp: rsplit_byte_None)

lemma rsplit_two_None: "d \<notin> set r \<Longrightarrow> rsplit_two c d r = None"
  by (induction r) (auto split: list.splits)

lemma rsplit_two_last:
  assumes "d \<notin> set r" and "c \<noteq> d"
  shows "rsplit_two c d (l @ c # d # r) = Some (l, r)"
  using assms by (induction l) (auto simp: rsplit_two_None split: list.splits)

lemma rsplit_two_split: "rsplit_two c d s = Some (l, r) \<Longrightarrow> s = l @ c # d # r"
proof (induction s arbitrary: l)
  case (Cons x s)
  show ?case
  proof (cases "rsplit_two c d s")
    case None
    then have "(case s of y # ys \<Rightarrow> if x = c \<and> y = d then Some ([], ys) else None
        | [] \<Rightarrow> None) = Some (l, r)"
      using Cons.prems by simp
    then show ?thesis by (cases s) (auto split: if_splits)
  next
    case (Some lr)
    then obtain l' where "rsplit_two c d s = Some (l', r)" and "l = x # l'"
      using Cons.prems by (cases lr) auto
    then show ?thesis using Cons.IH by simp
  qed
qed simp

lemma dec_no_colon: "58 \<notin> set (dec_digits n)"
  using dec_digits_set[of 58 n] by (auto simp: word_le_nat_alt)

lemma target_display_parse_aux:
  assumes "port t < 2 ^ 16"
  shows "target_parse (target_display t) = Inr t \<longleftrightarrow>
     58 \<in> set (host t) \<or> \<not> (\<exists>r. host t = 91 # r)"
proof -
  let ?p = "dec_digits (port t)"
  have port: "parse_u16 ?p = Some (port t)"
    using assms by (simp add: parse_u16_dec)
  show ?thesis
  proof (cases "58 \<in> set (host t)")
    case True
    then show ?thesis
      using port rsplit_two_last[OF dec_no_colon, of 93 "host t" "port t"]
      by (simp add: target_display_def target_parse_def mk_target_def)
  next
    case no_colon: False
    show ?thesis
    proof (cases "\<exists>r. host t = 91 # r")
      case True
      then obtain r where r: "host t = 91 # r" by blast
      have "host u \<noteq> host t" if "target_parse (target_display t) = Inr u" for u
      proof -
        have "mk_target (rsplit_two 93 58 (r @ 58 # ?p)) = Inr u"
          using that r no_colon by (simp add: target_display_def target_parse_def)
        then obtain l q where lq: "rsplit_two 93 58 (r @ 58 # ?p) = Some (l, q)"
          and u: "host u = l"
          by (rule mk_target_InrE)
        have "r @ 58 # ?p = l @ 93 # 58 # q" using lq by (rule rsplit_two_split)
        then have "take (Suc (length r)) (r @ 58 # ?p) = take (Suc (length r)) (l @ 93 # 58 # q)"
          by (rule arg_cong)
        then have "r @ [58] = l" if "length l = Suc (length r)" using that by simp
        then show ?thesis using u r no_colon by (metis in_set_conv_decomp length_Cons)
      qed
      then show ?thesis using True no_colon by auto
    next
      case False
      then show ?thesis
        using no_colon port rsplit_byte_last[OF dec_no_colon, of "host t" "port t"]
        by (cases "host t") (auto simp: target_display_def target_parse_def mk_target_def)
    qed
  qed
qed

section \<open>Properties\<close>

text \<open>
  C23: The framed stream round-trips. Whatever well-formed frames one end writes, the other end
  reads back, in order, and it leaves the bytes that follow untouched.
\<close>

theorem framed_stream_roundtrip:
  assumes "\<forall>f\<in>set fs. frame_wf f" and "write_frames [] fs = Inr w"
  shows "read_frames (length fs) (w @ rest) = Inr (fs, rest)"
  using assms by (rule read_frames_written_aux)

theorem framed_stream_roundtrip_witness:
  "\<exists>w. write_frames [] [SessionClose, StreamReset \<lparr>sr_stream_id = 7, sr_reason = Timeout\<rparr>] = Inr w
     \<and> read_frames 2 (w @ [42])
         = Inr ([SessionClose, StreamReset \<lparr>sr_stream_id = 7, sr_reason = Timeout\<rparr>], [42])"
proof -
  let ?fs = "[SessionClose, StreamReset \<lparr>sr_stream_id = 7, sr_reason = Timeout\<rparr>]"
  obtain w where w: "write_frames [] ?fs = Inr w"
    by (simp add: write_frame_def write_payload_def MAX_FRAME_SIZE_def result_simps)
  have wf: "\<forall>f\<in>set ?fs. frame_wf f" and len: "length ?fs = 2" by simp_all
  have "read_frames 2 (w @ [42]) = Inr (?fs, [42])"
    using framed_stream_roundtrip[OF wf w, of "[42]"] unfolding len .
  with w show ?thesis by blast
qed



text \<open>
  C40: A target's text form parses back to the target exactly when its host has a colon or does
  not start with an opening bracket.
\<close>

theorem target_roundtrip:
  assumes "port t < 2 ^ 16"
  shows "target_parse (target_display t) = Inr t \<longleftrightarrow>
     58 \<in> set (host t) \<or> \<not> (\<exists>r. host t = 91 # r)"
  using assms by (rule target_display_parse_aux)

theorem target_roundtrip_witness:
  "target_parse (target_display \<lparr>host = [97, 46, 98], port = 443\<rparr>) = Inr \<lparr>host = [97, 46, 98], port = 443\<rparr>
   \<and> target_parse (target_display \<lparr>host = [91, 97], port = 1\<rparr>) \<noteq> Inr \<lparr>host = [91, 97], port = 1\<rparr>"
  using target_roundtrip[of "\<lparr>host = [97, 46, 98], port = 443\<rparr>"]
    target_roundtrip[of "\<lparr>host = [91, 97], port = 1\<rparr>"] by simp

end
