(* ===== verification/Float64.thy ===== *)
theory Float64
  imports Prelude "HOL-Library.Log_Nat"
begin

text \<open>
  The non-negative finite part of IEEE binary64, which is all the program uses of
  \<open>f64\<close>: health multipliers, budget gains, rates. A value is \<open>num / 2 ^ sh\<close>; every
  operation rounds to nearest, ties to even, at 53 significant bits. Infinities, NaN and
  subnormals cannot arise: the operands come from \<open>u64\<close> values and a few constants, and
  each division of the source is guarded against a zero divisor.
\<close>

section \<open>Rounding\<close>

text \<open>Round \<open>m / 2 ^ s\<close> to an integer, ties to even.\<close>

definition rne :: "nat \<Rightarrow> nat \<Rightarrow> nat" where
  "rne m s = (let q = m div 2 ^ s; r = m mod 2 ^ s in
     if 2 * r < 2 ^ s then q
     else if 2 * r > 2 ^ s then q + 1
     else if even q then q else q + 1)"

lemma rne_bounds: "m div 2 ^ s \<le> rne m s" "rne m s \<le> m div 2 ^ s + 1"
  by (auto simp: rne_def Let_def)

lemma rne_0 [simp]: "rne m 0 = m"
  by (simp add: rne_def)

lemma rne_exact: "rne (q * 2 ^ s) s = q"
  by (simp add: rne_def)

lemma rne_mono:
  assumes "m \<le> n"
  shows "rne m s \<le> rne n s"
proof -
  have le: "m div 2 ^ s \<le> n div 2 ^ s" using assms by (rule div_le_mono)
  show ?thesis
  proof (cases "m div 2 ^ s = n div 2 ^ s")
    case True
    have m: "m = m div 2 ^ s * 2 ^ s + m mod 2 ^ s" by (rule div_mult_mod_eq [symmetric])
    have n: "n = n div 2 ^ s * 2 ^ s + n mod 2 ^ s" by (rule div_mult_mod_eq [symmetric])
    have "m mod 2 ^ s \<le> n mod 2 ^ s"
      using assms m n True by (metis add_le_cancel_left)
    with True show ?thesis by (auto simp: rne_def Let_def)
  next
    case False
    with le have "m div 2 ^ s + 1 \<le> n div 2 ^ s" by simp
    then show ?thesis using rne_bounds(2)[of m s] rne_bounds(1)[of n s] by linarith
  qed
qed

definition rnd53 :: "nat \<Rightarrow> nat" where
  "rnd53 m = (let b = floorlog 2 m in
     if b \<le> 53 then m else rne m (b - 53) * 2 ^ (b - 53))"

lemma floorlog2_less: "m < 2 ^ floorlog 2 m"
  using floorlog_bounds[of m 2] by (cases "m = 0") (auto simp: floorlog_def)

lemma floorlog2_le: "0 < m \<Longrightarrow> 2 ^ (floorlog 2 m - 1) \<le> m"
  using floorlog_bounds[of m 2] by simp

lemma floorlog2_le_iff: "floorlog 2 m \<le> b \<longleftrightarrow> m < 2 ^ b"
  by (simp add: floorlog_le_iff)

lemma rnd53_exact: "m < 2 ^ 53 \<Longrightarrow> rnd53 m = m"
  by (simp add: rnd53_def Let_def floorlog2_le_iff)

lemma rnd53_0 [simp]: "rnd53 0 = 0"
  by (simp add: rnd53_exact)

lemma rnd53_upper: "rnd53 m \<le> 2 ^ floorlog 2 m"
proof (cases "floorlog 2 m \<le> 53")
  case True
  then show ?thesis using floorlog2_less[of m] by (simp add: rnd53_def)
next
  case False
  define b where "b = floorlog 2 m"
  have b: "53 < b" using False by (simp add: b_def)
  have mb: "m < 2 ^ b" using floorlog2_less by (simp add: b_def)
  have split: "(2::nat) ^ b = 2 ^ 53 * 2 ^ (b - 53)"
    using b by (subst power_add [symmetric]) simp
  have "m div 2 ^ (b - 53) < 2 ^ 53"
    using mb split by (simp add: less_mult_imp_div_less)
  then have "rne m (b - 53) \<le> 2 ^ 53"
    using rne_bounds(2)[of m "b - 53"] by linarith
  then have "rne m (b - 53) * 2 ^ (b - 53) \<le> 2 ^ b"
    unfolding split by (rule mult_le_mono1)
  then show ?thesis using False by (simp add: rnd53_def b_def[symmetric])
qed

lemma rnd53_lower: "0 < m \<Longrightarrow> 2 ^ (floorlog 2 m - 1) \<le> rnd53 m"
proof (cases "floorlog 2 m \<le> 53")
  case True
  assume "0 < m"
  with True show ?thesis using floorlog2_le[of m] by (simp add: rnd53_def)
next
  case False
  assume m: "0 < m"
  define b where "b = floorlog 2 m"
  have b: "53 < b" using False by (simp add: b_def)
  have split: "(2::nat) ^ (b - 1) = 2 ^ 52 * 2 ^ (b - 53)"
    using b by (subst power_add [symmetric]) (rule arg_cong [where f = "power 2"], arith)
  have "2 ^ 52 * 2 ^ (b - 53) \<le> m"
    using floorlog2_le[OF m] split by (simp add: b_def)
  then have "2 ^ 52 \<le> m div 2 ^ (b - 53)"
    by (simp add: less_eq_div_iff_mult_less_eq)
  then have "2 ^ 52 \<le> rne m (b - 53)"
    using rne_bounds(1)[of m "b - 53"] by linarith
  then have "2 ^ (b - 1) \<le> rne m (b - 53) * 2 ^ (b - 53)"
    unfolding split by (rule mult_le_mono1)
  then show ?thesis using False by (simp add: rnd53_def b_def[symmetric])
qed

lemma rnd53_mono:
  assumes "m \<le> n"
  shows "rnd53 m \<le> rnd53 n"
proof (cases "m = 0")
  case False
  then have pos: "0 < m" "0 < n" using assms by auto
  have fl: "floorlog 2 m \<le> floorlog 2 n" using assms by (simp add: floorlog_mono)
  show ?thesis
  proof (cases "floorlog 2 m = floorlog 2 n")
    case True
    then show ?thesis using assms by (simp add: rnd53_def Let_def rne_mono)
  next
    case False
    with fl have "(2::nat) ^ floorlog 2 m \<le> 2 ^ (floorlog 2 n - 1)"
      by (intro power_increasing) auto
    then show ?thesis
      using rnd53_upper[of m] rnd53_lower[OF pos(2)] by linarith
  qed
qed simp

section \<open>Values and operations\<close>

datatype f64 = F64 (num: nat) (sh: nat)

fun f64_round :: "f64 \<Rightarrow> f64" where
  "f64_round (F64 m k) = F64 (rnd53 m) k"

text \<open>\<open>n as f64\<close>.\<close>

definition f64_of_nat :: "nat \<Rightarrow> f64" where
  "f64_of_nat n = f64_round (F64 n 0)"

fun f64_mul :: "f64 \<Rightarrow> f64 \<Rightarrow> f64" where
  "f64_mul (F64 a i) (F64 b j) = f64_round (F64 (a * b) (i + j))"

fun f64_add :: "f64 \<Rightarrow> f64 \<Rightarrow> f64" where
  "f64_add (F64 a i) (F64 b j) =
     f64_round (F64 (a * 2 ^ (max i j - i) + b * 2 ^ (max i j - j)) (max i j))"

text \<open>Subtraction with a non-negative result (the only use is \<open>1.0 - x\<close> with \<open>x \<le> 1.0\<close>).\<close>

fun f64_sub :: "f64 \<Rightarrow> f64 \<Rightarrow> f64" where
  "f64_sub (F64 a i) (F64 b j) =
     f64_round (F64 (a * 2 ^ (max i j - i) - b * 2 ^ (max i j - j)) (max i j))"

text \<open>
  Division by a non-zero value. The quotient is computed with more than 60 significant
  bits and a sticky bit for the rest, so that one rounding gives the correctly rounded
  result.
\<close>

fun f64_div :: "f64 \<Rightarrow> f64 \<Rightarrow> f64" where
  "f64_div (F64 a i) (F64 b j) =
     (let t = floorlog 2 b + 62 + j;
          q = a * 2 ^ t div b;
          m = 2 * q + (if a * 2 ^ t mod b = 0 then 0 else 1)
      in f64_round (F64 m (i + t + 1 - j)))"

fun f64_le :: "f64 \<Rightarrow> f64 \<Rightarrow> bool" where
  "f64_le (F64 a i) (F64 b j) \<longleftrightarrow> a * 2 ^ j \<le> b * 2 ^ i"

definition f64_less :: "f64 \<Rightarrow> f64 \<Rightarrow> bool" where
  "f64_less x y \<longleftrightarrow> \<not> f64_le y x"

definition f64_min :: "f64 \<Rightarrow> f64 \<Rightarrow> f64" where
  "f64_min x y = (if f64_le x y then x else y)"

text \<open>\<open>x as u64\<close>: truncation, saturating.\<close>

fun f64_to_u64 :: "f64 \<Rightarrow> nat" where
  "f64_to_u64 (F64 a i) = min (a div 2 ^ i) u64_max"

text \<open>
  \<open>Duration::as_secs_f64\<close> adds whole seconds and \<open>nanos / 1e9\<close>;
  \<open>Duration::from_secs_f64\<close> rounds the exact value to the nearest nanosecond, ties to
  even; \<open>Duration::mul_f64\<close> composes the two.
\<close>

definition as_secs_f64 :: "duration \<Rightarrow> f64" where
  "as_secs_f64 d =
     f64_add (f64_of_nat (d div 1000000000))
             (f64_div (f64_of_nat (d mod 1000000000)) (F64 1000000000 0))"

fun from_secs_f64 :: "f64 \<Rightarrow> duration" where
  "from_secs_f64 (F64 a i) = rne (a * 1000000000) i"

definition mul_f64 :: "duration \<Rightarrow> f64 \<Rightarrow> duration" where
  "mul_f64 d x = from_secs_f64 (f64_mul x (as_secs_f64 d))"

lemma f64_of_nat_exact: "n < 2 ^ 53 \<Longrightarrow> f64_of_nat n = F64 n 0"
  by (simp add: f64_of_nat_def rnd53_exact)

lemma f64_le_refl: "f64_le x x"
  by (cases x) simp

lemma f64_to_u64_le: "f64_to_u64 x \<le> u64_max"
  by (cases x) simp

text \<open>The equations that evaluate a closed expression by \<open>simp\<close>.\<close>

lemmas f64_eval = f64_of_nat_def rnd53_def rne_def compute_floorlog Let_def u64_max_def
  f64_min_def f64_less_def as_secs_f64_def mul_f64_def

text \<open>Truncating the product of a count and a fixed factor is monotone in the count.\<close>

lemma f64_mul_nat_mono:
  assumes "m \<le> n"
  shows "f64_to_u64 (f64_mul (f64_of_nat m) c) \<le> f64_to_u64 (f64_mul (f64_of_nat n) c)"
proof (cases c)
  case (F64 a i)
  have "rnd53 (rnd53 m * a) \<le> rnd53 (rnd53 n * a)"
    using assms by (intro rnd53_mono mult_le_mono1)
  then have "rnd53 (rnd53 m * a) div 2 ^ i \<le> rnd53 (rnd53 n * a) div 2 ^ i"
    by (rule div_le_mono)
  then show ?thesis using F64 by (simp add: f64_of_nat_def min.coboundedI1)
qed

text \<open>An integral factor is exact while the product fits in 53 bits.\<close>

lemma f64_mul_nat_exact:
  assumes "n * k < 2 ^ 53" and "0 < k"
  shows "f64_to_u64 (f64_mul (f64_of_nat n) (F64 k 0)) = n * k"
proof -
  have "n \<le> n * k" using assms(2) by simp
  then have "n < 2 ^ 53" using assms(1) by (rule le_less_trans)
  moreover have "n * k \<le> u64_max"
    using assms(1) by (simp add: u64_max_def)
  ultimately show ?thesis using assms(1) by (simp add: f64_of_nat_exact rnd53_exact)
qed

end
