(* ===== verification/Tuning.thy ===== *)
theory Tuning
  imports Float64
begin

text \<open>
  \<open>nya-core/src/tuning.rs\<close>, \<open>cfg.rs\<close> (the session options) and \<open>health.rs\<close>: the
  table of algorithm constants and the RTT-adaptive clocks derived from it. Multipliers are
  \<open>f64\<close>; a duration is a number of nanoseconds, and \<open>scale\<close> goes through whole
  microseconds as the source does.
\<close>

section \<open>The table\<close>

record tuning =
  maintain_interval :: duration
  loss_timeout_mult :: f64
  loss_timeout_floor :: duration
  loss_timeout_add :: duration
  loss_timeout_ceil :: duration
  down_timeout_mult :: f64
  down_timeout_add :: duration
  down_timeout_ceil :: duration
  down_min_silence :: duration
  unknown_degrade_min :: duration
  backup_rtt_mult :: f64
  backup_rtt_add :: duration
  failback_class_mult :: f64
  failback_class_add :: duration
  failback_abs :: duration
  failback_abs_frac :: f64
  tn_failback_stable :: duration
  tn_failback_cooldown :: duration
  stable_up_hold :: duration
  unknown_rtt_us :: nat
  unknown_rtt_score_mult :: nat
  stable_raise_mult :: nat
  stable_raise_add_us :: nat
  class_drop_abs_us :: nat
  class_drop_frac :: f64
  pending_ping_max :: nat
  chan :: nat
  interactive_max :: nat
  ack_rtt_min :: duration
  ack_rtt_max :: duration
  inflight_bias :: nat
  min_rebalance_slack :: nat
  initial_window :: nat
  close_linger :: duration
  handshake_timeout :: duration
  reconnect_backoff_min :: duration
  reconnect_backoff_max :: duration
  join_poll :: duration
  ready_poll :: duration
  origin_connect_attempt_delay :: duration

definition STANDARD :: tuning where
  "STANDARD = \<lparr>
    maintain_interval = from_millis 5,
    loss_timeout_mult = F64 2 0,
    loss_timeout_floor = from_millis 20,
    loss_timeout_add = 0,
    loss_timeout_ceil = from_millis 2000,
    down_timeout_mult = F64 5 0,
    down_timeout_add = 0,
    down_timeout_ceil = from_millis 5000,
    down_min_silence = from_millis 320,
    unknown_degrade_min = from_millis 300,
    backup_rtt_mult = F64 2 0,
    backup_rtt_add = from_millis 20,
    failback_class_mult = F64 3 1,
    failback_class_add = from_millis 8,
    failback_abs = from_millis 8,
    failback_abs_frac = F64 8106479329266893 54,
    tn_failback_stable = from_millis 250,
    tn_failback_cooldown = from_millis 200,
    stable_up_hold = from_millis 1000,
    unknown_rtt_us = 20000,
    unknown_rtt_score_mult = 2,
    stable_raise_mult = 2,
    stable_raise_add_us = 15000,
    class_drop_abs_us = 8000,
    class_drop_frac = F64 1 2,
    pending_ping_max = 32,
    chan = 64,
    interactive_max = 1500,
    ack_rtt_min = from_micros 100,
    ack_rtt_max = from_secs 2,
    inflight_bias = 64 * 1024,
    min_rebalance_slack = 16 * 1024,
    initial_window = 128 * 1024,
    close_linger = from_secs 1,
    handshake_timeout = from_secs 3,
    reconnect_backoff_min = from_millis 200,
    reconnect_backoff_max = from_secs 2,
    join_poll = from_millis 20,
    ready_poll = from_millis 50,
    origin_connect_attempt_delay = from_millis 20\<rparr>"

text \<open>\<open>tuning::clamp\<close>: the floor wins when the bounds are inverted.\<close>

definition clamp :: "duration \<Rightarrow> duration \<Rightarrow> duration \<Rightarrow> duration" where
  "clamp d lo hi = (if d < lo then lo else if d > hi then hi else d)"

definition scale :: "duration \<Rightarrow> f64 \<Rightarrow> duration \<Rightarrow> duration" where
  "scale rtt mult add =
     from_micros (f64_to_u64 (f64_mul (f64_of_nat (as_micros rtt)) mult)) + add"

definition rebalance_slack :: "tuning \<Rightarrow> nat" where
  "rebalance_slack t = max (inflight_bias t div 2) (min_rebalance_slack t)"

definition tn_loss_timeout :: "tuning \<Rightarrow> duration \<Rightarrow> duration" where
  "tn_loss_timeout t rtt =
     clamp (scale rtt (loss_timeout_mult t) (loss_timeout_add t))
       (loss_timeout_floor t) (loss_timeout_ceil t)"

definition tn_down_timeout :: "tuning \<Rightarrow> duration \<Rightarrow> duration \<Rightarrow> duration" where
  "tn_down_timeout t rtt probe =
     (let scaled = scale rtt (down_timeout_mult t) (down_timeout_add t) + probe;
          min_silence = down_min_silence t + probe
      in clamp (max scaled min_silence) min_silence (down_timeout_ceil t))"

definition class_jump :: "tuning \<Rightarrow> duration \<Rightarrow> duration \<Rightarrow> bool" where
  "class_jump t current better \<longleftrightarrow>
     current \<ge> scale better (failback_class_mult t) (failback_class_add t)"

definition tn_failback_delta :: "tuning \<Rightarrow> duration \<Rightarrow> duration" where
  "tn_failback_delta t better_rtt =
     max (failback_abs t) (scale better_rtt (failback_abs_frac t) 0)"

definition tn_should_failback :: "tuning \<Rightarrow> duration \<Rightarrow> duration \<Rightarrow> bool" where
  "tn_should_failback t current better =
     (if better \<ge> current then False
      else class_jump t current better \<or> current - better \<ge> tn_failback_delta t better)"

definition rtt_hold :: "duration \<Rightarrow> duration \<Rightarrow> duration" where
  "rtt_hold least rtt = max least (rtt * 2)"

definition failback_stable_for :: "tuning \<Rightarrow> duration \<Rightarrow> duration" where
  "failback_stable_for t rtt = rtt_hold (tn_failback_stable t) rtt"

definition failback_cooldown_for :: "tuning \<Rightarrow> duration \<Rightarrow> duration" where
  "failback_cooldown_for t rtt = rtt_hold (tn_failback_cooldown t) rtt"

definition class_should_drop :: "tuning \<Rightarrow> nat \<Rightarrow> nat \<Rightarrow> bool" where
  "class_should_drop t class_us fast_us =
     (let need = max (class_drop_abs_us t)
                   (f64_to_u64 (f64_mul (f64_of_nat class_us) (class_drop_frac t)))
      in class_us - fast_us \<ge> need)"

section \<open>Session options\<close>

record session_config =
  ping_interval_min :: duration
  ping_interval_max :: duration
  all_down_timeout :: duration
  max_paths :: nat
  cfg_tuning :: tuning

definition default_config :: session_config where
  "default_config = \<lparr>ping_interval_min = from_millis 10, ping_interval_max = from_millis 50,
     all_down_timeout = from_secs 8, max_paths = 32, cfg_tuning = STANDARD\<rparr>"

record session_opts =
  ping_interval_min_ms :: "nat option"
  ping_interval_max_ms :: "nat option"
  all_down_timeout_ms :: "nat option"
  opt_max_paths :: "nat option"

definition opts_apply :: "session_opts \<Rightarrow> session_config \<Rightarrow> session_config" where
  "opts_apply o' c =
    (let c1 = (case ping_interval_min_ms o' of None \<Rightarrow> c
                 | Some v \<Rightarrow> c\<lparr>ping_interval_min := from_millis v\<rparr>);
         c2 = (case ping_interval_max_ms o' of None \<Rightarrow> c1
                 | Some v \<Rightarrow> c1\<lparr>ping_interval_max := from_millis v\<rparr>);
         c3 = (case all_down_timeout_ms o' of None \<Rightarrow> c2
                 | Some v \<Rightarrow> c2\<lparr>all_down_timeout := from_millis v\<rparr>)
     in (case opt_max_paths o' of None \<Rightarrow> c3 | Some v \<Rightarrow> c3\<lparr>max_paths := max v 1\<rparr>))"

text \<open>No option can cap a session at zero paths.\<close>

lemma opts_apply_max_paths: "0 < max_paths c \<Longrightarrow> 0 < max_paths (opts_apply o' c)"
  by (auto simp: opts_apply_def Let_def split: option.splits)

lemma opts_apply_tuning: "cfg_tuning (opts_apply o' c) = cfg_tuning c"
  by (auto simp: opts_apply_def Let_def split: option.splits)

section \<open>Health clocks (\<open>health.rs\<close>)\<close>

definition loss_timeout :: "session_config \<Rightarrow> duration \<Rightarrow> duration" where
  "loss_timeout cfg stable_rtt = tn_loss_timeout (cfg_tuning cfg) stable_rtt"

definition down_timeout :: "session_config \<Rightarrow> duration \<Rightarrow> duration \<Rightarrow> duration" where
  "down_timeout cfg stable_rtt probe = tn_down_timeout (cfg_tuning cfg) stable_rtt probe"

definition probe_rtt :: "duration \<Rightarrow> duration \<Rightarrow> duration" where
  "probe_rtt fast stbl = min fast stbl"

definition probe_interval :: "session_config \<Rightarrow> duration \<Rightarrow> duration" where
  "probe_interval cfg rtt = clamp rtt (ping_interval_min cfg) (ping_interval_max cfg)"

definition is_backup :: "session_config \<Rightarrow> duration \<Rightarrow> duration \<Rightarrow> bool" where
  "is_backup cfg rtt min_rtt \<longleftrightarrow>
     rtt > scale min_rtt (backup_rtt_mult (cfg_tuning cfg)) (backup_rtt_add (cfg_tuning cfg))"

definition failback_delta :: "session_config \<Rightarrow> duration \<Rightarrow> duration" where
  "failback_delta cfg better_rtt = tn_failback_delta (cfg_tuning cfg) better_rtt"

definition failback_cooldown :: "session_config \<Rightarrow> duration \<Rightarrow> duration" where
  "failback_cooldown cfg rtt = failback_cooldown_for (cfg_tuning cfg) rtt"

definition failback_stable :: "session_config \<Rightarrow> duration \<Rightarrow> duration" where
  "failback_stable cfg rtt = failback_stable_for (cfg_tuning cfg) rtt"

definition should_failback :: "session_config \<Rightarrow> duration \<Rightarrow> duration \<Rightarrow> bool" where
  "should_failback cfg current_rtt better_rtt =
     (if better_rtt \<ge> current_rtt then False
      else class_jump (cfg_tuning cfg) current_rtt better_rtt
        \<or> current_rtt - better_rtt \<ge> failback_delta cfg better_rtt)"

definition assumed_rtt :: "session_config \<Rightarrow> bool \<Rightarrow> duration \<Rightarrow> duration \<Rightarrow> duration" where
  "assumed_rtt cfg rtt_known current stbl =
     (if rtt_known then max current stbl
      else max (max current stbl) (ping_interval_max cfg * 2))"

definition should_mark_degraded :: "duration \<Rightarrow> duration \<Rightarrow> nat \<Rightarrow> nat \<Rightarrow> bool" where
  "should_mark_degraded ago degrade_for probe_miss pending_after_expire =
     (if ago < degrade_for then False
      else probe_miss > 0 \<or> pending_after_expire = 0)"

definition degrade_timeout :: "session_config \<Rightarrow> bool \<Rightarrow> duration \<Rightarrow> duration" where
  "degrade_timeout cfg rtt_known stbl =
     (let rtt = (if rtt_known then stbl else max stbl (ping_interval_max cfg * 2));
          loss = loss_timeout cfg rtt;
          probe = probe_interval cfg rtt;
          cycle = probe + rtt;
          t = max (max loss cycle) (ping_interval_max cfg)
      in if rtt_known then t else max t (unknown_degrade_min (cfg_tuning cfg)))"


section \<open>Facts about the clocks\<close>

lemma clamp_bounds:
  assumes "lo \<le> hi"
  shows "lo \<le> clamp d lo hi" and "clamp d lo hi \<le> hi"
  using assms by (auto simp: clamp_def)

lemma clamp_mono: "lo \<le> hi \<Longrightarrow> d \<le> e \<Longrightarrow> clamp d lo hi \<le> clamp e lo hi"
  by (auto simp: clamp_def)

lemma scale_mono: "r \<le> r' \<Longrightarrow> scale r m a \<le> scale r' m a"
  by (simp add: scale_def from_micros_mono f64_mul_nat_mono as_micros_mono)

lemma scale_add: "scale r m a = scale r m 0 + a"
  by (simp add: scale_def)

text \<open>An integral multiplier is exact up to the truncation to whole microseconds.\<close>

lemma scale_integral:
  "as_micros r * k < 2 ^ 53 \<Longrightarrow> 0 < k \<Longrightarrow> scale r (F64 k 0) a = from_micros (as_micros r * k) + a"
  unfolding scale_def by (simp only: f64_mul_nat_exact)

text \<open>
  What the callers of a clock rely on: it stays between its floor and its ceiling and
  never shrinks when the RTT grows. A pool of RTTs then has one shortest clock, the clock
  of the shortest RTT (how \<open>retry_after\<close> takes the minimum first).
\<close>

locale rtt_clock =
  fixes clk :: "duration \<Rightarrow> duration" and lo hi :: duration
  assumes clk_lo: "lo \<le> clk r" and clk_hi: "clk r \<le> hi"
    and clk_mono: "r \<le> r' \<Longrightarrow> clk r \<le> clk r'"
begin

lemma clk_min: "clk (min r r') = min (clk r) (clk r')"
proof (cases "r \<le> r'")
  case True
  then show ?thesis using clk_mono[OF True] by (simp add: min_absorb1)
next
  case False
  then show ?thesis using clk_mono[of r' r] by (simp add: min_absorb2)
qed

lemma clk_Min: "finite A \<Longrightarrow> A \<noteq> {} \<Longrightarrow> clk (Min A) = Min (clk ` A)"
  by (rule mono_Min_commute) (auto intro: monoI clk_mono)

lemma clk_list_min: "map_option clk (list_min rs) = list_min (map clk rs)"
  by (cases "rs = []") (simp_all add: list_min_Min clk_Min)

end

interpretation loss_clock: rtt_clock "tn_loss_timeout STANDARD" "from_millis 20" "from_millis 2000"
proof unfold_locales
  fix r r' :: duration
  have lo_hi: "from_millis 20 \<le> from_millis 2000" by (simp add: from_millis_def)
  show "from_millis 20 \<le> tn_loss_timeout STANDARD r" "tn_loss_timeout STANDARD r \<le> from_millis 2000"
    by (simp_all add: tn_loss_timeout_def STANDARD_def clamp_bounds[OF lo_hi])
  show "r \<le> r' \<Longrightarrow> tn_loss_timeout STANDARD r \<le> tn_loss_timeout STANDARD r'"
    by (simp add: tn_loss_timeout_def STANDARD_def clamp_mono[OF lo_hi] scale_mono)
qed

lemma tn_down_timeout_min:
  "tn_down_timeout t rtt probe =
     min (max (scale rtt (down_timeout_mult t) (down_timeout_add t)) (down_min_silence t) + probe)
         (down_timeout_ceil t)"
  by (auto simp: tn_down_timeout_def clamp_def Let_def max_def min_def)

lemma down_timeout_le_ceil: "down_timeout cfg rtt probe \<le> down_timeout_ceil (cfg_tuning cfg)"
  by (simp add: down_timeout_def tn_down_timeout_min)

lemma loss_le_degrade_timeout: "loss_timeout cfg rtt \<le> degrade_timeout cfg True rtt"
  by (simp add: degrade_timeout_def Let_def)

lemma ping_max_le_degrade_timeout: "ping_interval_max cfg \<le> degrade_timeout cfg k rtt"
  by (auto simp: degrade_timeout_def Let_def max_def)

lemma should_failback_eq: "should_failback cfg c b = tn_should_failback (cfg_tuning cfg) c b"
  by (simp add: should_failback_def tn_should_failback_def failback_delta_def)

lemma class_jump_mono:
  "class_jump t c b \<Longrightarrow> c \<le> c' \<Longrightarrow> b' \<le> b \<Longrightarrow> class_jump t c' b'"
  unfolding class_jump_def using scale_mono[of b' b] by (meson order_trans)

lemma failback_delta_mono: "b' \<le> b \<Longrightarrow> tn_failback_delta t b' \<le> tn_failback_delta t b"
  using scale_mono[of b' b "failback_abs_frac t" 0] by (auto simp: tn_failback_delta_def)

lemma tn_should_failback_mono:
  assumes "tn_should_failback t c b" and "c \<le> c'" and "b' \<le> b"
  shows "tn_should_failback t c' b'"
proof -
  have "b < c" and alt: "class_jump t c b \<or> c - b \<ge> tn_failback_delta t b"
    using assms(1) by (auto simp: tn_should_failback_def split: if_splits)
  then have "b' < c'" using assms by simp
  moreover from alt have "class_jump t c' b' \<or> c' - b' \<ge> tn_failback_delta t b'"
  proof
    assume "class_jump t c b"
    then show ?thesis using assms(2,3) class_jump_mono by blast
  next
    assume "c - b \<ge> tn_failback_delta t b"
    then have "c' - b' \<ge> tn_failback_delta t b'"
      using failback_delta_mono[OF assms(3), of t] assms(2,3) by linarith
    then show ?thesis ..
  qed
  ultimately show ?thesis by (simp add: tn_should_failback_def)
qed

lemma should_failback_mono:
  "should_failback cfg c b \<Longrightarrow> c \<le> c' \<Longrightarrow> b' \<le> b \<Longrightarrow> should_failback cfg c' b'"
  unfolding should_failback_eq by (rule tn_should_failback_mono)

lemma should_failback_less: "should_failback cfg c b \<Longrightarrow> b < c"
  by (auto simp: should_failback_def split: if_splits)

lemma should_failback_irrefl [simp]: "\<not> should_failback cfg r r"
  by (simp add: should_failback_def)

lemma is_backup_mono: "is_backup cfg r m \<Longrightarrow> r \<le> r' \<Longrightarrow> m' \<le> m \<Longrightarrow> is_backup cfg r' m'"
  unfolding is_backup_def using scale_mono[of m' m] by (meson le_less_trans less_le_trans)

lemma class_should_drop_standard:
  assumes "class_us < 2 ^ 53"
  shows "class_should_drop STANDARD class_us fast_us \<longleftrightarrow>
    max 8000 (class_us div 4) \<le> class_us - fast_us"
proof -
  have "class_us div 4 \<le> u64_max" using assms by (simp add: u64_max_def)
  then show ?thesis using assms
    by (simp add: class_should_drop_def STANDARD_def f64_of_nat_exact rnd53_exact)
qed

text \<open>The default configuration degrades a path before it declares it down.\<close>

lemma degrade_le_down_default:
  assumes "rtt \<le> from_millis 4950"
  shows "degrade_timeout default_config True rtt
           \<le> down_timeout default_config rtt (probe_interval default_config rtt)"
proof -
  define us where "us = as_micros rtt"
  define probe where "probe = probe_interval default_config rtt"
  have us: "us \<le> 4950000" using assms by (simp add: us_def clock_simps)
  have rtt: "us * 1000 \<le> rtt" "rtt < us * 1000 + 1000"
    by (simp_all add: us_def as_micros_def)
  have probe: "probe \<le> 50000000"
    by (simp add: probe_def probe_interval_def default_config_def clamp_def clock_simps)
  have s2: "scale rtt (F64 2 0) 0 = us * 2000" and s5: "scale rtt (F64 5 0) 0 = us * 5000"
    using us by (simp_all add: scale_integral us_def[symmetric] from_micros_def)
  have loss: "loss_timeout default_config rtt = clamp (us * 2000) 20000000 2000000000"
    using s2 by (simp add: loss_timeout_def tn_loss_timeout_def default_config_def STANDARD_def
        from_millis_def)
  have down: "down_timeout default_config rtt probe
      = min (max (us * 5000) 320000000 + probe) 5000000000"
    using s5 by (simp add: down_timeout_def tn_down_timeout_min default_config_def STANDARD_def
        from_millis_def)
  have "degrade_timeout default_config True rtt
      = max (max (clamp (us * 2000) 20000000 2000000000) (probe + rtt)) 50000000"
    using loss by (simp add: degrade_timeout_def Let_def probe_def)
      (simp add: default_config_def from_millis_def)
  moreover have "clamp (us * 2000) 20000000 2000000000 \<le> max (us * 5000) 320000000"
    by (auto simp: clamp_def)
  moreover have "clamp (us * 2000) 20000000 2000000000 \<le> 5000000000"
    by (auto simp: clamp_def)
  moreover have "rtt \<le> max (us * 5000) 320000000" using rtt by linarith
  moreover have "probe + rtt \<le> 5000000000"
    using assms probe by (simp add: from_millis_def)
  ultimately show ?thesis unfolding down[unfolded probe_def] probe_def[symmetric] down
    by linarith
qed

section \<open>Properties\<close>

text \<open>
  The loss clock of the standard table lies between 20 ms and 2 s, never shrinks when the
  RTT grows, and the clock of the smallest RTT of a set is the smallest clock of the set.
\<close>

lemma loss_clock_bounds:
  assumes "finite A" and "A \<noteq> {}" and "\<forall>r\<in>A. r \<le> r'"
  shows "from_millis 20 \<le> tn_loss_timeout STANDARD r' \<and> tn_loss_timeout STANDARD r' \<le> from_millis 2000
    \<and> tn_loss_timeout STANDARD (Min A) = Min (tn_loss_timeout STANDARD ` A)
    \<and> tn_loss_timeout STANDARD (Min A) \<le> tn_loss_timeout STANDARD r'"
proof -
  have "Min A \<le> r'" using assms Min_in by blast
  then show ?thesis
    using loss_clock.clk_lo loss_clock.clk_hi loss_clock.clk_mono loss_clock.clk_Min[OF assms(1,2)]
    by blast
qed

text \<open>
  With the default configuration a path whose RTT is at most 4.95 s is degraded no later
  than it is declared down: the DEGRADED state is never skipped.
\<close>

lemma degrade_before_down:
  assumes "rtt \<le> from_millis 4950"
  shows "degrade_timeout default_config True rtt
           \<le> down_timeout default_config rtt (probe_interval default_config rtt)"
  using assms by (rule degrade_le_down_default)

end
