(* ===== verification/Bw_Filter.thy ===== *)
theory Bw_Filter
  imports Prelude
begin

text \<open>
  \<open>nya-core/src/bw.rs\<close>: the three-slot windowed maximum of ACK-clock bandwidth samples
  and the windowed minimum built on it. Times are \<open>mono_us\<close> values the caller supplies.
\<close>

section \<open>The filter\<close>

record slot =
  sv :: nat
  st :: nat

record minmax3 =
  s0 :: slot
  s1 :: slot
  s2 :: slot

definition mk_slot :: "nat \<Rightarrow> nat \<Rightarrow> slot" where
  "mk_slot v t = \<lparr>sv = v, st = t\<rparr>"

definition mm_new :: minmax3 where
  "mm_new = \<lparr>s0 = mk_slot 0 0, s1 = mk_slot 0 0, s2 = mk_slot 0 0\<rparr>"

definition mm_get :: "minmax3 \<Rightarrow> nat \<Rightarrow> nat \<Rightarrow> nat" where
  "mm_get m now_us win_us =
     (if st (s0 m) = 0 \<or> now_us - st (s2 m) > win_us then 0 else sv (s0 m))"

definition mm_reset :: "minmax3 \<Rightarrow> nat \<Rightarrow> nat \<Rightarrow> minmax3" where
  "mm_reset m v t = \<lparr>s0 = mk_slot v t, s1 = mk_slot v t, s2 = mk_slot v t\<rparr>"

definition mm_expire :: "minmax3 \<Rightarrow> slot \<Rightarrow> nat \<Rightarrow> minmax3" where
  "mm_expire m new win_us =
    (let dt = st new - st (s0 m) in
     if dt > win_us then
       (let m1 = \<lparr>s0 = s1 m, s1 = s2 m, s2 = new\<rparr> in
        if st new - st (s0 m1) > win_us
        then \<lparr>s0 = s1 m1, s1 = s2 m1, s2 = new\<rparr>
        else m1)
     else if st (s1 m) = st (s0 m) \<and> dt > win_us div 4 then m\<lparr>s2 := new, s1 := new\<rparr>
     else if st (s2 m) = st (s1 m) \<and> dt > win_us div 2 then m\<lparr>s2 := new\<rparr>
     else m)"

definition mm_update :: "minmax3 \<Rightarrow> nat \<Rightarrow> nat \<Rightarrow> nat \<Rightarrow> minmax3 \<times> nat" where
  "mm_update m v t win_us =
    (let t_us = max t 1; new = mk_slot v t_us in
     if st (s0 m) = 0 \<or> v \<ge> sv (s0 m) \<or> t_us - st (s2 m) > win_us
     then (mm_reset m v t_us, v)
     else
       (let m1 = (if v \<ge> sv (s1 m) then m\<lparr>s1 := new, s2 := new\<rparr>
                  else if v \<ge> sv (s2 m) then m\<lparr>s2 := new\<rparr> else m);
            m2 = mm_expire m1 new win_us
        in (m2, sv (s0 m2))))"

text \<open>\<open>WindowedMin\<close> stores \<open>u64::MAX - v\<close>.\<close>

definition wm_get :: "minmax3 \<Rightarrow> nat \<Rightarrow> nat \<Rightarrow> nat option" where
  "wm_get m now_us win_us =
     (if st (s0 m) = 0 \<or> now_us - st (s2 m) > win_us then None
      else Some (u64_max - sv (s0 m)))"

definition wm_update :: "minmax3 \<Rightarrow> nat \<Rightarrow> nat \<Rightarrow> nat \<Rightarrow> minmax3 \<times> nat" where
  "wm_update m v t win_us =
     (let (m', r) = mm_update m (u64_max - v) t win_us in (m', u64_max - r))"

section \<open>What the slots hold\<close>

text \<open>
  A history is the list of samples inserted, oldest first. A slot is \<^emph>\<open>recorded\<close> in it when
  it is one of them and no later sample exceeds it: the maximum of everything since.
\<close>

definition recorded :: "(nat \<times> nat) list \<Rightarrow> slot \<Rightarrow> bool" where
  "recorded h s \<longleftrightarrow>
     (\<exists>xs ys. h = xs @ (sv s, st s) # ys \<and> (\<forall>(v, _)\<in>set ys. v \<le> sv s))"

lemma recorded_new: "recorded (h @ [(v, t)]) (mk_slot v t)"
  unfolding recorded_def mk_slot_def by (rule exI[of _ h], rule exI[of _ "[]"]) simp

lemma recorded_later:
  assumes "recorded h s" and "v \<le> sv s"
  shows "recorded (h @ [(v, t)]) s"
proof -
  from assms(1) obtain xs ys where "h = xs @ (sv s, st s) # ys" "\<forall>(v, _)\<in>set ys. v \<le> sv s"
    by (auto simp: recorded_def)
  then have "h @ [(v, t)] = xs @ (sv s, st s) # (ys @ [(v, t)])"
    and "\<forall>(v, _)\<in>set (ys @ [(v, t)]). v \<le> sv s"
    using assms(2) by auto
  then show ?thesis unfolding recorded_def by blast
qed

text \<open>The invariant: values descend, times ascend up to \<open>now\<close>, every slot is recorded.\<close>

definition mm_inv :: "(nat \<times> nat) list \<Rightarrow> nat \<Rightarrow> minmax3 \<Rightarrow> bool" where
  "mm_inv h now m \<longleftrightarrow>
     (if h = [] then m = mm_new
      else 0 < st (s0 m) \<and> st (s0 m) \<le> st (s1 m) \<and> st (s1 m) \<le> st (s2 m) \<and> st (s2 m) \<le> now
        \<and> sv (s1 m) \<le> sv (s0 m) \<and> sv (s2 m) \<le> sv (s1 m)
        \<and> recorded h (s0 m) \<and> recorded h (s1 m) \<and> recorded h (s2 m))"

lemma mk_slot_sel [simp]: "sv (mk_slot v t) = v" "st (mk_slot v t) = t"
  by (simp_all add: mk_slot_def)

lemma mm_inv_new: "mm_inv [] now mm_new"
  by (simp add: mm_inv_def)

lemma mm_inv_reset: "0 < t \<Longrightarrow> mm_inv (h @ [(v, t)]) t (mm_reset m v t)"
  by (simp add: mm_inv_def mm_reset_def recorded_new)

text \<open>After an update the best slot lies inside the window.\<close>

lemma mm_expire_inv:
  assumes inv: "0 < st (s0 m)" "st (s0 m) \<le> st (s1 m)" "st (s1 m) \<le> st (s2 m)" "st (s2 m) \<le> t"
    and ord: "sv (s1 m) \<le> sv (s0 m)" "sv (s2 m) \<le> sv (s1 m)" "v \<le> sv (s2 m)"
    and rec: "recorded h (s0 m)" "recorded h (s1 m)" "recorded h (s2 m)" "recorded h (mk_slot v t)"
    and h: "h \<noteq> []" and fresh: "t - st (s2 m) \<le> win"
  shows "mm_inv h t (mm_expire m (mk_slot v t) win)"
    and "t - st (s0 (mm_expire m (mk_slot v t) win)) \<le> win"
    and "v \<le> sv (s0 (mm_expire m (mk_slot v t) win))"
  using assms by (auto simp: mm_expire_def mm_inv_def Let_def)

lemma mm_update_inv:
  assumes inv: "mm_inv h now m" and mono: "now \<le> max t 1"
  shows "mm_inv (h @ [(v, max t 1)]) (max t 1) (fst (mm_update m v t win))"
    and "max t 1 - st (s0 (fst (mm_update m v t win))) \<le> win"
    and "v \<le> sv (s0 (fst (mm_update m v t win)))"
    and "snd (mm_update m v t win) = sv (s0 (fst (mm_update m v t win)))"
proof -
  let ?t = "max t 1" and ?h = "h @ [(v, max t 1)]"
  show "snd (mm_update m v t win) = sv (s0 (fst (mm_update m v t win)))"
    by (simp add: mm_update_def mm_reset_def Let_def)
  have "mm_inv ?h ?t (fst (mm_update m v t win))
      \<and> ?t - st (s0 (fst (mm_update m v t win))) \<le> win
      \<and> v \<le> sv (s0 (fst (mm_update m v t win)))"
  proof (cases "st (s0 m) = 0 \<or> v \<ge> sv (s0 m) \<or> ?t - st (s2 m) > win")
    case True
    then have "fst (mm_update m v t win) = mm_reset m v ?t" by (simp add: mm_update_def Let_def)
    then show ?thesis by (simp add: mm_inv_reset) (simp add: mm_reset_def)
  next
    case False
    then have "h \<noteq> []" using inv by (auto simp: mm_inv_def mm_new_def split: if_splits)
    with inv have i: "0 < st (s0 m)" "st (s0 m) \<le> st (s1 m)" "st (s1 m) \<le> st (s2 m)"
        "st (s2 m) \<le> ?t" "sv (s1 m) \<le> sv (s0 m)" "sv (s2 m) \<le> sv (s1 m)"
      and r: "recorded h (s0 m)" "recorded h (s1 m)" "recorded h (s2 m)"
      using mono by (auto simp: mm_inv_def)
    define m1 where "m1 = (if v \<ge> sv (s1 m) then m\<lparr>s1 := mk_slot v ?t, s2 := mk_slot v ?t\<rparr>
                  else if v \<ge> sv (s2 m) then m\<lparr>s2 := mk_slot v ?t\<rparr> else m)"
    have upd: "fst (mm_update m v t win) = mm_expire m1 (mk_slot v ?t) win"
      using False by (simp add: mm_update_def Let_def m1_def)
    have m1: "0 < st (s0 m1)" "st (s0 m1) \<le> st (s1 m1)" "st (s1 m1) \<le> st (s2 m1)"
        "st (s2 m1) \<le> ?t" "sv (s1 m1) \<le> sv (s0 m1)" "sv (s2 m1) \<le> sv (s1 m1)" "v \<le> sv (s2 m1)"
        "?t - st (s2 m1) \<le> win"
      using i False by (auto simp: m1_def)
    have r1: "recorded ?h (s0 m1)" "recorded ?h (s1 m1)" "recorded ?h (s2 m1)"
        "recorded ?h (mk_slot v ?t)"
      using r False by (auto simp: m1_def recorded_new intro: recorded_later)
    show ?thesis unfolding upd
      using mm_expire_inv[OF m1(1-7) r1 _ m1(8)] by simp
  qed
  then show "mm_inv ?h ?t (fst (mm_update m v t win))"
    "?t - st (s0 (fst (mm_update m v t win))) \<le> win"
    "v \<le> sv (s0 (fst (mm_update m v t win)))"
    by simp_all
qed

section \<open>Runs\<close>

text \<open>
  A user of the filter inserts samples with non-decreasing clock readings. The window may
  change between insertions (it follows the path's RTT).
\<close>

fun mm_run :: "minmax3 \<Rightarrow> (nat \<times> nat \<times> nat) list \<Rightarrow> minmax3" where
  "mm_run m [] = m"
| "mm_run m ((v, t, w) # xs) = mm_run (fst (mm_update m v t w)) xs"

definition mm_hist :: "(nat \<times> nat \<times> nat) list \<Rightarrow> (nat \<times> nat) list" where
  "mm_hist xs = map (\<lambda>(v, t, w). (v, max t 1)) xs"

lemma mm_run_inv:
  assumes "mm_inv h now m" and "sorted (now # map (\<lambda>(v, t, w). max t 1) xs)"
  shows "mm_inv (h @ mm_hist xs) (last (now # map (\<lambda>(v, t, w). max t 1) xs)) (mm_run m xs)"
  using assms
proof (induction xs arbitrary: h now m)
  case (Cons x xs)
  obtain v t w where x: "x = (v, t, w)" by (cases x)
  have "now \<le> max t 1" and rest: "sorted (max t 1 # map (\<lambda>(v, t, w). max t 1) xs)"
    using Cons.prems(2) x by auto
  then have "mm_inv (h @ [(v, max t 1)]) (max t 1) (fst (mm_update m v t w))"
    using mm_update_inv(1)[OF Cons.prems(1)] by simp
  from Cons.IH[OF this rest] show ?case
    using x by (simp add: mm_hist_def)
qed (simp add: mm_hist_def)

text \<open>
  The filter as its clients see it: a maximum that an update never leaves below the sample
  just inserted, and that is one of the samples. The dual minimum follows.
\<close>

locale max_filter =
  fixes upd :: "'m \<Rightarrow> nat \<Rightarrow> nat \<Rightarrow> nat \<Rightarrow> 'm \<times> nat" and inv :: "nat \<Rightarrow> 'm \<Rightarrow> bool"
  assumes upd_inv: "inv now m \<Longrightarrow> now \<le> max t 1 \<Longrightarrow> inv (max t 1) (fst (upd m v t w))"
    and upd_ge: "inv now m \<Longrightarrow> now \<le> max t 1 \<Longrightarrow> v \<le> snd (upd m v t w)"
begin

text \<open>Feeding the complement gives a minimum no greater than the sample just inserted.\<close>

lemma dual_le:
  assumes "inv now m" and "now \<le> max t 1" and "v \<le> u64_max"
  shows "u64_max - snd (upd m (u64_max - v) t w) \<le> v"
  using upd_ge[OF assms(1,2), of "u64_max - v" w] by linarith

end

interpretation bw: max_filter mm_update "\<lambda>now m. \<exists>h. mm_inv h now m"
proof unfold_locales
  fix now m t v w
  assume "\<exists>h. mm_inv h now m" and le: "now \<le> max t 1"
  then obtain h where h: "mm_inv h now m" by blast
  show "\<exists>h. mm_inv h (max t 1) (fst (mm_update m v t w))"
    using mm_update_inv(1)[OF h le] by blast
  show "v \<le> snd (mm_update m v t w)"
    using mm_update_inv(3,4)[OF h le, of v w] by simp
qed

section \<open>Properties\<close>

text \<open>
  The windowed maximum. After any run of insertions with a clock that does not go back,
  the three slots are samples of the run, the first is the largest of everything inserted
  since it, and no slot is older than the one before it.
\<close>

lemma windowed_max_run:
  assumes "sorted (map (\<lambda>(v, t, w). max t 1) xs)" and "xs \<noteq> []"
  shows "recorded (mm_hist xs) (s0 (mm_run mm_new xs)) \<and> recorded (mm_hist xs) (s1 (mm_run mm_new xs))
    \<and> recorded (mm_hist xs) (s2 (mm_run mm_new xs))
    \<and> sv (s2 (mm_run mm_new xs)) \<le> sv (s1 (mm_run mm_new xs))
    \<and> sv (s1 (mm_run mm_new xs)) \<le> sv (s0 (mm_run mm_new xs))
    \<and> st (s0 (mm_run mm_new xs)) \<le> st (s1 (mm_run mm_new xs))
    \<and> st (s1 (mm_run mm_new xs)) \<le> st (s2 (mm_run mm_new xs))"
proof -
  have "mm_inv (mm_hist xs) (last (0 # map (\<lambda>(v, t, w). max t 1) xs)) (mm_run mm_new xs)"
    using mm_run_inv[OF mm_inv_new, of 0 xs] assms(1) by simp
  then show ?thesis using assms(2) by (auto simp: mm_inv_def mm_hist_def)
qed

end
