(* ===== verification/Store.thy ===== *)
theory Store
  imports Prelude "HOL-Library.AList"
begin

text \<open>
  The two map types of the standard library the program keeps its tables in: a
  \<open>HashMap\<close> is an association list with distinct keys (its order is arbitrary, so no
  theorem may depend on it), a \<open>BTreeMap\<close> an association list whose keys ascend. The
  locale \<open>kv_store\<close> is what their clients rely on.
\<close>

section \<open>Hash maps\<close>

definition hm_inv :: "('k \<times> 'v) list \<Rightarrow> bool" where
  "hm_inv m \<longleftrightarrow> distinct (map fst m)"

lemma hm_inv_Nil [simp]: "hm_inv []"
  by (simp add: hm_inv_def)

lemma hm_inv_update [intro]: "hm_inv m \<Longrightarrow> hm_inv (AList.update k v m)"
  and hm_inv_delete [intro]: "hm_inv m \<Longrightarrow> hm_inv (AList.delete k m)"
  by (simp_all add: hm_inv_def distinct_update distinct_delete)

lemma distinct_map_fst_filter: "distinct (map fst m) \<Longrightarrow> distinct (map fst (filter P m))"
  by (induction m) auto

lemma hm_inv_filter [intro]: "hm_inv m \<Longrightarrow> hm_inv (filter P m)"
  by (simp add: hm_inv_def distinct_map_fst_filter)

lemma keys_delete: "fst ` set (AList.delete k m) = fst ` set m - {k}"
  using delete_keys[of k m] by (metis image_set set_removeAll)

lemma length_update_le: "length (AList.update k v m) \<le> Suc (length m)"
  by (induction m) auto

lemma length_delete_less: "k \<in> fst ` set m \<Longrightarrow> length (AList.delete k m) < length m"
proof -
  assume "k \<in> fst ` set m"
  then obtain v where "(k, v) \<in> set m" by auto
  then show ?thesis unfolding AList.delete_eq by (rule length_filter_less) simp
qed

lemma set_delete_subset: "set (AList.delete k m) \<subseteq> set m"
  by (auto simp: AList.delete_eq)

lemma map_of_hm_iff: "hm_inv m \<Longrightarrow> map_of m k = Some v \<longleftrightarrow> (k, v) \<in> set m"
  by (simp add: hm_inv_def map_of_eq_Some_iff)

section \<open>Ordered maps\<close>

definition bt_inv :: "('k::linorder \<times> 'v) list \<Rightarrow> bool" where
  "bt_inv m \<longleftrightarrow> sorted_wrt (<) (map fst m)"

fun bt_insert :: "'k::linorder \<Rightarrow> 'v \<Rightarrow> ('k \<times> 'v) list \<Rightarrow> ('k \<times> 'v) list" where
  "bt_insert k v [] = [(k, v)]"
| "bt_insert k v ((k', v') # m) =
     (if k < k' then (k, v) # (k', v') # m
      else if k = k' then (k, v) # m
      else (k', v') # bt_insert k v m)"

definition bt_remove :: "'k::linorder \<Rightarrow> ('k \<times> 'v) list \<Rightarrow> ('k \<times> 'v) list" where
  "bt_remove k m = filter (\<lambda>(k', _). k' \<noteq> k) m"

lemma bt_inv_Nil [simp]: "bt_inv []"
  by (simp add: bt_inv_def)

lemma bt_inv_Cons: "bt_inv ((k, v) # m) \<longleftrightarrow> bt_inv m \<and> (\<forall>x\<in>fst ` set m. k < x)"
  by (auto simp: bt_inv_def)

lemma bt_keys_insert: "fst ` set (bt_insert k v m) = insert k (fst ` set m)"
  by (induction m rule: bt_insert.induct) auto

lemma bt_inv_insert [intro]: "bt_inv m \<Longrightarrow> bt_inv (bt_insert k v m)"
proof (induction k v m rule: bt_insert.induct)
  case (2 k v k' v' m)
  then show ?case
    using bt_keys_insert[of k v m] by (force simp: bt_inv_Cons)
qed (simp add: bt_inv_def)

lemma bt_inv_filter [intro]: "bt_inv m \<Longrightarrow> bt_inv (filter P m)"
  by (induction m) (auto simp: bt_inv_def)

lemma bt_inv_remove [intro]: "bt_inv m \<Longrightarrow> bt_inv (bt_remove k m)"
  by (simp add: bt_remove_def bt_inv_filter)

lemma bt_inv_hm: "bt_inv m \<Longrightarrow> hm_inv m"
  by (auto simp: bt_inv_def hm_inv_def strict_sorted_iff)

lemma bt_lookup_insert: "bt_inv m \<Longrightarrow> map_of (bt_insert k v m) = (map_of m)(k \<mapsto> v)"
proof (induction k v m rule: bt_insert.induct)
  case (2 k v k' v' m)
  then show ?case by (auto simp: bt_inv_Cons fun_eq_iff)
qed simp

lemma bt_lookup_remove: "map_of (bt_remove k m) = (map_of m)(k := None)"
  by (induction m) (auto simp: bt_remove_def fun_eq_iff)

lemma bt_keys_remove: "fst ` set (bt_remove k m) = fst ` set m - {k}"
  by (auto simp: bt_remove_def)

section \<open>What clients of a map rely on\<close>

locale kv_store =
  fixes inv :: "'m \<Rightarrow> bool" and lk :: "'m \<Rightarrow> 'k \<Rightarrow> 'v option"
    and ins :: "'k \<Rightarrow> 'v \<Rightarrow> 'm \<Rightarrow> 'm" and del :: "'k \<Rightarrow> 'm \<Rightarrow> 'm"
  assumes lk_ins: "inv m \<Longrightarrow> lk (ins k v m) = (lk m)(k \<mapsto> v)"
    and lk_del: "inv m \<Longrightarrow> lk (del k m) = (lk m)(k := None)"
    and inv_ins: "inv m \<Longrightarrow> inv (ins k v m)"
    and inv_del: "inv m \<Longrightarrow> inv (del k m)"
begin

text \<open>Removing what was just inserted where nothing was gives the old contents back.\<close>

lemma del_ins: "inv m \<Longrightarrow> lk m k = None \<Longrightarrow> lk (del k (ins k v m)) = lk m"
  by (simp add: lk_ins lk_del inv_ins fun_upd_idem)

lemma ins_dom: "inv m \<Longrightarrow> dom (lk (ins k v m)) = insert k (dom (lk m))"
  by (simp add: lk_ins)

lemma del_dom: "inv m \<Longrightarrow> dom (lk (del k m)) = dom (lk m) - {k}"
  by (simp add: lk_del)

lemma ins_all: "inv m \<Longrightarrow> \<forall>k v. lk m k = Some v \<longrightarrow> P k v \<Longrightarrow> P k v
    \<Longrightarrow> \<forall>k' v'. lk (ins k v m) k' = Some v' \<longrightarrow> P k' v'"
  by (simp add: lk_ins)

lemma fold_ins:
  "inv m \<Longrightarrow> inv (fold (\<lambda>(k, v). ins k v) xs m)
     \<and> dom (lk (fold (\<lambda>(k, v). ins k v) xs m)) = dom (lk m) \<union> fst ` set xs"
proof (induction xs arbitrary: m)
  case (Cons x xs)
  then show ?case
    using Cons.IH[of "ins (fst x) (snd x) m"] by (cases x) (auto simp: inv_ins ins_dom)
qed simp

end

interpretation hm: kv_store hm_inv map_of AList.update AList.delete
  by unfold_locales (auto simp: update_conv' delete_conv')

interpretation bt: kv_store bt_inv map_of bt_insert bt_remove
  by unfold_locales (auto simp: bt_lookup_insert bt_lookup_remove)

end
