(* ===== verification/Path_State.thy ===== *)
theory Path_State
  imports Tuning Bw_Filter Wire_Frame Store
begin

text \<open>
  \<open>nya-core/src/path.rs\<close>, first part: the state of one TCP+TLS connection
  (\<open>PathState\<close>), its accessors, the ping tables, the pending-ACK register and the two
  writer queues. The fields of \<open>PathState\<close> are grouped into three records: the RTT
  clocks (theory \<open>Path_Rtt\<close>), the budget controller (theory \<open>Path_Budget\<close>) and the
  rest. A \<open>HashMap\<close> is an association list with distinct keys whose order is arbitrary; a
  bounded channel is the list of queued items with its capacity.
\<close>

section \<open>State\<close>

text \<open>The \<open>STATE_UP\<close>, \<open>STATE_DEGRADED\<close>, \<open>STATE_DOWN\<close> bytes 1, 2, 3.\<close>

datatype path_status = UP | DEGRADED | DOWN

fun status_byte :: "path_status \<Rightarrow> nat" where
  "status_byte UP = 1" | "status_byte DEGRADED = 2" | "status_byte DOWN = 3"

instantiation path_status :: linorder
begin

definition less_eq_path_status :: "path_status \<Rightarrow> path_status \<Rightarrow> bool" where
  "less_eq_path_status a b \<longleftrightarrow> status_byte a \<le> status_byte b"

definition less_path_status :: "path_status \<Rightarrow> path_status \<Rightarrow> bool" where
  "less_path_status a b \<longleftrightarrow> status_byte a < status_byte b"

instance
proof
  fix a b :: path_status
  show "a \<le> b \<Longrightarrow> b \<le> a \<Longrightarrow> a = b"
    by (cases a; cases b) (simp_all add: less_eq_path_status_def)
qed (auto simp: less_eq_path_status_def less_path_status_def)

end

record rtt_state =
  rtt_ewma_us :: nat
  rtt_stable_us :: nat
  rtt_class_us :: nat
  class_init_n :: nat
  stable_up_hold_us :: nat
  high_since :: "instant option"
  class_high_since :: "instant option"
  class_low_since :: "instant option"
  class_low_accum :: duration
  class_known_since :: "instant option"
  class_unwind_permit :: bool
  min_rtt_filter :: minmax3

record budget_state =
  delivered :: nat
  delivered_at_us :: nat
  first_tx_us :: nat
  ack_rtt_us :: nat
  ack_rtt_at_us :: nat
  bw_filter :: minmax3
  budget_floor :: nat
  budget_ceil :: nat
  budget :: nat
  round_start_us :: nat
  round_bw_ref :: nat
  round_limited :: bool
  flat_rounds :: nat
  sag_rounds :: nat
  idle_rounds :: nat
  probe_from :: nat
  round_delivered :: nat
  prev_round_bw :: nat
  round_bw_max :: minmax3
  last_round_bw :: nat

record path_state =
  pid :: nat
  pname :: string
  writer_q :: "frame list"
  urgent_q :: "frame list"
  writer_open :: bool
  urgent_open :: bool
  queue_cap :: nat
  pending_acks :: "(nat \<times> stream_ack) list"
  inflight :: nat
  sticky_streams :: nat
  congested :: bool
  write_stalled :: bool
  last_rx :: instant
  last_tx :: instant
  up_since :: instant
  pstate :: path_status
  next_ping_seq :: nat
  pending_ping :: "(nat \<times> instant) list"
  late_ping :: "(nat \<times> instant) list"
  outlier_since :: "instant option"
  failover_recorded :: bool
  urgent_queued :: nat
  bulk_queued :: nat
  picks :: nat
  loop_fit_last :: bool
  loop_unfit_total :: nat
  restick_in_at_us :: nat
  rtts :: rtt_state
  bud :: budget_state

definition MIN_RTT_WIN_US :: nat where "MIN_RTT_WIN_US = 10000000"
definition ACK_FLUSH_K :: nat where "ACK_FLUSH_K = 8"

text \<open>\<open>PathState::with_writers\<close>: both queues empty and open, RTT unknown, budget at the bias.\<close>

definition path_new :: "nat \<Rightarrow> string \<Rightarrow> nat \<Rightarrow> instant \<Rightarrow> path_state" where
  "path_new i name cap now = \<lparr>
     pid = i, pname = name, writer_q = [], urgent_q = [], writer_open = True,
     urgent_open = True, queue_cap = cap, pending_acks = [], inflight = 0, sticky_streams = 0,
     congested = False, write_stalled = False, last_rx = now, last_tx = now, up_since = now,
     pstate = UP, next_ping_seq = 1, pending_ping = [], late_ping = [], outlier_since = None,
     failover_recorded = False, urgent_queued = 0, bulk_queued = 0, picks = 0,
     loop_fit_last = True, loop_unfit_total = 0, restick_in_at_us = 0,
     rtts = \<lparr>rtt_ewma_us = 0, rtt_stable_us = 0, rtt_class_us = 0, class_init_n = 0,
       stable_up_hold_us = 1000000, high_since = None, class_high_since = None,
       class_low_since = None, class_low_accum = 0, class_known_since = None,
       class_unwind_permit = False, min_rtt_filter = mm_new\<rparr>,
     bud = \<lparr>delivered = 0, delivered_at_us = 0, first_tx_us = 0, ack_rtt_us = 0,
       ack_rtt_at_us = 0, bw_filter = mm_new, budget_floor = inflight_bias STANDARD,
       budget_ceil = sat_mul (chan STANDARD) MAX_STREAM_PAYLOAD,
       budget = inflight_bias STANDARD, round_start_us = 0, round_bw_ref = 0,
       round_limited = False, flat_rounds = 0, sag_rounds = 0, idle_rounds = 0,
       probe_from = 0, round_delivered = 0, prev_round_bw = 0, round_bw_max = mm_new,
       last_round_bw = 0\<rparr>\<rparr>"

section \<open>Names and simple accessors\<close>

text \<open>\<open>rsplit_once('#')\<close>: the part before the last \<open>#\<close>, or the whole name.\<close>

fun rsplit_hash :: "string \<Rightarrow> string option" where
  "rsplit_hash [] = None"
| "rsplit_hash (c # cs) = (case rsplit_hash cs of
     Some l \<Rightarrow> Some (c # l)
   | None \<Rightarrow> if c = CHR ''#'' then Some [] else None)"

definition link_key :: "string \<Rightarrow> string" where
  "link_key name = (case rsplit_hash name of Some l \<Rightarrow> l | None \<Rightarrow> name)"

definition link :: "path_state \<Rightarrow> string" where "link p = link_key (pname p)"

definition is_up :: "path_state \<Rightarrow> bool" where "is_up p \<longleftrightarrow> pstate p = UP"

definition is_alive :: "path_state \<Rightarrow> bool" where
  "is_alive p \<longleftrightarrow> pstate p = UP \<or> pstate p = DEGRADED"

definition is_schedulable :: "path_state \<Rightarrow> bool" where
  "is_schedulable p \<longleftrightarrow> is_up p \<and> \<not> congested p \<and> \<not> write_stalled p"

definition rtt_known :: "path_state \<Rightarrow> bool" where
  "rtt_known p \<longleftrightarrow> rtt_ewma_us (rtts p) \<noteq> 0"

definition rtt_us :: "path_state \<Rightarrow> nat" where
  "rtt_us p = (if rtt_ewma_us (rtts p) = 0 then unknown_rtt_us STANDARD
               else rtt_ewma_us (rtts p))"

definition rtt :: "path_state \<Rightarrow> duration" where "rtt p = from_micros (rtt_us p)"

definition stable_rtt :: "path_state \<Rightarrow> duration" where
  "stable_rtt p = from_micros (if rtt_stable_us (rtts p) = 0 then rtt_us p
                               else rtt_stable_us (rtts p))"

definition class_rtt :: "path_state \<Rightarrow> duration" where
  "class_rtt p = from_micros (if rtt_class_us (rtts p) = 0 then rtt_us p
                              else rtt_class_us (rtts p))"

definition class_known :: "path_state \<Rightarrow> bool" where
  "class_known p \<longleftrightarrow> rtt_class_us (rtts p) \<noteq> 0"

definition up_age :: "instant \<Rightarrow> path_state \<Rightarrow> duration" where
  "up_age now p = elapsed now (up_since p)"

definition last_rx_ago :: "instant \<Rightarrow> path_state \<Rightarrow> duration" where
  "last_rx_ago now p = elapsed now (last_rx p)"

definition touch_rx :: "instant \<Rightarrow> path_state \<Rightarrow> path_state" where
  "touch_rx now p =
     (let p1 = p\<lparr>last_rx := now\<rparr>
      in if pstate p1 = DEGRADED then p1\<lparr>pstate := UP\<rparr> else p1)"

text \<open>The compare-exchange only moves UP to DEGRADED.\<close>

definition mark_degraded :: "path_state \<Rightarrow> path_state" where
  "mark_degraded p = (if pstate p = UP then p\<lparr>pstate := DEGRADED\<rparr> else p)"

definition add_inflight :: "nat \<Rightarrow> path_state \<Rightarrow> path_state" where
  "add_inflight n p = (if n \<noteq> 0 then p\<lparr>inflight := inflight p + n\<rparr> else p)"

definition sub_inflight :: "nat \<Rightarrow> path_state \<Rightarrow> path_state" where
  "sub_inflight n p = (if n = 0 then p else p\<lparr>inflight := inflight p - n\<rparr>)"

definition add_sticky :: "path_state \<Rightarrow> path_state" where
  "add_sticky p = p\<lparr>sticky_streams := sticky_streams p + 1\<rparr>"

definition drop_sticky :: "path_state \<Rightarrow> path_state" where
  "drop_sticky p = p\<lparr>sticky_streams := sticky_streams p - 1\<rparr>"

section \<open>Pending ACKs\<close>

text \<open>
  The newest ACK per stream waits in an overwrite register. \<open>take_acks k\<close> removes the
  first \<open>k\<close> entries in iteration order.
\<close>

definition take_acks :: "nat \<Rightarrow> path_state \<Rightarrow> stream_ack list \<times> path_state" where
  "take_acks k p = (map snd (take k (pending_acks p)),
                    p\<lparr>pending_acks := drop k (pending_acks p)\<rparr>)"

definition take_all_acks :: "path_state \<Rightarrow> (nat \<times> stream_ack) list \<times> path_state" where
  "take_all_acks p = (pending_acks p, p\<lparr>pending_acks := []\<rparr>)"

definition merge_ack :: "stream_ack \<Rightarrow> path_state \<Rightarrow> path_state" where
  "merge_ack ack p = (case map_of (pending_acks p) (sa_stream_id ack) of
     Some e \<Rightarrow> if sa_acked_offset e > sa_acked_offset ack then p
               else p\<lparr>pending_acks := AList.update (sa_stream_id ack) ack (pending_acks p)\<rparr>
   | None \<Rightarrow> p\<lparr>pending_acks := AList.update (sa_stream_id ack) ack (pending_acks p)\<rparr>)"

definition restore_acks :: "stream_ack list \<Rightarrow> path_state \<Rightarrow> path_state" where
  "restore_acks acks p = fold merge_ack acks p"

section \<open>Writer queues\<close>

definition note_enqueue :: "bool \<Rightarrow> path_state \<Rightarrow> path_state" where
  "note_enqueue urg p = (if urg then p\<lparr>urgent_queued := urgent_queued p + 1\<rparr>
                         else p\<lparr>bulk_queued := bulk_queued p + 1\<rparr>)"

definition undo_enqueue :: "bool \<Rightarrow> path_state \<Rightarrow> path_state" where
  "undo_enqueue urg p = (if urg then p\<lparr>urgent_queued := urgent_queued p - 1\<rparr>
                         else p\<lparr>bulk_queued := bulk_queued p - 1\<rparr>)"

definition note_dequeue :: "bool \<Rightarrow> path_state \<Rightarrow> path_state" where
  "note_dequeue urg p = undo_enqueue urg p"

text \<open>\<open>mpsc::Sender::try_send\<close>: refused when the receiver is gone or the queue is full.\<close>

definition try_send :: "bool \<Rightarrow> frame \<Rightarrow> path_state \<Rightarrow> path_state option" where
  "try_send urg f p =
     (if urg then (if urgent_open p \<and> length (urgent_q p) < queue_cap p
                   then Some (p\<lparr>urgent_q := urgent_q p @ [f]\<rparr>) else None)
      else (if writer_open p \<and> length (writer_q p) < queue_cap p
            then Some (p\<lparr>writer_q := writer_q p @ [f]\<rparr>) else None))"

section \<open>Pings\<close>

definition pending_ping_count :: "path_state \<Rightarrow> nat" where
  "pending_ping_count p = length (pending_ping p)"

definition pending_ping_age :: "instant \<Rightarrow> path_state \<Rightarrow> duration option" where
  "pending_ping_age now p =
     (if pending_ping p = [] then None
      else Some (Max (set (map (\<lambda>(_, t). elapsed now t) (pending_ping p)))))"

definition should_send_ping :: "path_state \<Rightarrow> duration \<Rightarrow> duration \<Rightarrow> bool" where
  "should_send_ping p ago ping_every \<longleftrightarrow>
     is_alive p \<and> pending_ping_count p = 0 \<and> ago \<ge> ping_every"

definition expire_stale_pings :: "instant \<Rightarrow> duration \<Rightarrow> path_state \<Rightarrow> nat \<times> path_state" where
  "expire_stale_pings now max_age p =
     (let stale = filter (\<lambda>(_, t). elapsed now t \<ge> max_age) (pending_ping p)
      in (length stale,
          p\<lparr>pending_ping := filter (\<lambda>(_, t). \<not> elapsed now t \<ge> max_age) (pending_ping p),
            late_ping := fold (\<lambda>(s, t). AList.update s t) stale (late_ping p)\<rparr>))"

definition drop_ancient_pings :: "instant \<Rightarrow> duration \<Rightarrow> path_state \<Rightarrow> path_state" where
  "drop_ancient_pings now max_age p =
     p\<lparr>pending_ping := filter (\<lambda>(_, t). elapsed now t < max_age) (pending_ping p),
       late_ping := filter (\<lambda>(_, t). elapsed now t < max_age) (late_ping p)\<rparr>"

text \<open>The eviction loop of \<open>next_ping\<close>: drop the oldest late entry while the tables are full.\<close>

fun oldest_ping :: "(nat \<times> instant) list \<Rightarrow> nat option" where
  "oldest_ping [] = None"
| "oldest_ping ((k, t) # xs) = (case oldest_ping xs of
     None \<Rightarrow> Some k
   | Some k' \<Rightarrow> (case map_of xs k' of Some t' \<Rightarrow> if t \<le> t' then Some k else Some k'
                 | None \<Rightarrow> Some k))"

function evict_late :: "nat \<Rightarrow> nat \<Rightarrow> (nat \<times> instant) list \<Rightarrow> (nat \<times> instant) list" where
  "evict_late cap n late =
     (if n + length late < cap then late
      else case oldest_ping late of None \<Rightarrow> late
        | Some k \<Rightarrow> if k \<in> fst ` set late then evict_late cap n (AList.delete k late) else late)"
  by pat_completeness auto
termination
proof (relation "measure (\<lambda>(cap, n, late). length late)", simp, clarsimp)
  fix late :: "(nat \<times> instant) list" and k t
  assume "(k, t) \<in> set late"
  then show "length (AList.delete k late) < length late"
    unfolding AList.delete_eq by (intro length_filter_less) auto
qed

declare evict_late.simps [simp del]

definition next_ping :: "instant \<Rightarrow> path_state \<Rightarrow> nat \<times> path_state" where
  "next_ping now p =
     (let sq = next_ping_seq p;
          late = evict_late (pending_ping_max STANDARD) (length (pending_ping p)) (late_ping p)
      in (sq, p\<lparr>next_ping_seq := sq + 1, late_ping := late,
                pending_ping := AList.update sq now (pending_ping p)\<rparr>))"

end
