(* ===== verification/Path_Rtt.thy ===== *)
theory Path_Rtt
  imports Path_State
begin

text \<open>
  \<open>nya-core/src/path.rs\<close>, the four round-trip clocks of a path: the fast average, the
  stable clock the timeouts read, the two-sided hold clock that decides the path's class,
  and the windowed minimum the budget rests on; and what a Pong feeds them. The source
  reads \<open>Instant::now\<close> more than once in an operation; here an operation has one instant.
\<close>

section \<open>Operations\<close>

definition note_loop_rtt :: "instant \<Rightarrow> duration \<Rightarrow> rtt_state \<Rightarrow> rtt_state" where
  "note_loop_rtt now d r =
     r\<lparr>min_rtt_filter :=
        fst (wm_update (min_rtt_filter r) (max (as_micros d) 1) (max (mono_us now) 1)
               MIN_RTT_WIN_US)\<rparr>"

text \<open>Floor RTT of the budget: the windowed minimum, else the fast average.\<close>

definition min_rtt :: "instant \<Rightarrow> path_state \<Rightarrow> duration option" where
  "min_rtt now p =
     (if \<not> rtt_known p then None
      else Some (case wm_get (min_rtt_filter (rtts p)) (mono_us now) MIN_RTT_WIN_US of
                   Some us \<Rightarrow> from_micros us | None \<Rightarrow> rtt p))"

definition note_class_known_now :: "instant \<Rightarrow> rtt_state \<Rightarrow> rtt_state" where
  "note_class_known_now now r = r\<lparr>class_known_since := Some now\<rparr>"

definition class_known_aged :: "instant \<Rightarrow> duration \<Rightarrow> path_state \<Rightarrow> bool" where
  "class_known_aged now hold p =
     (case class_known_since (rtts p) of Some t \<Rightarrow> elapsed now t \<ge> hold | None \<Rightarrow> False)"

definition get_or_insert :: "instant \<Rightarrow> instant option \<Rightarrow> instant" where
  "get_or_insert now g = (case g of Some t \<Rightarrow> t | None \<Rightarrow> now)"

definition mark_outlier :: "instant \<Rightarrow> path_state \<Rightarrow> duration \<times> path_state" where
  "mark_outlier now p =
     (let start = get_or_insert now (outlier_since p)
      in (elapsed now start, p\<lparr>outlier_since := Some start\<rparr>))"

definition clear_outlier :: "path_state \<Rightarrow> path_state" where
  "clear_outlier p = p\<lparr>outlier_since := None\<rparr>"

text \<open>The bar both clocks use before they go up.\<close>

definition raise_bar :: "nat \<Rightarrow> nat \<Rightarrow> bool" where
  "raise_bar old fast \<longleftrightarrow>
     fast > sat_mul old (stable_raise_mult STANDARD)
     \<and> fast > old + stable_raise_add_us STANDARD"

definition hold_step :: "nat \<Rightarrow> nat \<Rightarrow> nat" where
  "hold_step old fast = (old * 7 + fast) div 8"

definition update_class :: "instant \<Rightarrow> nat \<Rightarrow> rtt_state \<Rightarrow> rtt_state" where
  "update_class now fast r =
    (let c_old = rtt_class_us r in
     if c_old = 0 then
       (let n = class_init_n r + 1; r1 = r\<lparr>class_init_n := n\<rparr> in
        if n \<ge> 8
        then (note_class_known_now now (r1\<lparr>rtt_class_us := fast\<rparr>))\<lparr>class_unwind_permit := True\<rparr>
        else r1)
     else
       (let hold = from_micros (stable_up_hold_us r) in
        if raise_bar c_old fast then
          (let start = get_or_insert now (class_high_since r);
               r1 = r\<lparr>class_low_since := None, class_low_accum := 0\<rparr>
           in if elapsed now start \<ge> hold
              then r1\<lparr>rtt_class_us := hold_step c_old fast, class_high_since := None,
                      class_unwind_permit := True\<rparr>
              else r1\<lparr>class_high_since := Some start\<rparr>)
        else
          (let r1 = r\<lparr>class_high_since := None\<rparr> in
           if class_should_drop STANDARD c_old fast \<or> (class_unwind_permit r1 \<and> fast < c_old) then
             (let start = get_or_insert now (class_low_since r1) in
              if elapsed now start + class_low_accum r1 \<ge> hold
              then (let new_us = hold_step c_old fast
                    in r1\<lparr>rtt_class_us := new_us, class_low_since := None, class_low_accum := 0,
                          class_unwind_permit :=
                            (if new_us \<le> fast then False else class_unwind_permit r1)\<rparr>)
              else r1\<lparr>class_low_since := Some start\<rparr>)
           else (case class_low_since r1 of
                   Some start \<Rightarrow> r1\<lparr>class_low_since := None,
                                    class_low_accum := class_low_accum r1 + elapsed now start\<rparr>
                 | None \<Rightarrow> r1))))"

definition fast_step :: "nat \<Rightarrow> nat \<Rightarrow> nat" where
  "fast_step old sample = (if old = 0 then sample else (old * 8 + sample * 2) div 10)"

definition update_stable :: "instant \<Rightarrow> nat \<Rightarrow> nat \<Rightarrow> rtt_state \<Rightarrow> rtt_state" where
  "update_stable now sample fast r =
    (let s_old = rtt_stable_us r in
     if s_old = 0 then r\<lparr>rtt_stable_us := sample\<rparr>
     else if sample < s_old then r\<lparr>rtt_stable_us := (s_old * 3 + sample) div 4, high_since := None\<rparr>
     else if \<not> raise_bar s_old fast then r\<lparr>high_since := None\<rparr>
     else (let start = get_or_insert now (high_since r); r1 = r\<lparr>high_since := Some start\<rparr>
           in if elapsed now start \<ge> from_micros (stable_up_hold_us r)
              then r1\<lparr>rtt_stable_us := hold_step s_old fast\<rparr> else r1))"

definition record_rtt :: "instant \<Rightarrow> duration \<Rightarrow> rtt_state \<Rightarrow> rtt_state" where
  "record_rtt now d r =
    (let sample = as_micros d;
         r1 = note_loop_rtt now d r;
         fast = fast_step (rtt_ewma_us r1) sample;
         r2 = r1\<lparr>rtt_ewma_us := fast\<rparr>;
         r3 = update_stable now sample fast r2
     in update_class now fast r3)"

text \<open>
  A Pong always clears its table entry. It feeds the clocks when \<open>record\<close> is set, the
  entry was known, the sample is under the cap, and it had not expired into the late table
  (unless late samples are allowed).
\<close>

definition feed_pong ::
  "instant \<Rightarrow> bool \<Rightarrow> duration option \<Rightarrow> instant \<Rightarrow> path_state \<Rightarrow> path_state" where
  "feed_pong now record cap t0 p =
    (if \<not> record then p
     else (let sample = elapsed now t0 in
           if (case cap of Some c \<Rightarrow> sample > c | None \<Rightarrow> False) then p
           else p\<lparr>rtts := record_rtt now sample (rtts p)\<rparr>))"

definition on_pong_record ::
  "instant \<Rightarrow> nat \<Rightarrow> bool \<Rightarrow> duration option \<Rightarrow> bool \<Rightarrow> path_state \<Rightarrow> path_state" where
  "on_pong_record now pseq record cap allow_late p =
    (case map_of (pending_ping p) pseq of
       Some t0 \<Rightarrow> feed_pong now record cap t0
                    (p\<lparr>pending_ping := AList.delete pseq (pending_ping p)\<rparr>)
     | None \<Rightarrow>
         (case map_of (late_ping p) pseq of
            Some t0 \<Rightarrow>
              (let q = p\<lparr>late_ping := AList.delete pseq (late_ping p)\<rparr>
               in if \<not> allow_late then q else feed_pong now record cap t0 q)
          | None \<Rightarrow> p))"

definition on_pong :: "instant \<Rightarrow> nat \<Rightarrow> path_state \<Rightarrow> path_state" where
  "on_pong now pseq p = on_pong_record now pseq True None True p"

section \<open>The class clock\<close>

lemma hold_step_between:
  shows "min old fast \<le> hold_step old fast" and "hold_step old fast \<le> max old fast"
  by (auto simp: hold_step_def min_def max_def)

lemma hold_step_pos: "8 \<le> old * 7 + fast \<Longrightarrow> 0 < hold_step old fast"
  by (simp add: hold_step_def)

lemma update_class_frame [frame_simps]:
  "rtt_ewma_us (update_class now f r) = rtt_ewma_us r"
  "rtt_stable_us (update_class now f r) = rtt_stable_us r"
  "stable_up_hold_us (update_class now f r) = stable_up_hold_us r"
  "min_rtt_filter (update_class now f r) = min_rtt_filter r"
  by (auto simp: update_class_def Let_def note_class_known_now_def split: option.splits)

lemma update_stable_frame [frame_simps]:
  "rtt_ewma_us (update_stable now s f r) = rtt_ewma_us r"
  "rtt_class_us (update_stable now s f r) = rtt_class_us r"
  "stable_up_hold_us (update_stable now s f r) = stable_up_hold_us r"
  "class_init_n (update_stable now s f r) = class_init_n r"
  "class_known_since (update_stable now s f r) = class_known_since r"
  "class_unwind_permit (update_stable now s f r) = class_unwind_permit r"
  "class_high_since (update_stable now s f r) = class_high_since r"
  "class_low_since (update_stable now s f r) = class_low_since r"
  "class_low_accum (update_stable now s f r) = class_low_accum r"
  by (auto simp: update_stable_def Let_def)

lemma note_loop_rtt_frame [frame_simps]:
  "rtt_ewma_us (note_loop_rtt now d r) = rtt_ewma_us r"
  "rtt_class_us (note_loop_rtt now d r) = rtt_class_us r"
  "class_init_n (note_loop_rtt now d r) = class_init_n r"
  "class_known_since (note_loop_rtt now d r) = class_known_since r"
  "rtt_stable_us (note_loop_rtt now d r) = rtt_stable_us r"
  "stable_up_hold_us (note_loop_rtt now d r) = stable_up_hold_us r"
  "class_high_since (note_loop_rtt now d r) = class_high_since r"
  "class_low_since (note_loop_rtt now d r) = class_low_since r"
  "class_low_accum (note_loop_rtt now d r) = class_low_accum r"
  "class_unwind_permit (note_loop_rtt now d r) = class_unwind_permit r"
  by (simp_all add: note_loop_rtt_def)

text \<open>One update moves a known class at most one eighth of the way to the fast clock.\<close>

lemma update_class_cases:
  assumes "rtt_class_us r \<noteq> 0"
  shows "rtt_class_us (update_class now f r) = rtt_class_us r
       \<or> rtt_class_us (update_class now f r) = hold_step (rtt_class_us r) f"
  using assms by (auto simp: update_class_def Let_def split: option.splits)

lemma update_class_between:
  assumes "rtt_class_us r \<noteq> 0"
  shows "min (rtt_class_us r) f \<le> rtt_class_us (update_class now f r)"
    and "rtt_class_us (update_class now f r) \<le> max (rtt_class_us r) f"
  using update_class_cases[OF assms, of now f] hold_step_between[of "rtt_class_us r" f]
  by auto

text \<open>A raise needs the bar and a whole hold of it.\<close>

lemma update_class_raise:
  assumes "rtt_class_us r \<noteq> 0" and "rtt_class_us r < rtt_class_us (update_class now f r)"
  shows "raise_bar (rtt_class_us r) f
       \<and> elapsed now (get_or_insert now (class_high_since r)) \<ge> from_micros (stable_up_hold_us r)"
proof -
  have down: "hold_step c f \<le> c" if "f < c" for c
    using that by (auto simp: hold_step_def)
  have cap: "hold_step c f \<le> c" if "class_should_drop STANDARD c f" for c
  proof -
    have "c - f \<ge> 1"
      using that by (simp add: class_should_drop_def STANDARD_def max_def split: if_splits)
    then show ?thesis using down[of c] by simp
  qed
  show ?thesis
    using assms down cap
    by (fastforce simp: update_class_def Let_def split: if_splits option.splits)
qed

text \<open>The first class is the fast clock after eight samples, never an earlier one.\<close>

lemma update_class_init:
  assumes "rtt_class_us r = 0"
  shows "rtt_class_us (update_class now f r) = (if class_init_n r + 1 \<ge> 8 then f else 0)"
    and "class_init_n (update_class now f r) = class_init_n r + 1"
  using assms by (auto simp: update_class_def Let_def note_class_known_now_def)

section \<open>The fast and stable clocks\<close>

lemma fast_step_between:
  assumes "old \<noteq> 0"
  shows "min old s \<le> fast_step old s" and "fast_step old s \<le> max old s"
  using assms by (auto simp: fast_step_def min_def max_def)

lemma record_rtt_ewma:
  "rtt_ewma_us (record_rtt now d r) = fast_step (rtt_ewma_us r) (as_micros d)"
  by (simp add: record_rtt_def Let_def frame_simps)

lemma record_rtt_class:
  "rtt_class_us (record_rtt now d r) =
     rtt_class_us (update_class now (fast_step (rtt_ewma_us r) (as_micros d))
       (update_stable now (as_micros d) (fast_step (rtt_ewma_us r) (as_micros d))
         ((note_loop_rtt now d r)\<lparr>rtt_ewma_us := fast_step (rtt_ewma_us r) (as_micros d)\<rparr>)))"
  by (simp add: record_rtt_def Let_def frame_simps)

lemma record_rtt_class_between:
  assumes "rtt_class_us r \<noteq> 0"
  shows "min (rtt_class_us r) (fast_step (rtt_ewma_us r) (as_micros d))
           \<le> rtt_class_us (record_rtt now d r)"
    and "rtt_class_us (record_rtt now d r)
           \<le> max (rtt_class_us r) (fast_step (rtt_ewma_us r) (as_micros d))"
proof -
  let ?f = "fast_step (rtt_ewma_us r) (as_micros d)"
  let ?r = "update_stable now (as_micros d) ?f ((note_loop_rtt now d r)\<lparr>rtt_ewma_us := ?f\<rparr>)"
  have "rtt_class_us ?r = rtt_class_us r" by (simp add: frame_simps)
  then show "min (rtt_class_us r) ?f \<le> rtt_class_us (record_rtt now d r)"
    and "rtt_class_us (record_rtt now d r) \<le> max (rtt_class_us r) ?f"
    using update_class_between[where r = "?r" and now = now and f = "?f"] assms
    by (simp_all add: record_rtt_class)
qed

text \<open>
  A run of samples that all lie in \<open>[lo, hi]\<close> keeps every clock of the path inside it, once
  they are: no outlier can be manufactured by the averaging or by the hold ratchets.
\<close>

definition clocks_in :: "nat \<Rightarrow> nat \<Rightarrow> rtt_state \<Rightarrow> bool" where
  "clocks_in lo hi r \<longleftrightarrow>
     (rtt_ewma_us r = 0 \<or> lo \<le> rtt_ewma_us r \<and> rtt_ewma_us r \<le> hi)
     \<and> (rtt_stable_us r = 0 \<or> lo \<le> rtt_stable_us r \<and> rtt_stable_us r \<le> hi)
     \<and> (rtt_class_us r = 0 \<or> lo \<le> rtt_class_us r \<and> rtt_class_us r \<le> hi)"

lemma fast_step_in:
  assumes "lo \<le> s" "s \<le> hi" "old = 0 \<or> lo \<le> old \<and> old \<le> hi"
  shows "lo \<le> fast_step old s" and "fast_step old s \<le> hi"
  using assms fast_step_between[of old s] by (auto simp: fast_step_def)

lemma update_stable_in:
  assumes "lo \<le> s" "s \<le> hi" "lo \<le> f" "f \<le> hi"
    and "rtt_stable_us r = 0 \<or> lo \<le> rtt_stable_us r \<and> rtt_stable_us r \<le> hi"
  shows "lo \<le> rtt_stable_us (update_stable now s f r) \<and> rtt_stable_us (update_stable now s f r) \<le> hi"
proof (cases "rtt_stable_us r = 0")
  case False
  then have "lo \<le> rtt_stable_us r" "rtt_stable_us r \<le> hi" using assms by auto
  moreover have "lo \<le> hold_step (rtt_stable_us r) f" "hold_step (rtt_stable_us r) f \<le> hi"
    using hold_step_between[of "rtt_stable_us r" f] calculation assms(3,4) by linarith+
  moreover have "lo \<le> (rtt_stable_us r * 3 + s) div 4" "(rtt_stable_us r * 3 + s) div 4 \<le> hi"
    using calculation assms(1,2) by linarith+
  ultimately show ?thesis using False by (simp add: update_stable_def Let_def)
qed (use assms in \<open>simp add: update_stable_def Let_def\<close>)

lemma record_rtt_in:
  assumes c: "clocks_in lo hi r" and s: "lo \<le> as_micros d" "as_micros d \<le> hi"
  shows "clocks_in lo hi (record_rtt now d r)"
proof -
  let ?f = "fast_step (rtt_ewma_us r) (as_micros d)"
  let ?q = "(note_loop_rtt now d r)\<lparr>rtt_ewma_us := ?f\<rparr>"
  have f: "lo \<le> ?f" "?f \<le> hi" using c s by (auto simp: clocks_in_def intro!: fast_step_in)
  have st: "lo \<le> rtt_stable_us (record_rtt now d r) \<and> rtt_stable_us (record_rtt now d r) \<le> hi"
    using update_stable_in[OF s f, of ?q now] c
    by (simp add: record_rtt_def Let_def frame_simps clocks_in_def)
  have cl: "rtt_class_us (record_rtt now d r) = 0 \<or>
      lo \<le> rtt_class_us (record_rtt now d r) \<and> rtt_class_us (record_rtt now d r) \<le> hi"
  proof (cases "rtt_class_us r = 0")
    case True
    then show ?thesis using f
      by (auto simp: record_rtt_class update_class_init frame_simps)
  next
    case False
    then show ?thesis
      using record_rtt_class_between[where r = r and d = d and now = now] c f by (auto simp: clocks_in_def)
  qed
  show ?thesis using f st cl by (simp add: clocks_in_def record_rtt_ewma)
qed

section \<open>Pongs\<close>

lemma feed_pong_frame [simp]:
  "pending_ping (feed_pong now rec cap t p) = pending_ping p"
  "late_ping (feed_pong now rec cap t p) = late_ping p"
  "next_ping_seq (feed_pong now rec cap t p) = next_ping_seq p"
  "pending_acks (feed_pong now rec cap t p) = pending_acks p"
  "bud (feed_pong now rec cap t p) = bud p" "urgent_q (feed_pong now rec cap t p) = urgent_q p"
  "writer_q (feed_pong now rec cap t p) = writer_q p"
  "queue_cap (feed_pong now rec cap t p) = queue_cap p"
  "pstate (feed_pong now rec cap t p) = pstate p" "inflight (feed_pong now rec cap t p) = inflight p"
  by (simp_all add: feed_pong_def Let_def)

lemma delete_id_None: "map_of m k = None \<Longrightarrow> AList.delete k m = m"
  by (simp add: map_of_eq_None_iff)

lemma pong_tables:
  "next_ping_seq (on_pong_record now k rec cap al p) = next_ping_seq p"
  "pending_ping (on_pong_record now k rec cap al p) = AList.delete k (pending_ping p)"
  "late_ping (on_pong_record now k rec cap al p) =
     (if map_of (pending_ping p) k = None then AList.delete k (late_ping p) else late_ping p)"
  by (auto simp: on_pong_record_def Let_def delete_id_None split: option.splits)

lemma pong_frame [frame_simps]:
  "pending_acks (on_pong_record now k rec cap al p) = pending_acks p"
  "bud (on_pong_record now k rec cap al p) = bud p"
  "urgent_q (on_pong_record now k rec cap al p) = urgent_q p"
  "writer_q (on_pong_record now k rec cap al p) = writer_q p"
  "queue_cap (on_pong_record now k rec cap al p) = queue_cap p"
  "pstate (on_pong_record now k rec cap al p) = pstate p"
  "inflight (on_pong_record now k rec cap al p) = inflight p"
  by (auto simp: on_pong_record_def Let_def split: option.splits)

text \<open>A Pong the tables do not know leaves the path as it is.\<close>

lemma on_pong_unknown:
  "map_of (pending_ping p) q = None \<Longrightarrow> map_of (late_ping p) q = None
     \<Longrightarrow> on_pong_record now q rec cap al p = p"
  by (simp add: on_pong_record_def)

text \<open>An expired Pong on a path that does not take late samples feeds no clock.\<close>

lemma on_pong_late:
  "map_of (pending_ping p) q = None \<Longrightarrow> rtts (on_pong_record now q rec cap False p) = rtts p"
  by (auto simp: on_pong_record_def Let_def split: option.splits)

lemma on_pong_norecord: "rtts (on_pong_record now q False cap al p) = rtts p"
  by (auto simp: on_pong_record_def feed_pong_def Let_def split: option.splits)

lemma on_pong_capped:
  assumes "map_of (pending_ping p) q = Some t0" and "elapsed now t0 > c"
  shows "rtts (on_pong_record now q rec (Some c) al p) = rtts p"
  using assms by (auto simp: on_pong_record_def feed_pong_def Let_def)

section \<open>Properties\<close>

text \<open>
  RTT averaging manufactures no outlier: a sample inside an interval keeps the fast, the
  stable and the class clock of the path inside it, once they are.
\<close>

lemma rtt_clocks_confined:
  assumes "clocks_in lo hi r" and "lo \<le> as_micros d" and "as_micros d \<le> hi"
  shows "clocks_in lo hi (record_rtt now d r)"
  using assms by (rule record_rtt_in)

text \<open>
  The class clock goes up only on evidence that held: it rises only when the fast clock
  clears the bar and has been clear of it for the whole hold of the path, and then by at most
  one eighth of the gap.
\<close>

lemma class_clock_raise:
  assumes "rtt_class_us r \<noteq> 0" and "rtt_class_us r < rtt_class_us (update_class now f r)"
  shows "raise_bar (rtt_class_us r) f
    \<and> from_micros (stable_up_hold_us r) \<le> elapsed now (get_or_insert now (class_high_since r))
    \<and> rtt_class_us (update_class now f r) = hold_step (rtt_class_us r) f
    \<and> rtt_class_us (update_class now f r) \<le> f"
proof -
  have "rtt_class_us (update_class now f r) = hold_step (rtt_class_us r) f"
    using update_class_cases[OF assms(1), of now f] assms(2) by auto
  moreover have "rtt_class_us (update_class now f r) \<le> f"
    using update_class_between(2)[OF assms(1), of now f] assms(2) by (simp add: max_def split: if_splits)
  ultimately show ?thesis using update_class_raise[OF assms] by simp
qed

end
