(* ===== verification/Path_Budget.thy ===== *)
theory Path_Budget
  imports Path_Rtt
begin

text \<open>
  \<open>nya-core/src/path.rs\<close>, the loaded-loop clocks and the budget controller: the ACK RTT
  and its freshness, the sojourn estimates bulk placement compares, the bandwidth filter of
  a path and the round-based controller of its overlay window.
\<close>

definition BUDGET_GROW :: f64 where "BUDGET_GROW = F64 3 1"
definition BUDGET_GROWTH_MIN :: f64 where "BUDGET_GROWTH_MIN = F64 5404319552844595 55"
definition BUDGET_FULL_ROUNDS :: nat where "BUDGET_FULL_ROUNDS = 3"
definition BUDGET_PROBE :: f64 where "BUDGET_PROBE = F64 5 2"
definition BUDGET_PROBE_EVERY :: nat where "BUDGET_PROBE_EVERY = 4"
definition BUDGET_IDLE_SHRINK :: nat where "BUDGET_IDLE_SHRINK = 8"
definition BUDGET_CAP_GAIN :: nat where "BUDGET_CAP_GAIN = 3"

definition bw_mul :: "nat \<Rightarrow> f64 \<Rightarrow> nat" where
  "bw_mul v g = f64_to_u64 (f64_min (f64_mul (f64_of_nat v) g) (f64_of_nat u64_max))"

section \<open>The loaded loop\<close>

definition ack_rtt :: "path_state \<Rightarrow> duration option" where
  "ack_rtt p = (if ack_rtt_us (bud p) = 0 then None else Some (from_micros (ack_rtt_us (bud p))))"

definition record_ack_rtt :: "instant \<Rightarrow> duration \<Rightarrow> path_state \<Rightarrow> path_state" where
  "record_ack_rtt now d p =
     (let s = max (as_micros d) 1; cur = ack_rtt_us (bud p)
      in p\<lparr>bud := (bud p)\<lparr>ack_rtt_at_us := max (mono_us now) 1,
                          ack_rtt_us := (if cur = 0 then s else ewma8 cur s)\<rparr>\<rparr>)"

definition bw_window_us :: "path_state \<Rightarrow> nat" where
  "bw_window_us p =
     max ((if rtt_known p then as_micros (rtt p) else unknown_rtt_us STANDARD) * 10) 100000"

definition ack_rtt_fresh :: "instant \<Rightarrow> path_state \<Rightarrow> duration option" where
  "ack_rtt_fresh now p =
     (case ack_rtt p of None \<Rightarrow> None
      | Some a \<Rightarrow>
          if inflight p = 0
             \<and> (ack_rtt_at_us (bud p) = 0
                \<or> mono_us now - ack_rtt_at_us (bud p) > bw_window_us p)
          then None else Some a)"

definition loaded_sojourn :: "instant \<Rightarrow> path_state \<Rightarrow> duration option" where
  "loaded_sojourn now p =
     (let outstanding = inflight p > 0 in
      case ack_rtt_fresh now p of
        Some a \<Rightarrow> if outstanding then Some (max a (last_rx_ago now p)) else Some a
      | None \<Rightarrow>
          if outstanding
          then Some (max (case min_rtt now p of Some m \<Rightarrow> m | None \<Rightarrow> rtt p) (last_rx_ago now p))
          else None)"

definition decayed_sojourn :: "instant \<Rightarrow> path_state \<Rightarrow> duration option" where
  "decayed_sojourn now p =
     (case ack_rtt p of None \<Rightarrow> None
      | Some lst \<Rightarrow>
     (case min_rtt now p of None \<Rightarrow> None
      | Some m \<Rightarrow>
          if ack_rtt_at_us (bud p) = 0 then None
          else (let age = mono_us now - ack_rtt_at_us (bud p);
                    frac = f64_sub (F64 1 0)
                             (f64_min (f64_div (f64_of_nat age) (f64_of_nat MIN_RTT_WIN_US)) (F64 1 0))
                in Some (m + mul_f64 (lst - m) frac))))"

definition sojourn :: "instant \<Rightarrow> path_state \<Rightarrow> duration option" where
  "sojourn now p = or_else (or_else (loaded_sojourn now p) (decayed_sojourn now p)) (min_rtt now p)"

definition loop_fit ::
  "instant \<Rightarrow> session_config \<Rightarrow> duration option \<Rightarrow> path_state \<Rightarrow> bool \<times> path_state" where
  "loop_fit now cfg pool_ref p =
     (let fit = (case (or_else (loaded_sojourn now p) (decayed_sojourn now p), pool_ref) of
                   (Some a, Some r) \<Rightarrow> \<not> is_backup cfg a r
                 | _ \<Rightarrow> True);
          was = loop_fit_last p;
          p1 = p\<lparr>loop_fit_last := fit\<rparr>
      in (fit, if was \<and> \<not> fit then p1\<lparr>loop_unfit_total := loop_unfit_total p1 + 1\<rparr> else p1))"

definition bw_bytes_s :: "instant \<Rightarrow> path_state \<Rightarrow> nat" where
  "bw_bytes_s now p = mm_get (bw_filter (bud p)) (mono_us now) (bw_window_us p)"

section \<open>The controller\<close>

definition note_budget_limited :: "path_state \<Rightarrow> path_state" where
  "note_budget_limited p = p\<lparr>bud := (bud p)\<lparr>round_limited := True\<rparr>\<rparr>"

definition budget_bytes :: "path_state \<Rightarrow> nat" where
  "budget_bytes p = clamp_nat (budget (bud p)) (budget_floor (bud p))
                      (max (budget_ceil (bud p)) (budget_floor (bud p)))"

definition room_bytes :: "path_state \<Rightarrow> nat" where
  "room_bytes p = budget_bytes p - inflight p"

text \<open>What a round observes before it decides: the locals of \<open>end_budget_round\<close>.\<close>

record round_obs =
  ro_floor :: nat
  ro_ceil :: nat
  ro_bw :: nat
  ro_full :: nat
  ro_cur :: nat
  ro_limited :: bool
  ro_step_now :: bool
  ro_stepped :: bool
  ro_pending :: nat
  ro_sagged :: bool
  ro_probe_from :: nat
  ro_carried :: nat

text \<open>The casts from \<open>u128\<close> to \<open>u64\<close> wrap.\<close>

definition wrap64 :: "nat \<Rightarrow> nat" where "wrap64 n = n mod 2 ^ 64"

definition round_rate :: "nat \<Rightarrow> budget_state \<Rightarrow> nat" where
  "round_rate now_us b =
     (let dd = delivered b - round_delivered b; dt = max (now_us - round_start_us b) 1
      in min (dd * 1000000 div dt) u64_max)"

text \<open>The windowed maximum of the lower of two consecutive rounds.\<close>

definition round_max :: "nat \<Rightarrow> budget_state \<Rightarrow> minmax3 \<times> nat" where
  "round_max now_us b =
     (let bw_now = round_rate now_us b; lst = last_round_bw b;
          confirmed = (if lst = 0 then bw_now else min bw_now lst)
      in mm_update (round_bw_max b) confirmed now_us MIN_RTT_WIN_US)"

definition round_ceil :: "instant \<Rightarrow> nat \<Rightarrow> path_state \<Rightarrow> nat" where
  "round_ceil now bw_max p =
     (let fl = budget_floor (bud p); ceil0 = max (budget_ceil (bud p)) fl;
          cap = (case min_rtt now p of
                   Some m \<Rightarrow> if bw_max > 0
                             then max (sat_mul (wrap64 (bw_max * as_micros m div 1000000))
                                         BUDGET_CAP_GAIN) fl
                             else ceil0
                 | None \<Rightarrow> ceil0)
      in max (min ceil0 cap) fl)"

definition clears_step :: "nat \<Rightarrow> nat \<Rightarrow> bool" where
  "clears_step full bw_now \<longleftrightarrow>
     f64_le (f64_mul (f64_of_nat full) (f64_add (F64 1 0) BUDGET_GROWTH_MIN)) (f64_of_nat bw_now)"

definition below_sag :: "nat \<Rightarrow> nat \<Rightarrow> bool" where
  "below_sag full bw_now \<longleftrightarrow>
     full > 0 \<and> f64_less (f64_of_nat bw_now)
                   (f64_mul (f64_of_nat full) (f64_sub (F64 1 0) BUDGET_GROWTH_MIN))"

definition clears_probe :: "nat \<Rightarrow> nat \<Rightarrow> bool" where
  "clears_probe full bw_now \<longleftrightarrow>
     f64_le (f64_mul (f64_of_nat full)
               (f64_add (F64 1 0) (f64_div BUDGET_GROWTH_MIN (F64 2 0)))) (f64_of_nat bw_now)"

definition round_observe :: "instant \<Rightarrow> nat \<Rightarrow> path_state \<Rightarrow> round_obs \<times> budget_state" where
  "round_observe now now_us p =
    (let b = bud p;
         bw_now = round_rate now_us b;
         upd = round_max now_us b;
         cl = round_ceil now (snd upd) p;
         step_now = clears_step (round_bw_ref b) bw_now;
         stepped = (step_now \<and> prev_round_bw b \<noteq> 0);
         loop_us = (case ack_rtt_fresh now p of Some d \<Rightarrow> as_micros d | None \<Rightarrow> 0)
     in (\<lparr>ro_floor = budget_floor b, ro_ceil = cl, ro_bw = bw_now, ro_full = round_bw_ref b,
          ro_cur = clamp_nat (budget b) (budget_floor b) cl,
          ro_limited = round_limited b, ro_step_now = step_now, ro_stepped = stepped,
          ro_pending = prev_round_bw b, ro_sagged = below_sag (round_bw_ref b) bw_now,
          ro_probe_from = probe_from b,
          ro_carried = wrap64 (bw_now * loop_us div 1000000)\<rparr>,
         b\<lparr>round_start_us := now_us, round_delivered := delivered b, last_round_bw := bw_now,
           round_bw_max := fst upd, round_limited := False,
           prev_round_bw := (if step_now \<and> \<not> stepped then bw_now else 0),
           probe_from := 0\<rparr>))"

definition settle :: "round_obs \<Rightarrow> nat" where
  "settle ro = max (min (ro_cur ro) (sat_mul (ro_carried ro) 2)) (ro_floor ro)"

text \<open>The step/sag bookkeeping. \<open>True\<close> is the early return of a confirmed sag.\<close>

definition round_track :: "round_obs \<Rightarrow> budget_state \<Rightarrow> bool \<times> budget_state" where
  "round_track ro b =
    (if ro_stepped ro then
       (False, b\<lparr>round_bw_ref := min (ro_bw ro) (ro_pending ro), flat_rounds := 0, sag_rounds := 0\<rparr>)
     else if ro_step_now ro then (False, b\<lparr>sag_rounds := 0\<rparr>)
     else if ro_sagged ro then
       (let sag = sag_rounds b + 1; b1 = b\<lparr>sag_rounds := sag\<rparr> in
        if sag \<ge> BUDGET_FULL_ROUNDS
        then (True, b1\<lparr>round_bw_ref := ro_bw ro, prev_round_bw := 0, flat_rounds := 0,
                       sag_rounds := 0, idle_rounds := 0,
                       budget := clamp_nat (settle ro) (ro_floor ro) (ro_ceil ro)\<rparr>)
        else (False, b1))
     else (False, b\<lparr>sag_rounds := 0\<rparr>))"

definition round_next :: "round_obs \<Rightarrow> budget_state \<Rightarrow> nat \<times> budget_state" where
  "round_next ro b =
    (if ro_limited ro then
       (let b1 = b\<lparr>idle_rounds := 0\<rparr> in
        if ro_probe_from ro \<noteq> 0 then
          (if clears_probe (ro_full ro) (ro_bw ro)
           then (ro_cur ro, b1\<lparr>round_bw_ref := ro_bw ro, flat_rounds := 0\<rparr>)
           else (ro_probe_from ro, b1))
        else if ro_stepped ro then (bw_mul (ro_cur ro) BUDGET_GROW, b1)
        else if ro_step_now ro then (ro_cur ro, b1)
        else (let flat = flat_rounds b1 + 1; b2 = b1\<lparr>flat_rounds := flat\<rparr> in
              if flat \<ge> BUDGET_FULL_ROUNDS \<and> (flat - BUDGET_FULL_ROUNDS) mod BUDGET_PROBE_EVERY = 0
              then (bw_mul (ro_cur ro) BUDGET_PROBE, b2\<lparr>probe_from := ro_cur ro\<rparr>)
              else (ro_cur ro, b2)))
     else (let idle = idle_rounds b + 1; b1 = b\<lparr>idle_rounds := idle\<rparr> in
           if idle \<ge> BUDGET_IDLE_SHRINK then (settle ro, b1) else (ro_cur ro, b1)))"

definition end_budget_round :: "instant \<Rightarrow> nat \<Rightarrow> path_state \<Rightarrow> path_state" where
  "end_budget_round now now_us p =
    (let (ro, b0) = round_observe now now_us p;
         (returned, b1) = round_track ro b0
     in if returned then p\<lparr>bud := b1\<rparr>
        else (let (next, b2) = round_next ro b1
              in p\<lparr>bud := b2\<lparr>budget := clamp_nat next (ro_floor ro) (ro_ceil ro)\<rparr>\<rparr>))"

definition note_bw_sample :: "instant \<Rightarrow> nat \<Rightarrow> nat \<Rightarrow> path_state \<Rightarrow> path_state" where
  "note_bw_sample now bytes_s now_us p =
    (let win = bw_window_us p;
         was = mm_get (bw_filter (bud p)) now_us win;
         p1 = p\<lparr>bud := (bud p)\<lparr>bw_filter := fst (mm_update (bw_filter (bud p)) bytes_s now_us win)\<rparr>\<rparr>;
         b1 = bud p1
     in if was = 0 then
          p1\<lparr>bud := b1\<lparr>budget := budget_floor b1, round_start_us := now_us,
               round_delivered := delivered b1, prev_round_bw := 0, last_round_bw := 0,
               round_bw_ref := 0, round_limited := False, flat_rounds := 0, sag_rounds := 0,
               idle_rounds := 0, probe_from := 0\<rparr>\<rparr>
        else
          (let round_us = max (case or_else (ack_rtt_fresh now p1) (min_rtt now p1) of
                                 Some d \<Rightarrow> as_micros d
                               | None \<Rightarrow> unknown_rtt_us STANDARD) 1
           in if now_us - round_start_us b1 < round_us then p1
              else end_budget_round now now_us p1))"

section \<open>Loops and sojourns\<close>

lemma record_ack_rtt_pos: "ack_rtt (record_ack_rtt now d p) \<noteq> None"
  by (auto simp: ack_rtt_def record_ack_rtt_def Let_def ewma8_def)

text \<open>An outstanding path always has a loaded sojourn, and it is at least its silence.\<close>

lemma loaded_sojourn_outstanding:
  assumes "inflight p > 0"
  shows "\<exists>s. loaded_sojourn now p = Some s \<and> last_rx_ago now p \<le> s"
  using assms by (auto simp: loaded_sojourn_def Let_def split: option.splits)

lemma loaded_sojourn_idle:
  "inflight p = 0 \<Longrightarrow> loaded_sojourn now p = ack_rtt_fresh now p"
  by (auto simp: loaded_sojourn_def Let_def split: option.splits)

lemma decayed_sojourn_ge:
  "decayed_sojourn now p = Some s \<Longrightarrow> \<exists>m. min_rtt now p = Some m \<and> m \<le> s"
  by (auto simp: decayed_sojourn_def Let_def split: option.splits if_splits)

lemma loop_fit_frame [frame_simps]:
  "pid (snd (loop_fit now cfg r p)) = pid p" "inflight (snd (loop_fit now cfg r p)) = inflight p"
  "bud (snd (loop_fit now cfg r p)) = bud p" "rtts (snd (loop_fit now cfg r p)) = rtts p"
  "pstate (snd (loop_fit now cfg r p)) = pstate p"
  "last_rx (snd (loop_fit now cfg r p)) = last_rx p"
  by (auto simp: loop_fit_def Let_def)

text \<open>The counter moves exactly on a transition from fit to unfit.\<close>

lemma loop_fit_counts:
  "loop_unfit_total (snd (loop_fit now cfg r p)) =
     loop_unfit_total p + (if loop_fit_last p \<and> \<not> fst (loop_fit now cfg r p) then 1 else 0)"
  by (auto simp: loop_fit_def Let_def)

section \<open>The budget stays in its band\<close>

lemma bw_mul_mono: "m \<le> n \<Longrightarrow> bw_mul m g \<le> bw_mul n g"
proof -
  assume mn: "m \<le> n"
  obtain a i where g: "g = F64 a i" by (cases g)
  have r: "rnd53 (rnd53 m * a) \<le> rnd53 (rnd53 n * a)" using mn by (intro rnd53_mono mult_le_mono1)
  then have d: "rnd53 (rnd53 m * a) div 2 ^ i \<le> rnd53 (rnd53 n * a) div 2 ^ i" by (rule div_le_mono)
  show ?thesis
  proof (cases "rnd53 (rnd53 n * a) \<le> rnd53 u64_max * 2 ^ i")
    case True
    then have "rnd53 (rnd53 m * a) \<le> rnd53 u64_max * 2 ^ i" using r by simp
    then show ?thesis using True d by (simp add: bw_mul_def g f64_of_nat_def f64_min_def min.coboundedI1)
  next
    case False
    have "f64_to_u64 x \<le> f64_to_u64 (f64_of_nat u64_max)" for x
    proof -
      have "u64_max \<le> rnd53 u64_max" by (simp add: f64_eval)
      then have "f64_to_u64 (f64_of_nat u64_max) = u64_max" by (simp add: f64_of_nat_def)
      then show ?thesis using f64_to_u64_le[of x] by simp
    qed
    then show ?thesis using False by (simp add: bw_mul_def g f64_of_nat_def f64_min_def)
  qed
qed

text \<open>Below \<open>2^50\<close> the growth factors are exact.\<close>

lemma bw_mul_grow: "v < 2 ^ 50 \<Longrightarrow> bw_mul v BUDGET_GROW = v * 3 div 2"
  and bw_mul_probe: "v < 2 ^ 50 \<Longrightarrow> bw_mul v BUDGET_PROBE = v * 5 div 4"
proof -
  assume v: "v < 2 ^ 50"
  have u: "rnd53 18446744073709551615 = 18446744073709551616" by (simp add: f64_eval)
  show "bw_mul v BUDGET_GROW = v * 3 div 2"
    using v by (simp add: bw_mul_def BUDGET_GROW_def f64_of_nat_def rnd53_exact u f64_min_def u64_max_def)
  show "bw_mul v BUDGET_PROBE = v * 5 div 4"
    using v by (simp add: bw_mul_def BUDGET_PROBE_def f64_of_nat_def rnd53_exact u f64_min_def u64_max_def)
qed

lemma round_ceil_bounds:
  shows "budget_floor (bud p) \<le> round_ceil now m p"
    and "round_ceil now m p \<le> max (budget_ceil (bud p)) (budget_floor (bud p))"
  by (simp_all add: round_ceil_def Let_def)

lemma round_observe_bounds:
  assumes "round_observe now now_us p = (ro, b)"
  shows "ro_floor ro = budget_floor (bud p)" and "ro_floor ro \<le> ro_ceil ro"
    and "ro_ceil ro \<le> max (budget_ceil (bud p)) (budget_floor (bud p))"
    and "ro_floor ro \<le> ro_cur ro" and "ro_cur ro \<le> ro_ceil ro"
    and "ro_cur ro = clamp_nat (budget (bud p)) (ro_floor ro) (ro_ceil ro)"
    and "ro_stepped ro \<longleftrightarrow> ro_step_now ro \<and> prev_round_bw (bud p) \<noteq> 0"
    and "ro_limited ro = round_limited (bud p)" and "ro_probe_from ro = probe_from (bud p)"
    and "ro_pending ro = prev_round_bw (bud p)"
    and "budget_floor b = budget_floor (bud p)" and "budget_ceil b = budget_ceil (bud p)"
    and "prev_round_bw b = (if ro_step_now ro \<and> \<not> ro_stepped ro then ro_bw ro else 0)"
    and "flat_rounds b = flat_rounds (bud p)" and "probe_from b = 0"
  using assms
  by (auto simp: round_observe_def Let_def clamp_nat_bounds round_ceil_bounds
      simp del: max.bounded_iff le_max_iff_disj)

lemma round_track_frame:
  assumes "round_track ro b = (ret, b')"
  shows "budget_floor b' = budget_floor b" "budget_ceil b' = budget_ceil b" "probe_from b' = probe_from b"
    and "\<not> ret \<Longrightarrow> budget b' = budget b"
    and "\<not> ret \<Longrightarrow> flat_rounds b' = (if ro_stepped ro then 0 else flat_rounds b)"
    and "ret \<Longrightarrow> budget b' = clamp_nat (settle ro) (ro_floor ro) (ro_ceil ro)
              \<and> ro_sagged ro \<and> \<not> ro_step_now ro \<and> BUDGET_FULL_ROUNDS \<le> sag_rounds b + 1
              \<and> round_bw_ref b' = ro_bw ro"
  using assms by (auto simp: round_track_def Let_def split: if_splits)

lemma round_next_frame:
  assumes "round_next ro b = (n, b')"
  shows "budget_floor b' = budget_floor b" "budget_ceil b' = budget_ceil b"
  using assms by (auto simp: round_next_def Let_def split: if_splits)

lemma end_budget_round_cases:
  obtains ro b0 b1 where "round_observe now now_us p = (ro, b0)" "round_track ro b0 = (True, b1)"
      "end_budget_round now now_us p = p\<lparr>bud := b1\<rparr>"
  | ro b0 b1 n b2 where "round_observe now now_us p = (ro, b0)" "round_track ro b0 = (False, b1)"
      "round_next ro b1 = (n, b2)"
      "end_budget_round now now_us p
         = p\<lparr>bud := b2\<lparr>budget := clamp_nat n (ro_floor ro) (ro_ceil ro)\<rparr>\<rparr>"
proof -
  obtain ro b0 where 1: "round_observe now now_us p = (ro, b0)" by (cases "round_observe now now_us p")
  obtain ret b1 where 2: "round_track ro b0 = (ret, b1)" by (cases "round_track ro b0")
  obtain n b2 where 3: "round_next ro b1 = (n, b2)" by (cases "round_next ro b1")
  show thesis
    using that 1 2 3 by (cases ret) (simp_all add: end_budget_round_def)
qed

lemma end_budget_round_band:
  "budget_floor (bud (end_budget_round now now_us p)) = budget_floor (bud p)"
  "budget_ceil (bud (end_budget_round now now_us p)) = budget_ceil (bud p)"
  "budget_floor (bud p) \<le> budget (bud (end_budget_round now now_us p))"
  "budget (bud (end_budget_round now now_us p))
     \<le> max (budget_ceil (bud p)) (budget_floor (bud p))"
proof -
  have "budget_floor (bud (end_budget_round now now_us p)) = budget_floor (bud p)
      \<and> budget_ceil (bud (end_budget_round now now_us p)) = budget_ceil (bud p)
      \<and> budget_floor (bud p) \<le> budget (bud (end_budget_round now now_us p))
      \<and> budget (bud (end_budget_round now now_us p)) \<le> max (budget_ceil (bud p)) (budget_floor (bud p))"
  proof (cases rule: end_budget_round_cases[of now now_us p])
    case (1 ro b0 b1)
    note o = round_observe_bounds[OF 1(1)] and t = round_track_frame[OF 1(2)]
    have "budget b1 = clamp_nat (settle ro) (ro_floor ro) (ro_ceil ro)" using t by simp
    then show ?thesis
      using 1(3) o(1-3,11,12) t(1,2) clamp_nat_bounds[OF o(2), of "settle ro"] by simp
  next
    case (2 ro b0 b1 n b2)
    note o = round_observe_bounds[OF 2(1)]
      and t = round_track_frame[OF 2(2)] and x = round_next_frame[OF 2(3)]
    show ?thesis
      using 2(4) o(1-3,11,12) t(1,2) x clamp_nat_bounds[OF o(2), of n] by simp
  qed
  then show
    "budget_floor (bud (end_budget_round now now_us p)) = budget_floor (bud p)"
    "budget_ceil (bud (end_budget_round now now_us p)) = budget_ceil (bud p)"
    "budget_floor (bud p) \<le> budget (bud (end_budget_round now now_us p))"
    "budget (bud (end_budget_round now now_us p))
       \<le> max (budget_ceil (bud p)) (budget_floor (bud p))" by blast+
qed

section \<open>When the budget may grow\<close>

lemma clamp_nat_le: "lo \<le> hi \<Longrightarrow> lo \<le> c \<Longrightarrow> n \<le> c \<Longrightarrow> clamp_nat n lo hi \<le> c"
  by (auto simp: clamp_nat_def)

lemma settle_le: "ro_floor ro \<le> ro_cur ro \<Longrightarrow> settle ro \<le> ro_cur ro"
  by (simp add: settle_def)

lemma clamp_nat_cur_le: "ro_cur ro \<le> budget b \<or> ro_cur ro \<le> ro_floor ro" if
  "ro_cur ro = clamp_nat (budget b) (ro_floor ro) (ro_ceil ro)" "ro_floor ro \<le> ro_ceil ro"
  using that by (auto simp: clamp_nat_def)

text \<open>
  A round leaves the budget at most where it was (clamped), except that a limited round
  which confirmed a bandwidth step may multiply it by 3/2, a limited round on the probe
  cadence by 5/4, and a probe round may go back to the allowance the probe started from.
\<close>

lemma round_growth:
  assumes "round_observe now now_us p = (ro, b0)"
  shows "budget (bud (end_budget_round now now_us p)) \<le>
    (if round_limited (bud p) \<and> probe_from (bud p) \<noteq> 0 then max (ro_cur ro) (probe_from (bud p))
     else if round_limited (bud p) \<and> ro_stepped ro then max (ro_cur ro) (bw_mul (ro_cur ro) BUDGET_GROW)
     else if round_limited (bud p) \<and> \<not> ro_step_now ro then max (ro_cur ro) (bw_mul (ro_cur ro) BUDGET_PROBE)
     else ro_cur ro)"
proof -
  note o = round_observe_bounds[OF assms]
  have key: "clamp_nat n (ro_floor ro) (ro_ceil ro) \<le> max (ro_cur ro) n" for n
    using o(2,4) by (intro clamp_nat_le) auto
  have s: "settle ro \<le> ro_cur ro" using o(4) by (rule settle_le)
  show ?thesis
  proof (cases rule: end_budget_round_cases[of now now_us p])
    case (1 ro' b0' b1)
    then have eq: "ro' = ro" using assms by simp
    have "budget (bud (end_budget_round now now_us p)) \<le> ro_cur ro"
      using 1 round_track_frame(6)[OF 1(2)] key[of "settle ro"] s by (simp add: eq)
    then show ?thesis by auto
  next
    case (2 ro' b0' b1 n b2)
    then have eq: "ro' = ro" using assms by simp
    have b: "budget (bud (end_budget_round now now_us p)) \<le> max (ro_cur ro) n"
      using 2(4) key[of n] by (simp add: eq)
    show ?thesis
      using 2(3) b s o(8,9) unfolding eq
      by (auto simp: round_next_def Let_def split: if_splits)
  qed
qed

end
