(* ===== verification/Path_Writer.thy ===== *)
theory Path_Writer
  imports Path_Budget "HOL-Library.Multiset"
begin

text \<open>
  \<open>nya-core/src/path.rs\<close>, the writer task of \<open>spawn_path_io\<close>: the ping schedule with its
  timer, the flush of pending ACKs, and the biased choice between closing, pinging, ACKs,
  the urgent queue and the bulk queue. One iteration of the loop is one function; what the
  runtime decides (how a write ends, when it ends, whether the close signal has fired) is
  an argument. A frame handed to the sink is \<open>written\<close>.
\<close>

section \<open>The ping schedule\<close>

definition ms1 :: duration where "ms1 = from_millis 1"

definition ping_due :: "instant \<Rightarrow> instant \<Rightarrow> bool \<Rightarrow> duration \<Rightarrow> path_state \<Rightarrow> bool" where
  "ping_due now next_at dead ping_every p \<longleftrightarrow>
     now \<ge> next_at \<and> is_alive p \<and> \<not> dead \<and> should_send_ping p (last_rx_ago now p) ping_every"

definition ping_wait ::
  "instant \<Rightarrow> instant \<Rightarrow> duration \<Rightarrow> duration \<Rightarrow> duration \<Rightarrow> path_state \<Rightarrow> instant" where
  "ping_wait now next_at ping_every loss_for maintain_tick p =
    (let gate = max ping_every ms1; ago = last_rx_ago now p in
     if now < next_at then next_at
     else case pending_ping_age now p of
       Some age \<Rightarrow> now + clamp_nat (loss_for - age) (min maintain_tick gate) gate
     | None \<Rightarrow> if ago < ping_every then now + max (ping_every - ago) ms1 else now + gate)"

section \<open>Writing\<close>

text \<open>How one \<open>write_one\<close> ends; the flag says that it passed its stall deadline.\<close>

datatype write_out = Sent bool | Interrupted bool | IoErr bool

fun out_stalled :: "write_out \<Rightarrow> bool" where
  "out_stalled (Sent b) = b" | "out_stalled (Interrupted b) = b" | "out_stalled (IoErr b) = b"

definition write_one :: "instant \<Rightarrow> write_out \<Rightarrow> path_state \<Rightarrow> path_state" where
  "write_one now out p =
     p\<lparr>last_tx := now,
       write_stalled := (if out_stalled out then True
                         else case out of Sent _ \<Rightarrow> False | _ \<Rightarrow> write_stalled p)\<rparr>"

definition hold_stream_data :: "path_state \<Rightarrow> frame \<Rightarrow> bool" where
  "hold_stream_data p f \<longleftrightarrow> (case f of StreamData _ \<Rightarrow> True | _ \<Rightarrow> False) \<and> \<not> rtt_known p"

text \<open>Park a held piece on the bulk queue; a full queue reports the frame as dropped.\<close>

definition park_stream_data :: "frame \<Rightarrow> path_state \<Rightarrow> frame option \<times> path_state" where
  "park_stream_data f p =
     (let p1 = note_enqueue False p in
      case try_send False f p1 of
        Some p2 \<Rightarrow> (None, p2) | None \<Rightarrow> (Some f, undo_enqueue False p1))"

text \<open>
  \<open>RestoreAcks\<close>: the rows taken off the register are written in order; when the writer is
  interrupted or fails, the row in flight and the rest go back through \<open>merge_ack\<close>.
\<close>

fun flush_acks ::
  "instant \<Rightarrow> (nat \<Rightarrow> write_out) \<Rightarrow> nat \<Rightarrow> stream_ack list \<Rightarrow> path_state
    \<Rightarrow> stream_ack list \<times> write_out option \<times> path_state" where
  "flush_acks now outs i [] p = ([], None, p)"
| "flush_acks now outs i (a # as) p =
     (let p1 = write_one now (outs i) p in
      case outs i of
        Sent _ \<Rightarrow> (let (w, r, p2) = flush_acks now outs (Suc i) as p1 in (a # w, r, p2))
      | _ \<Rightarrow> ([], Some (outs i), restore_acks as (merge_ack a p1)))"

text \<open>
  \<open>flush_urgent_then_close\<close>: drain the urgent queue until the deadline; the clock is read
  once per frame, and the frame taken after the deadline is lost with the path.
\<close>

fun flush_urgent :: "instant list \<Rightarrow> instant \<Rightarrow> path_state \<Rightarrow> frame list \<times> path_state" where
  "flush_urgent [] deadline p = ([], p)"
| "flush_urgent (t # ts) deadline p =
     (case urgent_q p of
        [] \<Rightarrow> ([], p)
      | f # fs \<Rightarrow>
          (let p1 = note_dequeue True (p\<lparr>urgent_q := fs\<rparr>) in
           if t \<ge> deadline then ([], p1)
           else (let (w, p2) = flush_urgent ts deadline (p1\<lparr>last_tx := t\<rparr>) in (f # w, p2))))"

section \<open>One iteration\<close>

record writer_env =
  we_close :: bool
  we_dead :: bool
  we_every :: duration
  we_loss :: duration
  we_tick :: duration
  we_ping_max :: duration
  we_outs :: "nat \<Rightarrow> write_out"
  we_done :: instant
  we_flush :: "instant list"

datatype writer_next = Loop instant | SleepUntil instant | Closed | Failed

record writer_res =
  wr_written :: "frame list"
  wr_dropped :: "frame list"
  wr_next :: writer_next
  wr_path :: path_state

definition after_write ::
  "writer_env \<Rightarrow> instant \<Rightarrow> frame list \<Rightarrow> write_out \<Rightarrow> instant \<Rightarrow> path_state \<Rightarrow> writer_res" where
  "after_write e now w out next_at p =
    (case out of
       Sent _ \<Rightarrow> \<lparr>wr_written = w, wr_dropped = [], wr_next = Loop next_at, wr_path = p\<rparr>
     | Interrupted _ \<Rightarrow>
         (let (u, p') = flush_urgent (we_flush e) (we_done e + we_ping_max e) p
          in \<lparr>wr_written = u, wr_dropped = [], wr_next = Closed, wr_path = p'\<rparr>)
     | IoErr _ \<Rightarrow> \<lparr>wr_written = [], wr_dropped = [], wr_next = Failed, wr_path = p\<rparr>)"

definition writer_step :: "writer_env \<Rightarrow> instant \<Rightarrow> instant \<Rightarrow> path_state \<Rightarrow> writer_res" where
  "writer_step e now next_at p =
    (if we_close e then
       (let (u, p') = flush_urgent (we_flush e) (now + we_ping_max e) p
        in \<lparr>wr_written = u, wr_dropped = [], wr_next = Closed, wr_path = p'\<rparr>)
     else if ping_due now next_at (we_dead e) (we_every e) p then
       (let (sq, p1) = next_ping now p; out = we_outs e 0; f = Ping \<lparr>ping_seq = sq, sent_at_ms = mono_ms now\<rparr>
        in after_write e now [f] out
             (case out of Sent _ \<Rightarrow> we_done e + we_every e | _ \<Rightarrow> next_at)
             (write_one now out p1))
     else if pending_acks p \<noteq> [] then
       (let (as, p1) = take_acks ACK_FLUSH_K p;
            (w, r, p2) = flush_acks now (we_outs e) 0 as p1
        in case r of
             None \<Rightarrow> \<lparr>wr_written = map StreamAck w, wr_dropped = [], wr_next = Loop next_at, wr_path = p2\<rparr>
           | Some out \<Rightarrow>
               (let r' = after_write e now [] out next_at p2
                in r'\<lparr>wr_written := map StreamAck w @ wr_written r'\<rparr>))
     else case urgent_q p of
       f # fs \<Rightarrow>
         (let p1 = note_dequeue True (p\<lparr>urgent_q := fs\<rparr>) in
          if hold_stream_data p1 f then
            (let (d, p2) = park_stream_data f p1
             in \<lparr>wr_written = [], wr_dropped = (case d of None \<Rightarrow> [] | Some g \<Rightarrow> [g]),
                 wr_next = Loop next_at, wr_path = p2\<rparr>)
          else after_write e now [f] (we_outs e 0) next_at (write_one now (we_outs e 0) p1))
     | [] \<Rightarrow>
         (case (rtt_known p, writer_q p) of
            (True, f # fs) \<Rightarrow>
              after_write e now [f] (we_outs e 0) next_at
                (write_one now (we_outs e 0) (note_dequeue False (p\<lparr>writer_q := fs\<rparr>)))
          | _ \<Rightarrow> \<lparr>wr_written = [], wr_dropped = [],
                 wr_next = SleepUntil (ping_wait now next_at (we_every e) (we_loss e) (we_tick e) p),
                 wr_path = p\<rparr>))"

section \<open>The timer never spins\<close>

lemma ping_wait_future:
  assumes tick: "ms1 \<le> tick" and idle: "\<not> ping_due now next_at dead ev p"
  shows "now < ping_wait now next_at ev loss tick p"
    and "next_at \<le> now \<Longrightarrow> now + ms1 \<le> ping_wait now next_at ev loss tick p"
proof -
  have g: "min tick (max ev ms1) \<le> max ev ms1" "ms1 \<le> min tick (max ev ms1)" using tick by auto
  have "now + ms1 \<le> ping_wait now next_at ev loss tick p" if "next_at \<le> now"
  proof (cases "pending_ping_age now p")
    case (Some age)
    have "ms1 \<le> clamp_nat (loss - age) (min tick (max ev ms1)) (max ev ms1)"
      using g(2) clamp_nat_bounds(1)[OF g(1), of "loss - age"] by (rule order.trans)
    then show ?thesis using that Some by (simp add: ping_wait_def Let_def)
  next
    case None
    then show ?thesis using that by (auto simp: ping_wait_def Let_def)
  qed
  then show "next_at \<le> now \<Longrightarrow> now + ms1 \<le> ping_wait now next_at ev loss tick p" .
  then show "now < ping_wait now next_at ev loss tick p"
    by (cases "next_at \<le> now") (auto simp: ms1_def from_millis_def ping_wait_def Let_def)
qed

section \<open>Frames are neither lost nor sent before the first Pong\<close>

lemma write_one_frame [simp]:
  "urgent_q (write_one now out p) = urgent_q p" "writer_q (write_one now out p) = writer_q p"
  "pending_acks (write_one now out p) = pending_acks p" "rtts (write_one now out p) = rtts p"
  "pending_ping (write_one now out p) = pending_ping p" "late_ping (write_one now out p) = late_ping p"
  "next_ping_seq (write_one now out p) = next_ping_seq p" "pstate (write_one now out p) = pstate p"
  "queue_cap (write_one now out p) = queue_cap p" "bud (write_one now out p) = bud p"
  by (simp_all add: write_one_def)

lemma note_dequeue_frame [simp]:
  "urgent_q (note_dequeue u p) = urgent_q p" "writer_q (note_dequeue u p) = writer_q p"
  "pending_acks (note_dequeue u p) = pending_acks p" "rtts (note_dequeue u p) = rtts p"
  "queue_cap (note_dequeue u p) = queue_cap p"
  by (simp_all add: note_dequeue_def undo_enqueue_def)

lemma merge_ack_frame [simp]:
  "urgent_q (merge_ack a p) = urgent_q p" "writer_q (merge_ack a p) = writer_q p"
  "rtts (merge_ack a p) = rtts p" "pstate (merge_ack a p) = pstate p"
  "pending_ping (merge_ack a p) = pending_ping p" "late_ping (merge_ack a p) = late_ping p"
  "next_ping_seq (merge_ack a p) = next_ping_seq p" "queue_cap (merge_ack a p) = queue_cap p"
  "bud (merge_ack a p) = bud p"
  by (auto simp: merge_ack_def split: option.splits)

lemma restore_acks_Cons: "restore_acks (a # as) p = restore_acks as (merge_ack a p)"
  and restore_acks_Nil [simp]: "restore_acks [] p = p"
  by (simp_all add: restore_acks_def)

lemma restore_acks_frame [simp]:
  "urgent_q (restore_acks as p) = urgent_q p" "writer_q (restore_acks as p) = writer_q p"
  "rtts (restore_acks as p) = rtts p" "queue_cap (restore_acks as p) = queue_cap p"
  by (induction as arbitrary: p) (simp_all add: restore_acks_Cons)

lemma flush_acks_frame:
  "flush_acks now outs i as p = (w, r, p') \<Longrightarrow>
     urgent_q p' = urgent_q p \<and> writer_q p' = writer_q p \<and> rtts p' = rtts p"
proof (induction now outs i as p arbitrary: w r p' rule: flush_acks.induct)
  case (2 now outs i a as p)
  show ?case
    using 2(2) 2(1)[OF refl, of "out_stalled (outs i)"]
    by (cases "outs i") (auto simp: Let_def split: prod.splits)
qed simp

lemma flush_urgent_queues:
  "flush_urgent ts d p = (w, p') \<Longrightarrow>
     writer_q p' = writer_q p \<and>
     (\<exists>lost. urgent_q p = w @ lost @ urgent_q p' \<and> length lost \<le> 1)"
proof (induction ts d p arbitrary: w p' rule: flush_urgent.induct)
  case (2 t ts d p)
  show ?case
  proof (cases "urgent_q p")
    case (Cons f fs)
    let ?p1 = "note_dequeue True (p\<lparr>urgent_q := fs\<rparr>)"
    show ?thesis
    proof (cases "t \<ge> d")
      case True
      then show ?thesis using 2(2) Cons by (auto simp: Let_def)
    next
      case False
      obtain w' where w: "flush_urgent ts d (?p1\<lparr>last_tx := t\<rparr>) = (w', p')" "w = f # w'"
        using 2(2) Cons False by (auto simp: Let_def split: prod.splits)
      show ?thesis
        using 2(1)[OF Cons refl False w(1)] w(2) Cons by auto
    qed
  qed (use 2(2) in auto)
qed simp

text \<open>While the loop runs, a data frame is only ever written on a path whose RTT is known.\<close>

definition is_data :: "frame \<Rightarrow> bool" where
  "is_data f = (case f of StreamData _ \<Rightarrow> True | _ \<Rightarrow> False)"

lemma after_write_loop:
  "wr_next (after_write e now w out n p) = Loop m \<Longrightarrow>
     wr_written (after_write e now w out n p) = w \<and> wr_path (after_write e now w out n p) = p
     \<and> wr_dropped (after_write e now w out n p) = [] \<and> m = n"
  by (cases out) (auto simp: after_write_def Let_def split: prod.splits)

lemma next_ping_frame [simp]:
  "urgent_q (snd (next_ping now p)) = urgent_q p" "writer_q (snd (next_ping now p)) = writer_q p"
  "rtts (snd (next_ping now p)) = rtts p" "pstate (snd (next_ping now p)) = pstate p"
  "pending_acks (snd (next_ping now p)) = pending_acks p" "bud (snd (next_ping now p)) = bud p"
  "queue_cap (snd (next_ping now p)) = queue_cap p"
  by (simp_all add: next_ping_def Let_def)

lemma park_conserves:
  "park_stream_data f p = (d, p') \<Longrightarrow>
     urgent_q p' = urgent_q p \<and>
     mset (writer_q p') + mset (case d of None \<Rightarrow> [] | Some g \<Rightarrow> [g]) = add_mset f (mset (writer_q p))"
  by (auto simp: park_stream_data_def try_send_def note_enqueue_def undo_enqueue_def Let_def
      split: if_splits)

definition queued_data :: "path_state \<Rightarrow> frame multiset" where
  "queued_data p = filter_mset is_data (mset (urgent_q p) + mset (writer_q p))"

text \<open>The frames an iteration of the running loop accounts for.\<close>

lemma queued_data_simps:
  "urgent_q p' = urgent_q p \<Longrightarrow> writer_q p' = writer_q p \<Longrightarrow> queued_data p' = queued_data p"
  by (simp add: queued_data_def)

lemma filter_data_acks [simp]:
  "filter_mset is_data (mset (map StreamAck w)) = {#}" "\<not> is_data (StreamAck a)" "\<not> is_data (Ping pg)"
  by (auto simp: is_data_def filter_mset_eq_mempty_iff)

lemma after_write_not_data:
  "wr_next (after_write e now w out n p) = Loop m \<Longrightarrow> \<forall>f\<in>set w. \<not> is_data f
    \<Longrightarrow> urgent_q p = urgent_q q \<Longrightarrow> writer_q p = writer_q q \<Longrightarrow>
     queued_data q = queued_data (wr_path (after_write e now w out n p))
         + filter_mset is_data (mset (wr_written (after_write e now w out n p)))
         + filter_mset is_data (mset (wr_dropped (after_write e now w out n p)))"
  by (drule after_write_loop) (auto simp: queued_data_def filter_mset_eq_mempty_iff)

lemma writer_step_data:
  assumes loop: "wr_next (writer_step e now next_at p) = Loop m"
  shows "queued_data p = queued_data (wr_path (writer_step e now next_at p))
         + filter_mset is_data (mset (wr_written (writer_step e now next_at p)))
         + filter_mset is_data (mset (wr_dropped (writer_step e now next_at p)))
       \<and> ((\<exists>f\<in>set (wr_written (writer_step e now next_at p)). is_data f) \<longrightarrow> rtt_known p)"
proof -
  have nc: "\<not> we_close e"
    using loop by (auto simp: writer_step_def Let_def split: prod.splits)
  consider (ping) "ping_due now next_at (we_dead e) (we_every e) p"
    | (acks) "\<not> ping_due now next_at (we_dead e) (we_every e) p" "pending_acks p \<noteq> []"
    | (urg) f fs where "\<not> ping_due now next_at (we_dead e) (we_every e) p" "pending_acks p = []"
        "urgent_q p = f # fs"
    | (rest) "\<not> ping_due now next_at (we_dead e) (we_every e) p" "pending_acks p = []" "urgent_q p = []"
    by (cases "urgent_q p") auto
  then show ?thesis
  proof cases
    case ping
    obtain sq p1 where n: "next_ping now p = (sq, p1)" by (cases "next_ping now p")
    then have q: "urgent_q p1 = urgent_q p" "writer_q p1 = writer_q p"
      using next_ping_frame(1,2)[of now p] by simp_all
    show ?thesis
      using loop nc ping n q
      by (auto simp: writer_step_def Let_def queued_data_def dest!: after_write_loop)
  next
    case acks
    obtain as p1 where t: "take_acks ACK_FLUSH_K p = (as, p1)" by (cases "take_acks ACK_FLUSH_K p")
    obtain w r p2 where fl: "flush_acks now (we_outs e) 0 as p1 = (w, r, p2)"
      by (cases "flush_acks now (we_outs e) 0 as p1")
    have q: "urgent_q p2 = urgent_q p" "writer_q p2 = writer_q p"
      using flush_acks_frame[OF fl] t by (auto simp: take_acks_def)
    show ?thesis
    proof (cases r)
      case None
      then show ?thesis
        using nc acks t fl q by (auto simp: writer_step_def queued_data_def)
    next
      case (Some out)
      then show ?thesis
        using loop nc acks t fl q
        by (auto simp: writer_step_def queued_data_def Let_def dest!: after_write_loop)
    qed
  next
    case (urg f fs)
    let ?p1 = "note_dequeue True (p\<lparr>urgent_q := fs\<rparr>)"
    show ?thesis
    proof (cases "hold_stream_data ?p1 f")
      case True
      obtain d p2 where pk: "park_stream_data f ?p1 = (d, p2)" by (cases "park_stream_data f ?p1")
      from park_conserves[OF pk] have "urgent_q p2 = fs"
        and "mset (writer_q p2) + mset (case d of None \<Rightarrow> [] | Some g \<Rightarrow> [g])
             = add_mset f (mset (writer_q p))" by auto
      then have "queued_data p = queued_data p2
          + filter_mset is_data (mset (case d of None \<Rightarrow> [] | Some g \<Rightarrow> [g]))"
        using urg(3) by (simp add: queued_data_def flip: filter_union_mset) (simp add: ac_simps)
      then show ?thesis using nc urg True pk by (simp add: writer_step_def Let_def)
    next
      case False
      then have k: "is_data f \<Longrightarrow> rtt_known p"
        by (auto simp: hold_stream_data_def is_data_def rtt_known_def split: frame.splits)
      show ?thesis
        using loop nc urg False k
        by (auto simp: writer_step_def Let_def queued_data_def dest!: after_write_loop)
    qed
  next
    case rest
    then show ?thesis
      using loop nc
      by (auto simp: writer_step_def Let_def queued_data_def dest!: after_write_loop
          split: list.splits bool.splits)
  qed
qed

section \<open>No ACK row is lost\<close>

text \<open>The register holds, for the stream of \<open>a\<close>, an offset at least that of \<open>a\<close>.\<close>

definition ack_covered :: "path_state \<Rightarrow> stream_ack \<Rightarrow> bool" where
  "ack_covered p a \<longleftrightarrow>
     (\<exists>e. map_of (pending_acks p) (sa_stream_id a) = Some e \<and> sa_acked_offset a \<le> sa_acked_offset e)"

lemma merge_ack_covers: "ack_covered (merge_ack a p) a"
  by (auto simp: ack_covered_def merge_ack_def update_conv' split: option.splits)

lemma merge_ack_keeps: "ack_covered p b \<Longrightarrow> ack_covered (merge_ack a p) b"
  by (auto simp: ack_covered_def merge_ack_def update_conv' split: option.splits)

lemma restore_acks_keeps: "ack_covered p b \<Longrightarrow> ack_covered (restore_acks as p) b"
  by (induction as arbitrary: p) (simp_all add: restore_acks_Cons merge_ack_keeps)

lemma restore_acks_covers: "a \<in> set as \<Longrightarrow> ack_covered (restore_acks as p) a"
  by (induction as arbitrary: p)
    (auto simp: restore_acks_Cons intro: restore_acks_keeps merge_ack_covers)

lemma write_one_covered [simp]: "ack_covered (write_one now out p) a = ack_covered p a"
  by (simp add: ack_covered_def)

lemma flush_acks_conserve:
  "flush_acks now outs i as p = (w, r, p') \<Longrightarrow> a \<in> set as \<Longrightarrow> a \<in> set w \<or> ack_covered p' a"
proof (induction now outs i as p arbitrary: w r p' rule: flush_acks.induct)
  case (2 now outs i b as p)
  show ?case
    using 2(2,3) 2(1)[OF refl, of "out_stalled (outs i)"]
    by (cases "outs i")
      (auto simp: Let_def merge_ack_covers restore_acks_covers restore_acks_keeps split: prod.splits)
qed simp

text \<open>The rows written are a prefix of the rows taken; all of them when nothing fails.\<close>

lemma flush_acks_prefix:
  "flush_acks now outs i as p = (w, r, p') \<Longrightarrow> \<exists>rest. as = w @ rest \<and> (r = None \<longleftrightarrow> rest = [])"
proof (induction now outs i as p arbitrary: w r p' rule: flush_acks.induct)
  case (2 now outs i b as p)
  show ?case
    using 2(2) 2(1)[OF refl, of "out_stalled (outs i)"]
    by (cases "outs i") (auto simp: Let_def split: prod.splits)
qed simp

end
