(* ===== verification/Path_Machine.thy ===== *)
theory Path_Machine
  imports Path_Writer
begin

text \<open>
  A path as a state machine: the operations the session, the reader, the writer and the
  maintenance timer perform on one \<open>PathState\<close>, as the steps of an inductive relation, the
  well-formedness of a path as an invariant of it, and the life cycle UP, DEGRADED, DOWN.
  The two halves of \<open>touch_rx\<close> are also given as separate atomic steps, for the
  interleaving with a concurrent failure.
\<close>

section \<open>Well-formed paths\<close>

definition ping_wf :: "path_state \<Rightarrow> bool" where
  "ping_wf p \<longleftrightarrow>
     distinct (map fst (pending_ping p)) \<and> distinct (map fst (late_ping p))
     \<and> fst ` set (pending_ping p) \<inter> fst ` set (late_ping p) = {}
     \<and> (\<forall>k\<in>fst ` set (pending_ping p). k < next_ping_seq p)
     \<and> (\<forall>k\<in>fst ` set (late_ping p). k < next_ping_seq p)
     \<and> length (pending_ping p) \<le> 1
     \<and> length (pending_ping p) + length (late_ping p) \<le> pending_ping_max STANDARD"

definition acks_wf :: "path_state \<Rightarrow> bool" where
  "acks_wf p \<longleftrightarrow> distinct (map fst (pending_acks p))
     \<and> (\<forall>(k, a)\<in>set (pending_acks p). k = sa_stream_id a)"

definition budget_wf :: "path_state \<Rightarrow> bool" where
  "budget_wf p \<longleftrightarrow> budget_floor (bud p) \<le> budget (bud p)
     \<and> budget (bud p) \<le> max (budget_ceil (bud p)) (budget_floor (bud p))"

definition queue_wf :: "path_state \<Rightarrow> bool" where
  "queue_wf p \<longleftrightarrow> length (urgent_q p) \<le> queue_cap p \<and> length (writer_q p) \<le> queue_cap p"

definition path_wf :: "path_state \<Rightarrow> bool" where
  "path_wf p \<longleftrightarrow> ping_wf p \<and> acks_wf p \<and> budget_wf p \<and> queue_wf p"

section \<open>Steps\<close>

definition set_down :: "path_state \<Rightarrow> path_state" where
  "set_down p = p\<lparr>pstate := DOWN\<rparr>"

inductive path_step :: "path_state \<Rightarrow> path_state \<Rightarrow> bool" where
  rx: "path_step p (touch_rx now p)"
| degrade: "path_step p (mark_degraded p)"
| fail: "path_step p (set_down p)"
| ping: "should_send_ping p ago ev \<Longrightarrow> path_step p (snd (next_ping now p))"
| expire: "path_step p (snd (expire_stale_pings now age p))"
| drop_old: "path_step p (drop_ancient_pings now age p)"
| pong: "path_step p (on_pong_record now sq rec cap al p)"
| outlier: "path_step p (snd (mark_outlier now p))"
| no_outlier: "path_step p (clear_outlier p)"
| ack: "path_step p (merge_ack a p)"
| flush: "path_step p (snd (take_acks k p))"
| take_all: "path_step p (snd (take_all_acks p))"
| credit: "path_step p (add_inflight n p)"
| debit: "path_step p (sub_inflight n p)"
| enq: "try_send u f p = Some p' \<Longrightarrow> path_step p p'"
| deq_u: "urgent_q p = f # fs \<Longrightarrow> path_step p (note_dequeue True (p\<lparr>urgent_q := fs\<rparr>))"
| deq_b: "writer_q p = f # fs \<Longrightarrow> path_step p (note_dequeue False (p\<lparr>writer_q := fs\<rparr>))"
| written: "path_step p (write_one now out p)"
| loop: "path_step p (record_ack_rtt now d p)"
| sample: "path_step p (note_bw_sample now v t p)"
| limited: "path_step p (note_budget_limited p)"
| fitness: "path_step p (snd (loop_fit now cfg r p))"

inductive_cases path_stepE: "path_step p p'"

lemma path_step_intros_frame:
  "touch_rx now p = p\<lparr>last_rx := now, pstate := (if pstate p = DEGRADED then UP else pstate p)\<rparr>"
  by (simp add: touch_rx_def Let_def)

section \<open>The invariant\<close>

lemma path_new_wf: "path_wf (path_new i n cap now)"
  by (simp add: path_wf_def path_new_def ping_wf_def acks_wf_def budget_wf_def queue_wf_def
      STANDARD_def)

text \<open>The eviction loop ends with room for one more entry, or with nothing left to evict.\<close>

lemma oldest_ping_in: "oldest_ping xs = Some k \<Longrightarrow> k \<in> fst ` set xs"
  by (induction xs arbitrary: k rule: oldest_ping.induct) (auto split: option.splits if_splits)

lemma oldest_ping_None: "oldest_ping xs = None \<longleftrightarrow> xs = []"
  by (induction xs rule: oldest_ping.induct) (auto split: option.splits)

lemma evict_late_subset:
  "set (evict_late cap n late) \<subseteq> set late
   \<and> (distinct (map fst late) \<longrightarrow> distinct (map fst (evict_late cap n late)))"
proof (induction cap n late rule: evict_late.induct)
  case (1 cap n late)
  show ?case
    using 1 unfolding evict_late.simps[of cap n late]
    by (auto split: option.splits dest: subsetD[OF set_delete_subset] intro: distinct_delete)
qed

lemma evict_late_room: "n < cap \<Longrightarrow> n + length (evict_late cap n late) < cap"
proof (induction cap n late rule: evict_late.induct)
  case (1 cap n late)
  show ?case
  proof (cases "n + length late < cap")
    case True
    then show ?thesis by (subst evict_late.simps) simp
  next
    case False
    then have "late \<noteq> []" using 1(2) by auto
    then obtain k where k: "oldest_ping late = Some k" by (cases "oldest_ping late") (auto simp: oldest_ping_None)
    then have "k \<in> fst ` set late" by (rule oldest_ping_in)
    then show ?thesis using 1(1)[OF False k _ 1(2)] False k by (subst evict_late.simps) simp
  qed
qed

lemma ping_wfD:
  assumes "ping_wf p"
  shows "distinct (map fst (pending_ping p))" "distinct (map fst (late_ping p))"
    "fst ` set (pending_ping p) \<inter> fst ` set (late_ping p) = {}"
    "\<And>k. k \<in> fst ` set (pending_ping p) \<Longrightarrow> k < next_ping_seq p"
    "\<And>k. k \<in> fst ` set (late_ping p) \<Longrightarrow> k < next_ping_seq p"
    "length (pending_ping p) \<le> 1"
    "length (pending_ping p) + length (late_ping p) \<le> pending_ping_max STANDARD"
  using assms[unfolded ping_wf_def] by blast+

lemma ping_wfI:
  assumes "distinct (map fst (pending_ping p))" "distinct (map fst (late_ping p))"
    "fst ` set (pending_ping p) \<inter> fst ` set (late_ping p) = {}"
    "\<And>k. k \<in> fst ` set (pending_ping p) \<Longrightarrow> k < next_ping_seq p"
    "\<And>k. k \<in> fst ` set (late_ping p) \<Longrightarrow> k < next_ping_seq p"
    "length (pending_ping p) \<le> 1"
    "length (pending_ping p) + length (late_ping p) \<le> pending_ping_max STANDARD"
  shows "ping_wf p"
  unfolding ping_wf_def by (intro conjI ballI assms)

lemma next_ping_wf:
  assumes wf: "ping_wf p" and e: "pending_ping p = []"
  shows "ping_wf (snd (next_ping now p))"
proof -
  let ?l = "evict_late (pending_ping_max STANDARD) 0 (late_ping p)"
  have sub: "set ?l \<subseteq> set (late_ping p)" and d: "distinct (map fst ?l)"
    using evict_late_subset[of "pending_ping_max STANDARD" 0 "late_ping p"] ping_wfD(2)[OF wf] by auto
  have len: "length ?l < pending_ping_max STANDARD"
    using evict_late_room[of 0 "pending_ping_max STANDARD" "late_ping p"] by (simp add: STANDARD_def)
  have k: "k < next_ping_seq p" if "k \<in> fst ` set ?l" for k
    using ping_wfD(5)[OF wf] image_mono[OF sub, of fst] that by blast
  have eq: "snd (next_ping now p) = p\<lparr>next_ping_seq := next_ping_seq p + 1, late_ping := ?l,
      pending_ping := [(next_ping_seq p, now)]\<rparr>"
    using e by (simp add: next_ping_def Let_def)
  have "next_ping_seq p \<notin> fst ` set ?l" using k by blast
  then show ?thesis
    unfolding eq by (intro ping_wfI) (use d len k in \<open>simp_all add: less_SucI\<close>)
qed

lemma fold_update_wf:
  assumes "distinct (map fst xs)" "distinct (map fst l)"
  shows "distinct (map fst (fold (\<lambda>(s, t). AList.update s t) xs l))"
    and "fst ` set (fold (\<lambda>(s, t). AList.update s t) xs l) = fst ` set l \<union> fst ` set xs"
    and "length (fold (\<lambda>(s, t). AList.update s t) xs l) \<le> length l + length xs"
  using assms
proof (induction xs arbitrary: l)
  case (Cons x xs)
  obtain s t where x: "x = (s, t)" by (cases x)
  { case 1 then show ?case using Cons.IH(1)[of "AList.update s t l"] x by (simp add: distinct_update) }
  { case 2 then show ?case using Cons.IH(2)[of "AList.update s t l"] x
      by (auto simp: distinct_update dom_update) }
  { case 3
    show ?case using 3 Cons.IH(3)[of "AList.update s t l"] length_update_le[of s t l] x
      by (simp add: distinct_update) }
qed simp_all

lemma expire_wf: "ping_wf p \<Longrightarrow> ping_wf (snd (expire_stale_pings now age p))"
proof -
  assume wf: "ping_wf p"
  let ?P = "\<lambda>(_, t). elapsed now t \<ge> age"
  let ?st = "filter ?P (pending_ping p)" and ?ke = "filter (\<lambda>x. \<not> ?P x) (pending_ping p)"
  let ?l = "fold (\<lambda>(s, t). AList.update s t) ?st (late_ping p)"
  have d: "distinct (map fst ?st)" "distinct (map fst (late_ping p))" "distinct (map fst (pending_ping p))"
    using wf by (auto simp: ping_wf_def distinct_map_fst_filter)
  have l: "distinct (map fst ?l)" "fst ` set ?l = fst ` set (late_ping p) \<union> fst ` set ?st"
      "length ?l \<le> length (late_ping p) + length ?st"
    using fold_update_wf[OF d(1,2)] by simp_all
  have "length ?st + length ?ke = length (pending_ping p)" by (rule sum_length_filter_compl)
  moreover have "fst ` set ?ke \<inter> fst ` set ?st = {}"
    using d(3) by (auto simp: distinct_map inj_on_def)
  moreover have "fst ` set ?ke \<subseteq> fst ` set (pending_ping p)" "fst ` set ?st \<subseteq> fst ` set (pending_ping p)"
    by auto
  moreover have "snd (expire_stale_pings now age p) = p\<lparr>pending_ping := ?ke, late_ping := ?l\<rparr>"
    by (simp add: expire_stale_pings_def Let_def case_prod_unfold)
  ultimately show ?thesis
    using wf l d(3) by (simp add: ping_wf_def distinct_map_fst_filter) blast
qed

lemma ping_wf_sub:
  assumes wf: "ping_wf p" and d: "distinct (map fst (pending_ping q))" "distinct (map fst (late_ping q))"
    and sub: "fst ` set (pending_ping q) \<subseteq> fst ` set (pending_ping p)"
      "fst ` set (late_ping q) \<subseteq> fst ` set (late_ping p)"
    and len: "length (pending_ping q) \<le> length (pending_ping p)"
      "length (late_ping q) \<le> length (late_ping p)"
    and sq: "next_ping_seq q = next_ping_seq p"
  shows "ping_wf q"
proof (rule ping_wfI)
  show "fst ` set (pending_ping q) \<inter> fst ` set (late_ping q) = {}"
    using ping_wfD(3)[OF wf] sub by blast
  show "k \<in> fst ` set (pending_ping q) \<Longrightarrow> k < next_ping_seq q" for k
    unfolding sq using ping_wfD(4)[OF wf] sub(1) by blast
  show "k \<in> fst ` set (late_ping q) \<Longrightarrow> k < next_ping_seq q" for k
    unfolding sq using ping_wfD(5)[OF wf] sub(2) by blast
  show "length (pending_ping q) \<le> 1"
    "length (pending_ping q) + length (late_ping q) \<le> pending_ping_max STANDARD"
    using ping_wfD(6,7)[OF wf] len by linarith+
qed (rule d)+

lemma drop_ancient_wf: "ping_wf p \<Longrightarrow> ping_wf (drop_ancient_pings now age p)"
proof -
  assume wf: "ping_wf p"
  show ?thesis
    by (rule ping_wf_sub[OF wf])
      (use wf in \<open>auto simp: drop_ancient_pings_def ping_wf_def distinct_map_fst_filter\<close>)
qed

lemma pong_ping_wf: "ping_wf p \<Longrightarrow> ping_wf (on_pong_record now k rec cap al p)"
proof -
  assume wf: "ping_wf p"
  show ?thesis
    by (rule ping_wf_sub[OF wf])
      (use wf in \<open>simp_all add: pong_tables ping_wf_def distinct_delete length_delete_le dom_delete_subset\<close>)
qed

lemma merge_ack_wf: "acks_wf p \<Longrightarrow> acks_wf (merge_ack a p)"
proof -
  assume wf: "acks_wf p"
  have "acks_wf (p\<lparr>pending_acks := AList.update (sa_stream_id a) a (pending_acks p)\<rparr>)"
  proof -
    have "set (AList.update k v m) \<subseteq> insert (k, v) (set m)" for k v and m :: "('a \<times> 'b) list"
      by (induction m) auto
    from this[of "sa_stream_id a" a "pending_acks p"] show ?thesis
      using wf by (auto simp: acks_wf_def distinct_update)
  qed
  then show ?thesis using wf by (auto simp: merge_ack_def split: option.splits)
qed

lemma take_acks_wf: "acks_wf p \<Longrightarrow> acks_wf (snd (take_acks k p))"
  unfolding acks_wf_def take_acks_def
  by (auto simp: drop_map [symmetric] dest: in_set_dropD)

lemma end_budget_round_frame [frame_simps]:
  "pending_acks (end_budget_round now t p) = pending_acks p"
  "pending_ping (end_budget_round now t p) = pending_ping p"
  "late_ping (end_budget_round now t p) = late_ping p"
  "next_ping_seq (end_budget_round now t p) = next_ping_seq p"
  "urgent_q (end_budget_round now t p) = urgent_q p" "writer_q (end_budget_round now t p) = writer_q p"
  "queue_cap (end_budget_round now t p) = queue_cap p" "pstate (end_budget_round now t p) = pstate p"
  "inflight (end_budget_round now t p) = inflight p" "rtts (end_budget_round now t p) = rtts p"
  "pid (end_budget_round now t p) = pid p"
  by (simp_all add: end_budget_round_def Let_def case_prod_unfold)

lemma note_bw_sample_frame [frame_simps]:
  "pending_acks (note_bw_sample now v t p) = pending_acks p"
  "pending_ping (note_bw_sample now v t p) = pending_ping p"
  "late_ping (note_bw_sample now v t p) = late_ping p"
  "next_ping_seq (note_bw_sample now v t p) = next_ping_seq p"
  "urgent_q (note_bw_sample now v t p) = urgent_q p" "writer_q (note_bw_sample now v t p) = writer_q p"
  "queue_cap (note_bw_sample now v t p) = queue_cap p" "pstate (note_bw_sample now v t p) = pstate p"
  "inflight (note_bw_sample now v t p) = inflight p" "rtts (note_bw_sample now v t p) = rtts p"
  "pid (note_bw_sample now v t p) = pid p"
  by (simp_all add: note_bw_sample_def Let_def end_budget_round_frame)

lemma note_bw_sample_budget_wf: "budget_wf p \<Longrightarrow> budget_wf (note_bw_sample now v t p)"
proof -
  assume wf: "budget_wf p"
  have e: "budget_wf (end_budget_round now t q)" for q
    by (simp add: budget_wf_def end_budget_round_band)
  show ?thesis using wf e by (simp add: note_bw_sample_def Let_def) (simp add: budget_wf_def)
qed

section \<open>Every step keeps it\<close>

lemma simple_step_wf:
  assumes "path_wf p" "pending_ping q = pending_ping p" "late_ping q = late_ping p"
    "next_ping_seq q = next_ping_seq p" "pending_acks q = pending_acks p" "bud q = bud p"
    "queue_cap q = queue_cap p" "length (urgent_q q) \<le> max (length (urgent_q p)) (queue_cap p)"
    "length (writer_q q) \<le> max (length (writer_q p)) (queue_cap p)"
  shows "path_wf q"
  using assms by (auto simp: path_wf_def ping_wf_def acks_wf_def budget_wf_def queue_wf_def)

lemma try_send_frame:
  "try_send u f p = Some q \<Longrightarrow>
     pending_ping q = pending_ping p \<and> late_ping q = late_ping p \<and> next_ping_seq q = next_ping_seq p
     \<and> pending_acks q = pending_acks p \<and> bud q = bud p \<and> queue_cap q = queue_cap p \<and> pstate q = pstate p
     \<and> length (urgent_q q) \<le> max (length (urgent_q p)) (queue_cap p)
     \<and> length (writer_q q) \<le> max (length (writer_q p)) (queue_cap p)"
  by (auto simp: try_send_def split: if_splits)

lemma path_step_wf:
  assumes "path_step p q" and wf: "path_wf p"
  shows "path_wf q"
  using assms(1)
proof cases
  case (rx now) then show ?thesis using wf by (auto simp: touch_rx_def Let_def intro: simple_step_wf[OF wf])
next
  case degrade then show ?thesis using wf by (auto simp: mark_degraded_def intro: simple_step_wf[OF wf])
next
  case fail then show ?thesis by (auto simp: set_down_def intro: simple_step_wf[OF wf])
next
  case (ping ago ev now)
  then have "pending_ping p = []" by (simp add: should_send_ping_def pending_ping_count_def)
  then have "ping_wf q" using next_ping_wf wf ping(1) by (simp add: path_wf_def)
  then show ?thesis using wf ping(1)
    by (simp add: path_wf_def acks_wf_def budget_wf_def queue_wf_def)
next
  case (expire now age)
  then have "ping_wf q" using expire_wf wf by (simp add: path_wf_def)
  then show ?thesis using wf expire
    by (simp add: path_wf_def acks_wf_def budget_wf_def queue_wf_def expire_stale_pings_def Let_def)
next
  case (drop_old now age)
  then have "ping_wf q" using drop_ancient_wf wf by (simp add: path_wf_def)
  then show ?thesis using wf drop_old
    by (simp add: path_wf_def acks_wf_def budget_wf_def queue_wf_def drop_ancient_pings_def)
next
  case (pong now sq rec cap al)
  then have "ping_wf q" using pong_ping_wf wf by (simp add: path_wf_def)
  then show ?thesis using wf pong
    by (simp add: path_wf_def acks_wf_def budget_wf_def queue_wf_def frame_simps)
next
  case (outlier now)
  then show ?thesis by (auto simp: mark_outlier_def Let_def intro: simple_step_wf[OF wf])
next
  case no_outlier then show ?thesis by (auto simp: clear_outlier_def intro: simple_step_wf[OF wf])
next
  case (ack a)
  then show ?thesis using wf merge_ack_wf[of p a]
    by (simp add: path_wf_def ping_wf_def budget_wf_def queue_wf_def)
next
  case (flush k)
  then show ?thesis using wf take_acks_wf[of p k]
    by (simp add: path_wf_def ping_wf_def budget_wf_def queue_wf_def) (simp add: take_acks_def)
next
  case take_all
  then show ?thesis using wf
    by (simp add: path_wf_def ping_wf_def acks_wf_def budget_wf_def queue_wf_def take_all_acks_def)
next
  case (credit n) then show ?thesis by (auto simp: add_inflight_def intro: simple_step_wf[OF wf])
next
  case (debit n) then show ?thesis by (auto simp: sub_inflight_def intro: simple_step_wf[OF wf])
next
  case (enq u f) then show ?thesis using try_send_frame[OF enq] by (intro simple_step_wf[OF wf]) auto
next
  case (deq_u f fs)
  then show ?thesis by (auto simp: note_dequeue_def undo_enqueue_def intro: simple_step_wf[OF wf])
next
  case (deq_b f fs)
  then show ?thesis by (auto simp: note_dequeue_def undo_enqueue_def intro: simple_step_wf[OF wf])
next
  case (written now out) then show ?thesis by (auto intro: simple_step_wf[OF wf])
next
  case (loop now d)
  then show ?thesis using wf
    by (simp add: path_wf_def ping_wf_def acks_wf_def budget_wf_def queue_wf_def record_ack_rtt_def Let_def)
next
  case (sample now v t)
  then show ?thesis using wf note_bw_sample_budget_wf[of p now v t]
    by (simp add: path_wf_def ping_wf_def acks_wf_def queue_wf_def frame_simps)
next
  case limited
  then show ?thesis using wf
    by (simp add: path_wf_def ping_wf_def acks_wf_def budget_wf_def queue_wf_def note_budget_limited_def)
next
  case (fitness now cfg r)
  then show ?thesis by (auto simp: loop_fit_def Let_def intro: simple_step_wf[OF wf])
qed

section \<open>Life cycle\<close>

lemma path_step_down: "path_step p q \<Longrightarrow> pstate p = DOWN \<Longrightarrow> pstate q = DOWN"
proof (induction rule: path_step.induct)
  case (enq u f p p') then show ?case using try_send_frame[OF enq(1)] by simp
qed (auto simp: touch_rx_def Let_def mark_degraded_def set_down_def expire_stale_pings_def
    drop_ancient_pings_def frame_simps mark_outlier_def clear_outlier_def take_acks_def
    take_all_acks_def add_inflight_def sub_inflight_def note_dequeue_def undo_enqueue_def
    record_ack_rtt_def note_budget_limited_def)

lemma path_steps_down_aux: "path_step^** p q \<Longrightarrow> pstate p = DOWN \<Longrightarrow> pstate q = DOWN"
  by (induction rule: rtranclp_induct) (auto dest: path_step_down)

lemma path_steps_wf_aux: "path_step^** p q \<Longrightarrow> path_wf p \<Longrightarrow> path_wf q"
  by (induction rule: rtranclp_induct) (auto dest: path_step_wf)

text \<open>
  \<open>touch_rx\<close> reads the state and stores UP as two atomic operations; the reader task runs
  it while the maintenance task may run \<open>path_failed\<close>.
\<close>

definition touch_load :: "path_state \<Rightarrow> bool" where
  "touch_load p \<longleftrightarrow> pstate p = DEGRADED"

definition touch_store :: "bool \<Rightarrow> path_state \<Rightarrow> path_state" where
  "touch_store saw p = (if saw then p\<lparr>pstate := UP\<rparr> else p)"

lemma touch_rx_atomic: "touch_rx now p = (let p1 = p\<lparr>last_rx := now\<rparr> in touch_store (touch_load p1) p1)"
  by (simp add: touch_rx_def touch_load_def touch_store_def Let_def)

lemma grow_le: "a \<le> b \<Longrightarrow> max a (a * 3 div 2) \<le> b * 3 div (2::nat)"
  and probe_le: "a \<le> b \<Longrightarrow> max a (a * 5 div 4) \<le> b * 5 div (4::nat)"
proof -
  assume le: "a \<le> b"
  then have "a * 3 div 2 \<le> b * 3 div 2" "a * 5 div 4 \<le> b * 5 div 4" by (simp_all add: div_le_mono)
  then show "max a (a * 3 div 2) \<le> b * 3 div 2" "max a (a * 5 div 4) \<le> b * 5 div 4"
    using le by linarith+
qed

section \<open>Properties\<close>

text \<open>
  C20: Whatever the session, the reader, the writer and the timer do to a path, in any order,
  it stays well formed: at most one ping is in flight, the two ping tables are disjoint, know
  only sequence numbers already issued and never hold more than the cap
  \<open>pending_ping_max\<close> of entries together; the ACK register has one row per stream; the budget lies between its floor
  and its ceiling; neither queue exceeds its capacity.
\<close>

theorem path_reachable_wf:
  assumes "path_step^** (path_new i n cap t0) p"
  shows "path_wf p"
  using assms path_new_wf by (rule path_steps_wf_aux)

theorem path_reachable_wf_witness:
  "path_wf (touch_rx 9 (snd (next_ping 5 (path_new 1 ''a#0'' 4 0))))"
proof (rule path_reachable_wf)
  have "should_send_ping (path_new 1 ''a#0'' 4 0) 0 0"
    by (simp add: should_send_ping_def is_alive_def pending_ping_count_def path_new_def)
  from path_step.ping[OF this] path_step.rx
  show "path_step^** (path_new 1 ''a#0'' 4 0) (touch_rx 9 (snd (next_ping 5 (path_new 1 ''a#0'' 4 0))))"
    by (meson converse_rtranclp_into_rtranclp rtranclp.rtrancl_refl)
qed



text \<open>
  When the failure of a degraded path falls between the load and the store of
  \<open>touch_rx\<close>, the store overwrites DOWN with UP: the path is alive again for its own
  I/O tasks although the session has dropped it.
\<close>

lemma touch_rx_race:
  "pstate p = DEGRADED \<Longrightarrow> pstate (touch_store (touch_load p) (set_down p)) = UP"
  by (simp add: touch_load_def touch_store_def set_down_def)

text \<open>
  C31: One budget round. A round that was not limited by the budget never raises it. A limited
  round raises it by at most one half, and by more than a quarter only when the previous
  round's bandwidth was kept pending (two consecutive rounds over the bar). A probe round may
  at most fall back to the allowance the probe started from.
\<close>

theorem budget_round_growth:
  assumes "budget_wf p" and "budget_bytes p < 2 ^ 50"
  shows "budget (bud (end_budget_round now now_us p)) \<le>
    (if \<not> round_limited (bud p) then budget_bytes p
     else if probe_from (bud p) \<noteq> 0 then max (budget_bytes p) (probe_from (bud p))
     else if prev_round_bw (bud p) = 0 then budget_bytes p * 5 div 4
     else budget_bytes p * 3 div 2)"
proof -
  obtain ro b where o: "round_observe now now_us p = (ro, b)" by (cases "round_observe now now_us p")
  note ob = round_observe_bounds[OF o]
  have le: "ro_cur ro \<le> budget_bytes p"
    using ob(1-6) assms(1) by (auto simp: budget_bytes_def clamp_nat_def budget_wf_def)
  have small: "ro_cur ro < 2 ^ 50" using le assms(2) by linarith
  have g: "max (ro_cur ro) (bw_mul (ro_cur ro) BUDGET_GROW) \<le> budget_bytes p * 3 div 2"
    unfolding bw_mul_grow[OF small] using le by (rule grow_le)
  have q: "max (ro_cur ro) (bw_mul (ro_cur ro) BUDGET_PROBE) \<le> budget_bytes p * 5 div 4"
    unfolding bw_mul_probe[OF small] using le by (rule probe_le)
  have m: "budget_bytes p \<le> budget_bytes p * 5 div 4"
    "budget_bytes p * 5 div 4 \<le> budget_bytes p * 3 div 2" by linarith+
  show ?thesis
    using round_growth[OF o] le g q ob(7) m by (auto split: if_splits)
qed

theorem budget_round_growth_witness:
  "budget (bud (end_budget_round 0 0 (path_new 1 ''a#0'' 4 0))) \<le> 65536"
proof -
  let ?p = "path_new 1 ''a#0'' 4 0"
  have b: "budget_bytes ?p = 65536"
    by (simp add: budget_bytes_def path_new_def STANDARD_def clamp_nat_def)
  have "budget_wf ?p" using path_new_wf by (simp add: path_wf_def)
  from budget_round_growth[OF this, of 0 0] b show ?thesis
    by (simp add: path_new_def)
qed

text \<open>
  C22: Flushing the ACK register loses no ACK. Of the rows taken, those written are a prefix;
  when the writer is interrupted or fails, every row it did not write is back in the register,
  under an offset at least its own, whatever had been merged there meanwhile.
\<close>

theorem ack_flush_conserves:
  assumes "flush_acks now outs i rows p = (w, r, p')"
  shows "\<exists>rest. rows = w @ rest \<and> (r = None \<longleftrightarrow> rest = []) \<and> (\<forall>a\<in>set rest. a \<in> set w \<or> ack_covered p' a)"
proof -
  obtain rest where rest: "rows = w @ rest" "r = None \<longleftrightarrow> rest = []"
    using flush_acks_prefix[OF assms] by blast
  then show ?thesis using flush_acks_conserve[OF assms] by (intro exI[of _ rest]) auto
qed

theorem ack_flush_conserves_witness:
  "\<exists>rest. [\<lparr>sa_stream_id = 1, sa_acked_offset = 8, sa_window = 9, sa_sack = []\<rparr>] = [] @ rest
     \<and> (Some (IoErr False) = None \<longleftrightarrow> rest = [])
     \<and> (\<forall>a\<in>set rest. a \<in> set [] \<or> ack_covered (snd (snd (flush_acks 0 (\<lambda>_. IoErr False) 0
          [\<lparr>sa_stream_id = 1, sa_acked_offset = 8, sa_window = 9, sa_sack = []\<rparr>] (path_new 1 ''a#0'' 4 0)))) a)"
  by (rule ack_flush_conserves[where now = 0 and outs = "\<lambda>_. IoErr False" and i = 0
        and p = "path_new 1 ''a#0'' 4 0"]) (simp add: Let_def)

text \<open>
  C21: The running writer loop neither loses nor invents stream data: in every iteration that
  goes on, the data frames queued before are exactly those queued after, those written and
  those reported as dropped; and data is written only once the path's RTT is known.
\<close>

theorem writer_data_accounting:
  assumes "wr_next (writer_step e now next_at p) = Loop m"
  shows "queued_data p = queued_data (wr_path (writer_step e now next_at p))
         + filter_mset is_data (mset (wr_written (writer_step e now next_at p)))
         + filter_mset is_data (mset (wr_dropped (writer_step e now next_at p)))
       \<and> ((\<exists>f\<in>set (wr_written (writer_step e now next_at p)). is_data f) \<longrightarrow> rtt_known p)"
  using assms by (rule writer_step_data)

definition witness_env :: writer_env where
  "witness_env = \<lparr>we_close = False, we_dead = False, we_every = 5, we_loss = 9, we_tick = 5,
     we_ping_max = 9, we_outs = (\<lambda>_. Sent False), we_done = 0, we_flush = []\<rparr>"

definition witness_data :: frame where
  "witness_data = StreamData \<lparr>sd_stream_id = 1, sd_offset = 0, sd_data = [7]\<rparr>"

theorem writer_data_accounting_witness:
  "queued_data ((path_new 1 ''a#0'' 4 0)\<lparr>urgent_q := [witness_data]\<rparr>)
     = queued_data (wr_path (writer_step witness_env 0 0 ((path_new 1 ''a#0'' 4 0)\<lparr>urgent_q := [witness_data]\<rparr>)))
         + filter_mset is_data (mset (wr_written (writer_step witness_env 0 0 ((path_new 1 ''a#0'' 4 0)\<lparr>urgent_q := [witness_data]\<rparr>))))
         + filter_mset is_data (mset (wr_dropped (writer_step witness_env 0 0 ((path_new 1 ''a#0'' 4 0)\<lparr>urgent_q := [witness_data]\<rparr>))))"
  by (rule writer_data_accounting[where m = 0, THEN conjunct1])
    (simp add: writer_step_def witness_env_def witness_data_def ping_due_def path_new_def Let_def
      should_send_ping_def last_rx_ago_def elapsed_def park_stream_data_def hold_stream_data_def
      rtt_known_def note_dequeue_def undo_enqueue_def note_enqueue_def try_send_def)

text \<open>
  The writer's timer never spins: when no ping is due, the instant it sleeps until lies in
  the future, at least one millisecond ahead once the ping interval has passed.
\<close>

lemma writer_timer_future:
  assumes "from_millis 1 \<le> tick" and "\<not> ping_due now next_at dead ev p"
  shows "now < ping_wait now next_at ev loss tick p
    \<and> (next_at \<le> now \<longrightarrow> now + from_millis 1 \<le> ping_wait now next_at ev loss tick p)"
  using ping_wait_future[OF assms(1)[folded ms1_def] assms(2)] by (simp add: ms1_def)

end
