(* ===== verification/Scheduler.thy ===== *)
theory Scheduler
  imports Path_Budget
begin

text \<open>
  \<open>nya-core/src/scheduler.rs\<close>: class membership, path scoring and every pick the session
  makes among its paths. A pool is a list of paths whose order carries no meaning (the
  session takes it from a hash map). The picks that mark a path (\<open>loop_fit\<close> records the
  fit, \<open>has_room_or_mark\<close> the budget-limited round) return the updated pool.
\<close>

type_synonym pool = "path_state list"

datatype pick_pref = PickAny | PickInteractive
datatype failback_reason = Upgrade | ClassEmpty

section \<open>RTT class\<close>

definition effective_class_rtt :: "session_config \<Rightarrow> path_state \<Rightarrow> duration" where
  "effective_class_rtt cfg p =
     (let class = class_rtt p in
      if class_known p then (let fast = rtt p in
        if should_failback cfg class fast then fast else class)
      else class)"

definition min_class_rtt :: "session_config \<Rightarrow> pool \<Rightarrow> duration" where
  "min_class_rtt cfg ps =
     (case or_else (list_min (map (effective_class_rtt cfg) (filter class_known ps)))
                   (list_min (map (effective_class_rtt cfg) (filter rtt_known ps))) of
        Some m \<Rightarrow> m
      | None \<Rightarrow> (case list_min (map (effective_class_rtt cfg) ps) of
                  Some m \<Rightarrow> m | None \<Rightarrow> ping_interval_max cfg))"

text \<open>The candidate tiers before the final class filter.\<close>

definition class_candidates :: "session_config \<Rightarrow> pool \<Rightarrow> pool" where
  "class_candidates cfg alive =
     (let m = min_class_rtt cfg alive;
          c1 = filter (\<lambda>p. is_schedulable p \<and> rtt_known p
                         \<and> \<not> is_backup cfg (effective_class_rtt cfg p) m) alive;
          c2 = (if c1 = [] then filter is_schedulable alive else c1);
          c3 = (if c2 = [] then filter is_up alive else c2)
      in if c3 = [] then alive else c3)"

definition class_rank :: "session_config \<Rightarrow> path_state \<Rightarrow> duration" where
  "class_rank cfg p = (if class_known p then effective_class_rtt cfg p else rtt p)"

definition class_best :: "session_config \<Rightarrow> pool \<Rightarrow> duration option" where
  "class_best cfg cands =
     or_else (list_min (map (effective_class_rtt cfg) (filter class_known cands)))
             (list_min (map (effective_class_rtt cfg) (filter rtt_known cands)))"

definition fastest_class_set :: "session_config \<Rightarrow> pool \<Rightarrow> pool" where
  "fastest_class_set cfg ps =
     (let alive = filter is_alive ps in
      if alive = [] then []
      else (let cands = class_candidates cfg alive in
            case class_best cfg cands of
              Some best \<Rightarrow> filter_or_all (\<lambda>p. \<not> should_failback cfg (class_rank cfg p) best) cands
            | None \<Rightarrow> cands))"

section \<open>The interactive subset\<close>

definition interactive_best_rtt :: "session_config \<Rightarrow> path_state \<Rightarrow> duration" where
  "interactive_best_rtt cfg p =
     (let fast = rtt p; class = class_rtt p; stbl = stable_rtt p in
      if class_known p \<and> class_jump (cfg_tuning cfg) fast class then class
      else (let low = min (min fast stbl) class in
            if class_known p \<and> class_should_drop (cfg_tuning cfg) (as_micros class) (as_micros low)
            then class else low))"

definition interactive_cand_rtt :: "path_state \<Rightarrow> duration" where
  "interactive_cand_rtt p = max (rtt p) (class_rtt p)"

definition interactive_leave :: "session_config \<Rightarrow> duration \<Rightarrow> duration \<Rightarrow> bool" where
  "interactive_leave cfg cand best =
     (if best \<ge> cand then False
      else should_failback cfg cand best
        \<or> class_should_drop (cfg_tuning cfg) (as_micros cand) (as_micros best))"

definition interactive_class_set :: "session_config \<Rightarrow> pool \<Rightarrow> pool" where
  "interactive_class_set cfg ps =
     (let base = fastest_class_set cfg ps in
      if base = [] then base
      else (let src = filter_or_all
                  (\<lambda>p. \<not> class_known p \<or> \<not> class_jump (cfg_tuning cfg) (rtt p) (class_rtt p)) base in
        case list_min (map (interactive_best_rtt cfg) src) of
          None \<Rightarrow> base
        | Some raw_best \<Rightarrow>
            (let class_floor = (case list_min (map class_rtt (filter class_known src)) of
                   Some c \<Rightarrow> scale c (f64_sub (F64 1 0) (class_drop_frac (cfg_tuning cfg))) 0
                 | None \<Rightarrow> raw_best);
                 best = max raw_best class_floor
             in filter_or_all (\<lambda>p. \<not> interactive_leave cfg (interactive_cand_rtt p) best) base)))"

section \<open>Scores\<close>

definition rtt_score_us :: "session_config \<Rightarrow> path_state \<Rightarrow> nat" where
  "rtt_score_us cfg p =
     (if rtt_known p then rtt_us p
      else sat_mul (rtt_us p) (unknown_rtt_score_mult (cfg_tuning cfg)))"

definition load_term :: "session_config \<Rightarrow> pick_pref \<Rightarrow> path_state \<Rightarrow> nat" where
  "load_term cfg pref p =
     (let inf = inflight p; stk = sticky_streams p; bias = max (inflight_bias (cfg_tuning cfg)) 1
      in case pref of
           PickAny \<Rightarrow> 1 + inf div bias + stk
         | PickInteractive \<Rightarrow> 1 + inf div (max (bias div 4) 1) + stk)"

definition path_score :: "session_config \<Rightarrow> pick_pref \<Rightarrow> path_state \<Rightarrow> nat \<times> bool" where
  "path_score cfg pref p =
     (let load = load_term cfg pref p; class = as_micros (class_rtt p); fast = rtt_score_us cfg p
      in (sat_add (sat_mul (sat_mul class load) 1024) (sat_mul fast load), rtt_known p))"

section \<open>Freshness and room\<close>

definition path_loss_rtt :: "path_state \<Rightarrow> duration" where
  "path_loss_rtt p = min (rtt p) (class_rtt p)"

definition is_loss_fresh :: "instant \<Rightarrow> session_config \<Rightarrow> path_state \<Rightarrow> bool" where
  "is_loss_fresh now cfg p \<longleftrightarrow> last_rx_ago now p < loss_timeout cfg (path_loss_rtt p)"

definition is_quiet_fresh :: "instant \<Rightarrow> session_config \<Rightarrow> path_state \<Rightarrow> bool" where
  "is_quiet_fresh now cfg p \<longleftrightarrow>
     last_rx_ago now p < degrade_timeout cfg (rtt_known p) (stable_rtt p)"

definition any_bulk_room :: "pool \<Rightarrow> bool" where
  "any_bulk_room ps \<longleftrightarrow> (\<exists>p\<in>set ps. is_schedulable p \<and> room_bytes p \<ge> 1)"

definition has_room_or_mark :: "path_state \<Rightarrow> bool \<times> path_state" where
  "has_room_or_mark p =
     (if room_bytes p \<ge> MAX_STREAM_PAYLOAD then (True, p) else (False, note_budget_limited p))"

section \<open>Linear picks\<close>

text \<open>The two scans of the source, each keeping the best candidate so far.\<close>

fun scored_step ::
  "session_config \<Rightarrow> pick_pref \<Rightarrow> path_state \<Rightarrow> nat \<times> nat \<times> bool \<Rightarrow> nat \<times> nat \<times> bool" where
  "scored_step cfg pref p (best_id, best_score, best_known) =
     (let (score, known) = path_score cfg pref p in
      if score < best_score
         \<or> (score = best_score \<and> known \<and> \<not> best_known)
         \<or> (score = best_score \<and> known = best_known \<and> pid p < best_id)
      then (pid p, score, known) else (best_id, best_score, best_known))"

definition pick_from_scored :: "session_config \<Rightarrow> pick_pref \<Rightarrow> pool \<Rightarrow> nat option" where
  "pick_from_scored cfg pref cands =
     (case cands of [] \<Rightarrow> None
      | c # _ \<Rightarrow> Some (fst (fold (scored_step cfg pref) cands (pid c, u64_max, rtt_known c))))"

definition loss_fresh_or_all :: "instant \<Rightarrow> session_config \<Rightarrow> pool \<Rightarrow> pool" where
  "loss_fresh_or_all now cfg cands = filter_or_all (is_loss_fresh now cfg) cands"

definition pick_from :: "instant \<Rightarrow> session_config \<Rightarrow> pick_pref \<Rightarrow> pool \<Rightarrow> nat option" where
  "pick_from now cfg pref cands = pick_from_scored cfg pref (loss_fresh_or_all now cfg cands)"

fun rx_step ::
  "instant \<Rightarrow> session_config \<Rightarrow> path_state \<Rightarrow> nat \<times> duration \<times> nat \<times> bool
    \<Rightarrow> nat \<times> duration \<times> nat \<times> bool" where
  "rx_step now cfg p (best_id, best_ago, best_score, best_known) =
     (let ago = last_rx_ago now p; (score, known) = path_score cfg PickAny p in
      if (known \<and> \<not> best_known)
         \<or> (known = best_known \<and> ago < best_ago)
         \<or> (known = best_known \<and> ago = best_ago \<and> score < best_score)
         \<or> (known = best_known \<and> ago = best_ago
            \<and> (score, known) = (best_score, best_known) \<and> pid p < best_id)
      then (pid p, ago, score, known) else (best_id, best_ago, best_score, best_known))"

definition pick_min_rx :: "instant \<Rightarrow> session_config \<Rightarrow> pool \<Rightarrow> nat option" where
  "pick_min_rx now cfg cands =
     (case cands of [] \<Rightarrow> None
      | c # cs \<Rightarrow>
          (let (score, known) = path_score cfg PickAny c
           in Some (fst (fold (rx_step now cfg) cs (pid c, last_rx_ago now c, score, known)))))"

definition pick_path_pref :: "instant \<Rightarrow> session_config \<Rightarrow> pick_pref \<Rightarrow> pool \<Rightarrow> nat option" where
  "pick_path_pref now cfg pref ps =
     pick_from now cfg pref (case pref of PickInteractive \<Rightarrow> interactive_class_set cfg ps
                             | PickAny \<Rightarrow> fastest_class_set cfg ps)"

definition pick_path :: "instant \<Rightarrow> session_config \<Rightarrow> pool \<Rightarrow> nat option" where
  "pick_path now cfg ps = pick_path_pref now cfg PickAny ps"

section \<open>Bulk picks\<close>

text \<open>A filter whose predicate updates the path: the kept paths and all of them, updated.\<close>

fun filter_upd :: "(path_state \<Rightarrow> bool \<times> path_state) \<Rightarrow> pool \<Rightarrow> pool \<times> pool" where
  "filter_upd f [] = ([], [])"
| "filter_upd f (p # ps) =
     (let (k, p') = f p; (ks, us) = filter_upd f ps
      in (if k then p' # ks else ks, p' # us))"

text \<open>Write the updated paths back into the pool.\<close>

definition put_paths :: "pool \<Rightarrow> pool \<Rightarrow> pool" where
  "put_paths us ps = map (\<lambda>p. case find (\<lambda>q. pid q = pid p) us of Some q \<Rightarrow> q | None \<Rightarrow> p) ps"

definition loop_fit_or_all ::
  "instant \<Rightarrow> session_config \<Rightarrow> duration option \<Rightarrow> pool \<Rightarrow> pool \<times> pool" where
  "loop_fit_or_all now cfg pool_ref cands =
     (let (fit, us) = filter_upd (loop_fit now cfg pool_ref) cands
      in (if fit = [] then us else fit, us))"

definition quiet_or_all :: "(nat \<Rightarrow> bool) \<Rightarrow> pool \<Rightarrow> pool" where
  "quiet_or_all has_interactive cands = filter_or_all (\<lambda>p. \<not> has_interactive (pid p)) cands"

definition bulk_overflow_pick ::
  "instant \<Rightarrow> session_config \<Rightarrow> nat \<Rightarrow> duration option \<Rightarrow> (nat \<Rightarrow> bool) \<Rightarrow> pool
    \<Rightarrow> nat option \<times> pool" where
  "bulk_overflow_pick now cfg sticky pool_ref has_interactive ps =
     (let f = (\<lambda>p. if pid p \<noteq> sticky \<and> is_schedulable p \<and> is_quiet_fresh now cfg p
                   then (let (fit, p1) = loop_fit now cfg pool_ref p
                         in if fit then has_room_or_mark p1 else (False, p1))
                   else (False, p));
          (room, us) = filter_upd f (fastest_class_set cfg ps);
          ps' = put_paths us ps
      in if room = [] then (None, ps')
         else (pick_from_scored cfg PickAny (quiet_or_all has_interactive room), ps'))"

definition pick_bulk ::
  "instant \<Rightarrow> session_config \<Rightarrow> duration option \<Rightarrow> nat option \<Rightarrow> (nat \<Rightarrow> bool) \<Rightarrow> pool
    \<Rightarrow> nat option \<times> pool" where
  "pick_bulk now cfg pool_ref exclude has_interactive ps =
     (let sched = filter (\<lambda>p. is_schedulable p \<and> Some (pid p) \<noteq> exclude) (fastest_class_set cfg ps);
          fresh = filter_or_all (is_quiet_fresh now cfg) sched;
          (room, us) = filter_upd has_room_or_mark fresh;
          ps1 = put_paths us ps
      in if room = [] then (None, ps1)
         else (let (fit, us2) = loop_fit_or_all now cfg pool_ref room
               in (pick_from_scored cfg PickAny (quiet_or_all has_interactive fit),
                   put_paths us2 ps1)))"

definition hol_bulk_dest_ok :: "instant \<Rightarrow> session_config \<Rightarrow> path_state \<Rightarrow> bool" where
  "hol_bulk_dest_ok now cfg p \<longleftrightarrow>
     is_alive p \<and> \<not> congested p \<and> (is_schedulable p \<or> write_stalled p) \<and> is_quiet_fresh now cfg p"

definition hol_place_bulk_fallback ::
  "instant \<Rightarrow> session_config \<Rightarrow> path_state \<Rightarrow> duration option \<Rightarrow> (nat \<Rightarrow> bool) \<Rightarrow> pool
    \<Rightarrow> nat option \<times> pool" where
  "hol_place_bulk_fallback now cfg cur pool_ref has_interactive ps =
     (let cands = filter (\<lambda>p. pid p \<noteq> pid cur \<and> hol_bulk_dest_ok now cfg p
                     \<and> \<not> has_interactive (pid p)
                     \<and> effective_class_rtt cfg p \<le> effective_class_rtt cfg cur) ps;
          (fit, us) = loop_fit_or_all now cfg pool_ref cands
      in (pick_from now cfg PickAny fit, put_paths us ps))"

section \<open>Failback\<close>

definition in_class_or_better :: "session_config \<Rightarrow> path_state \<Rightarrow> pool \<Rightarrow> pool" where
  "in_class_or_better cfg cur ps =
     filter (\<lambda>p. is_schedulable p \<and> pid p \<noteq> pid cur
       \<and> \<not> should_failback cfg (effective_class_rtt cfg p) (effective_class_rtt cfg cur)) ps"

definition pick_in_class :: "instant \<Rightarrow> session_config \<Rightarrow> path_state \<Rightarrow> pool \<Rightarrow> nat option" where
  "pick_in_class now cfg cur ps =
     (let cands = in_class_or_better cfg cur ps
      in if cands = [] then None else pick_from now cfg PickAny cands)"

definition in_class_or_better_alive :: "session_config \<Rightarrow> path_state \<Rightarrow> pool \<Rightarrow> pool" where
  "in_class_or_better_alive cfg cur ps =
     filter (\<lambda>p. is_alive p \<and> pid p \<noteq> pid cur
       \<and> \<not> should_failback cfg (effective_class_rtt cfg p) (effective_class_rtt cfg cur)) ps"

text \<open>The upgrade gate of \<open>failback_target\<close>: the current path is schedulable.\<close>

definition upgrade_ok :: "instant \<Rightarrow> session_config \<Rightarrow> path_state \<Rightarrow> path_state \<Rightarrow> pool \<Rightarrow> bool" where
  "upgrade_ok now cfg cur best ps =
     (if \<not> class_known best then False
      else (let fastest = fastest_class_set cfg ps;
                cur_in = list_ex (\<lambda>p. pid p = pid cur) fastest;
                best_in = list_ex (\<lambda>p. pid p = pid best) fastest;
                cur_e = effective_class_rtt cfg cur;
                best_e = effective_class_rtt cfg best;
                gate = (if cur_in then class_jump (cfg_tuning cfg) cur_e best_e
                        else if length fastest < 2 \<or> \<not> best_in then False
                        else should_failback cfg cur_e
                               (case list_min (map (effective_class_rtt cfg) fastest) of
                                  Some m \<Rightarrow> m | None \<Rightarrow> best_e))
            in gate \<and> \<not> up_age now best < failback_stable cfg best_e))"

text \<open>What remains when no path in class was taken.\<close>

definition failback_rest ::
  "instant \<Rightarrow> session_config \<Rightarrow> path_state \<Rightarrow> pool \<Rightarrow> (nat \<times> failback_reason) option" where
  "failback_rest now cfg cur ps =
     (let sib = (if \<not> is_schedulable cur
                 then pick_from now cfg PickAny
                        (filter (\<lambda>p. pid p \<noteq> pid cur \<and> is_schedulable p \<and> link p = link cur) ps)
                 else None)
      in case sib of Some i \<Rightarrow> Some (i, ClassEmpty)
       | None \<Rightarrow>
           if is_alive cur then None
           else (let alive = filter (\<lambda>p. link p = link cur
                        \<or> effective_class_rtt cfg p \<le> effective_class_rtt cfg cur)
                      (in_class_or_better_alive cfg cur ps)
                 in if alive \<noteq> []
                    then map_option (\<lambda>i. (i, ClassEmpty)) (pick_from now cfg PickAny alive)
                    else (case pick_path now cfg ps of
                            None \<Rightarrow> None
                          | Some b \<Rightarrow> if b = pid cur then None else Some (b, ClassEmpty))))"

definition failback_target ::
  "instant \<Rightarrow> session_config \<Rightarrow> path_state \<Rightarrow> pool \<Rightarrow> (nat \<times> failback_reason) option" where
  "failback_target now cfg cur ps =
     (case pick_in_class now cfg cur ps of
        None \<Rightarrow> failback_rest now cfg cur ps
      | Some best_id \<Rightarrow>
          (case find (\<lambda>p. pid p = best_id) ps of
             None \<Rightarrow> None
           | Some best \<Rightarrow>
               if is_schedulable cur
               then (if upgrade_ok now cfg cur best ps then Some (best_id, Upgrade) else None)
               else if effective_class_rtt cfg best \<le> effective_class_rtt cfg cur
                       \<or> link best = link cur
               then Some (best_id, ClassEmpty)
               else failback_rest now cfg cur ps))"

section \<open>Retry\<close>

definition pick_rung ::
  "instant \<Rightarrow> session_config \<Rightarrow> string option \<Rightarrow> (path_state \<Rightarrow> bool) \<Rightarrow> bool \<Rightarrow> pool
    \<Rightarrow> nat option" where
  "pick_rung now cfg avoid_link pred other_link ps =
     pick_min_rx now cfg (filter (\<lambda>p. pred p \<and>
       (\<not> other_link \<or> (case avoid_link of Some l \<Rightarrow> link p \<noteq> l | None \<Rightarrow> True))) ps)"

definition pick_retry_path :: "instant \<Rightarrow> session_config \<Rightarrow> nat list \<Rightarrow> pool \<Rightarrow> nat option" where
  "pick_retry_path now cfg tried ps =
     (let current = (if tried = [] then None else Some (last tried));
          avoid_link = (case current of None \<Rightarrow> None
             | Some i \<Rightarrow> map_option link (find (\<lambda>p. pid p = i) ps));
          not_tried = (\<lambda>p. pid p \<notin> set tried);
          rung = pick_rung now cfg avoid_link;
          r1 = (\<lambda>p. not_tried p \<and> is_loss_fresh now cfg p \<and> is_schedulable p)
      in or_else (rung r1 True ps)
        (or_else (rung r1 False ps)
        (or_else (rung (\<lambda>p. not_tried p \<and> is_schedulable p) False ps)
        (or_else (rung (\<lambda>p. not_tried p \<and> is_alive p) False ps)
                 (rung (\<lambda>p. is_alive p \<and> (case current of Some i \<Rightarrow> pid p \<noteq> i | None \<Rightarrow> True))
                    False ps)))))"

definition should_rebalance_conn :: "instant \<Rightarrow> session_config \<Rightarrow> path_state \<Rightarrow> path_state \<Rightarrow> bool" where
  "should_rebalance_conn now cfg cur alt =
     (if pid cur = pid alt \<or> \<not> is_schedulable alt \<or> \<not> is_loss_fresh now cfg alt then False
      else if link cur \<noteq> link alt then False
      else inflight cur > inflight alt + rebalance_slack (cfg_tuning cfg))"

section \<open>Backups\<close>

definition backup_class :: "string option \<Rightarrow> path_state \<Rightarrow> nat" where
  "backup_class avoid_link p =
     (let same_link = (case avoid_link of Some l \<Rightarrow> link p = l | None \<Rightarrow> False) in
      if is_schedulable p \<and> same_link then 0
      else if is_schedulable p then 1 else if is_up p then 2 else 3)"

definition backup_eligible ::
  "nat \<Rightarrow> (duration \<times> session_config) option \<Rightarrow> nat list option \<Rightarrow> pool \<Rightarrow> path_state \<Rightarrow> bool" where
  "backup_eligible avoid better okl ps p =
     (is_alive p \<and> pid p \<noteq> avoid
      \<and> (case okl of Some ids \<Rightarrow> pid p \<in> set ids | None \<Rightarrow> True)
      \<and> (case better of None \<Rightarrow> True
         | Some (cur, cfg) \<Rightarrow>
             is_schedulable p
             \<and> (if rtt_known p then should_failback cfg cur (rtt p)
                else is_backup cfg cur
                  (case list_min (map rtt (filter (\<lambda>q. pid q \<noteq> avoid \<and> rtt_known q) ps)) of
                     Some m \<Rightarrow> m | None \<Rightarrow> ping_interval_min cfg))))"

definition pick_backup ::
  "nat \<Rightarrow> (duration \<times> session_config) option \<Rightarrow> nat list option \<Rightarrow> pool \<Rightarrow> nat option" where
  "pick_backup avoid better okl ps =
     (let avoid_link = map_option link (find (\<lambda>p. pid p = avoid) ps);
          step = (\<lambda>p best. if \<not> backup_eligible avoid better okl ps p then best
             else (let c = backup_class avoid_link p; s = as_micros (rtt p) in
                   case best of None \<Rightarrow> Some (pid p, s, c)
                   | Some (_, s', c') \<Rightarrow>
                       if c < c' then Some (pid p, s, c)
                       else if c = c' \<and> s < s' then Some (pid p, s, c) else best))
      in map_option fst (fold step ps None))"

definition backup_path :: "nat \<Rightarrow> pool \<Rightarrow> nat option" where
  "backup_path avoid ps = pick_backup avoid None None ps"

definition backup_path_better :: "nat \<Rightarrow> duration \<Rightarrow> session_config \<Rightarrow> pool \<Rightarrow> nat option" where
  "backup_path_better avoid cur cfg ps = pick_backup avoid (Some (cur, cfg)) None ps"

definition backup_prefer_class :: "session_config \<Rightarrow> nat \<Rightarrow> pool \<Rightarrow> nat option" where
  "backup_prefer_class cfg avoid ps =
     (case find (\<lambda>p. pid p = avoid) ps of
        None \<Rightarrow> backup_path avoid ps
      | Some cur \<Rightarrow>
          (let ok0 = map pid (filter (\<lambda>p. link p = link cur
                        \<or> effective_class_rtt cfg p \<le> effective_class_rtt cfg cur)
                      (in_class_or_better cfg cur ps));
               okl = fold (\<lambda>p acc. if pid p \<noteq> avoid \<and> is_schedulable p \<and> link p = link cur
                                     \<and> pid p \<notin> set acc then acc @ [pid p] else acc) ps ok0
           in if okl \<noteq> [] then pick_backup avoid None (Some okl) ps
              else if is_alive cur then None
              else backup_path avoid ps))"

end
