(* ===== verification/Scheduler_Facts.thy ===== *)
theory Scheduler_Facts
  imports Scheduler
begin

text \<open>
  What the scheduler's picks guarantee: a pick does not depend on the order of the pool, it
  exists whenever a path is alive, it comes from the class set, a retry moves away from the
  paths already tried, and failback does not swing back on the RTTs that caused it.
\<close>

section \<open>The linear scans compute a minimum\<close>

text \<open>
  A scan that keeps the least key, where the key determines the id: what the callers of
  \<open>pick_from_scored\<close> and \<open>pick_min_rx\<close> rely on.
\<close>

locale linear_pick =
  fixes key :: "'p \<Rightarrow> 'k::linorder" and idk :: "'k \<Rightarrow> nat" and id_of :: "'p \<Rightarrow> nat"
    and pick :: "'p list \<Rightarrow> nat option"
  assumes idk: "idk (key p) = id_of p"
    and pick_eq: "pick xs = map_option idk (list_min (map key xs))"
begin

lemma pick_None [simp]: "pick xs = None \<longleftrightarrow> xs = []"
  by (simp add: pick_eq)

lemma pick_SomeD:
  assumes "pick xs = Some i"
  shows "\<exists>p\<in>set xs. id_of p = i \<and> (\<forall>q\<in>set xs. key p \<le> key q)"
proof -
  from assms obtain k where "list_min (map key xs) = Some k" "idk k = i"
    by (auto simp: pick_eq)
  then show ?thesis by (auto simp: list_min_Some idk)
qed

lemma pick_in: "pick xs = Some i \<Longrightarrow> \<exists>p\<in>set xs. id_of p = i"
  using pick_SomeD by blast

lemma pick_cong: "set xs = set ys \<Longrightarrow> pick xs = pick ys"
  unfolding pick_eq by (intro arg_cong[where f = "map_option idk"] list_min_cong) simp

lemma pick_ex: "xs \<noteq> [] \<Longrightarrow> \<exists>i. pick xs = Some i"
  by (cases "pick xs") simp_all

end

definition scored_key :: "session_config \<Rightarrow> pick_pref \<Rightarrow> path_state \<Rightarrow> nat \<times> bool \<times> nat" where
  "scored_key cfg pref p = (fst (path_score cfg pref p), \<not> rtt_known p, pid p)"

definition rx_key :: "instant \<Rightarrow> session_config \<Rightarrow> path_state \<Rightarrow> bool \<times> duration \<times> nat \<times> nat" where
  "rx_key now cfg p = (\<not> rtt_known p, last_rx_ago now p, fst (path_score cfg PickAny p), pid p)"

lemma path_score_known [simp]: "snd (path_score cfg pref p) = rtt_known p"
  by (simp add: path_score_def Let_def)

lemma path_score_le: "fst (path_score cfg pref p) \<le> u64_max"
  by (simp add: path_score_def Let_def sat_add_le)

lemma path_score_pair: "path_score cfg pref p = (fst (path_score cfg pref p), rtt_known p)"
  by (simp add: prod_eq_iff)

lemma scored_step_min:
  "(case scored_step cfg pref p (i, s, k) of (i', s', k') \<Rightarrow> (s', \<not> k', i'))
     = min (scored_key cfg pref p) (s, \<not> k, i)"
proof -
  obtain t where t: "path_score cfg pref p = (t, rtt_known p)"
    using path_score_pair by blast
  then show ?thesis
    by (auto simp: scored_key_def min_def less_eq_prod_def)
qed

lemma fold_scored:
  "(case fold (scored_step cfg pref) xs (i, s, k) of (i', s', k') \<Rightarrow> (s', \<not> k', i'))
     = fold min (map (scored_key cfg pref) xs) (s, \<not> k, i)"
proof (induction xs arbitrary: i s k)
  case (Cons p xs)
  obtain i2 s2 k2 where b: "scored_step cfg pref p (i, s, k) = (i2, s2, k2)"
    by (cases "scored_step cfg pref p (i, s, k)")
  then have "min (scored_key cfg pref p) (s, \<not> k, i) = (s2, \<not> k2, i2)"
    using scored_step_min[of cfg pref p i s k] by (simp del: scored_step.simps)
  then show ?case using Cons.IH[of i2 s2 k2] b by (simp del: scored_step.simps)
qed simp

lemma pick_from_scored_min:
  "pick_from_scored cfg pref xs = map_option (snd \<circ> snd) (list_min (map (scored_key cfg pref) xs))"
proof (cases xs)
  case (Cons c cs)
  have le: "scored_key cfg pref c \<le> (u64_max, \<not> rtt_known c, pid c)"
    using path_score_le[of cfg pref c] by (auto simp: scored_key_def less_eq_prod_def)
  have id: "fst x = snd (snd (case x of (i, s, k) \<Rightarrow> (s, \<not> k, i)))" for x :: "nat \<times> nat \<times> bool"
    by (cases x) simp
  have "pick_from_scored cfg pref xs =
      Some (fst (fold (scored_step cfg pref) (c # cs) (pid c, u64_max, rtt_known c)))"
    by (simp add: pick_from_scored_def Cons del: fold_simps)
  also have "\<dots> = Some (snd (snd (fold min (map (scored_key cfg pref) (c # cs))
      (u64_max, \<not> rtt_known c, pid c))))"
    unfolding id fold_scored ..
  also have "fold min (map (scored_key cfg pref) (c # cs)) (u64_max, \<not> rtt_known c, pid c)
      = fold min (map (scored_key cfg pref) cs) (scored_key cfg pref c)"
    using le by (simp add: min_absorb1)
  finally show ?thesis by (simp add: Cons list_min_def)
qed (simp add: pick_from_scored_def)

lemma rx_step_min:
  "(case rx_step now cfg p (i, a, s, k) of (i', a', s', k') \<Rightarrow> (\<not> k', a', s', i'))
     = min (rx_key now cfg p) (\<not> k, a, s, i)"
proof -
  obtain t where t: "path_score cfg PickAny p = (t, rtt_known p)"
    using path_score_pair by blast
  then show ?thesis
    by (auto simp: rx_key_def min_def less_eq_prod_def Let_def)
qed

lemma fold_rx:
  "(case fold (rx_step now cfg) xs (i, a, s, k) of (i', a', s', k') \<Rightarrow> (\<not> k', a', s', i'))
   = fold min (map (rx_key now cfg) xs) (\<not> k, a, s, i)"
proof (induction xs arbitrary: i a s k)
  case (Cons p xs)
  obtain i2 a2 s2 k2 where b: "rx_step now cfg p (i, a, s, k) = (i2, a2, s2, k2)"
    by (cases "rx_step now cfg p (i, a, s, k)")
  then have "min (rx_key now cfg p) (\<not> k, a, s, i) = (\<not> k2, a2, s2, i2)"
    using rx_step_min[of now cfg p i a s k] by (simp del: rx_step.simps)
  then show ?case using Cons.IH[of i2 a2 s2 k2] b by (simp del: rx_step.simps)
qed simp

lemma pick_min_rx_min:
  "pick_min_rx now cfg xs = map_option (snd \<circ> snd \<circ> snd) (list_min (map (rx_key now cfg) xs))"
proof (cases xs)
  case (Cons c cs)
  obtain t where t: "path_score cfg PickAny c = (t, rtt_known c)"
    using path_score_pair by blast
  have id: "fst x = snd (snd (snd (case x of (i, a, s, k) \<Rightarrow> (\<not> k, a, s, i))))"
    for x :: "nat \<times> nat \<times> nat \<times> bool"
    by (cases x) simp
  have "pick_min_rx now cfg xs =
      Some (fst (fold (rx_step now cfg) cs (pid c, last_rx_ago now c, t, rtt_known c)))"
    by (simp add: pick_min_rx_def Cons t)
  also have "\<dots> = Some (snd (snd (snd (fold min (map (rx_key now cfg) cs) (rx_key now cfg c)))))"
    unfolding id fold_rx by (simp add: rx_key_def t)
  finally show ?thesis by (simp add: Cons list_min_def)
qed (simp add: pick_min_rx_def)

interpretation scored: linear_pick "scored_key cfg pref" "snd \<circ> snd" pid "pick_from_scored cfg pref"
  for cfg pref
  by unfold_locales (simp_all add: scored_key_def pick_from_scored_min)

interpretation rx: linear_pick "rx_key now cfg" "snd \<circ> snd \<circ> snd" pid "pick_min_rx now cfg"
  for now cfg
  by unfold_locales (simp_all add: rx_key_def pick_min_rx_min)

section \<open>Class sets\<close>

lemma class_candidates_subset: "set (class_candidates cfg ps) \<subseteq> set ps"
  by (auto simp: class_candidates_def Let_def split: if_splits)

lemma class_candidates_Nil [simp]: "class_candidates cfg ps = [] \<longleftrightarrow> ps = []"
  by (auto simp: class_candidates_def Let_def)

lemma fastest_subset: "p \<in> set (fastest_class_set cfg ps) \<Longrightarrow> p \<in> set ps \<and> is_alive p"
  unfolding fastest_class_set_def Let_def
  using class_candidates_subset[of cfg "filter is_alive ps"] filter_or_all_subset
  by (fastforce split: if_splits option.splits)

lemma fastest_Nil: "fastest_class_set cfg ps = [] \<longleftrightarrow> (\<forall>p\<in>set ps. \<not> is_alive p)"
  by (auto simp: fastest_class_set_def Let_def filter_empty_conv split: option.splits)

lemma interactive_subset: "set (interactive_class_set cfg ps) \<subseteq> set (fastest_class_set cfg ps)"
  unfolding interactive_class_set_def Let_def
  using filter_or_all_subset by (fastforce split: option.splits if_splits)

lemma interactive_Nil: "interactive_class_set cfg ps = [] \<longleftrightarrow> fastest_class_set cfg ps = []"
  by (auto simp: interactive_class_set_def Let_def split: option.splits)

lemma pick_from_SomeD: "pick_from now cfg pref xs = Some i \<Longrightarrow> \<exists>p\<in>set xs. pid p = i"
  unfolding pick_from_def loss_fresh_or_all_def
  by (drule scored.pick_in) (use filter_or_all_subset in fastforce)

lemma pick_from_None [simp]: "pick_from now cfg pref xs = None \<longleftrightarrow> xs = []"
  by (simp add: pick_from_def loss_fresh_or_all_def)

lemma pick_from_fresh:
  assumes "pick_from now cfg pref xs = Some i" and "\<exists>p\<in>set xs. is_loss_fresh now cfg p"
  shows "\<exists>p\<in>set xs. pid p = i \<and> is_loss_fresh now cfg p"
proof -
  from assms(1) obtain p where p: "p \<in> set (filter_or_all (is_loss_fresh now cfg) xs)" "pid p = i"
    unfolding pick_from_def loss_fresh_or_all_def using scored.pick_in by blast
  then show ?thesis
    using filter_or_all_fit[OF assms(2) p(1)] filter_or_all_subset[of "is_loss_fresh now cfg" xs] by blast
qed

section \<open>Order independence\<close>

lemma min_class_rtt_cong: "set ps = set qs \<Longrightarrow> min_class_rtt cfg ps = min_class_rtt cfg qs"
proof -
  assume e: "set ps = set qs"
  have f: "list_min (map (effective_class_rtt cfg) (filter P ps))
      = list_min (map (effective_class_rtt cfg) (filter P qs))" for P
    using e by (intro list_min_cong) auto
  have g: "list_min (map (effective_class_rtt cfg) ps) = list_min (map (effective_class_rtt cfg) qs)"
    using e by (intro list_min_cong) auto
  show ?thesis unfolding min_class_rtt_def f g ..
qed

lemma filter_Nil_cong: "set ps = set qs \<Longrightarrow> filter P ps = [] \<longleftrightarrow> filter P qs = []"
  by (simp add: filter_empty_conv)

lemma class_candidates_cong:
  "set ps = set qs \<Longrightarrow> set (class_candidates cfg ps) = set (class_candidates cfg qs)"
  unfolding class_candidates_def Let_def
  by (simp add: min_class_rtt_cong[of ps qs] filter_Nil_cong[of ps qs] cong: if_cong)

lemma class_best_cong: "set ps = set qs \<Longrightarrow> class_best cfg ps = class_best cfg qs"
proof -
  assume e: "set ps = set qs"
  have "list_min (map (effective_class_rtt cfg) (filter P ps))
      = list_min (map (effective_class_rtt cfg) (filter P qs))" for P
    using e by (intro list_min_cong) auto
  then show ?thesis by (simp add: class_best_def)
qed

lemma fastest_cong:
  assumes "set ps = set qs"
  shows "set (fastest_class_set cfg ps) = set (fastest_class_set cfg qs)"
proof -
  let ?a = "filter is_alive ps" and ?b = "filter is_alive qs"
  have e: "set ?a = set ?b" using assms by auto
  note c = class_candidates_cong[OF e, of cfg] 
  have "?a = [] \<longleftrightarrow> ?b = []" using assms by (rule filter_Nil_cong)
  then show ?thesis
    unfolding fastest_class_set_def Let_def
    using class_best_cong[OF c] c set_filter_or_all_cong[OF c]
    by (simp split: option.splits)
qed

lemma interactive_cong:
  assumes "set ps = set qs"
  shows "set (interactive_class_set cfg ps) = set (interactive_class_set cfg qs)"
proof -
  let ?f = "filter_or_all (\<lambda>p. \<not> class_known p \<or> \<not> class_jump (cfg_tuning cfg) (rtt p) (class_rtt p))"
  let ?a = "fastest_class_set cfg ps" and ?b = "fastest_class_set cfg qs"
  have e: "set ?a = set ?b" using assms by (rule fastest_cong)
  have s: "set (?f ?a) = set (?f ?b)" by (rule set_filter_or_all_cong[OF e])
  have m: "list_min (map g (?f ?a)) = list_min (map g (?f ?b))" for g :: "path_state \<Rightarrow> nat"
    using s by (intro list_min_cong) auto
  have mf: "list_min (map class_rtt (filter class_known (?f ?a)))
      = list_min (map class_rtt (filter class_known (?f ?b)))"
    using s by (intro list_min_cong) auto
  have n: "?a = [] \<longleftrightarrow> ?b = []" using e by (metis set_empty)
  show ?thesis
  proof (cases "?a = []")
    case False
    then show ?thesis
      unfolding interactive_class_set_def Let_def m mf
      using n e set_filter_or_all_cong[OF e] by (simp split: option.splits)
  qed (use n in \<open>simp add: interactive_class_set_def\<close>)
qed

lemma pick_from_cong: "set xs = set ys \<Longrightarrow> pick_from now cfg pref xs = pick_from now cfg pref ys"
  unfolding pick_from_def loss_fresh_or_all_def by (intro scored.pick_cong set_filter_or_all_cong)

lemma pick_path_pref_cong:
  "set ps = set qs \<Longrightarrow> pick_path_pref now cfg pref ps = pick_path_pref now cfg pref qs"
  using pick_from_cong[OF interactive_cong[of ps qs cfg]] pick_from_cong[OF fastest_cong[of ps qs cfg]]
  by (cases pref) (simp_all add: pick_path_pref_def)

lemma find_pid_cong:
  assumes "inj_on pid (set ps)" and "set ps = set qs"
  shows "find (\<lambda>p. pid p = i) ps = find (\<lambda>p. pid p = i) qs"
proof (cases "find (\<lambda>p. pid p = i) ps")
  case None
  then have "find (\<lambda>p. pid p = i) qs = None" using assms(2) unfolding find_None_iff by blast
  then show ?thesis using None by simp
next
  case (Some p)
  then have p: "p \<in> set ps" "pid p = i" using find_Some_in[OF Some] by simp_all
  have "find (\<lambda>p. pid p = i) qs \<noteq> None" unfolding find_None_iff using p assms(2) by blast
  then obtain q where q: "find (\<lambda>p. pid p = i) qs = Some q" by blast
  then have "q \<in> set ps" "pid q = i" using find_Some_in[OF q] assms(2) by simp_all
  then have "q = p" using p assms(1) by (auto dest: inj_onD)
  then show ?thesis using Some q by simp
qed

lemma pick_rung_cong:
  "set ps = set qs \<Longrightarrow> pick_rung now cfg l P other ps = pick_rung now cfg l P other qs"
  unfolding pick_rung_def by (rule rx.pick_cong) auto

lemma pick_retry_cong:
  assumes "inj_on pid (set ps)" and "set ps = set qs"
  shows "pick_retry_path now cfg tried ps = pick_retry_path now cfg tried qs"
  unfolding pick_retry_path_def Let_def
  by (simp add: find_pid_cong[OF assms] pick_rung_cong[OF assms(2)] cong: option.case_cong)

section \<open>Retry\<close>

lemma pick_rung_SomeD:
  "pick_rung now cfg l P other ps = Some i \<Longrightarrow> \<exists>p\<in>set ps. pid p = i \<and> P p"
  unfolding pick_rung_def by (drule rx.pick_in) auto

lemma pick_rung_None:
  "pick_rung now cfg l P False ps = None \<longleftrightarrow> (\<forall>p\<in>set ps. \<not> P p)"
  by (simp add: pick_rung_def filter_empty_conv)

lemma schedulable_alive: "is_schedulable p \<Longrightarrow> is_alive p"
  by (simp add: is_schedulable_def is_up_def is_alive_def)

lemma retry_None_aux:
  "pick_retry_path now cfg tried ps = None \<longleftrightarrow>
     (\<forall>p\<in>set ps. is_alive p \<longrightarrow> tried \<noteq> [] \<and> pid p = last tried)"
proof
  assume "pick_retry_path now cfg tried ps = None"
  then have "\<forall>p\<in>set ps. \<not> (is_alive p \<and> (case (if tried = [] then None else Some (last tried)) of
      Some i \<Rightarrow> pid p \<noteq> i | None \<Rightarrow> True))"
    by (simp add: pick_retry_path_def Let_def pick_rung_None)
  then show "\<forall>p\<in>set ps. is_alive p \<longrightarrow> tried \<noteq> [] \<and> pid p = last tried"
    by (auto split: if_splits)
next
  assume a: "\<forall>p\<in>set ps. is_alive p \<longrightarrow> tried \<noteq> [] \<and> pid p = last tried"
  have dead: "\<not> P p" if "p \<in> set ps" "P p \<Longrightarrow> is_alive p \<and> pid p \<notin> set tried" for P p
    using a that by (metis last_in_set)
  show "pick_retry_path now cfg tried ps = None"
    using a schedulable_alive
    by (fastforce simp: pick_retry_path_def Let_def pick_rung_def filter_empty_conv split: option.splits)
qed

lemma retry_Some_aux:
  assumes "pick_retry_path now cfg tried ps = Some i"
  shows "\<exists>p\<in>set ps. pid p = i \<and> is_alive p
    \<and> (tried \<noteq> [] \<longrightarrow> i \<noteq> last tried)
    \<and> ((\<exists>q\<in>set ps. is_alive q \<and> pid q \<notin> set tried) \<longrightarrow> i \<notin> set tried)
    \<and> ((\<exists>q\<in>set ps. is_schedulable q \<and> pid q \<notin> set tried) \<longrightarrow> is_schedulable p)
    \<and> ((\<exists>q\<in>set ps. is_schedulable q \<and> is_loss_fresh now cfg q \<and> pid q \<notin> set tried)
         \<longrightarrow> is_loss_fresh now cfg p)"
proof -
  define cur where "cur = (if tried = [] then None else Some (last tried))"
  define al where "al = (case cur of None \<Rightarrow> None | Some i \<Rightarrow> map_option link (find (\<lambda>p. pid p = i) ps))"
  let ?r1 = "\<lambda>p. pid p \<notin> set tried \<and> is_loss_fresh now cfg p \<and> is_schedulable p"
  let ?r3 = "\<lambda>p. pid p \<notin> set tried \<and> is_schedulable p"
  let ?r4 = "\<lambda>p. pid p \<notin> set tried \<and> is_alive p"
  let ?r5 = "\<lambda>p. is_alive p \<and> (case cur of Some i \<Rightarrow> pid p \<noteq> i | None \<Rightarrow> True)"
  let ?R = "pick_rung now cfg al"
  have nl: "i \<notin> set tried \<Longrightarrow> tried \<noteq> [] \<Longrightarrow> i \<noteq> last tried" for i by auto
  have e: "or_else (?R ?r1 True ps) (or_else (?R ?r1 False ps) (or_else (?R ?r3 False ps)
      (or_else (?R ?r4 False ps) (?R ?r5 False ps)))) = Some i"
    using assms unfolding pick_retry_path_def Let_def cur_def al_def by simp
  then consider "?R ?r1 True ps = Some i \<or> ?R ?r1 False ps = Some i"
    | "?R ?r1 False ps = None" "?R ?r3 False ps = Some i"
    | "?R ?r1 False ps = None" "?R ?r3 False ps = None" "?R ?r4 False ps = Some i"
    | "?R ?r1 False ps = None" "?R ?r3 False ps = None" "?R ?r4 False ps = None" "?R ?r5 False ps = Some i"
    unfolding or_else_eq_Some by argo
  then show ?thesis
  proof cases
    case 1
    then obtain p where p: "p \<in> set ps" "pid p = i" "?r1 p" using pick_rung_SomeD[of now cfg al ?r1] by blast
    then show ?thesis using schedulable_alive[of p] nl[of i] by blast
  next
    case 2
    then obtain p where p: "p \<in> set ps" "pid p = i" "?r3 p" using pick_rung_SomeD[of now cfg al ?r3] by blast
    moreover have "\<forall>q\<in>set ps. \<not> ?r1 q" using 2(1) by (simp only: pick_rung_None)
    ultimately show ?thesis using schedulable_alive[of p] nl[of i] by blast
  next
    case 3
    then obtain p where p: "p \<in> set ps" "pid p = i" "?r4 p" using pick_rung_SomeD[of now cfg al ?r4] by blast
    moreover have "\<forall>q\<in>set ps. \<not> ?r1 q" "\<forall>q\<in>set ps. \<not> ?r3 q" using 3(1,2) by (simp_all only: pick_rung_None)
    ultimately show ?thesis using nl[of i] by blast
  next
    case 4
    obtain p where p: "p \<in> set ps" "pid p = i" "?r5 p" using pick_rung_SomeD[OF 4(4)] by blast
    moreover from p(2,3) have "tried \<noteq> [] \<longrightarrow> i \<noteq> last tried" by (auto simp: cur_def split: if_splits)
    moreover have "\<forall>q\<in>set ps. \<not> ?r1 q" "\<forall>q\<in>set ps. \<not> ?r3 q" "\<forall>q\<in>set ps. \<not> ?r4 q"
      using 4(1-3) by (simp_all only: pick_rung_None)
    ultimately show ?thesis by blast
  qed
qed

section \<open>Failback\<close>

lemma in_class_pick:
  "pick_in_class now cfg cur ps = Some i \<Longrightarrow> \<exists>p\<in>set ps. pid p = i \<and> is_schedulable p \<and> i \<noteq> pid cur
     \<and> \<not> should_failback cfg (effective_class_rtt cfg p) (effective_class_rtt cfg cur)"
  unfolding pick_in_class_def Let_def in_class_or_better_def
  by (auto split: if_splits dest!: pick_from_SomeD)

lemma failback_rest_SomeD:
  "failback_rest now cfg cur ps = Some (i, r) \<Longrightarrow> r = ClassEmpty \<and> i \<noteq> pid cur \<and> (\<exists>p\<in>set ps. pid p = i \<and> is_alive p)"
  unfolding failback_rest_def Let_def
  by (auto split: if_splits option.splits
      simp: in_class_or_better_alive_def pick_path_def pick_path_pref_def
      dest!: pick_from_SomeD fastest_subset) (blast intro: schedulable_alive)+

lemma failback_target_cases:
  assumes "failback_target now cfg cur ps = Some (i, r)"
  obtains (pick) best where "pick_in_class now cfg cur ps = Some i" "find (\<lambda>p. pid p = i) ps = Some best"
      "r = Upgrade \<longrightarrow> is_schedulable cur \<and> upgrade_ok now cfg cur best ps"
  | (rest) "failback_rest now cfg cur ps = Some (i, r)"
  using assms unfolding failback_target_def
  by (auto split: option.splits if_splits)

lemma failback_target_aux:
  assumes "failback_target now cfg cur ps = Some (i, r)"
  shows "i \<noteq> pid cur \<and> (\<exists>p\<in>set ps. pid p = i \<and> is_alive p)"
  using assms
  by (cases rule: failback_target_cases)
    (auto dest!: in_class_pick failback_rest_SomeD intro: schedulable_alive)

lemma class_jump_less:
  assumes "class_jump STANDARD c b" and "as_micros b < 2 ^ 50"
  shows "b < c"
proof -
  let ?u = "as_micros b"
  have "f64_to_u64 (f64_mul (f64_of_nat ?u) (F64 3 1)) = ?u * 3 div 2"
    using assms(2) by (simp add: f64_of_nat_exact rnd53_exact u64_max_def)
  then have "scale b (F64 3 1) (from_millis 8) = from_micros (?u * 3 div 2) + from_millis 8"
    by (simp add: scale_def)
  then have "from_micros (?u * 3 div 2) + from_millis 8 \<le> c"
    using assms(1) by (simp add: class_jump_def STANDARD_def)
  moreover have "?u * 1000 \<le> (?u * 3 div 2) * 1000" by simp
  moreover have "b < ?u * 1000 + 1000" by (simp add: as_micros_def)
  ultimately show ?thesis by (simp add: from_micros_def from_millis_def)
qed

lemma class_jump_failback:
  "cfg_tuning cfg = STANDARD \<Longrightarrow> class_jump STANDARD c b \<Longrightarrow> as_micros b < 2 ^ 50 \<Longrightarrow> should_failback cfg c b"
  using class_jump_less[of c b] by (auto simp: should_failback_def)

lemma no_swing_aux:
  assumes std: "cfg_tuning cfg = STANDARD" and inj: "inj_on pid (set ps)"
    and cur: "cur \<in> set ps" and best: "best \<in> set ps"
    and up: "failback_target now cfg cur ps = Some (pid best, Upgrade)"
    and small: "as_micros (effective_class_rtt cfg cur) < 2 ^ 50" "as_micros (effective_class_rtt cfg best) < 2 ^ 50"
  shows "failback_target now' cfg best ps \<noteq> Some (pid cur, Upgrade)"
proof
  assume rev: "failback_target now' cfg best ps = Some (pid cur, Upgrade)"
  let ?c = "effective_class_rtt cfg cur" and ?b = "effective_class_rtt cfg best"
  have same: "find (\<lambda>p. pid p = pid q) ps = Some q" if "q \<in> set ps" for q
  proof -
    have "find (\<lambda>p. pid p = pid q) ps \<noteq> None" unfolding find_None_iff using that by blast
    then obtain r where r: "find (\<lambda>p. pid p = pid q) ps = Some r" by blast
    then show ?thesis using find_Some_in[OF r] that inj by (auto dest: inj_onD)
  qed
  have f: "upgrade_ok now cfg cur best ps \<and> \<not> should_failback cfg ?b ?c"
    using up
  proof (cases rule: failback_target_cases)
    case (pick b)
    then show ?thesis
      using same[OF best] in_class_pick[OF pick(1)] inj best by (auto dest: inj_onD)
  qed (use failback_rest_SomeD in blast)
  have g: "upgrade_ok now' cfg best cur ps \<and> \<not> should_failback cfg ?c ?b"
    using rev
  proof (cases rule: failback_target_cases)
    case (pick b)
    then show ?thesis
      using same[OF cur] in_class_pick[OF pick(1)] inj cur by (auto dest: inj_onD)
  qed (use failback_rest_SomeD in blast)
  have nj: "\<not> class_jump STANDARD ?c ?b" "\<not> class_jump STANDARD ?b ?c"
    using f g class_jump_failback[OF std] small by blast+
  have bi: "list_ex (\<lambda>p. pid p = pid best) (fastest_class_set cfg ps)"
    using f nj(1) by (auto simp: upgrade_ok_def Let_def std split: if_splits)
  then show False
    using g nj(2) by (auto simp: upgrade_ok_def Let_def std split: if_splits)
qed

section \<open>The class is closed under better paths\<close>

lemma class_closed_aux:
  assumes p: "p \<in> set (fastest_class_set cfg ps)" and q: "q \<in> set ps"
    and s: "is_schedulable p" "rtt_known p" "class_known p" "is_schedulable q" "rtt_known q" "class_known q"
    and le: "effective_class_rtt cfg q \<le> effective_class_rtt cfg p"
  shows "q \<in> set (fastest_class_set cfg ps)"
proof -
  let ?al = "filter is_alive ps" and ?e = "effective_class_rtt cfg"
  let ?C = "class_candidates cfg ?al"
  have ne: "?al \<noteq> []" and qa: "q \<in> set ?al"
    using q s(4) schedulable_alive[of q] by (auto simp: filter_empty_conv)
  have pc: "p \<in> set ?C"
    using p ne filter_or_all_subset by (fastforce simp: fastest_class_set_def Let_def split: option.splits)
  have qc: "q \<in> set ?C"
  proof (cases "filter (\<lambda>p. is_schedulable p \<and> rtt_known p
                         \<and> \<not> is_backup cfg (?e p) (min_class_rtt cfg ?al)) ?al = []")
    case True
    then show ?thesis using qa s(4) by (auto simp: class_candidates_def Let_def filter_empty_conv)
  next
    case False
    then have C: "?C = filter (\<lambda>p. is_schedulable p \<and> rtt_known p
                         \<and> \<not> is_backup cfg (?e p) (min_class_rtt cfg ?al)) ?al"
      by (simp add: class_candidates_def Let_def)
    then have "\<not> is_backup cfg (?e q) (min_class_rtt cfg ?al)"
      using pc is_backup_mono[OF _ le order_refl] by auto
    then show ?thesis unfolding C using qa s by simp
  qed
  show ?thesis
  proof (cases "class_best cfg ?C")
    case None
    then show ?thesis using ne qc by (simp add: fastest_class_set_def Let_def)
  next
    case (Some b)
    let ?P = "\<lambda>p. \<not> should_failback cfg (class_rank cfg p) b"
    have "q \<in> set (filter_or_all ?P ?C)"
    proof (cases "filter ?P ?C = []")
      case False
      then have "?P p" using p ne Some by (simp add: fastest_class_set_def Let_def filter_or_all_def)
      then have "?P q" using le s should_failback_mono[OF _ _ order_refl] by (auto simp: class_rank_def)
      then show ?thesis using False qc by (simp add: filter_or_all_def Let_def)
    qed (use qc in \<open>simp add: filter_or_all_def Let_def\<close>)
    then show ?thesis using ne Some by (simp add: fastest_class_set_def Let_def)
  qed
qed

section \<open>Bulk picks\<close>

lemma filter_upd_kept: "q \<in> set (fst (filter_upd f ps)) \<Longrightarrow> \<exists>p\<in>set ps. f p = (True, q)"
  by (induction ps) (auto simp: Let_def split: prod.splits if_splits)

lemma filter_upd_all: "q \<in> set (snd (filter_upd f ps)) \<Longrightarrow> \<exists>p\<in>set ps. q = snd (f p)"
  by (induction ps) (auto simp: Let_def split: prod.splits)

lemma filter_upd_map: "snd (filter_upd f ps) = map (snd \<circ> f) ps"
  by (induction ps) (auto simp: Let_def split: prod.splits)

lemma loop_fit_or_all_in:
  assumes "q \<in> set (fst (loop_fit_or_all now cfg r ps))"
  shows "\<exists>p\<in>set ps. q = snd (loop_fit now cfg r p)"
proof -
  obtain fit us where f: "filter_upd (loop_fit now cfg r) ps = (fit, us)"
    by (cases "filter_upd (loop_fit now cfg r) ps")
  show ?thesis
    using assms filter_upd_kept[of q "loop_fit now cfg r" ps] filter_upd_all[of q "loop_fit now cfg r" ps]
    by (auto simp: loop_fit_or_all_def f split: if_splits) (metis snd_conv)
qed

lemma quiet_or_all_subset: "set (quiet_or_all h ps) \<subseteq> set ps"
  by (simp add: quiet_or_all_def filter_or_all_subset)

lemma pick_bulk_aux:
  assumes "fst (pick_bulk now cfg pool_ref excl h ps) = Some i"
  shows "\<exists>p\<in>set (fastest_class_set cfg ps). pid p = i \<and> is_schedulable p \<and> Some i \<noteq> excl
           \<and> room_bytes p \<ge> MAX_STREAM_PAYLOAD"
proof -
  let ?sched = "filter (\<lambda>p. is_schedulable p \<and> Some (pid p) \<noteq> excl) (fastest_class_set cfg ps)"
  let ?fresh = "filter_or_all (is_quiet_fresh now cfg) ?sched"
  obtain room us where f: "filter_upd has_room_or_mark ?fresh = (room, us)"
    by (cases "filter_upd has_room_or_mark ?fresh")
  obtain fit us2 where g: "loop_fit_or_all now cfg pool_ref room = (fit, us2)"
    by (cases "loop_fit_or_all now cfg pool_ref room")
  have "pick_from_scored cfg PickAny (quiet_or_all h fit) = Some i"
    using assms unfolding pick_bulk_def Let_def f g prod.case by (cases "room = []") simp_all
  then obtain q where q: "q \<in> set fit" "pid q = i"
    using scored.pick_in quiet_or_all_subset by blast
  then obtain p where p: "p \<in> set room" "q = snd (loop_fit now cfg pool_ref p)"
    using loop_fit_or_all_in[of q now cfg pool_ref room] g by auto
  then have "p \<in> set (fst (filter_upd has_room_or_mark ?fresh))" by (simp add: f)
  then obtain p0 where p0: "p0 \<in> set ?fresh" "has_room_or_mark p0 = (True, p)"
    using filter_upd_kept by blast
  then have "p0 = p" "room_bytes p \<ge> MAX_STREAM_PAYLOAD"
    by (auto simp: has_room_or_mark_def split: if_splits)
  moreover have "p0 \<in> set ?sched"
    using p0(1) filter_or_all_subset[of "is_quiet_fresh now cfg" ?sched] by (rule subsetD[rotated])
  moreover have "pid p = i" using q(2) p(2) by (simp add: frame_simps)
  ultimately show ?thesis by auto
qed

section \<open>Properties\<close>

definition witness_path :: "nat \<Rightarrow> nat \<Rightarrow> path_state" where
  "witness_path i us = (let p = path_new i ''a#0'' 4 0
     in p\<lparr>rtts := (rtts p)\<lparr>rtt_ewma_us := us, rtt_stable_us := us, rtt_class_us := us\<rparr>\<rparr>)"

lemma witness_path_simps:
  "pid (witness_path i us) = i" "is_schedulable (witness_path i us)" "is_alive (witness_path i us)"
  "0 < us \<Longrightarrow> rtt_known (witness_path i us)" "0 < us \<Longrightarrow> class_known (witness_path i us)"
  by (simp_all add: witness_path_def Let_def path_new_def is_schedulable_def is_up_def is_alive_def
      rtt_known_def class_known_def)

definition witness_pool :: pool where
  "witness_pool = [witness_path 4 90000, witness_path 2 30000, witness_path 3 30000]"

lemma witness_path_rtts:
  "0 < us \<Longrightarrow> rtt (witness_path i us) = from_micros us"
  "0 < us \<Longrightarrow> class_rtt (witness_path i us) = from_micros us"
  "0 < us \<Longrightarrow> stable_rtt (witness_path i us) = from_micros us"
  "0 < us \<Longrightarrow> effective_class_rtt cfg (witness_path i us) = from_micros us"
  "0 < us \<Longrightarrow> class_rank cfg (witness_path i us) = from_micros us"
  "last_rx (witness_path i us) = 0" "up_since (witness_path i us) = 0" "inflight (witness_path i us) = 0"
  "sticky_streams (witness_path i us) = 0" "is_up (witness_path i us)"
  by (simp_all add: witness_path_def Let_def path_new_def rtt_def rtt_us_def class_rtt_def stable_rtt_def
      effective_class_rtt_def class_rank_def class_known_def is_up_def)

lemma witness_backup: "is_backup default_config (from_micros 90000) (from_micros 30000)"
   "\<not> is_backup default_config (from_micros 30000) (from_micros 30000)"
  by (simp_all add: is_backup_def scale_def default_config_def STANDARD_def from_micros_def as_micros_def from_millis_def f64_eval)

lemma witness_class: "fastest_class_set default_config witness_pool = [witness_path 2 30000, witness_path 3 30000]"
proof -
  let ?a = "witness_path 4 90000" and ?b = "witness_path 2 30000" and ?c = "witness_path 3 30000"
  have m: "min_class_rtt default_config [?a, ?b, ?c] = from_micros 30000"
    by (simp add: min_class_rtt_def witness_path_simps witness_path_rtts list_min_def) (simp add: from_micros_def)
  have c: "class_candidates default_config [?a, ?b, ?c] = [?b, ?c]"
    by (simp add: class_candidates_def m witness_path_simps witness_path_rtts witness_backup)
  have b: "class_best default_config [?b, ?c] = Some (from_micros 30000)"
    by (simp add: class_best_def witness_path_simps witness_path_rtts list_min_def)
  show ?thesis
    by (simp add: fastest_class_set_def witness_pool_def witness_path_simps c b filter_or_all_def witness_path_rtts)
qed

lemma witness_fresh: "is_quiet_fresh 0 default_config (witness_path i us)"
  "is_loss_fresh 0 default_config (witness_path i us)"
proof -
  have "0 < ping_interval_max default_config" by (simp add: default_config_def from_millis_def)
  then have "0 < degrade_timeout default_config k r" for k r
    using ping_max_le_degrade_timeout[of default_config k r] by linarith
  then show "is_quiet_fresh 0 default_config (witness_path i us)"
    by (simp add: is_quiet_fresh_def last_rx_ago_def elapsed_def)
  have "0 < loss_timeout default_config r" for r
    using loss_clock.clk_lo[of r] by (simp add: loss_timeout_def default_config_def from_millis_def)
  then show "is_loss_fresh 0 default_config (witness_path i us)"
    by (simp add: is_loss_fresh_def last_rx_ago_def elapsed_def)
qed

lemma witness_room: "has_room_or_mark (witness_path i us) = (True, witness_path i us)"
  by (simp add: has_room_or_mark_def room_bytes_def witness_path_def Let_def path_new_def budget_bytes_def
      STANDARD_def clamp_nat_def MAX_STREAM_PAYLOAD_def)

lemma loop_fit_or_all_Nil: "fst (loop_fit_or_all now cfg r ps) = [] \<longleftrightarrow> ps = []"
  using filter_upd_map[of "loop_fit now cfg r" ps]
  by (auto simp: loop_fit_or_all_def split: prod.splits)

lemma witness_pick_bulk: "\<exists>i. fst (pick_bulk 0 default_config None None (\<lambda>_. False) witness_pool) = Some i"
proof -
  let ?r = "[witness_path 2 30000, witness_path 3 30000]"
  obtain fit us where f: "loop_fit_or_all 0 default_config None ?r = (fit, us)"
    by (cases "loop_fit_or_all 0 default_config None ?r")
  then have "fit \<noteq> []" using loop_fit_or_all_Nil[of 0 default_config None ?r] by simp
  then have "\<exists>i. pick_from_scored default_config PickAny (quiet_or_all (\<lambda>_. False) fit) = Some i"
    by (intro scored.pick_ex) (simp add: quiet_or_all_def)
  then show ?thesis
    by (simp add: pick_bulk_def witness_class witness_path_simps filter_or_all_def witness_fresh
        witness_room f Let_def)
qed

lemma witness_failback:
  "failback_target 3000000000 default_config (witness_path 4 90000) witness_pool = Some (2, Upgrade)"
proof -
  let ?cfg = default_config and ?cur = "witness_path 4 90000"
  have sf: "should_failback ?cfg (from_micros 90000) (from_micros 30000)"
    "\<not> should_failback ?cfg (from_micros 30000) (from_micros 90000)"
    by (simp_all add: should_failback_def class_jump_def scale_def default_config_def STANDARD_def
        from_micros_def as_micros_def from_millis_def f64_eval)
  have stale: "\<not> is_loss_fresh 3000000000 ?cfg (witness_path i us)" for i us
    using loss_clock.clk_hi[of "path_loss_rtt (witness_path i us)"]
    by (simp add: is_loss_fresh_def last_rx_ago_def elapsed_def witness_path_rtts loss_timeout_def
        default_config_def from_millis_def)
  have sc: "fst (path_score ?cfg PickAny (witness_path 3 30000)) = fst (path_score ?cfg PickAny (witness_path 2 30000))"
    by (simp add: path_score_def load_term_def rtt_score_us_def witness_path_rtts witness_path_simps rtt_us_def)
      (simp add: witness_path_def Let_def path_new_def)
  have c: "in_class_or_better ?cfg ?cur witness_pool = [witness_path 2 30000, witness_path 3 30000]"
    by (simp add: in_class_or_better_def witness_pool_def witness_path_simps witness_path_rtts sf)
  have "pick_in_class 3000000000 ?cfg ?cur witness_pool = Some 2"
    by (simp add: pick_in_class_def c pick_from_def loss_fresh_or_all_def filter_or_all_def stale
        pick_from_scored_min list_min_def scored_key_def sc witness_path_simps min_def less_eq_prod_def)
  moreover have "upgrade_ok 3000000000 ?cfg ?cur (witness_path 2 30000) witness_pool"
    by (simp add: upgrade_ok_def witness_class witness_path_simps witness_path_rtts list_min_def sf Let_def
        up_age_def elapsed_def) (simp add: failback_stable_def failback_stable_for_def rtt_hold_def
        default_config_def STANDARD_def from_millis_def from_micros_def)
  ultimately show ?thesis
    by (simp add: failback_target_def witness_pool_def witness_path_simps)
qed

text \<open>
  C37: Placement does not depend on the order in which the session enumerates its paths: pools
  with the same paths give the same pick, for new streams (either preference) and, as path ids
  are unique, for retries.
\<close>

theorem picks_order_independent:
  assumes "inj_on pid (set ps)" and "set ps = set qs"
  shows "pick_path_pref now cfg pref ps = pick_path_pref now cfg pref qs
    \<and> pick_retry_path now cfg tried ps = pick_retry_path now cfg tried qs"
  using pick_path_pref_cong[OF assms(2)] pick_retry_cong[OF assms] by simp

theorem picks_order_independent_witness:
  "pick_path_pref 0 default_config PickAny [witness_path 1 9, witness_path 2 7]
     = pick_path_pref 0 default_config PickAny [witness_path 2 7, witness_path 1 9]"
  by (rule picks_order_independent[THEN conjunct1])
    (auto simp: witness_path_simps)

text \<open>
  C29: A new stream finds a path exactly when one is alive, and the path it gets is alive and in
  the fastest class.
\<close>

theorem pick_path_total:
  "(pick_path_pref now cfg pref ps = None \<longleftrightarrow> (\<forall>p\<in>set ps. \<not> is_alive p))
   \<and> (\<forall>i. pick_path_pref now cfg pref ps = Some i \<longrightarrow>
        (\<exists>p\<in>set (fastest_class_set cfg ps). pid p = i \<and> p \<in> set ps \<and> is_alive p))"
proof (intro conjI allI impI)
  show "pick_path_pref now cfg pref ps = None \<longleftrightarrow> (\<forall>p\<in>set ps. \<not> is_alive p)"
    by (cases pref) (simp_all add: pick_path_pref_def interactive_Nil fastest_Nil)
  fix i assume "pick_path_pref now cfg pref ps = Some i"
  then obtain p where "p \<in> set (fastest_class_set cfg ps)" "pid p = i"
    using interactive_subset by (cases pref) (auto simp: pick_path_pref_def dest!: pick_from_SomeD)
  then show "\<exists>p\<in>set (fastest_class_set cfg ps). pid p = i \<and> p \<in> set ps \<and> is_alive p"
    using fastest_subset by blast
qed

theorem pick_path_total_witness:
  "pick_path_pref 0 default_config PickInteractive [(witness_path 3 9)\<lparr>pstate := DOWN\<rparr>] = None"
  using pick_path_total[of 0 default_config PickInteractive "[(witness_path 3 9)\<lparr>pstate := DOWN\<rparr>]"]
  by (simp add: is_alive_def)

text \<open>
  A path that is at least as fast as a member of the fastest class, by the class RTT, and is
  schedulable with known RTT and class is itself a member: the class has no holes.
\<close>

lemma fastest_class_closed:
  assumes "p \<in> set (fastest_class_set cfg ps)" and "q \<in> set ps"
    and "is_schedulable p" "rtt_known p" "class_known p" "is_schedulable q" "rtt_known q" "class_known q"
    and "effective_class_rtt cfg q \<le> effective_class_rtt cfg p"
  shows "q \<in> set (fastest_class_set cfg ps)"
  using assms by (rule class_closed_aux)

text \<open>
  C15: A retry moves on. The path it picks is alive and never the one tried last; it is untried
  whenever an untried path is alive, schedulable whenever an untried path is, and fresh
  whenever an untried schedulable path is fresh. It gives up only when nothing but the last
  path tried is alive.
\<close>

theorem retry_moves_on:
  "(pick_retry_path now cfg tried ps = None \<longleftrightarrow>
     (\<forall>p\<in>set ps. is_alive p \<longrightarrow> tried \<noteq> [] \<and> pid p = last tried))
   \<and> (\<forall>i. pick_retry_path now cfg tried ps = Some i \<longrightarrow> (\<exists>p\<in>set ps. pid p = i \<and> is_alive p
      \<and> (tried \<noteq> [] \<longrightarrow> i \<noteq> last tried)
      \<and> ((\<exists>q\<in>set ps. is_alive q \<and> pid q \<notin> set tried) \<longrightarrow> i \<notin> set tried)
      \<and> ((\<exists>q\<in>set ps. is_schedulable q \<and> pid q \<notin> set tried) \<longrightarrow> is_schedulable p)
      \<and> ((\<exists>q\<in>set ps. is_schedulable q \<and> is_loss_fresh now cfg q \<and> pid q \<notin> set tried)
           \<longrightarrow> is_loss_fresh now cfg p)))"
  using retry_None_aux[of now cfg tried ps] retry_Some_aux[of now cfg tried ps] by (intro conjI allI impI)

theorem retry_moves_on_witness:
  "pick_retry_path 0 default_config [1] [witness_path 1 9, witness_path 2 7] = Some 2"
proof -
  note r = retry_moves_on[of 0 default_config "[1]" "[witness_path 1 9, witness_path 2 7]"]
  have "pick_retry_path 0 default_config [1] [witness_path 1 9, witness_path 2 7] \<noteq> None"
    using r by (simp add: witness_path_simps)
  then show ?thesis using r by (auto simp: witness_path_simps)
qed

text \<open>
  C30: Failback does not swing. When the scheduler upgrades a stream from one path to another, the
  same pool never upgrades it back, at any later time, with the standard tuning and RTTs below
  \<open>2^50\<close> microseconds; and failback never names the path the stream is on.
\<close>

theorem failback_no_swing:
  assumes "cfg_tuning cfg = STANDARD" and "inj_on pid (set ps)" and "cur \<in> set ps" and "best \<in> set ps"
    and "failback_target now cfg cur ps = Some (pid best, Upgrade)"
    and "as_micros (effective_class_rtt cfg cur) < 2 ^ 50" "as_micros (effective_class_rtt cfg best) < 2 ^ 50"
  shows "pid best \<noteq> pid cur \<and> failback_target now' cfg best ps \<noteq> Some (pid cur, Upgrade)"
  using no_swing_aux[OF assms] failback_target_aux[OF assms(5)] by simp

theorem failback_no_swing_witness:
  "failback_target 4000000000 default_config (witness_path 2 30000) witness_pool \<noteq> Some (4, Upgrade)"
  using failback_no_swing[of default_config witness_pool "witness_path 4 90000" "witness_path 2 30000"
      3000000000 4000000000] witness_failback
  by (simp add: witness_path_simps witness_path_rtts)
    (simp add: witness_pool_def witness_path_simps default_config_def inj_on_def)

text \<open>
  Bulk is only placed where it fits: a bulk pick is a schedulable path of the fastest class,
  other than the excluded one, whose budget leaves room for a full piece.
\<close>

lemma pick_bulk_has_room:
  assumes "fst (pick_bulk now cfg pool_ref excl h ps) = Some i"
  shows "\<exists>p\<in>set (fastest_class_set cfg ps). pid p = i \<and> is_schedulable p \<and> Some i \<noteq> excl
           \<and> room_bytes p \<ge> MAX_STREAM_PAYLOAD"
  using assms by (rule pick_bulk_aux)

end
