(* ===== verification/Stream_Core.thy ===== *)
theory Stream_Core
  imports Path_Budget
begin

text \<open>
  \<open>nya-core/src/stream.rs\<close>: the state of one overlay stream (\<open>StreamState\<close> with the
  \<open>StreamCounters\<close> it derefs to), its accessors, the SACK ranges, the delivery-rate and
  hole averages, and the limiter classification of the hop spans. \<open>Notify\<close> wakeups and the
  cancellation token carry no data; the token is the flag \<open>gone\<close>. The bounded channel to
  the application is the list of what is queued.
\<close>

datatype inbound = InData "byte list" | InClose | InReset reset_reason

record unacked =
  ua_data :: "byte list"
  ua_path :: nat
  ua_last_sent :: instant
  ua_first_sent :: instant
  ua_tried :: "nat list"
  ua_not_before :: instant
  ua_dropped :: bool
  ua_delivered :: nat
  ua_delivered_us :: nat
  ua_sent_us :: nat
  ua_first_tx_us :: nat

record stream_state =
  sid :: nat
  gone :: bool
  send_next :: nat
  send_window :: nat
  recv_next :: nat
  recv_cap :: nat
  window_blocks :: nat
  budget_blocks :: nat
  window_limited_with_room :: nat
  recv_cap_max :: nat
  hedges :: nat
  dup_rx_bytes :: nat
  paths_used :: "nat list"
  recv_hole_max :: nat
  app_backlog_max :: nat
  zero_win_hole :: nat
  zero_win_app :: nat
  hole_us :: nat
  budget_diverts :: nat
  sticky :: nat
  send_acked :: nat
  unacked_q :: "(nat \<times> unacked) list"
  inbound_q :: "inbound list"
  inbound_cap :: nat
  inbound_open :: bool
  recv_buf :: "(nat \<times> byte list) list"
  recv_buffered :: nat
  last_recv_path :: nat
  peer_seen :: bool
  last_hole_arrival :: nat
  sacked :: nat
  last_sack_ms :: nat
  ack_dirty :: bool
  ack_flush_from_us :: nat
  recv_fin :: bool
  recv_close_off :: "nat option"
  send_fin_sent :: bool
  was_reset :: bool
  bulk :: bool
  buffered_in :: nat
  st_initial_window :: nat
  deliver_rate_ewma :: nat
  hole :: "(nat \<times> instant) option"
  hole_sampled_at_us :: nat
  hole_bytes_ewma :: nat
  hole_bytes_at_us :: nat
  pending_deliver :: nat
  last_deliver :: "instant option"
  last_stick_change :: instant
  last_ack_ms :: nat
  last_recv_ms :: nat
  recv_hole_since_ms :: nat
  stalled :: bool
  stall_from_ms :: nat
  opened_ms :: nat
  counted_close :: bool
  close_started_ms :: nat

text \<open>\<open>recv_close_off\<close> is \<open>None\<close> where the source stores \<open>u64::MAX\<close>.\<close>

definition stream_new :: "nat \<Rightarrow> nat \<Rightarrow> nat \<Rightarrow> instant \<Rightarrow> stream_state" where
  "stream_new i cap win now = \<lparr>sid = i, gone = False, send_next = 0, send_window = win,
     recv_next = 0, recv_cap = win, window_blocks = 0, budget_blocks = 0,
     window_limited_with_room = 0, recv_cap_max = win, hedges = 0, dup_rx_bytes = 0,
     paths_used = [], recv_hole_max = 0, app_backlog_max = 0, zero_win_hole = 0,
     zero_win_app = 0, hole_us = 0, budget_diverts = 0, sticky = 0, send_acked = 0,
     unacked_q = [], inbound_q = [], inbound_cap = cap, inbound_open = True, recv_buf = [],
     recv_buffered = 0, last_recv_path = 0, peer_seen = False, last_hole_arrival = 0,
     sacked = 0, last_sack_ms = 0, ack_dirty = False, ack_flush_from_us = 0, recv_fin = False,
     recv_close_off = None, send_fin_sent = False, was_reset = False, bulk = False,
     buffered_in = 0, st_initial_window = win, deliver_rate_ewma = 0, hole = None,
     hole_sampled_at_us = 0, hole_bytes_ewma = 0, hole_bytes_at_us = 0, pending_deliver = 0,
     last_deliver = None, last_stick_change = now, last_ack_ms = 0, last_recv_ms = 0,
     recv_hole_since_ms = 0, stalled = False, stall_from_ms = 0,
     opened_ms = max (mono_ms now) 1, counted_close = False, close_started_ms = 0\<rparr>"

section \<open>Counters and limiter\<close>

definition note_path_used :: "nat \<Rightarrow> stream_state \<Rightarrow> stream_state" where
  "note_path_used i s =
     (if i \<notin> set (paths_used s) \<and> length (paths_used s) < 16
      then s\<lparr>paths_used := paths_used s @ [i]\<rparr> else s)"

record stream_stats =
  ss_recv_cap :: nat
  ss_send_window :: nat
  ss_window_blocks :: nat
  ss_budget_blocks :: nat
  ss_window_limited_with_room :: nat
  ss_recv_cap_max :: nat
  ss_hedges :: nat
  ss_dup_rx_bytes :: nat
  ss_paths_used :: nat
  ss_sent :: nat
  ss_received :: nat
  ss_recv_hole_max :: nat
  ss_app_backlog_max :: nat
  ss_zero_win_hole :: nat
  ss_zero_win_app :: nat
  ss_hole_us :: nat
  ss_budget_diverts :: nat

definition stats :: "stream_state \<Rightarrow> stream_stats" where
  "stats s = \<lparr>ss_recv_cap = recv_cap s, ss_send_window = send_window s,
     ss_window_blocks = window_blocks s, ss_budget_blocks = budget_blocks s,
     ss_window_limited_with_room = window_limited_with_room s, ss_recv_cap_max = recv_cap_max s,
     ss_hedges = hedges s, ss_dup_rx_bytes = dup_rx_bytes s,
     ss_paths_used = length (paths_used s), ss_sent = send_next s, ss_received = recv_next s,
     ss_recv_hole_max = recv_hole_max s, ss_app_backlog_max = app_backlog_max s,
     ss_zero_win_hole = zero_win_hole s, ss_zero_win_app = zero_win_app s,
     ss_hole_us = hole_us s, ss_budget_diverts = budget_diverts s\<rparr>"

record limiter_waits =
  far_us :: nat
  near_us :: nat
  copy_us :: nat
  overlay_sender :: bool
  local_name :: string

definition sender_limiter :: "stream_stats \<Rightarrow> string" where
  "sender_limiter x =
     (if ss_budget_blocks x \<ge> ss_window_blocks x then ''budget''
      else if ss_window_limited_with_room x * 2 \<ge> ss_window_blocks x then ''window'' else ''path'')"

definition limiter :: "stream_stats \<Rightarrow> string" where
  "limiter x = (if ss_window_blocks x = 0 \<and> ss_budget_blocks x = 0 then ''none''
                else sender_limiter x)"

definition limiter_by_time :: "stream_stats \<Rightarrow> limiter_waits \<Rightarrow> string" where
  "limiter_by_time x w =
     (if sat_add (far_us w) (near_us w) < copy_us w div 10 then ''none''
      else if overlay_sender w
      then (if far_us w \<ge> near_us w then local_name w else sender_limiter x)
      else if far_us w \<ge> near_us w then ''overlay'' else local_name w)"

section \<open>SACK ranges\<close>

text \<open>Coalesce adjacent pieces into runs, oldest first.\<close>

fun add_run :: "(nat \<times> nat) list \<Rightarrow> nat \<times> byte list \<Rightarrow> (nat \<times> nat) list" where
  "add_run runs (off, chunk) =
     (let fin = off + length chunk in
      if runs \<noteq> [] \<and> snd (last runs) = off
      then butlast runs @ [(fst (last runs), fin)] else runs @ [(off, fin)])"

definition buf_runs :: "(nat \<times> byte list) list \<Rightarrow> (nat \<times> nat) list" where
  "buf_runs buf = foldl add_run [] buf"

fun take_runs :: "(nat \<times> nat) list \<Rightarrow> (nat \<times> nat) list \<Rightarrow> (nat \<times> nat) list" where
  "take_runs out [] = out"
| "take_runs out (r # rs) =
     (if length out \<ge> MAX_SACK_RANGES then out
      else take_runs (if r \<in> set out then out else out @ [r]) rs)"

definition sack_ranges :: "stream_state \<Rightarrow> (nat \<times> nat) list" where
  "sack_ranges s =
     (if recv_buf s = [] then []
      else (let runs = buf_runs (recv_buf s); newest = last_hole_arrival s;
                out = (case find (\<lambda>r. fst r \<le> newest \<and> newest < snd r) runs of
                         Some r \<Rightarrow> [r] | None \<Rightarrow> [])
            in take_runs out (rev runs)))"

section \<open>Accessors\<close>

definition is_steerable :: "stream_state \<Rightarrow> bool" where
  "is_steerable s \<longleftrightarrow> \<not> was_reset s \<and> \<not> counted_close s \<and> \<not> send_fin_sent s \<and> \<not> recv_fin s"

definition note_close_started :: "instant \<Rightarrow> stream_state \<Rightarrow> stream_state" where
  "note_close_started now s =
     (if close_started_ms s = 0 then s\<lparr>close_started_ms := max (mono_ms now) 1\<rparr> else s)"

definition note_stick_change :: "instant \<Rightarrow> stream_state \<Rightarrow> stream_state" where
  "note_stick_change now s = s\<lparr>last_stick_change := now\<rparr>"

definition stick_changed_ago_ge :: "instant \<Rightarrow> stream_state \<Rightarrow> duration \<Rightarrow> bool" where
  "stick_changed_ago_ge now s d \<longleftrightarrow> elapsed now (last_stick_change s) \<ge> d"

definition inflight_send :: "stream_state \<Rightarrow> nat" where
  "inflight_send s = send_next s - send_acked s"

definition window_ok :: "stream_state \<Rightarrow> nat \<Rightarrow> bool" where
  "window_ok s extra \<longleftrightarrow> inflight_send s + extra \<le> send_window s"

definition advertised_window :: "stream_state \<Rightarrow> nat" where
  "advertised_window s = min (recv_cap s - buffered_in s - recv_buffered s) u32_max"

text \<open>The contiguous run starting at an offset, over the pieces at or after it.\<close>

fun run_bytes :: "nat \<Rightarrow> (nat \<times> byte list) list \<Rightarrow> nat" where
  "run_bytes next [] = 0"
| "run_bytes next ((off, chunk) # m) =
     (if off \<noteq> next then 0 else length chunk + run_bytes (next + length chunk) m)"

definition in_order_held :: "stream_state \<Rightarrow> nat" where
  "in_order_held s =
     run_bytes (recv_next s) (filter (\<lambda>(off, _). recv_next s \<le> off) (recv_buf s))"

definition sample_hole :: "instant \<Rightarrow> duration \<Rightarrow> stream_state \<Rightarrow> stream_state" where
  "sample_hole now d s =
     (let v = max (as_micros d) 1; cur = hole_us s
      in s\<lparr>hole_us := (if cur = 0 then v else ewma8 cur v),
           hole_sampled_at_us := max (mono_us now) 1\<rparr>)"

definition sample_hole_bytes :: "instant \<Rightarrow> nat \<Rightarrow> stream_state \<Rightarrow> stream_state" where
  "sample_hole_bytes now b s =
     (let cur = hole_bytes_ewma s
      in s\<lparr>hole_bytes_ewma := (if cur = 0 then b else ewma8 cur b),
           hole_bytes_at_us := max (mono_us now) 1\<rparr>)"

definition note_deliver :: "instant \<Rightarrow> nat \<Rightarrow> duration \<Rightarrow> stream_state \<Rightarrow> bool \<times> stream_state" where
  "note_deliver now len min_dt s =
     (if len = 0 then (False, s)
      else (let pending = pending_deliver s + len; s1 = s\<lparr>pending_deliver := pending\<rparr> in
        case last_deliver s of
          None \<Rightarrow> (False, s1\<lparr>last_deliver := Some now\<rparr>)
        | Some prev \<Rightarrow>
            (let dt = now - prev in
             if dt = 0 \<or> dt < min_dt then (False, s1)
             else (let s2 = s1\<lparr>last_deliver := Some now, pending_deliver := 0\<rparr>;
                       sample = f64_to_u64 (f64_div (f64_of_nat pending) (as_secs_f64 dt)) in
                   if sample = 0 then (False, s2)
                   else (let old = deliver_rate_ewma s
                         in (True, s2\<lparr>deliver_rate_ewma :=
                               (if old = 0 then sample else sat_add (sat_mul old 7) sample div 8)\<rparr>))))))"

text \<open>\<open>Drop\<close>: the stream's share of the session's window memory is given back.\<close>

definition stream_drop :: "stream_state \<Rightarrow> nat \<Rightarrow> nat" where
  "stream_drop s extra_sum =
     (let extra = recv_cap s - st_initial_window s
      in if extra > 0 then extra_sum - extra else extra_sum)"

text \<open>\<open>mpsc::Sender::try_send\<close> on the channel to the application.\<close>

definition inbound_send :: "inbound \<Rightarrow> stream_state \<Rightarrow> stream_state option" where
  "inbound_send m s =
     (if inbound_open s \<and> length (inbound_q s) < inbound_cap s
      then Some (s\<lparr>inbound_q := inbound_q s @ [m]\<rparr>) else None)"

definition inbound_send_lossy :: "inbound \<Rightarrow> stream_state \<Rightarrow> stream_state" where
  "inbound_send_lossy m s = (case inbound_send m s of Some s' \<Rightarrow> s' | None \<Rightarrow> s)"

end
