(* ===== verification/Stream_Recv.thy ===== *)
theory Stream_Recv
  imports Stream_Core
begin

text \<open>
  \<open>nya-core/src/session/streams.rs\<close>, the receive side of one stream: what \<open>deliver_data\<close>
  does to the reorder buffer, \<open>drain_recv\<close>'s loop, the hole state machine, the receiver
  evidence, and the receive-window controller. What these read from the session (the RTT of
  the loop, the number of alive paths, the memory guard) are arguments; theory
  \<open>Session_Recv\<close> supplies them.
\<close>

section \<open>Draining\<close>

text \<open>
  Move the piece at \<open>recv_next\<close> to the application while there is one and the channel has
  room. The flag tells that the channel refused a piece, which stays in the buffer.
\<close>

function drain_loop :: "instant \<Rightarrow> nat \<Rightarrow> stream_state \<Rightarrow> bool \<times> nat \<times> stream_state" where
  "drain_loop now got s =
     (case map_of (recv_buf s) (recv_next s) of
        None \<Rightarrow> (False, got, s)
      | Some chunk \<Rightarrow>
          (case inbound_send (InData chunk) s of
             None \<Rightarrow> (True, got, s)
           | Some u1 \<Rightarrow>
               drain_loop now (got + length chunk)
                 (u1\<lparr>recv_buf := bt_remove (recv_next s) (recv_buf s),
                     recv_buffered := recv_buffered s - length chunk,
                     recv_next := recv_next s + length chunk,
                     buffered_in := buffered_in s + length chunk,
                     last_recv_ms := max (mono_ms now) 1\<rparr>)))"
  by pat_completeness auto
termination
proof (relation "measure (\<lambda>(now, d, s). length (recv_buf s))", simp, clarsimp)
  fix now :: instant and s u1 :: stream_state and chunk
  assume "map_of (recv_buf s) (recv_next s) = Some chunk"
  then have "(recv_next s, chunk) \<in> set (recv_buf s)" by (rule map_of_SomeD)
  then show "length (bt_remove (recv_next s) (recv_buf s)) < length (recv_buf s)"
    unfolding bt_remove_def by (rule length_filter_less) simp
qed

declare drain_loop.simps [simp del]

text \<open>\<open>track_hole\<close>.\<close>

definition track_hole :: "instant \<Rightarrow> bool \<Rightarrow> stream_state \<Rightarrow> stream_state" where
  "track_hole now full s =
    (let head_missing = (\<not> full \<and> recv_buf s \<noteq> [] \<and> map_of (recv_buf s) (recv_next s) = None);
         u1 = (case hole s of
                 Some (off, t) \<Rightarrow>
                   if off < recv_next s \<or> map_of (recv_buf s) off \<noteq> None
                   then (sample_hole now (now - t) s)
                          \<lparr>hole := (if head_missing then Some (recv_next s, now) else None)\<rparr>
                   else s
               | None \<Rightarrow> if head_missing then s\<lparr>hole := Some (recv_next s, now)\<rparr> else s);
         held = in_order_held u1;
         hole_bytes = recv_buffered u1 - held;
         app_backlog = buffered_in u1 + held
     in sample_hole_bytes now hole_bytes
          (u1\<lparr>recv_hole_max := max (recv_hole_max u1) hole_bytes,
              app_backlog_max := max (app_backlog_max u1) app_backlog\<rparr>))"

definition recv_evidence :: "stream_state \<Rightarrow> nat \<times> nat" where
  "recv_evidence s =
     (let held = in_order_held s in (recv_buffered s - held, buffered_in s + held))"

definition drain_core :: "instant \<Rightarrow> stream_state \<Rightarrow> nat \<times> stream_state" where
  "drain_core now s =
     (let (full, got, u1) = drain_loop now 0 s in (got, track_hole now full u1))"

section \<open>Arrivals\<close>

text \<open>How an arriving piece is disposed of before the drain.\<close>

datatype arrival = WasReset | AfterFin | Duplicate | Replaced | Fresh

definition recv_over :: "stream_state \<Rightarrow> nat \<Rightarrow> bool" where
  "recv_over s off \<longleftrightarrow> recv_fin s \<or> (case recv_close_off s of Some c \<Rightarrow> off \<ge> c | None \<Rightarrow> False)"

definition accept_piece :: "nat \<Rightarrow> nat \<Rightarrow> byte list \<Rightarrow> stream_state \<Rightarrow> arrival \<times> stream_state" where
  "accept_piece path off data s =
    (let len = length data in
     if was_reset s then (WasReset, s)
     else if recv_over s off then (AfterFin, s\<lparr>dup_rx_bytes := dup_rx_bytes s + len\<rparr>)
     else (let u1 = s\<lparr>last_recv_path := path, peer_seen := True\<rparr> in
       if off < recv_next u1 then (Duplicate, u1\<lparr>dup_rx_bytes := dup_rx_bytes u1 + len\<rparr>)
       else (case map_of (recv_buf u1) off of
               Some old \<Rightarrow>
                 (Replaced, u1\<lparr>recv_buf := bt_insert off data (recv_buf u1),
                     dup_rx_bytes := dup_rx_bytes u1 + length old,
                     recv_buffered := recv_buffered u1 - length old + len\<rparr>)
             | None \<Rightarrow>
                 (let u2 = u1\<lparr>recv_buf := bt_insert off data (recv_buf u1),
                              recv_buffered := recv_buffered u1 + len\<rparr>
                  in (Fresh, if off > recv_next u2 then u2\<lparr>last_hole_arrival := off\<rparr> else u2)))))"

definition recv_piece :: "instant \<Rightarrow> nat \<Rightarrow> nat \<Rightarrow> byte list \<Rightarrow> stream_state \<Rightarrow> stream_state" where
  "recv_piece now path off data s =
     (case accept_piece path off data s of
        (Fresh, u1) \<Rightarrow> snd (drain_core now u1) | (_, u1) \<Rightarrow> u1)"

text \<open>
  The application takes the next message; a data message frees its bytes and lets the drain
  go on (\<open>note_app_read\<close>).
\<close>

definition app_read_core :: "instant \<Rightarrow> stream_state \<Rightarrow> (inbound \<times> stream_state) option" where
  "app_read_core now s =
     (case inbound_q s of
        [] \<Rightarrow> None
      | InData b # q \<Rightarrow>
          Some (InData b, snd (drain_core now
            (s\<lparr>inbound_q := q, buffered_in := buffered_in s - length b\<rparr>)))
      | m # q \<Rightarrow> Some (m, s\<lparr>inbound_q := q\<rparr>))"

section \<open>The receive window\<close>

definition hole_for_window :: "instant \<Rightarrow> tuning \<Rightarrow> duration option \<Rightarrow> stream_state \<Rightarrow> nat" where
  "hole_for_window now t bdp_rtt s =
    (let b = hole_bytes_ewma s; at_us = hole_bytes_at_us s; rate = deliver_rate_ewma s in
     if b = 0 \<or> at_us = 0 \<or> rate = 0 then 0
     else (let h = f64_to_u64 (f64_div (f64_mul (f64_of_nat b) (F64 1000000 0)) (f64_of_nat rate));
               rtt_us = as_micros (case bdp_rtt of Some r \<Rightarrow> r
                                   | None \<Rightarrow> from_micros (unknown_rtt_us t));
               age = mono_us now - at_us
           in if age \<le> 8 * (rtt_us + h) then h else 0))"

definition recv_ceil :: "tuning \<Rightarrow> stream_state \<Rightarrow> nat" where
  "recv_ceil t s = sat_mul32 (st_initial_window s) (chan t)"

definition recv_cap_target :: "instant \<Rightarrow> tuning \<Rightarrow> duration option \<Rightarrow> stream_state \<Rightarrow> nat" where
  "recv_cap_target now t bdp_rtt s =
    (let fl = st_initial_window s; cl = recv_ceil t s; rate = deliver_rate_ewma s in
     case bdp_rtt of
       None \<Rightarrow> fl
     | Some r \<Rightarrow>
         if rate = 0 then fl
         else (let h = from_micros (hole_for_window now t bdp_rtt s);
                   bdp = f64_mul (f64_of_nat rate) (as_secs_f64 (r + h));
                   twice = f64_mul (F64 2 0) bdp
               in if f64_le (f64_of_nat cl) twice then cl
                  else if f64_le twice (f64_of_nat fl) then fl
                  else f64_to_u64 twice))"

text \<open>
  \<open>tune_recv_cap_sampled\<close>: the new cap, and the memory guard (the sum over the session's
  streams of cap minus floor) updated by the difference.
\<close>

definition tune_cap ::
  "instant \<Rightarrow> tuning \<Rightarrow> duration option \<Rightarrow> nat \<Rightarrow> nat \<Rightarrow> stream_state \<Rightarrow> nat" where
  "tune_cap now t bdp_rtt alive extra s =
    (let fl = st_initial_window s; cl = recv_ceil t s;
         cur = clamp_nat (recv_cap s) fl cl;
         target = recv_cap_target now t bdp_rtt s;
         held = buffered_in s + recv_buffered s;
         app_backlog = snd (recv_evidence s);
         cap0 = (if app_backlog > cur div 2 then min cur (max target held) else max cur target);
         session_room = sat_mul alive cl - extra;
         cap1 = min cap0 (sat_add cur session_room)
     in clamp_nat (min cap1 u32_max) fl cl)"

definition tune_recv_core ::
  "instant \<Rightarrow> tuning \<Rightarrow> duration option \<Rightarrow> nat \<Rightarrow> nat \<Rightarrow> stream_state \<Rightarrow> stream_state \<times> nat" where
  "tune_recv_core now t bdp_rtt alive extra s =
    (let cap = tune_cap now t bdp_rtt alive extra s;
         old = clamp_nat (recv_cap s) (st_initial_window s) (recv_ceil t s);
         extra' = (if cap > old then extra + (cap - old)
                   else if cap < old then extra - (old - cap) else extra)
     in (s\<lparr>recv_cap := cap, recv_cap_max := max (recv_cap_max s) cap\<rparr>, extra'))"

section \<open>Frames\<close>

lemma inbound_send_Some:
  "inbound_send m s = Some u1 \<longleftrightarrow>
     inbound_open s \<and> length (inbound_q s) < inbound_cap s \<and> u1 = s\<lparr>inbound_q := inbound_q s @ [m]\<rparr>"
  by (auto simp: inbound_send_def)

lemma sample_frames [simp]:
  "recv_buf (sample_hole now d s) = recv_buf s" "recv_next (sample_hole now d s) = recv_next s"
  "recv_buffered (sample_hole now d s) = recv_buffered s" "inbound_q (sample_hole now d s) = inbound_q s"
  "buffered_in (sample_hole now d s) = buffered_in s"
  "recv_buf (sample_hole_bytes now b s) = recv_buf s" "recv_next (sample_hole_bytes now b s) = recv_next s"
  "recv_buffered (sample_hole_bytes now b s) = recv_buffered s"
  "inbound_q (sample_hole_bytes now b s) = inbound_q s"
  "buffered_in (sample_hole_bytes now b s) = buffered_in s"
  "was_reset (sample_hole now d s) = was_reset s" "recv_fin (sample_hole now d s) = recv_fin s"
  "recv_close_off (sample_hole now d s) = recv_close_off s" "inbound_open (sample_hole now d s) = inbound_open s"
  "inbound_cap (sample_hole now d s) = inbound_cap s" "sid (sample_hole now d s) = sid s"
  "was_reset (sample_hole_bytes now b s) = was_reset s" "recv_fin (sample_hole_bytes now b s) = recv_fin s"
  "recv_close_off (sample_hole_bytes now b s) = recv_close_off s"
  "inbound_open (sample_hole_bytes now b s) = inbound_open s"
  "inbound_cap (sample_hole_bytes now b s) = inbound_cap s" "sid (sample_hole_bytes now b s) = sid s"
  by (simp_all add: sample_hole_def sample_hole_bytes_def Let_def)

lemma track_hole_frame [simp]:
  "recv_buf (track_hole now f s) = recv_buf s" "recv_next (track_hole now f s) = recv_next s"
  "recv_buffered (track_hole now f s) = recv_buffered s" "inbound_q (track_hole now f s) = inbound_q s"
  "buffered_in (track_hole now f s) = buffered_in s"
  by (auto simp: track_hole_def Let_def split: option.splits)

section \<open>What arrives is what was sent\<close>

text \<open>A piece of the sender's byte stream at its offset.\<close>

definition piece_of :: "byte list \<Rightarrow> nat \<Rightarrow> byte list \<Rightarrow> bool" where
  "piece_of src off c \<longleftrightarrow> off + length c \<le> length src \<and> c = take (length c) (drop off src)"

fun data_of :: "inbound list \<Rightarrow> byte list" where
  "data_of [] = []"
| "data_of (InData b # q) = b @ data_of q"
| "data_of (_ # q) = data_of q"

lemma data_of_append [simp]: "data_of (p @ q) = data_of p @ data_of q"
  by (induction p rule: data_of.induct) auto

definition buf_bytes :: "(nat \<times> byte list) list \<Rightarrow> nat" where
  "buf_bytes m = sum_list (map (length \<circ> snd) m)"

text \<open>
  The receive invariant against the sender's stream \<open>src\<close> and what the application has read:
  everything handed over so far is the prefix of \<open>src\<close> up to \<open>recv_next\<close>.
\<close>

definition rx_inv :: "byte list \<Rightarrow> byte list \<Rightarrow> stream_state \<Rightarrow> bool" where
  "rx_inv src out s \<longleftrightarrow> bt_inv (recv_buf s) \<and> recv_buffered s = buf_bytes (recv_buf s)
     \<and> (\<forall>(off, c)\<in>set (recv_buf s). piece_of src off c)
     \<and> recv_next s \<le> length src \<and> out @ data_of (inbound_q s) = take (recv_next s) src
     \<and> buffered_in s = length (data_of (inbound_q s))"

lemma buf_bytes_remove:
  assumes "bt_inv m" and "map_of m k = Some c"
  shows "buf_bytes (bt_remove k m) + length c = buf_bytes m"
  using assms
proof (induction m)
  case (Cons x m)
  obtain k' c' where x: "x = (k', c')" by (cases x)
  show ?case
  proof (cases "k' = k")
    case True
    have "k \<notin> fst ` set m" using Cons.prems(1) x True by (auto simp: bt_inv_Cons)
    then have "bt_remove k m = m" unfolding bt_remove_def by (intro filter_True) (auto simp: image_iff)
    then show ?thesis using Cons.prems x True by (simp add: buf_bytes_def bt_remove_def)
  next
    case False
    then show ?thesis using Cons x by (simp add: buf_bytes_def bt_remove_def bt_inv_Cons)
  qed
qed simp

lemma buf_bytes_insert_new: "map_of m k = None \<Longrightarrow> buf_bytes (bt_insert k c m) = buf_bytes m + length c"
  by (induction k c m rule: bt_insert.induct) (auto simp: buf_bytes_def split: if_splits)

lemma bt_insert_replace_remove: "bt_inv m \<Longrightarrow> buf_bytes (bt_insert k c m) = buf_bytes (bt_remove k m) + length c"
proof (induction k c m rule: bt_insert.induct)
  case (2 k v k' v' m)
  have nk: "k \<le> k' \<Longrightarrow> bt_remove k m = m"
    using 2(2) unfolding bt_remove_def
    by (intro filter_True) (auto simp: bt_inv_Cons dest!: bspec)
  show ?case using 2 nk by (auto simp: buf_bytes_def bt_remove_def bt_inv_Cons)
qed (simp add: buf_bytes_def bt_remove_def)

lemma set_bt_insert: "set (bt_insert k c m) \<subseteq> insert (k, c) (set m)"
  by (induction k c m rule: bt_insert.induct) auto

lemma set_bt_remove: "set (bt_remove k m) \<subseteq> set m"
  by (auto simp: bt_remove_def)

lemma drain_loop_inv:
  assumes "rx_inv src out s"
  shows "rx_inv src out (snd (snd (drain_loop now d s)))"
  using assms
proof (induction now d s rule: drain_loop.induct)
  case (1 now d s)
  show ?case
  proof (cases "map_of (recv_buf s) (recv_next s)")
    case None
    then show ?thesis using 1(2) by (simp add: drain_loop.simps)
  next
    case (Some c)
    show ?thesis
    proof (cases "inbound_send (InData c) s")
      case None
      then show ?thesis using 1(2) Some by (simp add: drain_loop.simps)
    next
      case (Some u1)
      let ?u2 = "u1\<lparr>recv_buf := bt_remove (recv_next s) (recv_buf s),
                     recv_buffered := recv_buffered s - length c,
                     recv_next := recv_next s + length c,
                     buffered_in := buffered_in s + length c,
                     last_recv_ms := max (mono_ms now) 1\<rparr>"
      note m = \<open>map_of (recv_buf s) (recv_next s) = Some c\<close>
      have u1: "u1 = s\<lparr>inbound_q := inbound_q s @ [InData c]\<rparr>" using Some by (simp add: inbound_send_Some)
      have p: "piece_of src (recv_next s) c" using 1(2) map_of_SomeD[OF m] by (auto simp: rx_inv_def)
      have "take (recv_next s + length c) src = take (recv_next s) src @ c"
        using p by (auto simp: piece_of_def take_add)
      then have "rx_inv src out ?u2"
        using 1(2) p buf_bytes_remove[OF _ m] set_bt_remove[of "recv_next s" "recv_buf s"]
        by (auto simp: rx_inv_def u1 piece_of_def)
      then show ?thesis
        using 1(1)[OF m Some] m Some by (subst drain_loop.simps) simp
    qed
  qed
qed

lemma rx_inv_track: "rx_inv src out (track_hole now f s) = rx_inv src out s"
  by (simp add: rx_inv_def)

lemma drain_core_inv: "rx_inv src out s \<Longrightarrow> rx_inv src out (snd (drain_core now s))"
  using drain_loop_inv[of src out s now 0]
  by (cases "drain_loop now 0 s") (simp add: drain_core_def rx_inv_track)

lemma accept_piece_inv:
  assumes "rx_inv src out s" and "piece_of src off c"
  shows "rx_inv src out (snd (accept_piece path off c s))"
proof -
  have i: "\<forall>(off', c')\<in>set (bt_insert off c (recv_buf s)). piece_of src off' c'"
    using assms set_bt_insert[of off c "recv_buf s"] by (auto simp: rx_inv_def)
  have r: "buf_bytes (bt_insert off c (recv_buf s)) = buf_bytes (recv_buf s) - length old + length c"
    if "map_of (recv_buf s) off = Some old" for old
    using buf_bytes_remove[OF _ that] bt_insert_replace_remove[of "recv_buf s" off c] assms(1)
    by (auto simp: rx_inv_def)
  show ?thesis
    using assms i r buf_bytes_insert_new[of "recv_buf s" off c]
    by (auto simp: accept_piece_def rx_inv_def Let_def split: option.splits)
qed

lemma recv_piece_inv:
  "rx_inv src out s \<Longrightarrow> piece_of src off c \<Longrightarrow> rx_inv src out (recv_piece now path off c s)"
  using accept_piece_inv[of src out s off c path]
  by (auto simp: recv_piece_def drain_core_inv split: prod.splits arrival.splits)

lemma app_read_inv:
  assumes "rx_inv src out s" and "app_read_core now s = Some (m, s')"
  shows "rx_inv src (out @ data_of [m]) s'"
proof (cases "inbound_q s")
  case (Cons x q)
  show ?thesis
  proof (cases x)
    case (InData b)
    have "rx_inv src (out @ b) (s\<lparr>inbound_q := q, buffered_in := buffered_in s - length b\<rparr>)"
      using assms(1) Cons InData by (simp add: rx_inv_def)
    then show ?thesis using assms(2) Cons InData drain_core_inv by (auto simp: app_read_core_def)
  next
    case InClose
    then show ?thesis using assms Cons by (auto simp: app_read_core_def rx_inv_def)
  next
    case (InReset r)
    then show ?thesis using assms Cons by (auto simp: app_read_core_def rx_inv_def)
  qed
qed (use assms in \<open>simp add: app_read_core_def\<close>)

section \<open>Everything that arrived is eventually handed over\<close>

text \<open>The sender's pieces: the chunks \<open>cs\<close> of its stream, each at its offset.\<close>

definition cut :: "byte list list \<Rightarrow> nat \<Rightarrow> nat" where
  "cut cs i = length (concat (take i cs))"

definition is_piece :: "byte list list \<Rightarrow> nat \<Rightarrow> byte list \<Rightarrow> bool" where
  "is_piece cs off c \<longleftrightarrow> (\<exists>i<length cs. off = cut cs i \<and> c = cs ! i)"

lemma cut_Suc: "i < length cs \<Longrightarrow> cut cs (Suc i) = cut cs i + length (cs ! i)"
  by (simp add: cut_def take_Suc_conv_app_nth)

lemma cut_length: "cut cs (length cs) = length (concat cs)"
  by (simp add: cut_def)

lemma is_piece_piece_of: "is_piece cs off c \<Longrightarrow> piece_of (concat cs) off c"
proof -
  assume "is_piece cs off c"
  then obtain i where i: "i < length cs" "off = cut cs i" "c = cs ! i" by (auto simp: is_piece_def)
  have "concat cs = concat (take i cs) @ cs ! i @ concat (drop (Suc i) cs)"
    using i(1) by (metis append_take_drop_id concat.simps(2) concat_append Cons_nth_drop_Suc)
  then have e: "concat cs = concat (take i cs) @ c @ concat (drop (Suc i) cs)" using i(3) by simp
  show ?thesis unfolding piece_of_def i(2) cut_def by (subst (1 2) e) simp
qed

definition channel_room :: "stream_state \<Rightarrow> bool" where
  "channel_room s \<longleftrightarrow> inbound_open s \<and> length (inbound_q s) < inbound_cap s"

definition arrived_inv :: "byte list list \<Rightarrow> (nat \<times> byte list) set \<Rightarrow> stream_state \<Rightarrow> bool" where
  "arrived_inv cs arr s \<longleftrightarrow> bt_inv (recv_buf s) \<and> (\<forall>(off, c)\<in>set (recv_buf s). is_piece cs off c)
     \<and> (\<exists>i\<le>length cs. recv_next s = cut cs i)
     \<and> (\<forall>(off, c)\<in>arr. off < recv_next s \<or> map_of (recv_buf s) off = Some c)"

definition drained :: "stream_state \<Rightarrow> bool" where
  "drained s \<longleftrightarrow> map_of (recv_buf s) (recv_next s) = None \<or> \<not> channel_room s"

definition live_recv :: "nat \<Rightarrow> stream_state \<Rightarrow> bool" where
  "live_recv n s \<longleftrightarrow> \<not> was_reset s \<and> \<not> recv_fin s \<and> (case recv_close_off s of None \<Rightarrow> True | Some k \<Rightarrow> k \<ge> n)"

lemma cut_mono: "i \<le> j \<Longrightarrow> cut cs i \<le> cut cs j"
  unfolding cut_def by (metis le_iff_add length_append take_add concat_append le_add1)

lemma cut_strict:
  assumes "\<forall>c\<in>set cs. c \<noteq> []" and "i < j" and "j \<le> length cs"
  shows "cut cs i < cut cs j"
proof -
  have "cut cs i < cut cs (Suc i)" using assms by (simp add: cut_Suc)
  also have "\<dots> \<le> cut cs j" using assms by (intro cut_mono) simp
  finally show ?thesis .
qed

lemma is_piece_next:
  assumes ne: "\<forall>c\<in>set cs. c \<noteq> []" and p: "is_piece cs (cut cs i) c" and i: "i \<le> length cs"
  shows "i < length cs \<and> c = cs ! i"
proof -
  obtain j where j: "j < length cs" "cut cs i = cut cs j" "c = cs ! j" using p by (auto simp: is_piece_def)
  then have "i = j" using cut_strict[OF ne, of i j] cut_strict[OF ne, of j i] i
    by (cases i j rule: linorder_cases) auto
  then show ?thesis using j by simp
qed

lemma drain_loop_arrived:
  assumes "arrived_inv cs arr s" and ne: "\<forall>c\<in>set cs. c \<noteq> []"
  shows "arrived_inv cs arr (snd (snd (drain_loop now d s))) \<and> drained (snd (snd (drain_loop now d s)))"
  using assms(1)
proof (induction now d s rule: drain_loop.induct)
  case (1 now d s)
  show ?case
  proof (cases "map_of (recv_buf s) (recv_next s)")
    case None
    then show ?thesis using 1(2) by (simp add: drain_loop.simps drained_def)
  next
    case (Some c)
    note m = Some
    show ?thesis
    proof (cases "inbound_send (InData c) s")
      case None
      then show ?thesis using 1(2) m
        by (auto simp: drain_loop.simps drained_def channel_room_def inbound_send_def split: if_splits)
    next
      case (Some u)
      let ?s = "u\<lparr>recv_buf := bt_remove (recv_next s) (recv_buf s),
                     recv_buffered := recv_buffered s - length c,
                     recv_next := recv_next s + length c,
                     buffered_in := buffered_in s + length c,
                     last_recv_ms := max (mono_ms now) 1\<rparr>"
      have u: "u = s\<lparr>inbound_q := inbound_q s @ [InData c]\<rparr>" using Some by (simp add: inbound_send_Some)
      obtain i where i: "i \<le> length cs" "recv_next s = cut cs i" using 1(2) by (auto simp: arrived_inv_def)
      have pc: "is_piece cs (recv_next s) c" using 1(2) map_of_SomeD[OF m] by (auto simp: arrived_inv_def)
      then have i2: "i < length cs" "c = cs ! i" using is_piece_next[OF ne _ i(1)] i(2) by auto
      have "\<exists>j\<le>length cs. recv_next s + length c = cut cs j"
        using i2 i(2) by (intro exI[of _ "Suc i"]) (simp add: cut_Suc)
      moreover have "off < recv_next s + length c \<or> map_of (bt_remove (recv_next s) (recv_buf s)) off = Some c'"
        if a: "(off, c') \<in> arr" for off c'
      proof (cases "off = recv_next s")
        case True
        have "c \<noteq> []" using i2 ne by simp
        then show ?thesis using True by simp
      next
        case False
        then show ?thesis using a 1(2) by (auto simp: arrived_inv_def bt_lookup_remove)
      qed
      moreover have "bt_inv (bt_remove (recv_next s) (recv_buf s))"
        using 1(2) by (auto simp: arrived_inv_def)
      moreover have "\<forall>(off, c)\<in>set (bt_remove (recv_next s) (recv_buf s)). is_piece cs off c"
        using 1(2) set_bt_remove[of "recv_next s" "recv_buf s"] by (auto simp: arrived_inv_def)
      ultimately have "arrived_inv cs arr ?s" by (auto simp: arrived_inv_def)
      then show ?thesis using 1(1)[OF m Some] m Some by (subst (1 2) drain_loop.simps) simp
    qed
  qed
qed

lemma drain_loop_frame:
  "was_reset (snd (snd (drain_loop now d s))) = was_reset s
   \<and> recv_fin (snd (snd (drain_loop now d s))) = recv_fin s
   \<and> recv_close_off (snd (snd (drain_loop now d s))) = recv_close_off s
   \<and> inbound_open (snd (snd (drain_loop now d s))) = inbound_open s
   \<and> inbound_cap (snd (snd (drain_loop now d s))) = inbound_cap s
   \<and> sid (snd (snd (drain_loop now d s))) = sid s
   \<and> recv_next s \<le> recv_next (snd (snd (drain_loop now d s)))"
proof (induction now d s rule: drain_loop.induct)
  case (1 now d s)
  show ?case
  proof (cases "map_of (recv_buf s) (recv_next s)")
    case (Some c)
    note m = Some
    show ?thesis
    proof (cases "inbound_send (InData c) s")
      case (Some u)
      have u: "u = s\<lparr>inbound_q := inbound_q s @ [InData c]\<rparr>" using Some by (simp add: inbound_send_Some)
      show ?thesis
        using 1[OF m Some] unfolding drain_loop.simps[of now d s] by (simp add: m Some) (simp add: u)
    qed (simp add: m drain_loop.simps[of now d s])
  qed (simp add: drain_loop.simps[of now d s])
qed

lemma track_hole_frame2 [simp]:
  "was_reset (track_hole now f s) = was_reset s" "recv_fin (track_hole now f s) = recv_fin s"
  "recv_close_off (track_hole now f s) = recv_close_off s" "inbound_open (track_hole now f s) = inbound_open s"
  "inbound_cap (track_hole now f s) = inbound_cap s" "sid (track_hole now f s) = sid s"
  by (auto simp: track_hole_def Let_def split: option.splits)

lemma drain_core_frame:
  "was_reset (snd (drain_core now s)) = was_reset s" "recv_fin (snd (drain_core now s)) = recv_fin s"
  "recv_close_off (snd (drain_core now s)) = recv_close_off s" "inbound_open (snd (drain_core now s)) = inbound_open s"
  "inbound_cap (snd (drain_core now s)) = inbound_cap s" "sid (snd (drain_core now s)) = sid s"
  "recv_next s \<le> recv_next (snd (drain_core now s))"
  using drain_loop_frame[of now 0 s] by (cases "drain_loop now 0 s"; simp add: drain_core_def)+

lemma drain_core_arrived:
  "arrived_inv cs arr s \<Longrightarrow> \<forall>c\<in>set cs. c \<noteq> [] \<Longrightarrow>
     arrived_inv cs arr (snd (drain_core now s)) \<and> drained (snd (drain_core now s))"
  using drain_loop_arrived[of cs arr s now 0]
  by (cases "drain_loop now 0 s")
    (simp add: drain_core_def arrived_inv_def drained_def channel_room_def)

lemma live_recv_not_over:
  "live_recv (length (concat cs)) s \<Longrightarrow> is_piece cs off c \<Longrightarrow> \<forall>c\<in>set cs. c \<noteq> [] \<Longrightarrow> \<not> recv_over s off"
proof -
  assume l: "live_recv (length (concat cs)) s" and p: "is_piece cs off c" and ne: "\<forall>c\<in>set cs. c \<noteq> []"
  have "c \<noteq> []" using p ne by (auto simp: is_piece_def)
  then have "off < length (concat cs)" using is_piece_piece_of[OF p] by (cases c) (auto simp: piece_of_def)
  then show ?thesis using l by (auto simp: live_recv_def recv_over_def split: option.splits)
qed

lemma recv_piece_arrived:
  assumes inv: "arrived_inv cs arr s" and dr: "drained s" and live: "live_recv (length (concat cs)) s"
    and p: "is_piece cs off c" and ne: "\<forall>c\<in>set cs. c \<noteq> []"
  shows "arrived_inv cs (insert (off, c) arr) (recv_piece now path off c s)
       \<and> drained (recv_piece now path off c s) \<and> live_recv (length (concat cs)) (recv_piece now path off c s)"
proof -
  have nr: "\<not> was_reset s" "\<not> recv_over s off" using live live_recv_not_over[OF live p ne] by (auto simp: live_recv_def)
  let ?u = "s\<lparr>last_recv_path := path, peer_seen := True\<rparr>"
  have li: "live_recv n (x\<lparr>recv_buf := b, recv_buffered := k\<rparr>) = live_recv n x" for n x b k
    by (simp add: live_recv_def)
  show ?thesis
  proof (cases "off < recv_next s")
    case True
    then show ?thesis using inv dr live nr
      by (auto simp: recv_piece_def accept_piece_def arrived_inv_def drained_def channel_room_def live_recv_def Let_def)
  next
    case False
    have ins: "\<forall>(o', c')\<in>set (bt_insert off c (recv_buf s)). is_piece cs o' c'"
      using inv p set_bt_insert[of off c "recv_buf s"] by (auto simp: arrived_inv_def)
    have lk: "map_of (bt_insert off c (recv_buf s)) = (map_of (recv_buf s))(off \<mapsto> c)"
      using inv by (simp add: arrived_inv_def bt_lookup_insert)
    have same: "c' = c" if "map_of (recv_buf s) off = Some c'" for c'
    proof -
      have "is_piece cs off c'" using inv map_of_SomeD[OF that] by (auto simp: arrived_inv_def)
      moreover obtain i where "i < length cs" "off = cut cs i" "c = cs ! i" using p by (auto simp: is_piece_def)
      ultimately show ?thesis using is_piece_next[OF ne, of i c'] by simp
    qed
    show ?thesis
    proof (cases "map_of (recv_buf s) off")
      case None
      let ?x = "?u\<lparr>recv_buf := bt_insert off c (recv_buf s), recv_buffered := recv_buffered s + length c\<rparr>"
      let ?v = "if off > recv_next s then ?x\<lparr>last_hole_arrival := off\<rparr> else ?x"
      have e: "recv_piece now path off c s = snd (drain_core now ?v)"
        using nr False None by (simp add: recv_piece_def accept_piece_def Let_def)
      have "off' < recv_next s \<or> ((map_of (recv_buf s))(off \<mapsto> c)) off' = Some c'"
        if a: "(off', c') \<in> insert (off, c) arr" for off' c'
      proof (cases "off' = off")
        case True
        then show ?thesis using a inv None by (auto simp: arrived_inv_def)
      next
        case False
        then show ?thesis using a inv by (auto simp: arrived_inv_def)
      qed
      then have "arrived_inv cs (insert (off, c) arr) ?v"
        using inv ins lk by (auto simp: arrived_inv_def simp del: insert_iff)
      moreover have "live_recv (length (concat cs)) ?v" using live by (simp add: live_recv_def)
      ultimately show ?thesis unfolding e
        using drain_core_arrived[OF _ ne] by (simp add: live_recv_def drain_core_frame)
    next
      case (Some old)
      then have oc: "old = c" using same by simp
      have lk2: "map_of (bt_insert off c (recv_buf s)) = map_of (recv_buf s)"
        using Some oc by (simp add: lk fun_upd_idem)
      show ?thesis using inv dr live nr False Some ins lk2 oc
        by (auto simp: recv_piece_def accept_piece_def arrived_inv_def drained_def channel_room_def live_recv_def Let_def)
    qed
  qed
qed

text \<open>A run of the receive side: pieces arrive in any order and any number of times, the application reads.\<close>

inductive rx_run :: "byte list list \<Rightarrow> stream_state \<Rightarrow> (nat \<times> byte list) set \<Rightarrow> byte list \<Rightarrow> bool" for cs where
  start: "rx_run cs (stream_new i cap win now) {} []"
| arrive: "rx_run cs s arr out \<Longrightarrow> is_piece cs off c
    \<Longrightarrow> rx_run cs (recv_piece now path off c s) (insert (off, c) arr) out"
| read: "rx_run cs s arr out \<Longrightarrow> app_read_core now s = Some (InData b, s')
    \<Longrightarrow> rx_run cs s' arr (out @ b)"

inductive_cases rx_runE: "rx_run cs s arr out"

lemma rx_run_prefix: "rx_run cs s arr out \<Longrightarrow> rx_inv (concat cs) out s"
proof (induction rule: rx_run.induct)
  case (start i cap win now)
  then show ?case by (simp add: rx_inv_def stream_new_def buf_bytes_def)
next
  case (arrive s arr out off c now path)
  then show ?case using recv_piece_inv is_piece_piece_of by blast
next
  case (read s arr out now b s')
  then show ?case using app_read_inv[of "concat cs" out s now "InData b" s'] by simp
qed

lemma rx_run_arrived:
  "rx_run cs s arr out \<Longrightarrow> \<forall>c\<in>set cs. c \<noteq> [] \<Longrightarrow>
     arrived_inv cs arr s \<and> drained s \<and> live_recv (length (concat cs)) s"
proof (induction rule: rx_run.induct)
  case (start i cap win now)
  have "\<exists>k\<le>length cs. 0 = cut cs k" by (rule exI[of _ 0]) (simp add: cut_def)
  then show ?case
    by (simp add: arrived_inv_def drained_def live_recv_def stream_new_def)
next
  case (arrive s arr out off c now path)
  have "arrived_inv cs arr s" "drained s" "live_recv (length (concat cs)) s"
    using arrive(3)[OF arrive(4)] by auto
  from recv_piece_arrived[OF this arrive(2,4)] show ?case .
next
  case (read s arr out now b s')
  obtain q where q: "inbound_q s = InData b # q"
      "s' = snd (drain_core now (s\<lparr>inbound_q := q, buffered_in := buffered_in s - length b\<rparr>))"
    using read(2) by (auto simp: app_read_core_def split: list.splits inbound.splits)
  let ?t = "s\<lparr>inbound_q := q, buffered_in := buffered_in s - length b\<rparr>"
  have a: "arrived_inv cs arr s" "live_recv (length (concat cs)) s" using read(3)[OF read(4)] by auto
  have t: "arrived_inv cs arr ?t" using a(1) by (simp add: arrived_inv_def)
  have l: "live_recv (length (concat cs)) ?t" using a(2) by (simp add: live_recv_def)
  have "live_recv (length (concat cs)) (snd (drain_core now ?t))"
    using l unfolding live_recv_def drain_core_frame by simp
  then show ?case unfolding q(2) using drain_core_arrived[OF t read(4)] by blast
qed

lemma rx_run_complete:
  assumes run: "rx_run cs s arr out" and ne: "\<forall>c\<in>set cs. c \<noteq> []"
    and all: "\<forall>i<length cs. (cut cs i, cs ! i) \<in> arr" and room: "channel_room s"
  shows "out @ data_of (inbound_q s) = concat cs"
proof -
  have a: "arrived_inv cs arr s" "drained s" using rx_run_arrived[OF run ne] by auto
  obtain i where i: "i \<le> length cs" "recv_next s = cut cs i" using a(1) by (auto simp: arrived_inv_def)
  have "i = length cs"
  proof (rule ccontr)
    assume "i \<noteq> length cs"
    then have "i < length cs" using i by simp
    then have "(cut cs i, cs ! i) \<in> arr" using all by blast
    then have "map_of (recv_buf s) (recv_next s) = Some (cs ! i)" using a(1) i by (auto simp: arrived_inv_def)
    then show False using a(2) room by (simp add: drained_def)
  qed
  then show ?thesis using rx_run_prefix[OF run] i by (simp add: rx_inv_def cut_length)
qed

end
