(* ===== verification/Session_Core.thy ===== *)
theory Session_Core
  imports Scheduler Stream_Recv
begin

text \<open>
  \<open>nya-core/src/session/mod.rs\<close> and the clocks of \<open>steer.rs\<close>: the session state
  (\<open>Inner\<close>), its two tables, its counters, the clocks it derives from the pool, the picks
  it asks of the scheduler, and \<open>send_on_path\<close>. The tables are hash maps keyed by the id an
  entry carries itself, kept here as the list of the entries; \<open>Notify\<close> wakeups carry no
  data and are left out. Streams that have left the table are kept in \<open>departed\<close>: the hop
  copiers still hold them.
\<close>

section \<open>State\<close>

datatype metric =
  M_path_added | M_path_down | M_path_degraded | M_path_outlier_recycle | M_frame_send_drop
  | M_streams_opened | M_streams_closed | M_stream_resets | M_resets_dial_failed
  | M_resets_timeout | M_resets_peer | M_resets_session_dead | M_resets_protocol
  | M_stream_reaps_linger | M_close_retry | M_reset_retry | M_data_retransmit | M_data_hedge
  | M_data_dropped_resend | M_resend_silence | M_resend_belt | M_resend_down | M_resend_gone
  | M_resend_dropped | M_resend_age | M_skip_no_fresh_alt | M_skip_queue_full
  | M_skip_write_stalled | M_skip_all_tried | M_skip_no_alt | M_data_sacked
  | M_data_dup_rx_bytes | M_ack_after_fin | M_zero_window_hole | M_zero_window_app
  | M_window_blocks | M_window_limited_with_room | M_budget_blocks | M_budget_diverts
  | M_hol_rebalances | M_migrates | M_migrates_send_blocked | M_migrates_loop_unfit
  | M_picks_unknown_rtt | M_picks_unknown_over_known | M_probe_miss | M_correlated_silence
  | M_all_down_resets | M_stall_both | M_stall_send | M_stall_send_zero_window
  | M_stall_recv_hole | M_bytes_data_tx | M_bytes_ctrl_tx | M_bytes_data_rx | M_bytes_ctrl_rx
  | M_pings_sent | M_streams_stalled | M_recv_cap_extra_bytes | M_pick_rtt_us
  | M_failbacks | M_failbacks_upgrade | M_failbacks_class_empty | M_failbacks_same_link

datatype hist =
  H_failover_ms | H_ack_flush_us | H_lifetime_ms | H_stall_ms | H_recv_cap_max | H_ack_loop_ms

record open_unacked =
  ou_path :: nat
  ou_sent_at :: instant
  ou_target :: target
  ou_tried :: "nat list"

record close_unacked =
  cu_path :: nat
  cu_sent_at :: instant
  cu_started_at :: instant
  cu_tried :: "nat list"
  cu_second :: bool
  cu_final :: "nat option"

record reset_unacked =
  ru_path :: nat
  ru_sent_at :: instant
  ru_started_at :: instant
  ru_tried :: "nat list"
  ru_reason :: reset_reason

record pending_early =
  pe_at :: instant
  pe_path :: nat
  pe_data :: stream_data

record session =
  scfg :: session_config
  is_client :: bool
  pathtab :: "path_state list"
  streamtab :: "stream_state list"
  departed :: "stream_state list"
  next_path_id :: nat
  next_stream_id :: nat
  incoming :: "(nat \<times> target) list option"
  sess_dead :: bool
  all_down_since :: "instant option"
  correlated_since :: "instant option"
  recv_cap_extra :: nat
  pool_ref_us :: nat
  counters :: "metric \<Rightarrow> nat"
  observed :: "(hist \<times> nat) list"
  proc_live :: nat
  proc_dead :: nat
  last_rtt_us :: "(string \<times> nat) list"
  last_lived :: "(string \<times> duration) list"
  opens :: "(nat \<times> open_unacked) list"
  closes :: "(nat \<times> close_unacked) list"
  resets :: "(nat \<times> reset_unacked) list"
  early :: "(nat \<times> pending_early list) list"
  reap_on_all_down :: bool

text \<open>\<open>Session::new\<close>; \<open>live\<close> and \<open>gone_n\<close> are the process counters before it.\<close>

definition session_new :: "session_config \<Rightarrow> bool \<Rightarrow> nat \<Rightarrow> nat \<Rightarrow> session" where
  "session_new cfg client live gone_n = \<lparr>scfg = cfg, is_client = client, pathtab = [], streamtab = [],
     departed = [], next_path_id = 1, next_stream_id = 1,
     incoming = (if client then None else Some []), sess_dead = False,
     all_down_since = None, correlated_since = None, recv_cap_extra = 0, pool_ref_us = 0,
     counters = (\<lambda>_. 0), observed = [], proc_live = live + 1, proc_dead = gone_n,
     last_rtt_us = [], last_lived = [], opens = [], closes = [], resets = [], early = [],
     reap_on_all_down = False\<rparr>"

section \<open>The tables\<close>

definition tbl_find :: "('a \<Rightarrow> nat) \<Rightarrow> nat \<Rightarrow> 'a list \<Rightarrow> 'a option" where
  "tbl_find key i xs = find (\<lambda>x. key x = i) xs"

definition tbl_upd :: "('a \<Rightarrow> nat) \<Rightarrow> nat \<Rightarrow> ('a \<Rightarrow> 'a) \<Rightarrow> 'a list \<Rightarrow> 'a list" where
  "tbl_upd key i f xs = map (\<lambda>x. if key x = i then f x else x) xs"

definition tbl_del :: "('a \<Rightarrow> nat) \<Rightarrow> nat \<Rightarrow> 'a list \<Rightarrow> 'a list" where
  "tbl_del key i xs = filter (\<lambda>x. key x \<noteq> i) xs"

definition get_path :: "nat \<Rightarrow> session \<Rightarrow> path_state option" where
  "get_path i s = tbl_find pid i (pathtab s)"

definition get_stream :: "nat \<Rightarrow> session \<Rightarrow> stream_state option" where
  "get_stream i s = tbl_find sid i (streamtab s)"

definition upd_path :: "nat \<Rightarrow> (path_state \<Rightarrow> path_state) \<Rightarrow> session \<Rightarrow> session" where
  "upd_path i f s = s\<lparr>pathtab := tbl_upd pid i f (pathtab s)\<rparr>"

definition upd_stream :: "nat \<Rightarrow> (stream_state \<Rightarrow> stream_state) \<Rightarrow> session \<Rightarrow> session" where
  "upd_stream i f s = s\<lparr>streamtab := tbl_upd sid i f (streamtab s)\<rparr>"

definition has_alive_path :: "session \<Rightarrow> bool" where
  "has_alive_path s \<longleftrightarrow> list_ex is_alive (pathtab s)"

definition alive_path_count :: "session \<Rightarrow> nat" where
  "alive_path_count s = length (filter is_alive (pathtab s))"

abbreviation stuning :: "session \<Rightarrow> tuning" where "stuning s \<equiv> cfg_tuning (scfg s)"

section \<open>Counters\<close>

definition bump_by :: "nat \<Rightarrow> metric \<Rightarrow> session \<Rightarrow> session" where
  "bump_by n m s = s\<lparr>counters := (counters s)(m := counters s m + n)\<rparr>"

definition bump :: "metric \<Rightarrow> session \<Rightarrow> session" where "bump m s = bump_by 1 m s"

definition gauge :: "metric \<Rightarrow> nat \<Rightarrow> session \<Rightarrow> session" where
  "gauge m n s = s\<lparr>counters := (counters s)(m := n)\<rparr>"

definition observe :: "hist \<Rightarrow> nat \<Rightarrow> session \<Rightarrow> session" where
  "observe h n s = s\<lparr>observed := (h, n) # observed s\<rparr>"

definition account_overlay_frame :: "frame \<Rightarrow> nat \<Rightarrow> bool \<Rightarrow> session \<Rightarrow> session" where
  "account_overlay_frame f encoded tx s =
     (let d = (case f of StreamData x \<Rightarrow> length (sd_data x) | _ \<Rightarrow> 0); c = encoded - d in
      if tx then (let s1 = (if d \<noteq> 0 then bump_by d M_bytes_data_tx s else s)
                  in if c \<noteq> 0 then bump_by c M_bytes_ctrl_tx s1 else s1)
      else (let s1 = (if d \<noteq> 0 then bump_by d M_bytes_data_rx s else s)
            in if c \<noteq> 0 then bump_by c M_bytes_ctrl_rx s1 else s1))"

section \<open>Clocks\<close>

definition degrade_for :: "path_state \<Rightarrow> session \<Rightarrow> duration" where
  "degrade_for p s = degrade_timeout (scfg s) (rtt_known p) (stable_rtt p)"

definition loss_timeout_for :: "path_state \<Rightarrow> session \<Rightarrow> duration" where
  "loss_timeout_for p s = loss_timeout (scfg s) (stable_rtt p)"

definition down_for :: "path_state \<Rightarrow> session \<Rightarrow> duration" where
  "down_for p s =
     (let r = assumed_rtt (scfg s) (rtt_known p) (rtt p) (stable_rtt p)
      in down_timeout (scfg s) r (probe_interval (scfg s) r))"

definition probe_interval_for :: "path_state \<Rightarrow> session \<Rightarrow> duration" where
  "probe_interval_for p s =
     (if \<not> rtt_known p then ping_interval_min (scfg s)
      else probe_interval (scfg s) (probe_rtt (rtt p) (stable_rtt p)))"

definition min_alive_fast_rtt :: "session \<Rightarrow> duration option" where
  "min_alive_fast_rtt s =
     list_min (map rtt (filter (\<lambda>p. is_alive p \<and> rtt_known p) (pathtab s)))"

definition min_known_rtt :: "session \<Rightarrow> duration" where
  "min_known_rtt s =
     (case list_min (map rtt (filter rtt_known (pathtab s))) of
        Some m \<Rightarrow> m | None \<Rightarrow> ping_interval_max (scfg s))"

definition rtt_sample_cap :: "path_state \<Rightarrow> session \<Rightarrow> duration" where
  "rtt_sample_cap p s =
     (if class_known p then loss_timeout (scfg s) (class_rtt p)
      else if rtt_known p then loss_timeout (scfg s) (stable_rtt p)
      else unknown_degrade_min (stuning s))"

definition retry_after :: "nat \<Rightarrow> session \<Rightarrow> duration" where
  "retry_after i s =
     (case min_alive_fast_rtt s of
        Some d \<Rightarrow> loss_timeout (scfg s) d
      | None \<Rightarrow> (case get_path i s of
            Some p \<Rightarrow> loss_timeout (scfg s) (rtt p)
          | None \<Rightarrow> loss_timeout_floor (stuning s)))"

definition write_deadline :: "instant \<Rightarrow> nat \<Rightarrow> session \<Rightarrow> duration" where
  "write_deadline now i s =
     (let young = (case get_path i s of
                     Some p \<Rightarrow> \<not> rtt_known p \<or> up_age now p < unknown_degrade_min (stuning s)
                   | None \<Rightarrow> True)
      in if young \<or> min_alive_fast_rtt s = None then unknown_degrade_min (stuning s)
         else retry_after i s)"

definition retry_after_bulk :: "path_state \<Rightarrow> session \<Rightarrow> duration" where
  "retry_after_bulk p s =
     (let lo = max (retry_after (pid p) s) (degrade_for p s);
          hi = max (down_timeout (scfg s) (stable_rtt p) (probe_interval_for p s)) lo
      in case ack_rtt p of Some a \<Rightarrow> clamp (a * 2) lo hi | None \<Rightarrow> lo)"

definition retry_after_bulk_id :: "nat \<Rightarrow> session \<Rightarrow> duration" where
  "retry_after_bulk_id i s =
     (case get_path i s of Some p \<Rightarrow> retry_after_bulk p s | None \<Rightarrow> retry_after i s)"

definition hedge_belt :: "path_state \<Rightarrow> nat \<Rightarrow> session \<Rightarrow> duration" where
  "hedge_belt p tries s =
     (let base = down_timeout (scfg s) (stable_rtt p) (probe_interval_for p s);
          shift = clamp_nat tries 1 5 - 1
      in min (base * 2 ^ shift) (down_timeout_ceil (stuning s)))"

section \<open>Picks\<close>

definition pool_ref :: "session \<Rightarrow> duration option" where
  "pool_ref s = (if pool_ref_us s = 0 then None else Some (from_micros (pool_ref_us s)))"

definition pick_pref :: "instant \<Rightarrow> pick_pref \<Rightarrow> session \<Rightarrow> nat option" where
  "pick_pref now pref s = pick_path_pref now (scfg s) pref (pathtab s)"

definition pick_retry_tried :: "instant \<Rightarrow> nat list \<Rightarrow> session \<Rightarrow> nat option" where
  "pick_retry_tried now tried s = pick_retry_path now (scfg s) tried (pathtab s)"

definition pick_retry :: "instant \<Rightarrow> nat \<Rightarrow> session \<Rightarrow> nat option" where
  "pick_retry now avoid s = pick_retry_tried now [avoid] s"

definition pick_retry_untried :: "instant \<Rightarrow> nat list \<Rightarrow> session \<Rightarrow> nat option" where
  "pick_retry_untried now tried s =
     (case pick_retry_tried now tried s of
        None \<Rightarrow> None | Some alt \<Rightarrow> if alt \<in> set tried then None else Some alt)"

definition conn_has_interactive :: "instant \<Rightarrow> nat \<Rightarrow> session \<Rightarrow> bool" where
  "conn_has_interactive now i s \<longleftrightarrow>
     list_ex (\<lambda>st. is_steerable st \<and> sticky st = i \<and> \<not> bulk st
        \<and> \<not> (stalled st \<and> stall_from_ms st \<noteq> 0
              \<and> mono_ms now - stall_from_ms st \<ge> as_millis (close_linger (stuning s))))
       (streamtab s)"

definition interactive_affinity :: "instant \<Rightarrow> nat \<Rightarrow> session \<Rightarrow> nat option" where
  "interactive_affinity now stk s =
     (if stk = 0 then None
      else case get_path stk s of
        None \<Rightarrow> None
      | Some p \<Rightarrow>
          if is_schedulable p \<and> is_loss_fresh now (scfg s) p
             \<and> list_ex (\<lambda>q. pid q = stk) (interactive_class_set (scfg s) (pathtab s))
          then Some stk else None)"

definition bulk_affinity :: "instant \<Rightarrow> nat \<Rightarrow> session \<Rightarrow> nat option" where
  "bulk_affinity now stk s =
     (if stk = 0 then None
      else case get_path stk s of
        None \<Rightarrow> None
      | Some p \<Rightarrow>
          if \<not> is_alive p then None
          else if congested p \<and> \<not> write_stalled p then None
          else if (write_stalled p \<or> is_schedulable p) \<and> is_quiet_fresh now (scfg s) p
          then Some stk else None)"

text \<open>The picks that sample fitness or mark a budget change the pool.\<close>

definition bulk_overflow :: "instant \<Rightarrow> nat \<Rightarrow> session \<Rightarrow> nat option \<times> session" where
  "bulk_overflow now stk s =
     (let (r, ps) = bulk_overflow_pick now (scfg s) stk (pool_ref s)
                      (\<lambda>i. conn_has_interactive now i s) (pathtab s)
      in (r, s\<lparr>pathtab := ps\<rparr>))"

definition pick_bulk_home :: "instant \<Rightarrow> nat option \<Rightarrow> session \<Rightarrow> nat option \<times> session" where
  "pick_bulk_home now exclude s =
     (let (r, ps) = pick_bulk now (scfg s) (pool_ref s) exclude
                      (\<lambda>i. conn_has_interactive now i s) (pathtab s)
      in (r, s\<lparr>pathtab := ps\<rparr>))"

definition loop_fit_id :: "instant \<Rightarrow> nat \<Rightarrow> session \<Rightarrow> bool option \<times> session" where
  "loop_fit_id now i s =
     (case get_path i s of
        None \<Rightarrow> (None, s)
      | Some p \<Rightarrow> (Some (fst (loop_fit now (scfg s) (pool_ref s) p)),
                   upd_path i (\<lambda>p. snd (loop_fit now (scfg s) (pool_ref s) p)) s))"

section \<open>Sending a frame\<close>

definition frame_is_interactive :: "frame \<Rightarrow> session \<Rightarrow> bool" where
  "frame_is_interactive f s =
     (case f of StreamData d \<Rightarrow> length (sd_data d) \<le> interactive_max (stuning s) | _ \<Rightarrow> True)"

definition is_urgent :: "frame \<Rightarrow> path_state \<Rightarrow> session \<Rightarrow> bool" where
  "is_urgent f p s =
     (if (case f of StreamData _ \<Rightarrow> True | _ \<Rightarrow> False) \<and> (\<not> rtt_known p \<or> write_stalled p)
      then False else frame_is_interactive f s)"

definition queue_frame :: "instant \<Rightarrow> bool \<Rightarrow> frame \<Rightarrow> path_state \<Rightarrow> bool \<times> path_state" where
  "queue_frame now urg f p =
     (let p1 = note_enqueue urg (p\<lparr>last_tx := now\<rparr>) in
      case try_send urg f p1 of
        Some p2 \<Rightarrow> (True, if urg then p2\<lparr>congested := False\<rparr> else p2)
      | None \<Rightarrow> (False, (let p2 = undo_enqueue urg p1
                         in if urg then p2\<lparr>congested := True\<rparr> else p2)))"

definition send_on_path :: "instant \<Rightarrow> nat \<Rightarrow> frame \<Rightarrow> session \<Rightarrow> bool \<times> session" where
  "send_on_path now i f s =
     (case get_path i s of
        None \<Rightarrow> (False, s)
      | Some p \<Rightarrow>
          if \<not> is_alive p then (False, s)
          else (let urg = is_urgent f p s; (ok, p') = queue_frame now urg f p;
                    s1 = upd_path i (\<lambda>_. p') s
                in (ok, if ok then s1 else bump M_frame_send_drop s1)))"

definition send_data_frame :: "instant \<Rightarrow> nat \<Rightarrow> nat \<Rightarrow> byte list \<Rightarrow> nat \<Rightarrow> session \<Rightarrow> bool \<times> session" where
  "send_data_frame now stream off d i s =
     send_on_path now i (StreamData \<lparr>sd_stream_id = stream, sd_offset = off, sd_data = d\<rparr>) s"

section \<open>Small notes\<close>

definition note_retry :: "nat \<Rightarrow> nat \<Rightarrow> session \<Rightarrow> session" where
  "note_retry from_id to_id s =
     (let a = map_option link (get_path from_id s); b = map_option link (get_path to_id s)
      in if a \<noteq> None \<and> a = b then bump M_data_retransmit s else bump M_data_hedge s)"

definition note_unknown_pick :: "nat \<Rightarrow> session \<Rightarrow> session" where
  "note_unknown_pick i s =
     (case get_path i s of
        None \<Rightarrow> s
      | Some p \<Rightarrow>
          if rtt_known p then s
          else (let s1 = bump M_picks_unknown_rtt s
                in if list_ex rtt_known (pathtab s) then bump M_picks_unknown_over_known s1 else s1))"

definition note_pick :: "nat \<Rightarrow> session \<Rightarrow> session" where
  "note_pick i s =
     (case get_path i s of
        None \<Rightarrow> s
      | Some p \<Rightarrow> upd_path i (\<lambda>p. p\<lparr>picks := picks p + 1\<rparr>)
                   (gauge M_pick_rtt_us (if rtt_known p then rtt_us p else 0) s))"

definition note_migrate :: "metric \<Rightarrow> session \<Rightarrow> session" where
  "note_migrate m s = bump m (bump M_migrates s)"

definition note_ack_sent :: "instant \<Rightarrow> nat \<Rightarrow> nat \<Rightarrow> session \<Rightarrow> session" where
  "note_ack_sent now i stream s =
     (case (get_stream stream s, get_path i s) of
        (Some x, Some p) \<Rightarrow>
          if stream \<in> fst ` set (pending_acks p) then s
          else (let s1 = upd_stream stream (\<lambda>y. y\<lparr>ack_dirty := False, ack_flush_from_us := 0\<rparr>) s
                in if ack_flush_from_us x \<noteq> 0
                   then observe H_ack_flush_us (mono_us now - ack_flush_from_us x) s1 else s1)
      | _ \<Rightarrow> s)"

definition observe_failover :: "instant \<Rightarrow> nat \<Rightarrow> session \<Rightarrow> session" where
  "observe_failover now i s =
     (case get_path i s of
        None \<Rightarrow> s
      | Some p \<Rightarrow>
          if failover_recorded p then s
          else observe H_failover_ms (as_millis (last_rx_ago now p))
                 (upd_path i (\<lambda>p. p\<lparr>failover_recorded := True\<rparr>) s))"

end
