(* ===== verification/Session_Tables.thy ===== *)
theory Session_Tables
  imports Session_Core
begin

text \<open>
  \<open>session/mod.rs\<close>: the retry tables of opens, closes and resets, the early data of
  streams not opened yet, stickiness, the custody of unacknowledged pieces (which path each
  is charged to) and its transfer, and the one place where a stream leaves the session.
\<close>

section \<open>Retry tables\<close>

text \<open>The last eight paths tried, the latest last, each once.\<close>

definition push_tried :: "nat list \<Rightarrow> nat \<Rightarrow> nat list" where
  "push_tried tried i =
     (if tried \<noteq> [] \<and> last tried = i then tried
      else (let t = filter (\<lambda>x. x \<noteq> i) tried
            in (if length t = 8 then tl t else t) @ [i]))"

definition remember_open :: "instant \<Rightarrow> nat \<Rightarrow> nat \<Rightarrow> target \<Rightarrow> session \<Rightarrow> session" where
  "remember_open now i path t s =
     s\<lparr>opens := AList.update i
        (case map_of (opens s) i of
           Some x \<Rightarrow> x\<lparr>ou_path := path, ou_sent_at := now, ou_target := t,
                       ou_tried := push_tried (ou_tried x) path\<rparr>
         | None \<Rightarrow> \<lparr>ou_path = path, ou_sent_at = now, ou_target = t, ou_tried = [path]\<rparr>)
        (opens s)\<rparr>"

definition forget_open :: "nat \<Rightarrow> session \<Rightarrow> session" where
  "forget_open i s = s\<lparr>opens := AList.delete i (opens s)\<rparr>"

definition remember_close ::
  "instant \<Rightarrow> nat \<Rightarrow> nat \<Rightarrow> bool \<Rightarrow> nat option \<Rightarrow> session \<Rightarrow> session" where
  "remember_close now i path second final s =
     s\<lparr>closes := AList.update i
        (case map_of (closes s) i of
           Some x \<Rightarrow> x\<lparr>cu_path := path, cu_sent_at := now,
                       cu_tried := push_tried (cu_tried x) path,
                       cu_final := (if cu_final x = None then final else cu_final x)\<rparr>
         | None \<Rightarrow> \<lparr>cu_path = path, cu_sent_at = now, cu_started_at = now, cu_tried = [path],
                    cu_second = second, cu_final = final\<rparr>)
        (closes s)\<rparr>"

definition forget_close :: "nat \<Rightarrow> session \<Rightarrow> session" where
  "forget_close i s = s\<lparr>closes := AList.delete i (closes s)\<rparr>"

definition remember_reset :: "instant \<Rightarrow> nat \<Rightarrow> nat \<Rightarrow> reset_reason \<Rightarrow> session \<Rightarrow> session" where
  "remember_reset now i path why s =
     s\<lparr>resets := AList.update i
        (case map_of (resets s) i of
           Some x \<Rightarrow> x\<lparr>ru_path := path, ru_sent_at := now, ru_reason := why,
                       ru_tried := (if path \<noteq> 0 then push_tried (ru_tried x) path else ru_tried x)\<rparr>
         | None \<Rightarrow> \<lparr>ru_path = path, ru_sent_at = now, ru_started_at = now,
                    ru_tried = (if path = 0 then [] else [path]), ru_reason = why\<rparr>)
        (resets s)\<rparr>"

definition forget_reset :: "nat \<Rightarrow> session \<Rightarrow> session" where
  "forget_reset i s = s\<lparr>resets := AList.delete i (resets s)\<rparr>"

definition reap_closes :: "instant \<Rightarrow> session \<Rightarrow> session" where
  "reap_closes now s =
     (let old = map fst (filter (\<lambda>(_, x). elapsed now (cu_started_at x) \<ge> close_linger (stuning s)) (closes s))
      in fold forget_close old s)"

definition reap_resets :: "instant \<Rightarrow> session \<Rightarrow> session" where
  "reap_resets now s =
     (let old = map fst (filter (\<lambda>(_, x). elapsed now (ru_started_at x) \<ge> close_linger (stuning s)) (resets s))
      in fold forget_reset old s)"

section \<open>Early data\<close>

definition push_early_data :: "instant \<Rightarrow> nat \<Rightarrow> stream_data \<Rightarrow> session \<Rightarrow> session" where
  "push_early_data now path d s =
     (let i = sd_stream_id d; old = (case map_of (early s) i of Some v \<Rightarrow> v | None \<Rightarrow> [])
      in s\<lparr>early := AList.update i (old @ [\<lparr>pe_at = now, pe_path = path, pe_data = d\<rparr>]) (early s)\<rparr>)"

definition take_early_data :: "nat \<Rightarrow> session \<Rightarrow> pending_early list \<times> session" where
  "take_early_data i s =
     (case map_of (early s) i of Some v \<Rightarrow> v | None \<Rightarrow> [], s\<lparr>early := AList.delete i (early s)\<rparr>)"

definition expire_early_data :: "instant \<Rightarrow> session \<Rightarrow> session" where
  "expire_early_data now s =
     (let thresh = loss_timeout (scfg s) (min_known_rtt s) * 2;
          kept = map (\<lambda>(i, v). (i, filter (\<lambda>e. elapsed now (pe_at e) < thresh) v)) (early s)
      in s\<lparr>early := filter (\<lambda>(_, v). v \<noteq> []) kept\<rparr>)"

section \<open>Stickiness\<close>

definition set_sticky :: "instant \<Rightarrow> nat \<Rightarrow> nat \<Rightarrow> session \<Rightarrow> session" where
  "set_sticky now i path s =
     (case get_stream i s of
        None \<Rightarrow> s
      | Some x \<Rightarrow>
          if \<not> is_steerable x \<or> sticky x = path then s
          else (let s1 = upd_stream i (\<lambda>y. y\<lparr>sticky := path\<rparr>) s;
                    s2 = (if sticky x \<noteq> 0
                          then upd_stream i (note_stick_change now) (upd_path (sticky x) drop_sticky s1)
                          else s1)
                in upd_path path add_sticky s2))"

definition unstick :: "nat \<Rightarrow> session \<Rightarrow> session" where
  "unstick i s =
     (case get_stream i s of
        None \<Rightarrow> s
      | Some x \<Rightarrow>
          if sticky x = 0 then s
          else upd_path (sticky x) drop_sticky (upd_stream i (\<lambda>y. y\<lparr>sticky := 0\<rparr>) s))"

section \<open>Custody of unacknowledged pieces\<close>

definition upd_piece :: "nat \<Rightarrow> nat \<Rightarrow> (unacked \<Rightarrow> unacked) \<Rightarrow> session \<Rightarrow> session" where
  "upd_piece i off f s =
     upd_stream i (\<lambda>x. x\<lparr>unacked_q :=
        map (\<lambda>(k, u). (k, if k = off then f u else u)) (unacked_q x)\<rparr>) s"

definition get_piece :: "nat \<Rightarrow> nat \<Rightarrow> session \<Rightarrow> unacked option" where
  "get_piece i off s =
     (case get_stream i s of None \<Rightarrow> None | Some x \<Rightarrow> map_of (unacked_q x) off)"

definition ua_len :: "unacked \<Rightarrow> nat" where "ua_len u = length (ua_data u)"

definition credit_piece :: "unacked \<Rightarrow> session \<Rightarrow> session" where
  "credit_piece u s = upd_path (ua_path u) (sub_inflight (ua_len u)) s"

text \<open>\<open>release_unacked\<close> of the pieces of a stream that is leaving.\<close>

definition release_pieces :: "unacked list \<Rightarrow> session \<Rightarrow> session" where
  "release_pieces us s = fold credit_piece us s"

definition remove_held_stream :: "nat \<Rightarrow> session \<Rightarrow> session" where
  "remove_held_stream i s =
     (case get_stream i s of
        None \<Rightarrow> s
      | Some x \<Rightarrow>
          (let s1 = s\<lparr>streamtab := tbl_del sid i (streamtab s)\<rparr>;
               s2 = (if sticky x = 0 then s1 else upd_path (sticky x) drop_sticky s1);
               s3 = release_pieces (map snd (unacked_q x)) s2;
               s4 = forget_open i s3
           in s4\<lparr>departed := x\<lparr>sticky := 0, unacked_q := [], gone := True\<rparr> # departed s4\<rparr>))"

text \<open>
  The last holder of a departed stream lets go: its share of the window memory is given back.
\<close>

definition drop_departed :: "nat \<Rightarrow> session \<Rightarrow> session" where
  "drop_departed n s =
     (if n < length (departed s)
      then s\<lparr>recv_cap_extra := stream_drop (departed s ! n) (recv_cap_extra s),
             departed := take n (departed s) @ drop (Suc n) (departed s)\<rparr>
      else s)"

definition xfer_inflight :: "nat \<Rightarrow> nat \<Rightarrow> nat \<Rightarrow> session \<Rightarrow> session" where
  "xfer_inflight from_id to_id n s =
     (if from_id = to_id \<or> n = 0 then s
      else upd_path to_id (add_inflight n) (upd_path from_id (sub_inflight n) s))"

text \<open>The path's ACK clock as it is when a piece goes out.\<close>

definition stamp :: "instant \<Rightarrow> path_state \<Rightarrow> unacked \<Rightarrow> unacked" where
  "stamp now p u =
     u\<lparr>ua_delivered := delivered (bud p), ua_delivered_us := delivered_at_us (bud p),
       ua_sent_us := max (mono_us now) 1, ua_first_tx_us := first_tx_us (bud p)\<rparr>"

definition moved_piece :: "instant \<Rightarrow> nat \<Rightarrow> unacked \<Rightarrow> unacked" where
  "moved_piece now to_id u =
     u\<lparr>ua_path := to_id, ua_last_sent := now, ua_not_before := now, ua_dropped := False,
       ua_tried := push_tried (ua_tried u) to_id\<rparr>"

text \<open>\<open>rehome_unacked\<close> of the piece of stream \<open>i\<close> at \<open>off\<close>.\<close>

definition rehome_unacked :: "instant \<Rightarrow> nat \<Rightarrow> nat \<Rightarrow> nat \<Rightarrow> session \<Rightarrow> session" where
  "rehome_unacked now i off to_id s =
     (case get_piece i off s of
        None \<Rightarrow> s
      | Some u \<Rightarrow>
          (let s1 = xfer_inflight (ua_path u) to_id (ua_len u) s
           in upd_piece i off (\<lambda>u. case get_path to_id s1 of
                  Some p \<Rightarrow> stamp now p (moved_piece now to_id u)
                | None \<Rightarrow> moved_piece now to_id u) s1))"

definition retransmit_from_on :: "instant \<Rightarrow> nat \<Rightarrow> nat \<Rightarrow> nat \<Rightarrow> session \<Rightarrow> session" where
  "retransmit_from_on now i from_id to_id s =
     (case get_stream i s of
        None \<Rightarrow> s
      | Some x \<Rightarrow>
          (let due = filter (\<lambda>(_, u). ua_path u = from_id) (unacked_q x);
               s1 = fold (\<lambda>(off, u) s. snd (send_data_frame now i off (ua_data u) to_id
                                              (rehome_unacked now i off to_id s))) due s
           in if due = [] then s1
              else bump_by (length due) M_data_retransmit
                     (upd_stream i (\<lambda>y. note_path_used to_id (y\<lparr>hedges := hedges y + length due\<rparr>)) s1)))"

definition rehome_unacked_from :: "instant \<Rightarrow> nat \<Rightarrow> session \<Rightarrow> session" where
  "rehome_unacked_from now gone_id s =
     (case pick_retry now gone_id s of
        None \<Rightarrow> s
      | Some alt \<Rightarrow>
          fold (\<lambda>i. retransmit_from_on now i gone_id alt) (map sid (streamtab s)) s)"

definition note_data_dropped :: "instant \<Rightarrow> nat \<Rightarrow> nat \<Rightarrow> session \<Rightarrow> session" where
  "note_data_dropped now i off s =
     upd_piece i off (\<lambda>u. u\<lparr>ua_dropped := True, ua_not_before := now\<rparr>) s"

definition defer_piece :: "nat \<Rightarrow> nat \<Rightarrow> instant \<Rightarrow> session \<Rightarrow> session" where
  "defer_piece i off till s = upd_piece i off (\<lambda>u. u\<lparr>ua_not_before := till\<rparr>) s"

text \<open>
  The pump of a stream holds it past its departure: a send reads and writes the stream it holds,
  in the table or not.
\<close>

definition get_held :: "nat \<Rightarrow> session \<Rightarrow> stream_state option" where
  "get_held i s = or_else (get_stream i s) (tbl_find sid i (departed s))"

definition upd_held :: "nat \<Rightarrow> (stream_state \<Rightarrow> stream_state) \<Rightarrow> session \<Rightarrow> session" where
  "upd_held i f s =
     (if get_stream i s \<noteq> None then upd_stream i f s
      else s\<lparr>departed := tbl_upd sid i f (departed s)\<rparr>)"

definition held_piece :: "nat \<Rightarrow> nat \<Rightarrow> session \<Rightarrow> unacked option" where
  "held_piece i off s =
     (case get_held i s of None \<Rightarrow> None | Some x \<Rightarrow> map_of (unacked_q x) off)"

definition upd_held_piece :: "nat \<Rightarrow> nat \<Rightarrow> (unacked \<Rightarrow> unacked) \<Rightarrow> session \<Rightarrow> session" where
  "upd_held_piece i off f s =
     upd_held i (\<lambda>x. x\<lparr>unacked_q :=
        map (\<lambda>(k, u). (k, if k = off then f u else u)) (unacked_q x)\<rparr>) s"

text \<open>An empty pipe restarts both clocks of the path before the piece is stamped.\<close>

definition stamp_delivered :: "instant \<Rightarrow> nat \<Rightarrow> nat \<Rightarrow> nat \<Rightarrow> session \<Rightarrow> session" where
  "stamp_delivered now i off j s =
     (case get_path j s of
        None \<Rightarrow> s
      | Some p \<Rightarrow>
          (let now_us = max (mono_us now) 1;
               len = (case held_piece i off s of Some u \<Rightarrow> ua_len u | None \<Rightarrow> 0);
               p1 = (if inflight p \<le> len
                     then p\<lparr>bud := (bud p)\<lparr>first_tx_us := now_us, delivered_at_us := now_us\<rparr>\<rparr>
                     else p)
           in upd_held_piece i off (stamp now p1) (upd_path j (\<lambda>_. p1) s)))"

section \<open>Facts\<close>

lemma push_tried_props:
  "push_tried t i \<noteq> []" "last (push_tried t i) = i"
  by (auto simp: push_tried_def Let_def)

lemma push_tried_set: "set (push_tried t i) \<subseteq> insert i (set t)"
  by (auto simp: push_tried_def Let_def dest: list.set_sel(2)[rotated] split: if_splits)


lemma push_tried_distinct: "distinct t \<Longrightarrow> distinct (push_tried t i)"
proof -
  assume d: "distinct t"
  have "i \<notin> set (tl (filter (\<lambda>x. x \<noteq> i) t))"
    using list.set_sel(2)[of "filter (\<lambda>x. x \<noteq> i) t" i] by (cases "filter (\<lambda>x. x \<noteq> i) t = []") auto
  then show ?thesis using d by (auto simp: push_tried_def Let_def distinct_tl)
qed

lemma push_tried_length: "length t \<le> 8 \<Longrightarrow> length (push_tried t i) \<le> 8"
proof -
  assume l: "length t \<le> 8"
  have "length (filter (\<lambda>x. x \<noteq> i) t) \<le> length t" by (rule length_filter_le)
  then have "length (filter (\<lambda>x. x \<noteq> i) t) \<noteq> 8 \<Longrightarrow> length (filter (\<lambda>x. x \<noteq> i) t) \<le> 7" using l by linarith
  then show ?thesis using l by (auto simp: push_tried_def Let_def)
qed

text \<open>Nothing younger than the eight latest is forgotten.\<close>

lemma push_tried_keeps: "length t < 8 \<Longrightarrow> set (push_tried t i) = insert i (set t)"
proof -
  assume l: "length t < 8"
  have "length (filter (\<lambda>x. x \<noteq> i) t) \<le> length t" by (rule length_filter_le)
  then have "length (filter (\<lambda>x. x \<noteq> i) t) \<noteq> 8" using l by linarith
  then show ?thesis using last_in_set[of t] by (auto simp: push_tried_def Let_def)
qed

end
