(* ===== verification/Session_End.thy ===== *)
theory Session_End
  imports Session_Tables
begin

text \<open>
  \<open>session/mod.rs\<close> and \<open>streams.rs\<close>: how a stream and a session end. A stream is counted
  once as closed or reset, by whoever first sets \<open>counted_close\<close>, and leaves the table
  through \<open>remove_held_stream\<close> only.
\<close>

section \<open>The end of a stream\<close>

definition overlay_progress_fine :: "stream_state \<Rightarrow> session \<Rightarrow> bool" where
  "overlay_progress_fine x s \<longleftrightarrow>
     \<not> send_acked x < send_next x
     \<and> (case recv_close_off x of None \<Rightarrow> True | Some off \<Rightarrow> \<not> recv_next x < off)
     \<and> (recv_fin x \<or> send_fin_sent x \<and> sid x \<notin> fst ` set (opens s))"

fun reset_metric :: "reset_reason \<Rightarrow> metric" where
  "reset_metric DialFailed = M_resets_dial_failed"
| "reset_metric Timeout = M_resets_timeout"
| "reset_metric PeerReset = M_resets_peer"
| "reset_metric SessionDead = M_resets_session_dead"
| "reset_metric Protocol = M_resets_protocol"
| "reset_metric RUnknown = M_resets_protocol"

definition clear_stall :: "stream_state \<Rightarrow> stream_state" where
  "clear_stall x = x\<lparr>stalled := False, stall_from_ms := 0\<rparr>"

definition observe_end_times :: "instant \<Rightarrow> stream_state \<Rightarrow> session \<Rightarrow> session" where
  "observe_end_times now x s =
     (let s1 = (if opened_ms x \<noteq> 0 then observe H_lifetime_ms (mono_ms now - opened_ms x) s else s);
          s2 = (if stalled x
                then upd_stream (sid x) clear_stall
                       (if stall_from_ms x \<noteq> 0
                        then observe H_stall_ms (mono_ms now - stall_from_ms x) s1 else s1)
                else s1)
      in if recv_next x > 0 then observe H_recv_cap_max (recv_cap_max x) s2 else s2)"

definition observe_stream_end :: "instant \<Rightarrow> reset_reason option \<Rightarrow> nat \<Rightarrow> session \<Rightarrow> session" where
  "observe_stream_end now reason i s =
     (case get_stream i s of
        None \<Rightarrow> s
      | Some x \<Rightarrow>
          (let s3 = observe_end_times now x s in
           case reason of
             None \<Rightarrow> forget_close i (bump M_streams_closed s3)
           | Some r \<Rightarrow>
               if r = Timeout \<and> overlay_progress_fine x s3
               then (let s4 = forget_close i (bump M_stream_reaps_linger (bump M_streams_closed s3))
                     in if recv_fin x then forget_reset i s4 else s4)
               else forget_close i (bump (reset_metric r) (bump M_stream_resets s3))))"

text \<open>The compare-exchange on \<open>counted_close\<close>: whether the caller is the first.\<close>

definition claim_close :: "nat \<Rightarrow> session \<Rightarrow> bool \<times> session" where
  "claim_close i s =
     (case get_stream i s of
        None \<Rightarrow> (False, s)
      | Some x \<Rightarrow> if counted_close x then (False, s)
                  else (True, upd_stream i (\<lambda>y. y\<lparr>counted_close := True\<rparr>) s))"

definition count_close :: "instant \<Rightarrow> reset_reason option \<Rightarrow> nat \<Rightarrow> session \<Rightarrow> session" where
  "count_close now reason i s =
     (let (mine, s1) = claim_close i s in if mine then observe_stream_end now reason i s1 else s1)"

text \<open>
  The Reset frame, on the pick for any stream, then once on another path; a session without an
  alive path keeps it under path 0.
\<close>

definition reset_frame :: "nat \<Rightarrow> reset_reason \<Rightarrow> frame" where
  "reset_frame i why = StreamReset \<lparr>sr_stream_id = i, sr_reason = why\<rparr>"

definition wire_reset ::
  "(nat \<Rightarrow> session \<Rightarrow> nat option) \<Rightarrow> instant \<Rightarrow> nat \<Rightarrow> reset_reason \<Rightarrow> session \<Rightarrow> session" where
  "wire_reset pick_alt now i why s =
     (case pick_pref now PickAny s of
        None \<Rightarrow> remember_reset now i 0 why s
      | Some p \<Rightarrow>
          (let (ok, s2) = send_on_path now p (reset_frame i why) (remember_reset now i p why s) in
           if ok then s2
           else (case pick_alt p s2 of
                   None \<Rightarrow> s2
                 | Some alt \<Rightarrow>
                     (let (ok2, s4) = send_on_path now alt (reset_frame i why)
                                        (remember_reset now i alt why s2)
                      in if ok2 then bump M_reset_retry s4 else s4))))"

definition reset_once :: "instant \<Rightarrow> reset_reason option \<Rightarrow> bool \<Rightarrow> nat \<Rightarrow> session \<Rightarrow> session" where
  "reset_once now reason send i s =
     (case get_stream i s of
        None \<Rightarrow> s
      | Some x \<Rightarrow>
          (let s1 = upd_stream i (\<lambda>y. y\<lparr>was_reset := True\<rparr>) s in
           if was_reset x then s1
           else (let why = (case reason of Some r \<Rightarrow> r | None \<Rightarrow> SessionDead);
                     s2 = (if recv_fin x \<and> overlay_progress_fine x s1 then s1
                           else upd_stream i (inbound_send_lossy (InReset why)) s1)
                 in if send \<and> \<not> sess_dead s2
                    then wire_reset (pick_retry now) now i why s2
                    else forget_reset i s2)))"

definition finish_stream :: "instant \<Rightarrow> reset_reason option \<Rightarrow> bool \<Rightarrow> nat \<Rightarrow> session \<Rightarrow> session" where
  "finish_stream now reason send i s =
     remove_held_stream i (count_close now reason i (reset_once now reason send i s))"

definition reset_stream :: "instant \<Rightarrow> reset_reason \<Rightarrow> nat \<Rightarrow> session \<Rightarrow> session" where
  "reset_stream now why i s = finish_stream now (Some why) True i s"

text \<open>The end of the receive half is handed to the application with \<open>try_send\<close>.\<close>

definition recv_fin_once :: "nat \<Rightarrow> session \<Rightarrow> session" where
  "recv_fin_once i s =
     upd_stream i (\<lambda>x. if recv_fin x then x
                       else inbound_send_lossy InClose (x\<lparr>recv_fin := True\<rparr>)) s"

definition linger_reap_progress_fine :: "instant \<Rightarrow> nat \<Rightarrow> session \<Rightarrow> session" where
  "linger_reap_progress_fine now i s =
     (case get_stream i s of
        None \<Rightarrow> s
      | Some x \<Rightarrow>
          if \<not> overlay_progress_fine x s then reset_stream now Timeout i s
          else (let (mine, s1) = claim_close i s in
            if \<not> mine then s1
            else if \<not> overlay_progress_fine x s1
            then finish_stream now (Some Timeout) True i (observe_stream_end now (Some Timeout) i s1)
            else remove_held_stream i (recv_fin_once i (observe_stream_end now (Some Timeout) i s1))))"

definition residual_d_client :: "instant \<Rightarrow> nat \<Rightarrow> session \<Rightarrow> session" where
  "residual_d_client now i s =
     (case get_stream i s of
        None \<Rightarrow> s
      | Some x \<Rightarrow>
          if \<not> is_client s \<or> recv_fin x \<or> \<not> overlay_progress_fine x s
          then (if overlay_progress_fine x s then linger_reap_progress_fine now i s
                else reset_stream now Timeout i s)
          else (let (mine, s1) = claim_close i s in
            if \<not> mine then s1
            else remove_held_stream i (recv_fin_once i
                   (observe_stream_end now (Some Timeout) i
                      (wire_reset (\<lambda>p. pick_retry_untried now [p]) now i Timeout s1)))))"

definition maybe_count_graceful :: "instant \<Rightarrow> nat \<Rightarrow> session \<Rightarrow> session" where
  "maybe_count_graceful now i s =
     (case get_stream i s of
        None \<Rightarrow> s
      | Some x \<Rightarrow>
          if \<not> send_fin_sent x \<or> \<not> recv_fin x then s
          else remove_held_stream i (count_close now None i s))"

text \<open>\<open>close_send\<close>: the application has shut its write half.\<close>

definition close_frame :: "nat \<Rightarrow> nat option \<Rightarrow> frame" where
  "close_frame i final = StreamClose \<lparr>sc_stream_id = i, sc_final_offset = final\<rparr>"

definition wire_close :: "instant \<Rightarrow> nat \<Rightarrow> bool \<Rightarrow> nat option \<Rightarrow> session \<Rightarrow> session" where
  "wire_close now i second final s =
     (case pick_pref now PickAny s of
        None \<Rightarrow> s
      | Some p \<Rightarrow>
          (let (ok, s2) = send_on_path now p (close_frame i final)
                            (remember_close now i p second final s) in
           if ok then s2
           else (case pick_retry now p s2 of
                   None \<Rightarrow> s2
                 | Some alt \<Rightarrow> snd (send_on_path now alt (close_frame i final)
                                      (remember_close now i alt second final s2)))))"

definition close_send :: "instant \<Rightarrow> nat \<Rightarrow> session \<Rightarrow> session" where
  "close_send now i s =
     (case get_stream i s of
        None \<Rightarrow> s
      | Some x \<Rightarrow>
          if send_fin_sent x then s
          else maybe_count_graceful now i
                 (wire_close now i (recv_fin x) (Some (send_next x))
                    (unstick i (upd_stream i (\<lambda>y. note_close_started now (y\<lparr>send_fin_sent := True\<rparr>)) s))))"

text \<open>\<open>reap_stream\<close>: the pump of the stream has ended.\<close>

definition reap_stream :: "instant \<Rightarrow> nat \<Rightarrow> session \<Rightarrow> session" where
  "reap_stream now i s =
     (case get_stream i s of
        None \<Rightarrow> s
      | Some x \<Rightarrow>
          if counted_close x then remove_held_stream i s
          else if send_fin_sent x \<and> recv_fin x then maybe_count_graceful now i s
          else if overlay_progress_fine x s then s
          else finish_stream now (Some Timeout) True i s)"

section \<open>The receive half\<close>

definition apply_recv_fin :: "instant \<Rightarrow> nat \<Rightarrow> session \<Rightarrow> session" where
  "apply_recv_fin now i s =
     maybe_count_graceful now i (forget_close i (unstick i (recv_fin_once i s)))"

definition try_finish_recv_close :: "instant \<Rightarrow> nat \<Rightarrow> session \<Rightarrow> session" where
  "try_finish_recv_close now i s =
     (case get_stream i s of
        None \<Rightarrow> s
      | Some x \<Rightarrow>
          (case recv_close_off x of
             None \<Rightarrow> s
           | Some off \<Rightarrow> if recv_fin x \<or> recv_next x < off then s else apply_recv_fin now i s))"

definition on_peer_close :: "instant \<Rightarrow> stream_close \<Rightarrow> session \<Rightarrow> session" where
  "on_peer_close now c s =
     (let i = sc_stream_id c in
      case get_stream i s of
        None \<Rightarrow> s
      | Some x \<Rightarrow>
          (let off = (case sc_final_offset c of Some o' \<Rightarrow> o' | None \<Rightarrow> recv_next x)
           in try_finish_recv_close now i
                (upd_stream i (\<lambda>y. let y1 = note_close_started now y in
                   if recv_close_off y1 = None then y1\<lparr>recv_close_off := Some off\<rparr> else y1) s)))"

definition expire_recv_closes :: "instant \<Rightarrow> session \<Rightarrow> session" where
  "expire_recv_closes now s = fold (try_finish_recv_close now) (map sid (streamtab s)) s"

definition on_peer_reset :: "instant \<Rightarrow> nat \<Rightarrow> reset_reason \<Rightarrow> session \<Rightarrow> session" where
  "on_peer_reset now i why s = finish_stream now (Some why) False i (forget_reset i s)"

section \<open>The end of the session\<close>

definition mark_dead :: "instant \<Rightarrow> bool \<Rightarrow> session \<Rightarrow> session" where
  "mark_dead now send s =
     (if sess_dead s then s
      else (let s1 = s\<lparr>sess_dead := True, proc_dead := proc_dead s + 1, proc_live := proc_live s - 1,
                       closes := []\<rparr>;
                s2 = (if send then (case pick_pref now PickAny s1 of
                                      Some p \<Rightarrow> snd (send_on_path now p SessionClose s1)
                                    | None \<Rightarrow> s1)
                      else s1);
                s3 = fold (finish_stream now (Some SessionDead) send) (map sid (streamtab s2)) s2
            in s3\<lparr>resets := []\<rparr>))"

definition shutdown :: "instant \<Rightarrow> session \<Rightarrow> session" where
  "shutdown now s = mark_dead now True s"

end
