(* ===== verification/Session_Retry.thy ===== *)
theory Session_Retry
  imports Session_End
begin

text \<open>
  \<open>session/mod.rs\<close>: what is sent again. Opens, closes and resets are retried by the timer
  and moved off a path that fails; unacknowledged data is re-sent on another path when its own
  path is silent, gone or never took it. \<open>path_failed\<close> and \<open>start_path\<close> are the two ends of
  a path in the session.
\<close>

section \<open>Opens\<close>

definition open_frame :: "nat \<Rightarrow> target \<Rightarrow> frame" where
  "open_frame i t = StreamOpen \<lparr>so_stream_id = i, so_target = t\<rparr>"

definition open_tried :: "nat \<Rightarrow> nat \<Rightarrow> session \<Rightarrow> nat list" where
  "open_tried from_id i s = (case map_of (opens s) i of Some x \<Rightarrow> ou_tried x | None \<Rightarrow> [from_id])"

definition upd_open :: "nat \<Rightarrow> (open_unacked \<Rightarrow> open_unacked) \<Rightarrow> session \<Rightarrow> session" where
  "upd_open i f s = s\<lparr>opens := AList.map_entry i f (opens s)\<rparr>"

fun retry_open :: "instant \<Rightarrow> nat \<times> nat \<times> target \<Rightarrow> session \<Rightarrow> session" where
  "retry_open now (i, from_id, t) s =
     (case pick_retry_tried now (open_tried from_id i s) s of
        None \<Rightarrow> s
      | Some alt \<Rightarrow>
          (let (ok, s1) = send_on_path now alt (open_frame i t) s in
           if ok
           then note_retry from_id alt
                  (upd_open i (\<lambda>x. x\<lparr>ou_path := alt, ou_sent_at := now, ou_target := t,
                                     ou_tried := push_tried (ou_tried x) alt\<rparr>) s1)
           else upd_open i (\<lambda>x. x\<lparr>ou_sent_at := now, ou_tried := push_tried (ou_tried x) alt\<rparr>) s1))"

definition retry_opens :: "instant \<Rightarrow> session \<Rightarrow> session" where
  "retry_opens now s =
     fold (retry_open now)
       (map (\<lambda>(i, x). (i, ou_path x, ou_target x))
          (filter (\<lambda>(_, x). elapsed now (ou_sent_at x) \<ge> retry_after (ou_path x) s) (opens s))) s"

fun move_open :: "instant \<Rightarrow> nat \<Rightarrow> nat \<times> target \<Rightarrow> session \<Rightarrow> session" where
  "move_open now gone_id (i, t) s =
     (case pick_retry_tried now (open_tried gone_id i s) s of
        None \<Rightarrow> s
      | Some alt \<Rightarrow>
          (let (ok, s1) = send_on_path now alt (open_frame i t) s in
           if ok
           then note_retry gone_id alt
                  (upd_open i (\<lambda>x. x\<lparr>ou_path := alt, ou_sent_at := now,
                                     ou_tried := push_tried (ou_tried x) alt\<rparr>) s1)
           else s1))"

definition retry_open_from :: "instant \<Rightarrow> nat \<Rightarrow> session \<Rightarrow> session" where
  "retry_open_from now gone_id s =
     fold (move_open now gone_id)
       (map (\<lambda>(i, x). (i, ou_target x)) (filter (\<lambda>(_, x). ou_path x = gone_id) (opens s))) s"

section \<open>Closes\<close>

definition upd_close :: "nat \<Rightarrow> (close_unacked \<Rightarrow> close_unacked) \<Rightarrow> session \<Rightarrow> session" where
  "upd_close i f s = s\<lparr>closes := AList.map_entry i f (closes s)\<rparr>"

text \<open>The close needs no retry: the stream is gone, or the peer's close proves it arrived.\<close>

definition close_settled :: "nat \<Rightarrow> bool \<Rightarrow> session \<Rightarrow> bool" where
  "close_settled i second s =
     (case get_stream i s of None \<Rightarrow> True | Some x \<Rightarrow> \<not> second \<and> recv_fin x)"

definition send_close_again ::
  "instant \<Rightarrow> nat \<Rightarrow> nat list \<Rightarrow> nat option \<Rightarrow> (session \<Rightarrow> session) \<Rightarrow> session \<Rightarrow> session" where
  "send_close_again now i tried final on_fail s =
     (case pick_retry_untried now tried s of
        None \<Rightarrow> s
      | Some alt \<Rightarrow>
          (let (ok, s1) = send_on_path now alt (close_frame i final) s in
           if ok
           then bump M_close_retry
                  (upd_close i (\<lambda>x. x\<lparr>cu_path := alt, cu_sent_at := now,
                                      cu_tried := push_tried (cu_tried x) alt\<rparr>) s1)
           else on_fail s1))"

fun retry_close :: "instant \<Rightarrow> nat \<times> close_unacked \<Rightarrow> session \<Rightarrow> session" where
  "retry_close now (i, c) s =
     (if close_settled i (cu_second c) s then forget_close i s
      else if elapsed now (cu_sent_at c) < retry_after (cu_path c) s then s
      else send_close_again now i (cu_tried c) (cu_final c)
             (upd_close i (\<lambda>x. x\<lparr>cu_sent_at := now\<rparr>)) s)"

definition retry_closes :: "instant \<Rightarrow> session \<Rightarrow> session" where
  "retry_closes now s = (let s1 = reap_closes now s in fold (retry_close now) (closes s1) s1)"

fun move_close :: "instant \<Rightarrow> nat \<times> close_unacked \<Rightarrow> session \<Rightarrow> session" where
  "move_close now (i, c) s =
     (if close_settled i (cu_second c) s then forget_close i s
      else send_close_again now i (cu_tried c) (cu_final c) (\<lambda>s. s) s)"

definition retry_close_from :: "instant \<Rightarrow> nat \<Rightarrow> session \<Rightarrow> session" where
  "retry_close_from now gone_id s =
     fold (move_close now) (filter (\<lambda>(_, c). cu_path c = gone_id) (closes s)) s"

section \<open>Resets\<close>

definition upd_reset :: "nat \<Rightarrow> (reset_unacked \<Rightarrow> reset_unacked) \<Rightarrow> session \<Rightarrow> session" where
  "upd_reset i f s = s\<lparr>resets := AList.map_entry i f (resets s)\<rparr>"

definition send_reset_again ::
  "instant \<Rightarrow> nat \<Rightarrow> nat list \<Rightarrow> reset_reason \<Rightarrow> (session \<Rightarrow> session) \<Rightarrow> session \<Rightarrow> session" where
  "send_reset_again now i tried why on_fail s =
     (case pick_retry_untried now tried s of
        None \<Rightarrow> s
      | Some alt \<Rightarrow>
          (let (ok, s1) = send_on_path now alt (reset_frame i why) s in
           if ok
           then bump M_reset_retry
                  (upd_reset i (\<lambda>x. x\<lparr>ru_path := alt, ru_sent_at := now,
                                      ru_tried := push_tried (ru_tried x) alt\<rparr>) s1)
           else on_fail s1))"

fun retry_reset :: "instant \<Rightarrow> nat \<times> reset_unacked \<Rightarrow> session \<Rightarrow> session" where
  "retry_reset now (i, r) s =
     (if elapsed now (ru_sent_at r) < retry_after (ru_path r) s then s
      else send_reset_again now i (ru_tried r) (ru_reason r)
             (upd_reset i (\<lambda>x. x\<lparr>ru_sent_at := now\<rparr>)) s)"

definition retry_resets :: "instant \<Rightarrow> session \<Rightarrow> session" where
  "retry_resets now s = (let s1 = reap_resets now s in fold (retry_reset now) (resets s1) s1)"

definition retry_reset_from :: "instant \<Rightarrow> nat \<Rightarrow> session \<Rightarrow> session" where
  "retry_reset_from now gone_id s =
     fold (\<lambda>(i, r). send_reset_again now i (ru_tried r) (ru_reason r) (\<lambda>s. s))
       (filter (\<lambda>(_, r). ru_path r = gone_id \<or> ru_path r = 0) (resets s)) s"

section \<open>Data\<close>

datatype resend_why = WDropped | WGone | WDown | WAge | WSilence | WBelt

fun why_metric :: "resend_why \<Rightarrow> metric" where
  "why_metric WDropped = M_resend_dropped" | "why_metric WGone = M_resend_gone"
| "why_metric WDown = M_resend_down" | "why_metric WAge = M_resend_age"
| "why_metric WSilence = M_resend_silence" | "why_metric WBelt = M_resend_belt"

record due =
  du_off :: nat
  du_from :: nat
  du_data :: "byte list"
  du_tried :: "nat list"
  du_dropped :: bool
  du_bulk :: bool
  du_why :: resend_why

definition ack_stalled_ms :: "instant \<Rightarrow> stream_state \<Rightarrow> nat" where
  "ack_stalled_ms now x =
     (let t = max (last_ack_ms x) (last_sack_ms x)
      in if t = 0 then u64_max else mono_ms now - t)"

definition due_why :: "instant \<Rightarrow> stream_state \<Rightarrow> session \<Rightarrow> unacked \<Rightarrow> resend_why option" where
  "due_why now x s u =
    (let age = elapsed now (ua_last_sent u); big = (bulk x \<or> ua_len u > interactive_max (stuning s)) in
     if now < ua_not_before u then None
     else if ua_dropped u then Some WDropped
     else case get_path (ua_path u) s of
       None \<Rightarrow> Some WGone
     | Some p \<Rightarrow>
         if \<not> is_alive p then Some WDown
         else if \<not> big then (if age \<ge> retry_after (ua_path u) s then Some WAge else None)
         else (let quiet = retry_after_bulk p s; belt = hedge_belt p (length (ua_tried u)) s in
               if last_rx_ago now p \<ge> quiet \<and> age \<ge> quiet then Some WSilence
               else if age \<ge> belt \<and> ack_stalled_ms now x \<ge> as_millis belt then Some WBelt
               else None))"

definition due_pieces :: "instant \<Rightarrow> stream_state \<Rightarrow> session \<Rightarrow> due list" where
  "due_pieces now x s =
     List.map_filter (\<lambda>(off, u). map_option (\<lambda>w.
         \<lparr>du_off = off, du_from = ua_path u, du_data = ua_data u, du_tried = ua_tried u,
          du_dropped = ua_dropped u, du_bulk = (bulk x \<or> ua_len u > interactive_max (stuning s)),
          du_why = w\<rparr>) (due_why now x s u)) (unacked_q x)"

definition note_resent ::
  "nat \<Rightarrow> nat \<Rightarrow> nat \<Rightarrow> resend_why \<Rightarrow> bool \<Rightarrow> session \<Rightarrow> session" where
  "note_resent i from_id to_id why was_dropped s =
     (let s1 = (if was_dropped then bump M_data_dropped_resend s else s);
          s2 = upd_stream i (\<lambda>y. note_path_used to_id (y\<lparr>hedges := hedges y + 1\<rparr>)) s1
      in bump (why_metric why) (note_retry from_id to_id s2))"

definition fresh_dest :: "instant \<Rightarrow> nat \<Rightarrow> session \<Rightarrow> bool" where
  "fresh_dest now i s =
     (case get_path i s of
        None \<Rightarrow> False | Some p \<Rightarrow> is_quiet_fresh now (scfg s) p \<and> is_schedulable p)"

definition stalled_dest :: "nat \<Rightarrow> session \<Rightarrow> bool" where
  "stalled_dest i s = (case get_path i s of None \<Rightarrow> False | Some p \<Rightarrow> write_stalled p)"

definition resend_interactive :: "instant \<Rightarrow> nat \<Rightarrow> due \<Rightarrow> session \<Rightarrow> session" where
  "resend_interactive now i d s =
     (case pick_retry_tried now (push_tried (du_tried d) (du_from d)) s of
        None \<Rightarrow> bump M_skip_no_alt s
      | Some alt \<Rightarrow>
          if stalled_dest alt s then bump M_skip_write_stalled s
          else (let (ok, s1) = send_data_frame now i (du_off d) (du_data d) alt s in
            if ok then note_resent i (du_from d) alt (du_why d) (du_dropped d)
                         (rehome_unacked now i (du_off d) alt s1)
            else upd_piece i (du_off d)
                   (\<lambda>u. u\<lparr>ua_tried := push_tried (ua_tried u) alt, ua_dropped := True,
                          ua_not_before := now + retry_after (du_from d) s1\<rparr>) s1))"

text \<open>A piece no wire has: back onto its own path when that is fresh and its queue has room.\<close>

definition resend_on_source :: "instant \<Rightarrow> nat \<Rightarrow> due \<Rightarrow> session \<Rightarrow> bool \<times> session" where
  "resend_on_source now i d s =
     (if fresh_dest now (du_from d) s
         \<and> (case get_path (du_from d) s of
              Some p \<Rightarrow> bulk_queued p < chan (stuning s) | None \<Rightarrow> False)
      then send_data_frame now i (du_off d) (du_data d) (du_from d) s else (False, s))"

definition bulk_alt :: "instant \<Rightarrow> nat \<Rightarrow> due \<Rightarrow> session \<Rightarrow> nat option" where
  "bulk_alt now i d s =
     (if du_dropped d
      then pick_min_rx now (scfg s)
             (filter (\<lambda>p. is_alive p \<and> is_schedulable p \<and> pid p \<noteq> du_from d) (pathtab s))
      else pick_retry_tried now (push_tried (du_tried d) (du_from d)) s)"

definition belt_wait :: "due \<Rightarrow> unacked \<Rightarrow> session \<Rightarrow> duration" where
  "belt_wait d u s =
     (let base = (case get_path (du_from d) s of Some p \<Rightarrow> retry_after_bulk p s | None \<Rightarrow> 0)
      in min (base * 2 ^ (clamp_nat (length (ua_tried u)) 1 5 - 1)) (down_timeout_ceil (stuning s)))"

definition resend_bulk_to :: "instant \<Rightarrow> nat \<Rightarrow> due \<Rightarrow> nat \<Rightarrow> session \<Rightarrow> session" where
  "resend_bulk_to now i d alt s =
     (let (ok, s1) = send_data_frame now i (du_off d) (du_data d) alt s in
      if ok then
        (let s2 = rehome_unacked now i (du_off d) alt s1;
             s3 = upd_piece i (du_off d)
                    (\<lambda>u. u\<lparr>ua_not_before := ua_last_sent u +
                       (if du_why d = WBelt then belt_wait d u s2 else retry_after_bulk_id alt s2)\<rparr>) s2
         in note_resent i (du_from d) alt (du_why d) (du_dropped d) s3)
      else upd_piece i (du_off d)
             (\<lambda>u. u\<lparr>ua_dropped := True, ua_not_before := now + retry_after alt s1\<rparr>)
             (bump M_skip_queue_full s1))"

definition resend_bulk :: "instant \<Rightarrow> nat \<Rightarrow> due \<Rightarrow> session \<Rightarrow> session" where
  "resend_bulk now i d s =
     (let (home, s0) = (if du_dropped d then resend_on_source now i d s else (False, s)) in
      if home then
        (let s1 = rehome_unacked now i (du_off d) (du_from d) s0;
             s2 = upd_piece i (du_off d)
                    (\<lambda>u. u\<lparr>ua_not_before := ua_last_sent u + retry_after_bulk_id (du_from d) s1\<rparr>) s1
         in note_resent i (du_from d) (du_from d) (du_why d) (du_dropped d) s2)
      else case bulk_alt now i d s0 of
        None \<Rightarrow> bump M_skip_no_alt s0
      | Some alt \<Rightarrow>
          if \<not> fresh_dest now alt s0
          then defer_piece i (du_off d) (now + retry_after (du_from d) s0) (bump M_skip_no_fresh_alt s0)
          else resend_bulk_to now i d alt s0)"

definition resend_due :: "instant \<Rightarrow> nat \<Rightarrow> bool \<Rightarrow> nat list \<Rightarrow> due \<Rightarrow> session \<Rightarrow> session" where
  "resend_due now i stalled_long alive d s =
     (if stalled_long \<and> list_all (\<lambda>k. k \<in> set (du_tried d)) alive then bump M_skip_all_tried s
      else if \<not> du_dropped d
              \<and> (case get_path (du_from d) s of
                   Some p \<Rightarrow> is_alive p \<and> write_stalled p | None \<Rightarrow> False)
      then bump M_skip_write_stalled s
      else if \<not> du_bulk d then resend_interactive now i d s
      else resend_bulk now i d s)"

definition retry_expired_unacked :: "instant \<Rightarrow> nat \<Rightarrow> session \<Rightarrow> session" where
  "retry_expired_unacked now i s =
     (case get_stream i s of
        None \<Rightarrow> s
      | Some x \<Rightarrow>
          if \<not> is_steerable x then s
          else (let stalled_long = (stalled x \<and> stall_from_ms x \<noteq> 0
                      \<and> mono_ms now - stall_from_ms x \<ge> as_millis (close_linger (stuning s)));
                    alive = map pid (filter is_alive (pathtab s))
                in fold (resend_due now i stalled_long alive) (due_pieces now x s) s))"

section \<open>Paths come and go\<close>

definition merge_pending_acks :: "instant \<Rightarrow> nat \<Rightarrow> (nat \<times> stream_ack) list \<Rightarrow> session \<Rightarrow> session" where
  "merge_pending_acks now gone_id taken s =
     (if taken = [] then s
      else case pick_retry now gone_id s of
        None \<Rightarrow> s
      | Some alt \<Rightarrow> upd_path alt (restore_acks (map snd taken)) s)"

fun newer_ack :: "nat \<times> stream_ack \<Rightarrow> (nat \<times> stream_ack) list \<Rightarrow> (nat \<times> stream_ack) list" where
  "newer_ack (i, a) taken =
     (case map_of taken i of
        Some e \<Rightarrow> if sa_acked_offset e \<ge> sa_acked_offset a then taken else AList.update i a taken
      | None \<Rightarrow> AList.update i a taken)"

definition path_acks :: "nat \<Rightarrow> session \<Rightarrow> (nat \<times> stream_ack) list" where
  "path_acks i s = (case get_path i s of Some p \<Rightarrow> pending_acks p | None \<Rightarrow> [])"

definition leave_pool :: "instant \<Rightarrow> nat \<Rightarrow> session \<Rightarrow> session" where
  "leave_pool now i s =
     (let taken = path_acks i s;
          s1 = upd_path i (snd \<circ> take_all_acks) s;
          s2 = retry_reset_from now i (retry_close_from now i (retry_open_from now i
                 (rehome_unacked_from now i s1)));
          late = path_acks i s2;
          s3 = s2\<lparr>pathtab := tbl_del pid i (pathtab s2)\<rparr>
      in merge_pending_acks now i (fold newer_ack late taken) s3)"

definition path_failed :: "instant \<Rightarrow> nat \<Rightarrow> session \<Rightarrow> session" where
  "path_failed now i s =
     (case get_path i s of
        None \<Rightarrow> s
      | Some p \<Rightarrow>
          (let s1 = (if rtt_known p
                     then s\<lparr>last_rtt_us := AList.update (pname p) (rtt_us p) (last_rtt_us s)\<rparr> else s)
           in if pstate p = DOWN then s1
              else (let s2 = upd_path i (\<lambda>p. p\<lparr>pstate := DOWN\<rparr>) s1;
                        s3 = observe_failover now i (bump M_path_down
                               (s2\<lparr>last_lived := AList.update (pname p) (up_age now p) (last_lived s2)\<rparr>));
                        s4 = leave_pool now i s3
                    in if has_alive_path s4 then s4 else s4\<lparr>all_down_since := Some now\<rparr>)))"

definition fresh_path :: "instant \<Rightarrow> nat \<Rightarrow> string \<Rightarrow> tuning \<Rightarrow> path_state" where
  "fresh_path now i name t =
     (let p = path_new i name (chan t) now
      in p\<lparr>bud := (bud p)\<lparr>budget_floor := inflight_bias t,
                          budget_ceil := sat_mul (chan t) MAX_STREAM_PAYLOAD\<rparr>,
           rtts := (rtts p)\<lparr>stable_up_hold_us := as_micros (stable_up_hold t)\<rparr>\<rparr>)"

definition start_path :: "instant \<Rightarrow> string \<Rightarrow> session \<Rightarrow> nat option \<times> session" where
  "start_path now name s =
     (if sess_dead s \<or> length (pathtab s) \<ge> max_paths (scfg s) then (None, s)
      else (let i = next_path_id s
            in (Some i, bump M_path_added
                 (s\<lparr>next_path_id := i + 1, pathtab := pathtab s @ [fresh_path now i name (stuning s)],
                    all_down_since := None\<rparr>))))"

end
