(* ===== verification/Session_Recv.thy ===== *)
theory Session_Recv
  imports Session_Retry
begin

text \<open>
  \<open>session/streams.rs\<close>, the receive side in the session: arriving data, the drain, the
  window controller on the loop the data rides, the ACKs and where they are parked, and what
  an arriving ACK does to the sender's custody.
\<close>

section \<open>The loop of a stream\<close>

definition loop_rtt :: "instant \<Rightarrow> nat \<Rightarrow> session \<Rightarrow> duration option" where
  "loop_rtt now i s =
     (if i = 0 then None
      else case get_path i s of
        None \<Rightarrow> None
      | Some p \<Rightarrow>
          if is_alive p \<and> rtt_known p
          then Some (case min_rtt now p of Some m \<Rightarrow> min (rtt p) (m * 2) | None \<Rightarrow> rtt p)
          else None)"

definition bdp_rtt :: "instant \<Rightarrow> stream_state \<Rightarrow> session \<Rightarrow> duration option" where
  "bdp_rtt now x s =
     or_else (loop_rtt now (last_recv_path x) s)
       (or_else (loop_rtt now (sticky x) s) (min_alive_fast_rtt s))"

definition deliver_min_dt :: "instant \<Rightarrow> stream_state \<Rightarrow> session \<Rightarrow> duration" where
  "deliver_min_dt now x s =
     (case bdp_rtt now x s of Some d \<Rightarrow> d | None \<Rightarrow> maintain_interval (stuning s))"

definition tune_recv_cap :: "instant \<Rightarrow> nat \<Rightarrow> session \<Rightarrow> session" where
  "tune_recv_cap now i s =
     (case get_stream i s of
        None \<Rightarrow> s
      | Some x \<Rightarrow>
          (let (x', extra) = tune_recv_core now (stuning s) (bdp_rtt now x s) (alive_path_count s)
                               (recv_cap_extra s) x
           in upd_stream i (\<lambda>_. x') (s\<lparr>recv_cap_extra := extra\<rparr>)))"

definition tune_recv_windows :: "instant \<Rightarrow> session \<Rightarrow> session" where
  "tune_recv_windows now s = fold (tune_recv_cap now) (map sid (streamtab s)) s"

section \<open>Sending ACKs\<close>

definition ack_of :: "stream_state \<Rightarrow> stream_ack" where
  "ack_of x = \<lparr>sa_stream_id = sid x, sa_acked_offset = recv_next x,
               sa_window = advertised_window x, sa_sack = sack_ranges x\<rparr>"

definition mark_ack_dirty :: "instant \<Rightarrow> nat \<Rightarrow> session \<Rightarrow> session" where
  "mark_ack_dirty now i s =
     upd_stream i (\<lambda>x. if ack_dirty x then x
                       else x\<lparr>ack_dirty := True, ack_flush_from_us := max (mono_us now) 1\<rparr>) s"

definition store_ack :: "instant \<Rightarrow> nat \<Rightarrow> nat \<Rightarrow> stream_ack \<Rightarrow> session \<Rightarrow> bool \<times> session" where
  "store_ack now i path a s =
     (case get_path path s of
        None \<Rightarrow> (False, s)
      | Some p \<Rightarrow>
          if \<not> is_alive p then (False, s)
          else (True, mark_ack_dirty now i
                 (upd_path path (\<lambda>p. p\<lparr>pending_acks := AList.update i a (pending_acks p)\<rparr>) s)))"

definition note_zero_window :: "nat \<Rightarrow> stream_state \<Rightarrow> session \<Rightarrow> session" where
  "note_zero_window i x s =
     (let (hole_bytes, app_backlog) = recv_evidence x in
      if hole_bytes \<ge> app_backlog
      then bump M_zero_window_hole (upd_stream i (\<lambda>y. y\<lparr>zero_win_hole := zero_win_hole y + 1\<rparr>) s)
      else bump M_zero_window_app (upd_stream i (\<lambda>y. y\<lparr>zero_win_app := zero_win_app y + 1\<rparr>) s))"

definition send_ack :: "instant \<Rightarrow> nat \<Rightarrow> nat \<Rightarrow> session \<Rightarrow> session" where
  "send_ack now i path s =
     (case get_stream i s of
        None \<Rightarrow> s
      | Some x \<Rightarrow>
          (let a = ack_of x;
               s1 = (if sa_window a = 0 then note_zero_window i x s else s);
               (ok1, s2) = store_ack now i path a s1
           in if ok1 then s2
              else (let (ok2, s3) = (if sticky x \<noteq> 0 \<and> sticky x \<noteq> path
                                     then store_ack now i (sticky x) a s2 else (False, s2))
                in if ok2 then s3
                   else (let (ok3, s4) = (case pick_pref now PickInteractive s3 of
                              Some k \<Rightarrow> if k \<noteq> path \<and> k \<noteq> sticky x then store_ack now i k a s3
                                        else (False, s3)
                            | None \<Rightarrow> (False, s3))
                     in if ok3 then s4 else mark_ack_dirty now i s4))))"

section \<open>Arriving data\<close>

definition drain_recv :: "instant \<Rightarrow> nat \<Rightarrow> nat \<Rightarrow> session \<Rightarrow> session" where
  "drain_recv now i ack_path s =
     (case get_stream i s of
        None \<Rightarrow> s
      | Some x \<Rightarrow>
          (let (got, x1) = drain_core now x;
               s1 = upd_stream i (\<lambda>_. x1) s;
               s2 = (if got > 0
                     then tune_recv_cap now i
                            (upd_stream i (\<lambda>_. snd (note_deliver now got (deliver_min_dt now x1 s1) x1)) s1)
                     else s1)
           in try_finish_recv_close now i (send_ack now i ack_path s2)))"

definition deliver_data :: "instant \<Rightarrow> nat \<Rightarrow> stream_data \<Rightarrow> session \<Rightarrow> session" where
  "deliver_data now path d s =
     (let i = sd_stream_id d in
      case get_stream i s of
        None \<Rightarrow> s
      | Some x \<Rightarrow>
          (let (what, x1) = accept_piece path (sd_offset d) (sd_data d) x;
               s1 = bump_by (dup_rx_bytes x1 - dup_rx_bytes x) M_data_dup_rx_bytes
                      (upd_stream i (\<lambda>_. x1) s);
               s2 = (if peer_seen x then s1 else forget_open i s1)
           in case what of
                WasReset \<Rightarrow> s
              | AfterFin \<Rightarrow> send_ack now i path (bump M_ack_after_fin s1)
              | Fresh \<Rightarrow> drain_recv now i path s2
              | _ \<Rightarrow> send_ack now i path s2))"

definition on_data :: "instant \<Rightarrow> nat \<Rightarrow> stream_data \<Rightarrow> session \<Rightarrow> session" where
  "on_data now path d s =
     (if get_stream (sd_stream_id d) s = None then push_early_data now path d s
      else deliver_data now path d s)"

definition note_app_read :: "instant \<Rightarrow> nat \<Rightarrow> nat \<Rightarrow> session \<Rightarrow> session" where
  "note_app_read now i n s =
     (case get_stream i s of
        None \<Rightarrow> s
      | Some x \<Rightarrow> drain_recv now i (last_recv_path x)
                   (upd_stream i (\<lambda>y. y\<lparr>buffered_in := buffered_in y - n\<rparr>) s))"

text \<open>The pump takes the next message for the application of a stream it holds.\<close>

definition pump_recv :: "instant \<Rightarrow> nat \<Rightarrow> session \<Rightarrow> inbound option \<times> session" where
  "pump_recv now i s =
     (case get_held i s of
        None \<Rightarrow> (None, s)
      | Some x \<Rightarrow>
          (case inbound_q x of
             [] \<Rightarrow> (None, s)
           | m # q \<Rightarrow>
               (let s1 = upd_held i (\<lambda>y. y\<lparr>inbound_q := q\<rparr>) s in
                (Some m, case m of InData b \<Rightarrow> note_app_read now i (length b) s1 | _ \<Rightarrow> s1))))"

section \<open>Arriving ACKs\<close>

definition note_ack_clock :: "instant \<Rightarrow> tuning \<Rightarrow> unacked \<Rightarrow> duration \<Rightarrow> path_state \<Rightarrow> path_state" where
  "note_ack_clock now t u sample p =
    (let now_us = max (mono_us now) 1;
         dl = delivered (bud p) + ua_len u;
         p1 = p\<lparr>bud := (bud p)\<lparr>delivered := dl\<rparr>\<rparr>;
         p2 = (if length (ua_tried u) = 1 then
            (let dd = dl - ua_delivered u;
                 ack_us = (if ua_delivered_us u = 0 then as_micros sample
                           else now_us - ua_delivered_us u);
                 dt = max ack_us (ua_sent_us u - ua_first_tx_us u);
                 min_rtt_us = (case min_rtt now p1 of Some d \<Rightarrow> as_micros d | None \<Rightarrow> unknown_rtt_us t);
                 p3 = (if dd > 0 \<and> dt \<ge> min_rtt_us div 4 \<and> dt > 0
                       then note_bw_sample now (min (dd * 1000000 div dt) u64_max) now_us p1 else p1);
                 p4 = p3\<lparr>rtts := note_loop_rtt now sample (rtts p3)\<rparr>;
                 p5 = (if ua_len u > interactive_max t then record_ack_rtt now sample p4 else p4)
             in if ua_sent_us u > first_tx_us (bud p5)
                then p5\<lparr>bud := (bud p5)\<lparr>first_tx_us := ua_sent_us u\<rparr>\<rparr> else p5)
          else p1)
     in p2\<lparr>bud := (bud p2)\<lparr>delivered_at_us := now_us\<rparr>\<rparr>)"

text \<open>Small frames also sample the path's RTT, unless they waited behind bulk.\<close>

definition ack_rtt_sample :: "instant \<Rightarrow> session \<Rightarrow> nat \<Rightarrow> unacked \<Rightarrow> duration \<Rightarrow> path_state \<Rightarrow> path_state" where
  "ack_rtt_sample now s loaded u sample p =
     (if ua_len u \<le> interactive_max (stuning s)
         \<and> sample > ack_rtt_min (stuning s) \<and> sample < ack_rtt_max (stuning s)
         \<and> sample \<le> rtt_sample_cap p s
         \<and> (\<not> class_known p \<or> sample * 2 \<ge> class_rtt p)
         \<and> loaded < inflight_bias (stuning s)
      then p\<lparr>rtts := record_rtt now sample (rtts p)\<rparr> else p)"

definition release_piece :: "instant \<Rightarrow> unacked \<Rightarrow> session \<Rightarrow> session" where
  "release_piece now u s =
     (case get_path (ua_path u) s of
        None \<Rightarrow> s
      | Some p \<Rightarrow>
          (let sample = elapsed now (ua_last_sent u);
               p1 = note_ack_clock now (stuning s) u sample (sub_inflight (ua_len u) p);
               p2 = ack_rtt_sample now s (inflight p) u sample p1;
               s1 = upd_path (ua_path u) (\<lambda>_. p2) s
           in if ua_len u > interactive_max (stuning s)
              then observe H_ack_loop_ms (as_millis sample) s1 else s1))"

definition drop_piece :: "nat \<Rightarrow> nat \<Rightarrow> session \<Rightarrow> session" where
  "drop_piece i k s = upd_stream i (\<lambda>x. x\<lparr>unacked_q := bt_remove k (unacked_q x)\<rparr>) s"

fun ack_piece :: "instant \<Rightarrow> nat \<Rightarrow> nat \<times> unacked \<Rightarrow> session \<Rightarrow> session" where
  "ack_piece now i (k, u) s = release_piece now u (drop_piece i k s)"

fun acked_by :: "nat \<Rightarrow> nat \<times> unacked \<Rightarrow> bool" where
  "acked_by acked (k, u) \<longleftrightarrow> k + ua_len u \<le> acked"

fun sacked_by :: "(nat \<times> nat) list \<Rightarrow> nat \<times> unacked \<Rightarrow> bool" where
  "sacked_by rs (k, u) \<longleftrightarrow> list_ex (\<lambda>(a, b). a \<le> k \<and> k + ua_len u \<le> b) rs"

definition ack_cumulative :: "instant \<Rightarrow> stream_ack \<Rightarrow> session \<Rightarrow> session" where
  "ack_cumulative now a s =
     (let i = sa_stream_id a in
      case get_stream i s of
        None \<Rightarrow> s
      | Some x \<Rightarrow>
          if sa_acked_offset a > send_acked x
          then fold (ack_piece now i) (filter (acked_by (sa_acked_offset a)) (unacked_q x))
                 (upd_stream i (\<lambda>y. y\<lparr>send_acked := sa_acked_offset a,
                                      last_ack_ms := max (mono_ms now) 1\<rparr>) s)
          else s)"

definition ack_selective :: "instant \<Rightarrow> stream_ack \<Rightarrow> session \<Rightarrow> session" where
  "ack_selective now a s =
     (let i = sa_stream_id a in
      case get_stream i s of
        None \<Rightarrow> s
      | Some x \<Rightarrow>
          (let due = filter (sacked_by (sa_sack a)) (unacked_q x);
               s1 = fold (ack_piece now i) due s
           in if due = [] then s1
              else bump_by (length due) M_data_sacked
                     (upd_stream i (\<lambda>y. y\<lparr>last_sack_ms := max (mono_ms now) 1,
                                          sacked := sacked y + length due\<rparr>) s1)))"

definition on_ack :: "instant \<Rightarrow> stream_ack \<Rightarrow> session \<Rightarrow> session" where
  "on_ack now a s =
     (let i = sa_stream_id a in
      if get_stream i s = None then s
      else ack_selective now a (ack_cumulative now a
             (forget_open i (upd_stream i (\<lambda>y. y\<lparr>send_window := sa_window a\<rparr>) s))))"

end
