(* ===== verification/Session_Send.thy ===== *)
theory Session_Send
  imports Session_Recv
begin

text \<open>
  \<open>session/streams.rs\<close>, the send side: opening and accepting streams, and the pump's
  \<open>send_data\<close> as a machine that is resumed at its three waits (the peer's window, a path with
  room, space on a bulk queue). One resumption runs up to the next wait; what happens between
  two resumptions is the rest of the session.
\<close>

section \<open>Opening and accepting\<close>

datatype session_error = Dead | NoPath | UnknownStream | WasResetErr | ServerCannotOpen

definition alloc_stream :: "instant \<Rightarrow> nat \<Rightarrow> session \<Rightarrow> session" where
  "alloc_stream now i s =
     s\<lparr>streamtab := streamtab s @ [stream_new i (chan (stuning s)) (initial_window (stuning s)) now]\<rparr>"

text \<open>
  \<open>wait_ready\<close> ends with an alive path, or with an error when the session is dead or the wait
  has run out.
\<close>

definition open_stream :: "instant \<Rightarrow> target \<Rightarrow> session \<Rightarrow> (session_error + nat) \<times> session" where
  "open_stream now t s =
     (if \<not> is_client s then (Inl ServerCannotOpen, s)
      else if \<not> has_alive_path s then (Inl (if sess_dead s then Dead else NoPath), s)
      else (let i = next_stream_id s; u1 = s\<lparr>next_stream_id := i + 1\<rparr> in
        case pick_pref now PickInteractive u1 of
          None \<Rightarrow> (Inl NoPath, u1)
        | Some p \<Rightarrow>
            (let u2 = remember_open now i p t (note_unknown_pick p (bump M_streams_opened
                        (set_sticky now i p (alloc_stream now i u1))));
                 (ok, u3) = send_on_path now p (open_frame i t) u2
             in (Inr i,
                 if ok then note_pick p u3
                 else case pick_retry now p u3 of
                   None \<Rightarrow> u3
                 | Some alt \<Rightarrow>
                     (let (ok2, u4) = send_on_path now alt (open_frame i t) u3
                      in if ok2 then note_pick alt (remember_open now i alt t (set_sticky now i alt u4))
                         else u4)))))"

definition accept_remote_stream :: "instant \<Rightarrow> bool \<Rightarrow> nat \<Rightarrow> stream_open \<Rightarrow> session \<Rightarrow> session" where
  "accept_remote_stream now acceptor path op s =
     (let i = so_stream_id op in
      if get_stream i s \<noteq> None then s
      else (let u1 = bump M_streams_opened (set_sticky now i path (alloc_stream now i s));
                (es, u2) = take_early_data i u1;
                u3 = fold (\<lambda>e. deliver_data now (pe_path e) (pe_data e)) es u2
            in case incoming u3 of
                 None \<Rightarrow> u3
               | Some q \<Rightarrow>
                   if acceptor \<and> length q < chan (stuning u3)
                   then u3\<lparr>incoming := Some (q @ [(i, so_target op)])\<rparr>
                   else reset_stream now Protocol i u3))"

section \<open>Choosing a path for a piece\<close>

text \<open>The sticky of a bulk stream, or why it cannot be used: it is full.\<close>

definition bulk_home :: "instant \<Rightarrow> nat \<Rightarrow> session \<Rightarrow> nat option \<times> bool \<times> session" where
  "bulk_home now stk s =
     (case bulk_affinity now stk s of
        None \<Rightarrow> (None, False, s)
      | Some k \<Rightarrow>
          if (case get_path k s of Some p \<Rightarrow> room_bytes p \<ge> 1 | None \<Rightarrow> False)
          then (Some k, False, s)
          else (None, True, upd_path k note_budget_limited s))"

definition count_divert :: "nat \<Rightarrow> session \<Rightarrow> session" where
  "count_divert i s = bump M_budget_diverts (upd_held i (\<lambda>y. y\<lparr>budget_diverts := budget_diverts y + 1\<rparr>) s)"

definition bulk_elsewhere :: "instant \<Rightarrow> nat \<Rightarrow> bool \<Rightarrow> session \<Rightarrow> (nat option \<times> bool) \<times> session" where
  "bulk_elsewhere now stk sticky_full s =
     (if sticky_full then
        (case pick_bulk_home now (Some stk) s of
           (None, u1) \<Rightarrow> ((None, False), u1)
         | (Some b, u1) \<Rightarrow>
             (let (fit, u2) = loop_fit_id now b u1
              in if fit = Some True then ((Some b, True), u2) else ((None, False), u2)))
      else if any_bulk_room (pathtab s) then
        (let (b, u1) = pick_bulk_home now None s
         in ((or_else b (pick_pref now PickAny u1), False), u1))
      else ((None, False), s))"

text \<open>The path for a bulk piece and whether the piece rides a sibling without moving the sticky.\<close>

definition pick_bulk_path :: "instant \<Rightarrow> nat \<Rightarrow> nat \<Rightarrow> session \<Rightarrow> (nat option \<times> bool) \<times> session" where
  "pick_bulk_path now i stk s =
     (case bulk_home now stk s of
        (Some k, _, u1) \<Rightarrow> ((Some k, False), u1)
      | (None, sticky_full, u1) \<Rightarrow>
          (case bulk_overflow now stk u1 of
             (Some k, u2) \<Rightarrow> ((Some k, True), if sticky_full then count_divert i u2 else u2)
           | (None, u2) \<Rightarrow> bulk_elsewhere now stk sticky_full u2))"

definition pick_send_path :: "instant \<Rightarrow> bool \<Rightarrow> nat \<Rightarrow> nat \<Rightarrow> session \<Rightarrow> (nat option \<times> bool) \<times> session" where
  "pick_send_path now is_bulk i stk s =
     (if is_bulk then pick_bulk_path now i stk s
      else ((or_else (interactive_affinity now stk s) (pick_pref now PickInteractive s), False), s))"

definition hol_place_bulk :: "instant \<Rightarrow> nat \<Rightarrow> session \<Rightarrow> nat option \<times> session" where
  "hol_place_bulk now cur s =
     (if \<not> conn_has_interactive now cur s then (None, s)
      else case get_path cur s of
        None \<Rightarrow> (None, s)
      | Some c \<Rightarrow>
          (case find (\<lambda>p. pid p \<noteq> pid c \<and> link p = link c \<and> hol_bulk_dest_ok now (scfg s) p
                        \<and> \<not> conn_has_interactive now (pid p) s) (pathtab s) of
             Some sib \<Rightarrow> (Some (pid sib), s)
           | None \<Rightarrow>
               (let (r, ps) = hol_place_bulk_fallback now (scfg s) c (pool_ref s)
                                (\<lambda>k. conn_has_interactive now k s) (pathtab s)
                in (r, s\<lparr>pathtab := ps\<rparr>))))"

text \<open>The first bulk piece of a stream: away from interactive streams, then onto a fit path.\<close>

definition place_unfit :: "instant \<Rightarrow> nat \<Rightarrow> bool \<Rightarrow> session \<Rightarrow> (nat \<times> bool) \<times> session" where
  "place_unfit now path overflow s =
     (let (fit, u1) = loop_fit_id now path s in
      if fit = Some False then
        (case pick_bulk_home now (Some path) u1 of
           (None, u2) \<Rightarrow> ((path, overflow), u2)
         | (Some f, u2) \<Rightarrow>
             (let (fit2, u3) = loop_fit_id now f u2
              in if fit2 = Some True then ((f, False), note_migrate M_migrates_loop_unfit u3)
                 else ((path, overflow), u3)))
      else ((path, overflow), u1))"

definition place_first_bulk :: "instant \<Rightarrow> nat \<Rightarrow> bool \<Rightarrow> session \<Rightarrow> (nat \<times> bool) \<times> session" where
  "place_first_bulk now path overflow s =
     (case hol_place_bulk now path s of
        (Some k, u1) \<Rightarrow> place_unfit now k False (bump M_hol_rebalances u1)
      | (None, u1) \<Rightarrow> place_unfit now path overflow u1)"

section \<open>Sending a piece\<close>

datatype send_phase =
    AtWindow bool
  | AtPick nat "byte list" bool instant
  | AtBulk nat nat "byte list" instant

datatype send_out = Wait send_phase | Done | Failed_send session_error

definition new_piece :: "instant \<Rightarrow> nat \<Rightarrow> byte list \<Rightarrow> unacked" where
  "new_piece now path d = \<lparr>ua_data = d, ua_path = path, ua_last_sent = now, ua_first_sent = now,
     ua_tried = [path], ua_not_before = now, ua_dropped = False, ua_delivered = 0,
     ua_delivered_us = 0, ua_sent_us = 0, ua_first_tx_us = 0\<rparr>"

text \<open>The piece enters the custody of a path: it is unacknowledged and charged to the path.\<close>

definition charge_piece :: "instant \<Rightarrow> nat \<Rightarrow> nat \<Rightarrow> byte list \<Rightarrow> nat \<Rightarrow> session \<Rightarrow> session" where
  "charge_piece now i off d path s =
     stamp_delivered now i off path
       (upd_path path (add_inflight (length d))
         (upd_held i (\<lambda>x. note_path_used path
            (x\<lparr>unacked_q := bt_insert off (new_piece now path d) (unacked_q x)\<rparr>)) s))"

definition migrate_send_blocked ::
  "instant \<Rightarrow> nat \<Rightarrow> nat \<Rightarrow> nat \<Rightarrow> byte list \<Rightarrow> session \<Rightarrow> session" where
  "migrate_send_blocked now i path off d s =
     (case pick_retry now path s of
        None \<Rightarrow> note_data_dropped now i off s
      | Some alt \<Rightarrow>
          (let (ok, u1) = send_data_frame now i off d alt s in
           if \<not> ok then note_data_dropped now i off u1
           else note_migrate M_migrates_send_blocked
                  (stamp_delivered now i off alt
                    (xfer_inflight path alt (length d)
                      (upd_held_piece i off (moved_piece now alt) (set_sticky now i alt u1))))))"

definition bulk_deadline :: "instant \<Rightarrow> path_state \<Rightarrow> session \<Rightarrow> instant" where
  "bulk_deadline now p s =
     now + down_timeout (scfg s) (stable_rtt p) (probe_interval_for p s)"

definition mark_enqueued :: "instant \<Rightarrow> nat \<Rightarrow> nat \<Rightarrow> nat \<Rightarrow> session \<Rightarrow> session" where
  "mark_enqueued now i path off s =
     stamp_delivered now i off path
       (upd_held_piece i off (\<lambda>u. u\<lparr>ua_last_sent := now, ua_not_before := now, ua_dropped := False\<rparr>) s)"

definition held_reset :: "nat \<Rightarrow> session \<Rightarrow> bool" where
  "held_reset i s = (case get_held i s of Some x \<Rightarrow> was_reset x | None \<Rightarrow> True)"

definition path_alive :: "nat \<Rightarrow> session \<Rightarrow> bool" where
  "path_alive i s = (case get_path i s of Some p \<Rightarrow> is_alive p | None \<Rightarrow> False)"

text \<open>The head of the wait for bulk queue space.\<close>

definition bulk_wait_head ::
  "instant \<Rightarrow> nat \<Rightarrow> nat \<Rightarrow> nat \<Rightarrow> byte list \<Rightarrow> instant \<Rightarrow> session \<Rightarrow> send_out \<times> session" where
  "bulk_wait_head now i path off d deadline s =
     (if sess_dead s \<or> held_reset i s then (Wait (AtWindow False), s)
      else if \<not> path_alive path s \<or> now \<ge> deadline then
        (let (ok, u1) = (if path_alive path s then send_data_frame now i off d path s else (False, s)) in
         (Wait (AtWindow False),
          if ok then mark_enqueued now i path off u1 else migrate_send_blocked now i path off d u1))
      else (Wait (AtBulk path off d deadline), s))"

definition bulk_wait ::
  "instant \<Rightarrow> bool \<Rightarrow> nat \<Rightarrow> nat \<Rightarrow> nat \<Rightarrow> byte list \<Rightarrow> instant \<Rightarrow> session \<Rightarrow> send_out \<times> session" where
  "bulk_wait now queue_woke i path off d deadline s =
     (if queue_woke \<and> (case get_path path s of
                            Some p \<Rightarrow> bulk_queued p < chan (stuning s) | None \<Rightarrow> True)
      then (let (ok, u1) = send_data_frame now i off d path s in
            if ok then (Wait (AtWindow False), mark_enqueued now i path off u1)
            else bulk_wait_head now i path off d deadline u1)
      else bulk_wait_head now i path off d deadline s)"

definition begin_bulk_wait ::
  "instant \<Rightarrow> nat \<Rightarrow> nat \<Rightarrow> nat \<Rightarrow> byte list \<Rightarrow> session \<Rightarrow> send_out \<times> session" where
  "begin_bulk_wait now i path off d s =
     (case get_path path s of
        None \<Rightarrow> (Wait (AtWindow False), migrate_send_blocked now i path off d s)
      | Some p \<Rightarrow>
          (let deadline = bulk_deadline now p s
           in bulk_wait_head now i path off d deadline
                (upd_held_piece i off (\<lambda>u. u\<lparr>ua_not_before := deadline\<rparr>) s)))"

definition place_piece ::
  "instant \<Rightarrow> nat \<Rightarrow> nat \<Rightarrow> byte list \<Rightarrow> nat \<Rightarrow> bool \<Rightarrow> session \<Rightarrow> send_out \<times> session" where
  "place_piece now i off d path0 overflow0 s =
     (let is_bulk = (case get_held i s of Some x \<Rightarrow> bulk x | None \<Rightarrow> False);
          big = (length d > interactive_max (stuning s));
          u1 = (if big then upd_held i (\<lambda>x. x\<lparr>bulk := True\<rparr>) s else s);
          ((path, overflow), u2) = (if big \<and> \<not> is_bulk then place_first_bulk now path0 overflow0 u1
                                    else ((path0, overflow0), u1));
          u3 = charge_piece now i off d path (if overflow then u2 else set_sticky now i path u2);
          (ok, u4) = send_data_frame now i off d path u3
      in if ok then (Wait (AtWindow False), u4)
         else if (is_bulk \<or> big) \<and> path_alive path u4 then begin_bulk_wait now i path off d u4
         else (Wait (AtWindow False), migrate_send_blocked now i path off d u4))"

text \<open>A pump that finds no path: it gives up, or counts the block once and waits.\<close>

definition count_budget_block :: "nat \<Rightarrow> session \<Rightarrow> session" where
  "count_budget_block i s =
     (let u1 = upd_held i (\<lambda>y. y\<lparr>budget_blocks := budget_blocks y + 1\<rparr>) (bump M_budget_blocks s)
      in u1\<lparr>pathtab := map (\<lambda>p. if is_alive p \<and> room_bytes p = 0 then note_budget_limited p else p)
                         (pathtab u1)\<rparr>)"

definition no_path_yet ::
  "instant \<Rightarrow> nat \<Rightarrow> bool \<Rightarrow> nat \<Rightarrow> byte list \<Rightarrow> bool \<Rightarrow> instant \<Rightarrow> session \<Rightarrow> send_out \<times> session" where
  "no_path_yet now i is_bulk off d waited parked_at s =
     (if sess_dead s \<or> held_reset i s then (Failed_send WasResetErr, s)
      else (let block = (is_bulk \<and> \<not> waited \<and> has_alive_path s);
                u1 = (if block then count_budget_block i s else s)
            in if elapsed now parked_at \<ge> all_down_timeout (scfg s) \<and> \<not> has_alive_path u1
               then (Failed_send NoPath, u1)
               else (Wait (AtPick off d (waited \<or> block) parked_at), u1)))"

definition pick_and_place ::
  "instant \<Rightarrow> nat \<Rightarrow> nat \<Rightarrow> byte list \<Rightarrow> bool \<Rightarrow> instant \<Rightarrow> session \<Rightarrow> send_out \<times> session" where
  "pick_and_place now i off d waited parked_at s =
     (case get_held i s of
        None \<Rightarrow> (Failed_send UnknownStream, s)
      | Some x \<Rightarrow>
          (case pick_send_path now (bulk x) i (sticky x) s of
             ((Some path, overflow), u1) \<Rightarrow> place_piece now i off d path overflow u1
           | ((None, _), u1) \<Rightarrow> no_path_yet now i (bulk x) off d waited parked_at u1))"

text \<open>The piece cut from the data, at least one byte, at most the window's room and a frame's.\<close>

definition cut_len :: "stream_state \<Rightarrow> byte list \<Rightarrow> nat" where
  "cut_len x rest = min (min (length rest) (max (send_window x - inflight_send x) 1)) MAX_STREAM_PAYLOAD"

definition count_window_block :: "nat \<Rightarrow> session \<Rightarrow> session" where
  "count_window_block i s =
     (let u1 = upd_held i (\<lambda>y. y\<lparr>window_blocks := window_blocks y + 1\<rparr>) (bump M_window_blocks s)
      in if any_bulk_room (pathtab u1)
         then upd_held i (\<lambda>y. y\<lparr>window_limited_with_room := window_limited_with_room y + 1\<rparr>)
                (bump M_window_limited_with_room u1)
         else u1)"

definition at_window ::
  "instant \<Rightarrow> bool \<Rightarrow> nat \<Rightarrow> bool \<Rightarrow> byte list \<Rightarrow> session \<Rightarrow> (send_out \<times> byte list) \<times> session" where
  "at_window now timed_out i waited rest s =
     (if rest = [] then ((Done, []), s)
      else case get_held i s of
        None \<Rightarrow> ((Failed_send UnknownStream, rest), s)
      | Some x \<Rightarrow>
          if \<not> window_ok x 1 then
            (if timed_out \<and> \<not> has_alive_path s then ((Failed_send NoPath, rest), s)
             else (let u1 = (if waited then s else count_window_block i s) in
               if sess_dead u1 \<or> was_reset x then ((Failed_send WasResetErr, rest), u1)
               else ((Wait (AtWindow True), rest), u1)))
          else (let n = cut_len x rest;
                    (out, u1) = pick_and_place now i (send_next x) (take n rest) False now
                                  (upd_held i (\<lambda>y. y\<lparr>send_next := send_next y + n\<rparr>) s)
                in ((out, drop n rest), u1)))"

text \<open>\<open>send_data\<close>: the entry, and one resumption.\<close>

definition send_data :: "instant \<Rightarrow> nat \<Rightarrow> session \<Rightarrow> send_out" where
  "send_data now i s =
     (case get_stream i s of
        None \<Rightarrow> Failed_send UnknownStream
      | Some x \<Rightarrow> if was_reset x then Failed_send WasResetErr else Wait (AtWindow False))"

definition send_resume ::
  "instant \<Rightarrow> bool \<Rightarrow> nat \<Rightarrow> send_phase \<Rightarrow> byte list \<Rightarrow> session \<Rightarrow> (send_out \<times> byte list) \<times> session" where
  "send_resume now flag i ph rest s =
     (case ph of
        AtWindow waited \<Rightarrow> at_window now (flag \<and> waited) i waited rest s
      | AtPick off d waited parked_at \<Rightarrow>
          (let (out, u1) = pick_and_place now i off d waited parked_at s in ((out, rest), u1))
      | AtBulk path off d deadline \<Rightarrow>
          (let (out, u1) = bulk_wait now flag i path off d deadline s in ((out, rest), u1)))"

end
