(* ===== verification/Session_Steer.thy ===== *)
theory Session_Steer
  imports Session_Send
begin

text \<open>
  \<open>session/steer.rs\<close>: the health tick (\<open>maintain\<close>) with its parts, and the dispatch of an
  arriving frame (\<open>handle_frame\<close>). A tick reads the clock at one instant. The episode
  log of \<open>track_quiet_set\<close> and the debug lines only print and are left out.
\<close>

section \<open>Silence\<close>

definition correlated_hold :: "nat \<Rightarrow> nat \<Rightarrow> nat \<Rightarrow> nat \<Rightarrow> nat \<Rightarrow> bool" where
  "correlated_hold alive quiet silent known_quiet quiet_links =
     (if alive < 3 \<or> known_quiet < 1 \<or> silent = 0 \<or> quiet \<ge> alive then False
      else quiet + 1 = alive \<or> (quiet \<ge> 3 \<and> quiet_links \<ge> 2))"

definition quiet_set_holds :: "nat \<Rightarrow> nat \<Rightarrow> bool" where
  "quiet_set_holds alive quiet \<longleftrightarrow> alive \<ge> 2 \<and> quiet \<ge> 1 \<and> quiet + 1 \<ge> alive"

definition unique_link_count :: "path_state list \<Rightarrow> nat" where
  "unique_link_count ps = length (remdups (map link ps))"

definition is_silent :: "instant \<Rightarrow> session \<Rightarrow> path_state \<Rightarrow> bool" where
  "is_silent now s p \<longleftrightarrow> last_rx_ago now p \<ge> down_for p s"

definition silence_correlated :: "instant \<Rightarrow> session \<Rightarrow> bool" where
  "silence_correlated now s =
     (let alive = filter is_alive (pathtab s);
          quiet = filter (\<lambda>p. last_rx_ago now p \<ge> degrade_for p s) alive;
          silent = filter (is_silent now s) alive
      in correlated_hold (length alive) (length quiet) (length silent)
           (length (filter rtt_known quiet)) (unique_link_count quiet))"

definition note_correlated :: "instant \<Rightarrow> bool \<Rightarrow> session \<Rightarrow> session" where
  "note_correlated now correlated s =
     (if \<not> correlated then s\<lparr>correlated_since := None\<rparr>
      else if correlated_since s = None
      then bump M_correlated_silence (s\<lparr>correlated_since := Some now\<rparr>) else s)"

definition hold_spent :: "instant \<Rightarrow> session \<Rightarrow> bool" where
  "hold_spent now s =
     (case correlated_since s of
        Some t \<Rightarrow> elapsed now t \<ge> all_down_timeout (scfg s) | None \<Rightarrow> False)"

section \<open>The health of the pool\<close>

text \<open>Expired pings: how many each path missed, in the order of the pool.\<close>

definition expire_path_pings :: "instant \<Rightarrow> session \<Rightarrow> path_state \<Rightarrow> nat \<times> path_state" where
  "expire_path_pings now s p =
     (if \<not> is_alive p then (0, p)
      else (let (miss, q) = expire_stale_pings now (loss_timeout_for p s) p
            in (miss, drop_ancient_pings now (ack_rtt_max (stuning s)) q)))"

definition tick_pings :: "instant \<Rightarrow> session \<Rightarrow> (nat \<times> nat) list \<times> session" where
  "tick_pings now s =
     (let rs = map (expire_path_pings now s) (pathtab s);
          misses = map (\<lambda>(m, p). (pid p, m)) rs
      in (misses, bump_by (sum_list (map snd misses)) M_probe_miss (s\<lparr>pathtab := map snd rs\<rparr>)))"

definition sample_fits :: "instant \<Rightarrow> session \<Rightarrow> session" where
  "sample_fits now s =
     (let r = list_min (List.map_filter (sojourn now)
                (filter (\<lambda>p. is_alive p \<and> is_schedulable p) (pathtab s)))
      in s\<lparr>pool_ref_us := (case r of Some d \<Rightarrow> as_micros d | None \<Rightarrow> 0),
           pathtab := map (\<lambda>p. if is_alive p then snd (loop_fit now (scfg s) r p) else p) (pathtab s)\<rparr>)"

definition tend_path ::
  "instant \<Rightarrow> bool \<Rightarrow> bool \<Rightarrow> (nat \<times> nat) list \<Rightarrow> nat \<Rightarrow> session \<Rightarrow> session" where
  "tend_path now correlated spent misses i s =
     (case get_path i s of
        None \<Rightarrow> s
      | Some p \<Rightarrow>
          if \<not> is_alive p then s
          else if is_silent now s p \<and> (\<not> rtt_known p \<or> \<not> correlated \<or> spent) then path_failed now i s
          else if is_up p
                  \<and> should_mark_degraded (last_rx_ago now p) (degrade_for p s)
                      (case map_of misses i of Some m \<Rightarrow> m | None \<Rightarrow> 0) (pending_ping_count p)
          then bump M_path_degraded (upd_path i mark_degraded s)
          else s)"

text \<open>Every stream is reset, in the order of the table.\<close>

definition reset_all :: "instant \<Rightarrow> session \<Rightarrow> session" where
  "reset_all now s =
     (if streamtab s = [] then s
      else fold (reset_stream now Timeout) (map sid (streamtab s)) (bump M_all_down_resets s))"

definition tend_pool :: "instant \<Rightarrow> session \<Rightarrow> session" where
  "tend_pool now s =
     (let (misses, s1) = tick_pings now s;
          a2 = sample_fits now s1;
          correlated = silence_correlated now a2;
          a3 = note_correlated now correlated a2;
          spent = hold_spent now a3;
          a4 = fold (tend_path now correlated spent misses) (map pid (pathtab a3)) a3
      in if spent \<and> \<not> has_alive_path a4 then reset_all now a4 else a4)"

text \<open>The client tears a path that stays a backup of its own link.\<close>

definition is_outlier :: "instant \<Rightarrow> session \<Rightarrow> path_state \<Rightarrow> bool" where
  "is_outlier now s p =
     (if \<not> is_up p \<or> \<not> class_known p \<or> \<not> class_known_aged now (stable_up_hold (stuning s)) p then False
      else (case list_min (map class_rtt
                    (filter (\<lambda>q. pid q \<noteq> pid p \<and> is_up q \<and> class_known q \<and> link q = link p) (pathtab s))) of
              None \<Rightarrow> False
            | Some sib \<Rightarrow> is_backup (scfg s) (class_rtt p) sib \<and> is_backup (scfg s) (rtt p) sib))"

definition recycle_path :: "instant \<Rightarrow> nat \<Rightarrow> session \<Rightarrow> session" where
  "recycle_path now i s =
     (case get_path i s of
        None \<Rightarrow> s | Some _ \<Rightarrow> path_failed now i (bump M_path_outlier_recycle s))"

definition maybe_recycle_outliers :: "instant \<Rightarrow> session \<Rightarrow> session" where
  "maybe_recycle_outliers now s =
     (let recycle = map pid (filter (\<lambda>p. is_outlier now s p
                       \<and> fst (mark_outlier now p) \<ge> stable_up_hold (stuning s)) (pathtab s));
          s1 = s\<lparr>pathtab := map (\<lambda>p. if is_outlier now s p then snd (mark_outlier now p)
                                      else clear_outlier p) (pathtab s)\<rparr>
      in fold (recycle_path now) recycle s1)"

section \<open>Closed streams\<close>

definition is_finished :: "stream_state \<Rightarrow> bool" where
  "is_finished x \<longleftrightarrow> counted_close x \<or> was_reset x"

definition has_lingered :: "instant \<Rightarrow> session \<Rightarrow> stream_state \<Rightarrow> bool" where
  "has_lingered now s x \<longleftrightarrow>
     \<not> is_finished x \<and> (send_fin_sent x \<or> recv_fin x) \<and> close_started_ms x \<noteq> 0
     \<and> mono_ms now - close_started_ms x \<ge> as_millis (close_linger (stuning s))"

definition reap_lingered :: "instant \<Rightarrow> nat \<Rightarrow> session \<Rightarrow> session" where
  "reap_lingered now i s =
     (case get_stream i s of
        None \<Rightarrow> s
      | Some x \<Rightarrow>
          if overlay_progress_fine x s \<and> recv_fin x then linger_reap_progress_fine now i s
          else if is_client s \<and> overlay_progress_fine x s \<and> \<not> recv_fin x then residual_d_client now i s
          else if \<not> is_client s \<and> overlay_progress_fine x s \<and> \<not> recv_fin x
          then linger_reap_progress_fine now i s
          else reset_stream now Timeout i s)"

definition reap_closed_streams :: "instant \<Rightarrow> session \<Rightarrow> session" where
  "reap_closed_streams now s =
     (let drop_ids = map sid (filter is_finished (streamtab s));
          timeout_ids = map sid (filter (has_lingered now s) (streamtab s))
      in fold (reap_lingered now) timeout_ids (fold remove_held_stream drop_ids s))"

section \<open>Moving streams\<close>

text \<open>
  A bulk stream whose loop has turned unfit moves to a fit sibling that has not taken another
  such stream since its last ACK sample.
\<close>

definition restick_rested :: "instant \<Rightarrow> path_state \<Rightarrow> bool" where
  "restick_rested now p =
     (restick_in_at_us p = 0
      \<or> (ack_rtt_at_us (bud p) > restick_in_at_us p
          \<and> mono_us now - restick_in_at_us p \<ge> bw_window_us p))"

definition restick_cand :: "instant \<Rightarrow> nat \<Rightarrow> session \<Rightarrow> path_state \<Rightarrow> bool \<times> path_state" where
  "restick_cand now cur s p =
     (if pid p \<noteq> cur \<and> is_schedulable p \<and> is_quiet_fresh now (scfg s) p
         \<and> room_bytes p \<ge> MAX_STREAM_PAYLOAD \<and> \<not> conn_has_interactive now (pid p) s
      then (let (fit, q) = loop_fit now (scfg s) (pool_ref s) p
            in (fit \<and> restick_rested now q, q))
      else (False, p))"

definition restick_to :: "instant \<Rightarrow> nat \<Rightarrow> nat \<Rightarrow> session \<Rightarrow> session" where
  "restick_to now i dest s =
     note_migrate M_migrates_loop_unfit
       (set_sticky now i dest
         (upd_path dest (\<lambda>p. p\<lparr>restick_in_at_us := max (mono_us now) 1\<rparr>) s))"

definition maybe_restick_unfit :: "instant \<Rightarrow> nat \<Rightarrow> nat \<Rightarrow> session \<Rightarrow> bool \<times> session" where
  "maybe_restick_unfit now i cur s =
     (let (fit, s1) = loop_fit_id now cur s in
      if fit \<noteq> Some False then (False, s1)
      else case get_stream i s1 of
        None \<Rightarrow> (False, s1)
      | Some x \<Rightarrow>
          if \<not> stick_changed_ago_ge now x (from_micros MIN_RTT_WIN_US) then (False, s1)
          else (let (cands, us) = filter_upd (restick_cand now cur s1)
                                    (fastest_class_set (scfg s1) (pathtab s1));
                    a2 = s1\<lparr>pathtab := put_paths us (pathtab s1)\<rparr>
                in case pick_from_scored (scfg s1) PickAny cands of
                     None \<Rightarrow> (False, a2)
                   | Some dest \<Rightarrow> (True, restick_to now i dest a2)))"

definition rebalance_dest :: "instant \<Rightarrow> path_state \<Rightarrow> session \<Rightarrow> nat option" where
  "rebalance_dest now cur s =
     map_option pid (find (should_rebalance_conn now (scfg s) cur) (pathtab s))"

definition hol_move :: "instant \<Rightarrow> nat \<Rightarrow> nat \<Rightarrow> nat option \<Rightarrow> session \<Rightarrow> session" where
  "hol_move now i cur dest s =
     (case dest of
        None \<Rightarrow> s
      | Some d \<Rightarrow> if d = cur then s else bump M_hol_rebalances (set_sticky now i d s))"

definition maybe_hol :: "instant \<Rightarrow> nat \<Rightarrow> session \<Rightarrow> session" where
  "maybe_hol now i s =
     (case get_stream i s of
        None \<Rightarrow> s
      | Some x \<Rightarrow>
          if \<not> is_steerable x then s
          else case get_path (sticky x) s of
            None \<Rightarrow> s
          | Some cur \<Rightarrow>
              if bulk x then
                (let (moved, s1) = maybe_restick_unfit now i (pid cur) s in
                 if moved then s1
                 else (let (dest, a2) = hol_place_bulk now (pid cur) s1
                       in hol_move now i (pid cur) dest a2))
              else hol_move now i (pid cur) (rebalance_dest now cur s) s)"

text \<open>\<open>maybe_failback\<close> is kept in the source and not called by the tick.\<close>

definition count_failback :: "bool \<Rightarrow> failback_reason \<Rightarrow> session \<Rightarrow> session" where
  "count_failback cross why s =
     (if cross
      then bump (case why of Upgrade \<Rightarrow> M_failbacks_upgrade | ClassEmpty \<Rightarrow> M_failbacks_class_empty)
             (bump M_failbacks s)
      else bump M_failbacks_same_link s)"

definition failback_holds :: "failback_reason \<Rightarrow> stream_state \<Rightarrow> path_state \<Rightarrow> session \<Rightarrow> bool" where
  "failback_holds why x cur s \<longleftrightarrow>
     why = Upgrade \<and> bulk x
     \<and> \<not> list_ex (\<lambda>p. pid p = pid cur) (fastest_class_set (scfg s) (pathtab s))"

definition maybe_failback :: "instant \<Rightarrow> nat \<Rightarrow> session \<Rightarrow> session" where
  "maybe_failback now i s =
     (case get_stream i s of
        None \<Rightarrow> s
      | Some x \<Rightarrow>
          if \<not> is_steerable x then s
          else case get_path (sticky x) s of
            None \<Rightarrow> s
          | Some cur \<Rightarrow>
              if \<not> stick_changed_ago_ge now x (failback_cooldown (scfg s) (max (rtt cur) (class_rtt cur)))
              then s
              else case failback_target now (scfg s) cur (pathtab s) of
                None \<Rightarrow> s
              | Some (best_id, why) \<Rightarrow>
                  if best_id = sticky x \<or> failback_holds why x cur s then s
                  else case get_path best_id s of
                    None \<Rightarrow> s
                  | Some best \<Rightarrow>
                      count_failback (link cur \<noteq> link best) why (set_sticky now i best_id s))"

section \<open>Stalls\<close>

definition stall_thresh_ms :: "stream_state \<Rightarrow> session \<Rightarrow> nat" where
  "stall_thresh_ms x s =
     as_millis (case list_min (map (\<lambda>p. loss_timeout (scfg s) (rtt p))
                       (List.map_filter (\<lambda>(_, u). get_path (ua_path u) s) (unacked_q x))) of
                  Some d \<Rightarrow> d | None \<Rightarrow> loss_timeout_floor (stuning s))"

definition overdue :: "instant \<Rightarrow> nat \<Rightarrow> nat \<Rightarrow> nat option" where
  "overdue now thresh origin = (if mono_ms now - origin \<ge> thresh then Some origin else None)"

definition send_stall :: "instant \<Rightarrow> nat \<Rightarrow> stream_state \<Rightarrow> nat option" where
  "send_stall now thresh x =
     (case list_min (map (ua_first_sent \<circ> snd) (unacked_q x)) of
        None \<Rightarrow> None
      | Some oldest \<Rightarrow>
          overdue now thresh
            (max (last_ack_ms x) (max (mono_ms now - as_millis (elapsed now oldest)) 1)))"

definition hole_opened_ms :: "instant \<Rightarrow> stream_state \<Rightarrow> nat" where
  "hole_opened_ms now x =
     (case hole x of
        Some (_, t) \<Rightarrow> max (mono_ms now - as_millis (elapsed now t)) 1
      | None \<Rightarrow> if recv_hole_since_ms x = 0 then max (mono_ms now) 1 else recv_hole_since_ms x)"

definition has_hole :: "stream_state \<Rightarrow> bool" where
  "has_hole x \<longleftrightarrow> recv_buf x \<noteq> [] \<and> recv_next x \<notin> fst ` set (recv_buf x)"

definition recv_stall :: "instant \<Rightarrow> nat \<Rightarrow> stream_state \<Rightarrow> nat option \<times> stream_state" where
  "recv_stall now thresh x =
     (if \<not> has_hole x then (None, x\<lparr>recv_hole_since_ms := 0\<rparr>)
      else (let opened = hole_opened_ms now x
            in (overdue now thresh (max (last_recv_ms x) opened),
                if hole x = None then x\<lparr>recv_hole_since_ms := opened\<rparr> else x)))"

definition stall_kind :: "bool \<Rightarrow> bool \<Rightarrow> stream_state \<Rightarrow> metric" where
  "stall_kind sending receiving x =
     (if sending \<and> receiving then M_stall_both
      else if sending
      then (if send_window x = 0 \<or> \<not> window_ok x 1 then M_stall_send_zero_window else M_stall_send)
      else M_stall_recv_hole)"

definition stall_origin :: "nat option \<Rightarrow> nat option \<Rightarrow> nat option" where
  "stall_origin a b = list_min (List.map_filter (\<lambda>x. x) [a, b])"

definition scan_stall :: "instant \<Rightarrow> nat \<Rightarrow> session \<Rightarrow> session" where
  "scan_stall now i s =
     (case get_stream i s of
        None \<Rightarrow> s
      | Some x \<Rightarrow>
          if \<not> is_steerable x then s
          else (let thresh = stall_thresh_ms x s;
                    a = send_stall now thresh x;
                    (b, x1) = recv_stall now thresh x;
                    s1 = upd_stream i (\<lambda>_. x1) s
                in case stall_origin a b of
                     Some from \<Rightarrow>
                       if stalled x then s1
                       else bump (stall_kind (a \<noteq> None) (b \<noteq> None) x1)
                              (upd_stream i (\<lambda>y. y\<lparr>stall_from_ms := from, stalled := True\<rparr>) s1)
                   | None \<Rightarrow>
                       if \<not> stalled x then s1
                       else upd_stream i clear_stall
                              (if stall_from_ms x \<noteq> 0
                               then observe H_stall_ms (mono_ms now - stall_from_ms x) s1 else s1)))"

section \<open>The tick\<close>

definition steer_order :: "session \<Rightarrow> nat list" where
  "steer_order s =
     (let xs = filter is_steerable (streamtab s)
      in map sid (filter bulk xs @ filter (\<lambda>x. \<not> bulk x) xs))"

definition tend_streams :: "instant \<Rightarrow> session \<Rightarrow> session" where
  "tend_streams now s =
     (let ids = steer_order s;
          s1 = fold (maybe_hol now) ids s;
          a2 = fold (scan_stall now) ids s1;
          a3 = gauge M_streams_stalled
                 (length (filter (\<lambda>i. case get_stream i a2 of Some x \<Rightarrow> stalled x | None \<Rightarrow> False) ids)) a2
      in fold (retry_expired_unacked now) ids a3)"

definition retry_tables :: "instant \<Rightarrow> session \<Rightarrow> session" where
  "retry_tables now s =
     expire_recv_closes now (expire_early_data now
       (retry_resets now (retry_closes now (retry_opens now s))))"

definition tend_all_down :: "instant \<Rightarrow> session \<Rightarrow> session" where
  "tend_all_down now s =
     (if has_alive_path s then s\<lparr>all_down_since := None\<rparr>
      else (let since = get_or_insert now (all_down_since s);
                s1 = s\<lparr>all_down_since := Some since\<rparr>
            in if elapsed now since < all_down_timeout (scfg s1) then s1
               else if reap_on_all_down s1 then shutdown now (bump M_all_down_resets s1)
               else reset_all now s1))"

definition maintain :: "instant \<Rightarrow> session \<Rightarrow> session" where
  "maintain now s =
     (if sess_dead s then s
      else (let s1 = tend_pool now s;
                a2 = (if is_client s1 then maybe_recycle_outliers now s1 else s1);
                a3 = tune_recv_windows now (reap_closed_streams now a2);
                a4 = tend_streams now (gauge M_recv_cap_extra_bytes (recv_cap_extra a3) a3)
            in tend_all_down now (retry_tables now a4)))"

section \<open>Frames\<close>

definition on_pong_frame :: "instant \<Rightarrow> nat \<Rightarrow> nat \<Rightarrow> session \<Rightarrow> session" where
  "on_pong_frame now i pseq s =
     (case get_path i s of
        None \<Rightarrow> s
      | Some p \<Rightarrow>
          upd_path i (on_pong_record now pseq (inflight p < inflight_bias (stuning s))
                        (Some (rtt_sample_cap p s)) (\<not> rtt_known p)) s)"

text \<open>\<open>acceptor\<close>: the application still takes incoming streams.\<close>

definition handle_frame :: "instant \<Rightarrow> bool \<Rightarrow> nat \<Rightarrow> frame \<Rightarrow> session \<Rightarrow> session" where
  "handle_frame now acceptor i f s =
     (case f of
        Ping p \<Rightarrow> snd (send_on_path now i (Pong p) s)
      | Pong p \<Rightarrow> on_pong_frame now i (ping_seq p) s
      | StreamOpen op \<Rightarrow> if is_client s then s else accept_remote_stream now acceptor i op s
      | StreamData d \<Rightarrow> on_data now i d s
      | StreamAck a \<Rightarrow> on_ack now a s
      | StreamClose c \<Rightarrow> on_peer_close now c s
      | StreamReset r \<Rightarrow> on_peer_reset now (sr_stream_id r) (sr_reason r) s
      | SessionClose \<Rightarrow> mark_dead now False s
      | _ \<Rightarrow> s)"

end
