(* ===== verification/Session_View.thy ===== *)
theory Session_View
  imports Session_Steer Scheduler_Facts
begin

text \<open>
  What the session's accounting is about, and nothing else: of a path its id, its inflight
  bytes and its count of sticky streams; of a stream its id, its sticky path, its unacknowledged
  pieces (offset, path, length) and its receive window; and the id counters. \<open>keeps I s\<close> says that \<open>I\<close> holds of this
  view and that ids are distinct. An operation that leaves the view alone preserves \<open>keeps I\<close>
  for every \<open>I\<close>; the facts of this theory say which ones do.
\<close>

section \<open>The view\<close>

named_theorems view_simps

type_synonym path_view = "nat \<times> nat \<times> nat"
type_synonym piece_view = "nat \<times> nat \<times> nat"
type_synonym stream_view = "nat \<times> nat \<times> piece_view list \<times> nat \<times> nat"
type_synonym session_view =
  "path_view list \<times> nat \<times> stream_view list \<times> (nat \<times> nat) list \<times> nat \<times> nat \<times> bool \<times> tuning"

definition pv :: "path_state \<Rightarrow> path_view" where
  "pv p = (pid p, inflight p, sticky_streams p)"

definition uv :: "nat \<times> unacked \<Rightarrow> piece_view" where
  "uv ku = (fst ku, ua_path (snd ku), ua_len (snd ku))"

definition sv_of :: "stream_state \<Rightarrow> stream_view" where
  "sv_of x = (sid x, sticky x, map uv (unacked_q x), recv_cap x, st_initial_window x)"

definition dv :: "stream_state \<Rightarrow> nat \<times> nat" where
  "dv x = (recv_cap x, st_initial_window x)"

definition view :: "session \<Rightarrow> session_view" where
  "view s = (map pv (pathtab s), next_path_id s, map sv_of (streamtab s), map dv (departed s),
             recv_cap_extra s, next_stream_id s, is_client s, stuning s)"

definition ids_ok :: "session \<Rightarrow> bool" where
  "ids_ok s \<longleftrightarrow> distinct (map pid (pathtab s)) \<and> distinct (map sid (streamtab s))"

definition keeps :: "(session_view \<Rightarrow> bool) \<Rightarrow> session \<Rightarrow> bool" where
  "keeps I s \<longleftrightarrow> ids_ok s \<and> I (view s)"

lemma view_ids:
  "map pid (pathtab s) = map fst (fst (view s))"
  "map sid (streamtab s) = map fst (fst (snd (snd (view s))))"
  by (simp_all add: view_def comp_def pv_def sv_of_def)

lemma ids_ok_view: "view t = view s \<Longrightarrow> ids_ok t = ids_ok s"
  by (simp add: ids_ok_def view_ids)

lemma keeps_view: "view t = view s \<Longrightarrow> keeps I t = keeps I s"
  using ids_ok_view[of t s] by (auto simp: keeps_def)

text \<open>The generic step: the view does not change, given distinct ids.\<close>

lemma keepsI: "keeps I s \<Longrightarrow> (ids_ok s \<Longrightarrow> view t = view s) \<Longrightarrow> keeps I t"
  using keeps_view[of t s I] by (auto simp: keeps_def)

lemma keeps_fold: "(\<And>x s. keeps I s \<Longrightarrow> keeps I (f x s)) \<Longrightarrow> keeps I s \<Longrightarrow> keeps I (fold f xs s)"
  by (induction xs arbitrary: s) auto

lemma keeps_if: "(b \<Longrightarrow> keeps I s) \<Longrightarrow> (\<not> b \<Longrightarrow> keeps I t) \<Longrightarrow> keeps I (if b then s else t)"
  by simp

section \<open>Tables\<close>

lemma tbl_split:
  assumes "distinct (map key xs)" "tbl_find key i xs = Some x"
  obtains as bs where "xs = as @ x # bs" "key x = i"
    "\<And>f. tbl_upd key i f xs = as @ f x # bs" "tbl_del key i xs = as @ bs"
proof -
  have "x \<in> set xs" "key x = i" using assms(2) by (auto simp: tbl_find_def dest: find_Some_in)
  then obtain as bs where xs: "xs = as @ x # bs" by (meson split_list)
  have d: "key x \<notin> key ` set as" "key x \<notin> key ` set bs" using assms(1) unfolding xs by auto
  have "\<forall>y\<in>set as. key y \<noteq> i" "\<forall>y\<in>set bs. key y \<noteq> i"
    using d \<open>key x = i\<close> by (metis imageI)+
  then have "tbl_upd key i f xs = as @ f x # bs" "tbl_del key i xs = as @ bs" for f
    using \<open>key x = i\<close> unfolding xs tbl_upd_def tbl_del_def
    by (auto intro: map_idI filter_True)
  with xs \<open>key x = i\<close> show ?thesis using that by blast
qed

lemma tbl_find_None: "tbl_find key i xs = None \<longleftrightarrow> (\<forall>x\<in>set xs. key x \<noteq> i)"
  by (auto simp: tbl_find_def find_None_iff)

lemma tbl_find_Some: "tbl_find key i xs = Some x \<Longrightarrow> x \<in> set xs \<and> key x = i"
  by (auto simp: tbl_find_def dest: find_Some_in)

lemma tbl_upd_id: "(\<And>x. x \<in> set xs \<Longrightarrow> key x = i \<Longrightarrow> h (f x) = h x) \<Longrightarrow> map h (tbl_upd key i f xs) = map h xs"
  by (auto simp: tbl_upd_def)

lemma tbl_upd_miss: "tbl_find key i xs = None \<Longrightarrow> tbl_upd key i f xs = xs"
  by (auto simp: tbl_upd_def tbl_find_None intro: map_idI)

lemma get_path_pid: "get_path i s = Some p \<Longrightarrow> p \<in> set (pathtab s) \<and> pid p = i"
  unfolding get_path_def by (rule tbl_find_Some)

lemma get_stream_sid: "get_stream i s = Some x \<Longrightarrow> x \<in> set (streamtab s) \<and> sid x = i"
  unfolding get_stream_def by (rule tbl_find_Some)

lemma unique_key: "distinct (map key xs) \<Longrightarrow> x \<in> set xs \<Longrightarrow> y \<in> set xs \<Longrightarrow> key x = key y \<Longrightarrow> x = y"
  by (simp add: distinct_map inj_on_def)

lemma view_upd_path:
  "(\<And>p. p \<in> set (pathtab s) \<Longrightarrow> pid p = i \<Longrightarrow> pv (f p) = pv p) \<Longrightarrow> view (upd_path i f s) = view s"
  by (simp add: view_def upd_path_def tbl_upd_id)

lemma view_upd_stream:
  "(\<And>x. x \<in> set (streamtab s) \<Longrightarrow> sid x = i \<Longrightarrow> sv_of (f x) = sv_of x) \<Longrightarrow> view (upd_stream i f s) = view s"
  by (simp add: view_def upd_stream_def tbl_upd_id)

lemma dv_of_sv: "sv_of x = sv_of y \<Longrightarrow> dv x = dv y"
  by (simp add: sv_of_def dv_def)

lemma view_upd_held:
  assumes "\<And>x. sv_of (f x) = sv_of x"
  shows "view (upd_held i f s) = view s"
proof (cases "get_stream i s = None")
  case True
  have "map dv (tbl_upd sid i f (departed s)) = map dv (departed s)"
    using dv_of_sv[OF assms] by (intro tbl_upd_id)
  with True show ?thesis by (simp add: upd_held_def view_def)
next
  case False
  with view_upd_stream[of s i f] assms show ?thesis by (simp add: upd_held_def)
qed

lemma keeps_upd_path [view_simps]:
  "keeps I s \<Longrightarrow> (\<And>p. pv (f p) = pv p) \<Longrightarrow> keeps I (upd_path i f s)"
  using keeps_view[OF view_upd_path] by blast

lemma keeps_upd_stream [view_simps]:
  "keeps I s \<Longrightarrow> (\<And>x. sv_of (f x) = sv_of x) \<Longrightarrow> keeps I (upd_stream i f s)"
  using keeps_view[OF view_upd_stream] by blast

lemma keeps_upd_held [view_simps]:
  "keeps I s \<Longrightarrow> (\<And>x. sv_of (f x) = sv_of x) \<Longrightarrow> keeps I (upd_held i f s)"
  using keeps_view[OF view_upd_held] by blast

text \<open>An entry that was read and is written back.\<close>

lemma keeps_set_path:
  assumes "keeps I s" "get_path i s = Some p" "pv q = pv p"
  shows "keeps I (upd_path i (\<lambda>_. q) s)"
proof (rule keepsI[OF assms(1)])
  assume "ids_ok s"
  then have "r = p" if "r \<in> set (pathtab s)" "pid r = i" for r
    using that get_path_pid[OF assms(2)] unique_key[of pid "pathtab s" r p] by (simp add: ids_ok_def)
  then show "view (upd_path i (\<lambda>_. q) s) = view s" using assms(3) by (intro view_upd_path) auto
qed

lemma keeps_set_stream:
  assumes "keeps I s" "get_stream i s = Some x" "sv_of y = sv_of x"
  shows "keeps I (upd_stream i (\<lambda>_. y) s)"
proof (rule keepsI[OF assms(1)])
  assume "ids_ok s"
  then have "z = x" if "z \<in> set (streamtab s)" "sid z = i" for z
    using that get_stream_sid[OF assms(2)] unique_key[of sid "streamtab s" z x] by (simp add: ids_ok_def)
  then show "view (upd_stream i (\<lambda>_. y) s) = view s" using assms(3) by (intro view_upd_stream) auto
qed

text \<open>A field of the session that is no part of the view.\<close>

lemma keeps_fields [view_simps]:
  "keeps I (s\<lparr>incoming := a\<rparr>) = keeps I s" "keeps I (s\<lparr>sess_dead := b\<rparr>) = keeps I s"
  "keeps I (s\<lparr>all_down_since := c\<rparr>) = keeps I s" "keeps I (s\<lparr>correlated_since := c\<rparr>) = keeps I s"
  "keeps I (s\<lparr>pool_ref_us := n\<rparr>) = keeps I s" "keeps I (s\<lparr>counters := e\<rparr>) = keeps I s"
  "keeps I (s\<lparr>observed := f\<rparr>) = keeps I s" "keeps I (s\<lparr>proc_live := n\<rparr>) = keeps I s"
  "keeps I (s\<lparr>proc_dead := n\<rparr>) = keeps I s" "keeps I (s\<lparr>last_rtt_us := g\<rparr>) = keeps I s"
  "keeps I (s\<lparr>last_lived := g\<rparr>) = keeps I s" "keeps I (s\<lparr>opens := h\<rparr>) = keeps I s"
  "keeps I (s\<lparr>closes := k\<rparr>) = keeps I s" "keeps I (s\<lparr>resets := l\<rparr>) = keeps I s"
  "keeps I (s\<lparr>early := m\<rparr>) = keeps I s"
  by (simp_all add: keeps_def ids_ok_def view_def)

end
