(* ===== verification/Session_Neutral.thy ===== *)
theory Session_Neutral
  imports Session_View
begin

text \<open>
  The operations that leave the session's accounting alone: everything that queues a frame,
  counts, retries an open, close or reset, samples a clock, receives data into a stream or
  stores an ACK.
\<close>

section \<open>One path\<close>

lemma pv_queue_frame [view_simps]: "pv (snd (queue_frame now urg f p)) = pv p"
  by (auto simp: queue_frame_def note_enqueue_def undo_enqueue_def try_send_def pv_def Let_def
      split: option.splits)

lemma pv_budget_limited [view_simps]: "pv (note_budget_limited p) = pv p"
  by (simp add: note_budget_limited_def pv_def)

lemma pv_room_mark [view_simps]: "pv (snd (has_room_or_mark p)) = pv p"
  by (simp add: has_room_or_mark_def view_simps)

lemma pv_loop_fit [view_simps]: "pv (snd (loop_fit now cfg r p)) = pv p"
  by (simp add: loop_fit_def pv_def Let_def)

lemma pv_mark_degraded [view_simps]: "pv (mark_degraded p) = pv p"
  by (simp add: mark_degraded_def pv_def)

lemma pv_merge_ack [view_simps]: "pv (merge_ack a p) = pv p"
  by (simp add: merge_ack_def pv_def split: option.splits)

lemma pv_restore_acks [view_simps]: "pv (restore_acks as p) = pv p"
  unfolding restore_acks_def by (induction as arbitrary: p) (simp_all add: view_simps)

lemma pv_take_all_acks [view_simps]: "pv (snd (take_all_acks p)) = pv p"
  by (simp add: take_all_acks_def pv_def)

lemma pv_outlier [view_simps]: "pv (snd (mark_outlier now p)) = pv p" "pv (clear_outlier p) = pv p"
  by (simp_all add: mark_outlier_def clear_outlier_def pv_def Let_def)

lemma pv_expire [view_simps]: "pv (snd (expire_path_pings now s p)) = pv p"
  by (simp add: expire_path_pings_def expire_stale_pings_def drop_ancient_pings_def pv_def Let_def)

lemma pv_rtts [view_simps]: "pv (p\<lparr>rtts := r\<rparr>) = pv p" "pv (p\<lparr>bud := b\<rparr>) = pv p"
  by (simp_all add: pv_def)

lemma pv_pong [view_simps]: "pv (on_pong_record now q rec cap late p) = pv p"
  by (simp add: on_pong_record_def feed_pong_def pv_def Let_def split: option.splits)

lemma pv_bw_sample [view_simps]: "pv (note_bw_sample now rate us p) = pv p"
  by (simp add: note_bw_sample_def end_budget_round_def pv_def Let_def split: prod.splits)

lemma pv_ack_rtt [view_simps]: "pv (record_ack_rtt now d p) = pv p"
  by (simp add: record_ack_rtt_def pv_def Let_def)

lemma pv_ack_clock [view_simps]: "pv (note_ack_clock now t u d p) = pv p"
  unfolding note_ack_clock_def Let_def by (simp add: view_simps)

lemma pv_ack_sample [view_simps]: "pv (ack_rtt_sample now s n u d p) = pv p"
  by (simp add: ack_rtt_sample_def view_simps)

lemma pv_stamp [view_simps]: "uv (k, stamp now p u) = uv (k, u)"
  by (simp add: stamp_def uv_def ua_len_def)

section \<open>One stream\<close>

lemma sv_stick_change [view_simps]: "sv_of (note_stick_change now x) = sv_of x"
  by (simp add: note_stick_change_def sv_of_def)

lemma sv_path_used [view_simps]: "sv_of (note_path_used i x) = sv_of x"
  by (simp add: note_path_used_def sv_of_def)

lemma sv_close_started [view_simps]: "sv_of (note_close_started now x) = sv_of x"
  by (simp add: note_close_started_def sv_of_def)

lemma sv_clear_stall [view_simps]: "sv_of (clear_stall x) = sv_of x"
  by (simp add: clear_stall_def sv_of_def)

lemma sv_inbound [view_simps]: "sv_of (inbound_send_lossy m x) = sv_of x"
  by (simp add: inbound_send_lossy_def inbound_send_def sv_of_def)

lemma sv_recv_flags [view_simps]:
  "sv_of (x\<lparr>recv_fin := b\<rparr>) = sv_of x" "sv_of (x\<lparr>recv_close_off := c\<rparr>) = sv_of x"
  "sv_of (x\<lparr>was_reset := b\<rparr>) = sv_of x" "sv_of (x\<lparr>counted_close := b\<rparr>) = sv_of x"
  "sv_of (x\<lparr>send_fin_sent := b\<rparr>) = sv_of x" "sv_of (x\<lparr>hedges := n\<rparr>) = sv_of x"
  "sv_of (x\<lparr>send_window := n\<rparr>) = sv_of x" "sv_of (x\<lparr>send_next := n\<rparr>) = sv_of x"
  "sv_of (x\<lparr>send_acked := n\<rparr>) = sv_of x" "sv_of (x\<lparr>last_ack_ms := n\<rparr>) = sv_of x"
  "sv_of (x\<lparr>last_sack_ms := n\<rparr>) = sv_of x" "sv_of (x\<lparr>sacked := n\<rparr>) = sv_of x"
  "sv_of (x\<lparr>ack_dirty := b\<rparr>) = sv_of x" "sv_of (x\<lparr>ack_flush_from_us := n\<rparr>) = sv_of x"
  "sv_of (x\<lparr>buffered_in := n\<rparr>) = sv_of x" "sv_of (x\<lparr>inbound_q := q\<rparr>) = sv_of x"
  "sv_of (x\<lparr>bulk := b\<rparr>) = sv_of x" "sv_of (x\<lparr>stalled := b\<rparr>) = sv_of x"
  "sv_of (x\<lparr>stall_from_ms := n\<rparr>) = sv_of x" "sv_of (x\<lparr>recv_hole_since_ms := n\<rparr>) = sv_of x"
  "sv_of (x\<lparr>zero_win_hole := n\<rparr>) = sv_of x" "sv_of (x\<lparr>zero_win_app := n\<rparr>) = sv_of x"
  "sv_of (x\<lparr>budget_diverts := n\<rparr>) = sv_of x" "sv_of (x\<lparr>budget_blocks := n\<rparr>) = sv_of x"
  "sv_of (x\<lparr>window_blocks := n\<rparr>) = sv_of x" "sv_of (x\<lparr>window_limited_with_room := n\<rparr>) = sv_of x"
  by (simp_all add: sv_of_def)

lemma sv_accept [view_simps]: "sv_of (snd (accept_piece path off d x)) = sv_of x"
  by (simp add: accept_piece_def sv_of_def Let_def split: option.splits)

lemma sv_drain_loop: "sv_of (snd (snd (drain_loop now got x))) = sv_of x"
proof (induction now got x rule: drain_loop.induct)
  case (1 now got x)
  show ?case
  proof (cases "map_of (recv_buf x) (recv_next x)")
    case (Some chunk)
    then show ?thesis using 1[OF Some]
      by (subst drain_loop.simps) (auto simp: sv_of_def inbound_send_def split: option.splits)
  qed (subst drain_loop.simps, simp)
qed

lemma sv_track_hole [view_simps]: "sv_of (track_hole now full x) = sv_of x"
proof -
  have [simp]: "sv_of (sample_hole_bytes now n y) = sv_of y" "sv_of (sample_hole now n y) = sv_of y"
    "sv_of (y\<lparr>hole := h\<rparr>) = sv_of y"
    "sv_of (y\<lparr>recv_hole_max := a, app_backlog_max := b\<rparr>) = sv_of y" for n y h a b
    by (simp_all add: sample_hole_bytes_def sample_hole_def Let_def sv_of_def)
  show ?thesis
    by (cases "hole x") (simp_all add: track_hole_def Let_def split: prod.splits)
qed

lemma sv_drain [view_simps]: "sv_of (snd (drain_core now x)) = sv_of x"
  using sv_drain_loop[of now 0 x]
  by (cases "drain_loop now 0 x") (simp add: drain_core_def view_simps)

lemma sv_note_deliver [view_simps]: "sv_of (snd (note_deliver now n d x)) = sv_of x"
  unfolding note_deliver_def Let_def by (simp add: sv_of_def split: option.splits)

lemma sv_upd_pieces:
  "(\<And>k u. (k, u) \<in> set q \<Longrightarrow> uv (k, f k u) = uv (k, u)) \<Longrightarrow>
   map uv (map (\<lambda>(k, u). (k, f k u)) q) = map uv q"
  by (induction q) auto

section \<open>Counters and tables\<close>

lemma keeps_counters [view_simps]:
  "keeps I (bump_by n m s) = keeps I s" "keeps I (bump m s) = keeps I s"
  "keeps I (gauge m n s) = keeps I s" "keeps I (observe h n s) = keeps I s"
  by (simp_all add: bump_by_def bump_def gauge_def observe_def view_simps)

lemma get_counters [view_simps]:
  "get_path i (bump_by n m s) = get_path i s" "get_path i (bump m s) = get_path i s"
  "get_stream i (bump_by n m s) = get_stream i s" "get_stream i (bump m s) = get_stream i s"
  by (simp_all add: bump_by_def bump_def get_path_def get_stream_def)

lemma keeps_retry_tables [view_simps]:
  "keeps I (remember_open now i p t s) = keeps I s" "keeps I (forget_open i s) = keeps I s"
  "keeps I (remember_close now i p b f s) = keeps I s" "keeps I (forget_close i s) = keeps I s"
  "keeps I (remember_reset now i p w s) = keeps I s" "keeps I (forget_reset i s) = keeps I s"
  "keeps I (push_early_data now p d s) = keeps I s" "keeps I (snd (take_early_data i s)) = keeps I s"
  "keeps I (expire_early_data now s) = keeps I s"
  "keeps I (upd_open i f1 s) = keeps I s" "keeps I (upd_close i f2 s) = keeps I s"
  "keeps I (upd_reset i f3 s) = keeps I s"
  by (simp_all add: remember_open_def forget_open_def remember_close_def forget_close_def
      remember_reset_def forget_reset_def push_early_data_def take_early_data_def
      expire_early_data_def upd_open_def upd_close_def upd_reset_def Let_def view_simps)

lemma keeps_reaps [view_simps]:
  "keeps I s \<Longrightarrow> keeps I (reap_closes now s)" "keeps I s \<Longrightarrow> keeps I (reap_resets now s)"
  by (auto simp: reap_closes_def reap_resets_def Let_def view_simps intro!: keeps_fold)

lemma keeps_upd_piece [view_simps]:
  "keeps I s \<Longrightarrow> (\<And>k u. uv (k, f u) = uv (k, u)) \<Longrightarrow> keeps I (upd_piece i off f s)"
  unfolding upd_piece_def
  by (rule keeps_upd_stream) (auto simp: sv_of_def intro!: sv_upd_pieces)

lemma keeps_upd_held_piece [view_simps]:
  "keeps I s \<Longrightarrow> (\<And>k u. uv (k, f u) = uv (k, u)) \<Longrightarrow> keeps I (upd_held_piece i off f s)"
  unfolding upd_held_piece_def
  by (rule keeps_upd_held) (auto simp: sv_of_def intro!: sv_upd_pieces)

lemma uv_fields [view_simps]:
  "uv (k, u\<lparr>ua_dropped := b\<rparr>) = uv (k, u)" "uv (k, u\<lparr>ua_not_before := n\<rparr>) = uv (k, u)"
  "uv (k, u\<lparr>ua_last_sent := n\<rparr>) = uv (k, u)" "uv (k, u\<lparr>ua_tried := t\<rparr>) = uv (k, u)"
  by (simp_all add: uv_def ua_len_def)

lemma keeps_note_data [view_simps]:
  "keeps I s \<Longrightarrow> keeps I (note_data_dropped now i off s)"
  "keeps I s \<Longrightarrow> keeps I (defer_piece i off t s)"
  by (simp_all add: note_data_dropped_def defer_piece_def view_simps)

section \<open>Frames\<close>

lemma keeps_send_on_path [view_simps]: "keeps I s \<Longrightarrow> keeps I (snd (send_on_path now i f s))"
  by (auto simp: send_on_path_def Let_def view_simps split: option.splits prod.splits
      intro!: keeps_set_path dest!: arg_cong[where f = snd])

lemma keeps_send_on_path' [view_simps]:
  "send_on_path now i f s = (ok, t) \<Longrightarrow> keeps I s \<Longrightarrow> keeps I t"
  using keeps_send_on_path[of I s now i f] by simp

lemma keeps_send_data [view_simps]: "keeps I s \<Longrightarrow> keeps I (snd (send_data_frame now i off d k s))"
  by (simp add: send_data_frame_def view_simps)

lemma keeps_send_data' [view_simps]:
  "send_data_frame now i off d k s = (ok, t) \<Longrightarrow> keeps I s \<Longrightarrow> keeps I t"
  using keeps_send_data[of I s now i off d k] by simp

lemma keeps_notes [view_simps]:
  "keeps I (note_retry a b s) = keeps I s"
  "keeps I (note_unknown_pick i s) = keeps I s"
  "keeps I (note_migrate m s) = keeps I s"
  by (simp_all add: note_retry_def note_unknown_pick_def note_migrate_def Let_def view_simps
      split: option.splits)

lemma keeps_note_pick [view_simps]: "keeps I s \<Longrightarrow> keeps I (note_pick i s)"
  by (auto simp: note_pick_def view_simps pv_def split: option.splits)

lemma keeps_note_ack_sent: "keeps I s \<Longrightarrow> keeps I (note_ack_sent now i k s)"
  by (auto simp: note_ack_sent_def view_simps sv_of_def Let_def split: option.splits)

lemma keeps_observe_failover [view_simps]: "keeps I s \<Longrightarrow> keeps I (observe_failover now i s)"
  by (auto simp: observe_failover_def view_simps pv_def split: option.splits)

lemma keeps_note_resent [view_simps]: "keeps I s \<Longrightarrow> keeps I (note_resent i a b w d s)"
  by (simp add: note_resent_def Let_def view_simps)

section \<open>The pool\<close>

text \<open>Every path rewritten in place, or some of them written back.\<close>

lemma keeps_map_paths:
  assumes "keeps I s" "\<And>p. p \<in> set (pathtab s) \<Longrightarrow> pv (f p) = pv p"
  shows "keeps I (s\<lparr>pathtab := map f (pathtab s)\<rparr>)"
proof -
  have "view (s\<lparr>pathtab := map f (pathtab s)\<rparr>) = view s"
    using assms(2) by (simp add: view_def)
  then show ?thesis using keeps_view assms(1) by blast
qed

lemma map_pv_put_paths:
  assumes "distinct (map pid ps)" "\<And>q. q \<in> set us \<Longrightarrow> \<exists>p\<in>set ps. pv q = pv p"
  shows "map pv (put_paths us ps) = map pv ps"
proof -
  have "pv (case find (\<lambda>q. pid q = pid p) us of Some q \<Rightarrow> q | None \<Rightarrow> p) = pv p" if p: "p \<in> set ps" for p
  proof (cases "find (\<lambda>q. pid q = pid p) us")
    case (Some q)
    then have q: "q \<in> set us" "pid q = pid p" by (auto dest: find_Some_in)
    then obtain r where r: "r \<in> set ps" "pv q = pv r" using assms(2) by blast
    with q have "pid r = pid p" by (simp add: pv_def)
    then have "r = p" using unique_key[OF assms(1)] r(1) p by blast
    with r Some show ?thesis by simp
  qed simp
  then show ?thesis by (simp add: put_paths_def)
qed

lemma keeps_put_paths:
  assumes "keeps I s" "\<And>q. q \<in> set us \<Longrightarrow> \<exists>p\<in>set (pathtab s). pv q = pv p"
  shows "keeps I (s\<lparr>pathtab := put_paths us (pathtab s)\<rparr>)"
  by (rule keepsI[OF assms(1)]) (use assms(2) in \<open>simp add: view_def ids_ok_def map_pv_put_paths\<close>)

lemma filter_upd_pv:
  assumes "\<And>p. pv (snd (f p)) = pv p" "q \<in> set (snd (filter_upd f xs))"
  shows "\<exists>p\<in>set xs. pv q = pv p"
  using assms filter_upd_all[of q f xs] by metis

lemma filter_upd_kept_pv:
  assumes "\<And>p. pv (snd (f p)) = pv p" "q \<in> set (fst (filter_upd f xs))"
  shows "\<exists>p\<in>set xs. pv q = pv p"
  using assms filter_upd_kept[of q f xs] by (metis snd_conv)

lemma loop_fit_or_all_pv:
  assumes "q \<in> set (snd (loop_fit_or_all now cfg r xs))"
  shows "\<exists>p\<in>set xs. pv q = pv p"
  using assms filter_upd_pv[of "loop_fit now cfg r" q xs]
  by (simp add: loop_fit_or_all_def view_simps Let_def split: prod.splits)

lemma keeps_loop_fit_id [view_simps]: "keeps I s \<Longrightarrow> keeps I (snd (loop_fit_id now i s))"
  by (auto simp: loop_fit_id_def view_simps split: option.splits)

lemma keeps_bulk_overflow [view_simps]:
  assumes "keeps I s" shows "keeps I (snd (bulk_overflow now k s))"
proof -
  let ?f = "\<lambda>p. if pid p \<noteq> k \<and> is_schedulable p \<and> is_quiet_fresh now (scfg s) p
                then (let (fit, p1) = loop_fit now (scfg s) (pool_ref s) p
                      in if fit then has_room_or_mark p1 else (False, p1))
                else (False, p)"
  have f: "pv (snd (?f p)) = pv p" for p
    using pv_loop_fit[of now "scfg s" "pool_ref s" p]
    by (cases "loop_fit now (scfg s) (pool_ref s) p") (simp add: view_simps)
  have "keeps I (s\<lparr>pathtab := put_paths (snd (filter_upd ?f (fastest_class_set (scfg s) (pathtab s)))) (pathtab s)\<rparr>)"
    by (rule keeps_put_paths[OF assms]) (use filter_upd_pv[OF f] fastest_subset in blast)
  then show ?thesis
    by (cases "filter_upd ?f (fastest_class_set (scfg s) (pathtab s))")
       (simp add: bulk_overflow_def bulk_overflow_pick_def Let_def)
qed

lemma keeps_pick_bulk_home [view_simps]:
  assumes "keeps I s" shows "keeps I (snd (pick_bulk_home now e s))"
proof -
  let ?fresh = "filter_or_all (is_quiet_fresh now (scfg s))
     (filter (\<lambda>p. is_schedulable p \<and> Some (pid p) \<noteq> e) (fastest_class_set (scfg s) (pathtab s)))"
  have sub: "\<exists>r\<in>set (pathtab s). pv p = pv r" if "p \<in> set ?fresh" for p
    using that fastest_subset[of p "scfg s" "pathtab s"] filter_or_all_subset by fastforce
  let ?us = "snd (filter_upd has_room_or_mark ?fresh)" and ?room = "fst (filter_upd has_room_or_mark ?fresh)"
  let ?t = "s\<lparr>pathtab := put_paths ?us (pathtab s)\<rparr>"
  have room: "\<exists>r\<in>set (pathtab s). pv q = pv r" if "q \<in> set ?room \<or> q \<in> set ?us" for q
  proof -
    from that have "\<exists>p\<in>set ?fresh. pv q = pv p"
      using filter_upd_pv[of has_room_or_mark, OF pv_room_mark]
        filter_upd_kept_pv[of has_room_or_mark, OF pv_room_mark] by blast
    then show ?thesis using sub by fastforce
  qed
  have t: "keeps I ?t" by (rule keeps_put_paths[OF assms]) (use room in blast)
  let ?us2 = "snd (loop_fit_or_all now (scfg s) (pool_ref s) ?room)"
  have "distinct (map pid (pathtab s))" using assms by (simp add: keeps_def ids_ok_def)
  then have "map pv (put_paths ?us (pathtab s)) = map pv (pathtab s)"
    by (rule map_pv_put_paths) (use room in blast)
  then have "map pv (pathtab ?t) = map pv (pathtab s)" by simp
  then have img: "pv ` set (pathtab ?t) = pv ` set (pathtab s)"
    by (simp only: set_map[symmetric])
  have "keeps I (?t\<lparr>pathtab := put_paths ?us2 (pathtab ?t)\<rparr>)"
  proof (rule keeps_put_paths[OF t])
    fix q assume "q \<in> set ?us2"
    then obtain p where "p \<in> set ?room" "pv q = pv p" using loop_fit_or_all_pv by blast
    from room[OF disjI1[OF this(1)]] this(2) have "pv q \<in> pv ` set (pathtab s)" by auto
    then show "\<exists>p\<in>set (pathtab ?t). pv q = pv p" unfolding img[symmetric] by blast
  qed
  with t show ?thesis
    by (simp add: pick_bulk_home_def pick_bulk_def Let_def case_prod_unfold)
qed

lemma keeps_bulk_affinity_mark [view_simps]: "keeps I s \<Longrightarrow> keeps I (upd_path k note_budget_limited s)"
  by (simp add: view_simps)

lemma keeps_hol_place [view_simps]:
  assumes "keeps I s" shows "keeps I (snd (hol_place_bulk now c s))"
proof -
  have "keeps I (s\<lparr>pathtab := put_paths (snd (loop_fit_or_all now (scfg s) r (filter P (pathtab s)))) (pathtab s)\<rparr>)"
    for r P by (rule keeps_put_paths[OF assms]) (use loop_fit_or_all_pv in fastforce)
  with assms show ?thesis
    by (simp add: hol_place_bulk_def hol_place_bulk_fallback_def Let_def case_prod_unfold split: option.splits)
qed

lemma keeps_tick_pings [view_simps]:
  assumes "keeps I s" shows "keeps I (snd (tick_pings now s))"
proof -
  have "keeps I (s\<lparr>pathtab := map (\<lambda>p. snd (expire_path_pings now s p)) (pathtab s)\<rparr>)"
    by (rule keeps_map_paths[OF assms]) (simp add: view_simps)
  then show ?thesis by (simp add: tick_pings_def Let_def view_simps comp_def)
qed

lemma keeps_sample_fits [view_simps]:
  assumes "keeps I s" shows "keeps I (sample_fits now s)"
proof -
  have "keeps I (s\<lparr>pool_ref_us := n\<rparr>)" for n using assms by (simp add: view_simps)
  from keeps_map_paths[OF this] show ?thesis by (simp add: sample_fits_def Let_def view_simps)
qed

lemma keeps_note_correlated [view_simps]: "keeps I (note_correlated now c s) = keeps I s"
  by (simp add: note_correlated_def view_simps)

end
