(* ===== verification/Session_Neutral_Ops.thy ===== *)
theory Session_Neutral_Ops
  imports Session_Neutral
begin

text \<open>
  Whole operations that leave the session's accounting alone: the retries of opens, closes and
  resets, the reset frame and the close frame, the ACKs, the stall scan, and the marks on paths.
\<close>

lemma keeps_retry_open [view_simps]: "keeps I s \<Longrightarrow> keeps I (retry_open now k s)"
  by (cases k) (simp add: view_simps split: option.splits prod.splits)

lemma keeps_retry_opens [view_simps]: "keeps I s \<Longrightarrow> keeps I (retry_opens now s)"
  unfolding retry_opens_def by (rule keeps_fold) (simp_all add: view_simps del: retry_open.simps)

lemma keeps_move_open [view_simps]: "keeps I s \<Longrightarrow> keeps I (move_open now g k s)"
  by (cases k) (simp add: view_simps split: option.splits prod.splits)

lemma keeps_retry_open_from [view_simps]: "keeps I s \<Longrightarrow> keeps I (retry_open_from now g s)"
  unfolding retry_open_from_def by (rule keeps_fold) (simp_all add: view_simps del: move_open.simps)

lemma keeps_close_again [view_simps]:
  "keeps I s \<Longrightarrow> (\<And>t. keeps I t \<Longrightarrow> keeps I (g t)) \<Longrightarrow> keeps I (send_close_again now i tr f g s)"
  by (simp add: send_close_again_def view_simps split: option.splits prod.splits)

lemma keeps_retry_close [view_simps]: "keeps I s \<Longrightarrow> keeps I (retry_close now k s)"
  by (cases k) (simp add: view_simps)

lemma keeps_retry_closes [view_simps]: "keeps I s \<Longrightarrow> keeps I (retry_closes now s)"
  unfolding retry_closes_def Let_def
  by (rule keeps_fold) (simp_all add: view_simps del: retry_close.simps)

lemma keeps_move_close [view_simps]: "keeps I s \<Longrightarrow> keeps I (move_close now k s)"
  by (cases k) (simp add: view_simps)

lemma keeps_retry_close_from [view_simps]: "keeps I s \<Longrightarrow> keeps I (retry_close_from now g s)"
  unfolding retry_close_from_def by (rule keeps_fold) (simp_all add: view_simps del: move_close.simps)

lemma keeps_reset_again [view_simps]:
  "keeps I s \<Longrightarrow> (\<And>t. keeps I t \<Longrightarrow> keeps I (g t)) \<Longrightarrow> keeps I (send_reset_again now i tr w g s)"
  by (simp add: send_reset_again_def view_simps split: option.splits prod.splits)

lemma keeps_retry_reset [view_simps]: "keeps I s \<Longrightarrow> keeps I (retry_reset now k s)"
  by (cases k) (simp add: view_simps)

lemma keeps_retry_resets [view_simps]: "keeps I s \<Longrightarrow> keeps I (retry_resets now s)"
  unfolding retry_resets_def Let_def
  by (rule keeps_fold) (simp_all add: view_simps del: retry_reset.simps)

lemma keeps_retry_reset_from [view_simps]: "keeps I s \<Longrightarrow> keeps I (retry_reset_from now g s)"
  unfolding retry_reset_from_def by (rule keeps_fold) (simp_all add: view_simps split: prod.splits)

section \<open>The end of a stream, before it leaves\<close>

lemma keeps_wire_reset [view_simps]: "keeps I s \<Longrightarrow> keeps I (wire_reset pick now i w s)"
  by (simp add: wire_reset_def view_simps split: option.splits prod.splits)

lemma keeps_wire_close [view_simps]: "keeps I s \<Longrightarrow> keeps I (wire_close now i b f s)"
  by (simp add: wire_close_def view_simps split: option.splits prod.splits)

lemma keeps_observe_end_times [view_simps]: "keeps I s \<Longrightarrow> keeps I (observe_end_times now x s)"
  by (simp add: observe_end_times_def Let_def view_simps)

lemma keeps_observe_stream_end [view_simps]: "keeps I s \<Longrightarrow> keeps I (observe_stream_end now r i s)"
  by (simp add: observe_stream_end_def Let_def view_simps split: option.splits)

lemma keeps_claim_close [view_simps]: "keeps I s \<Longrightarrow> keeps I (snd (claim_close i s))"
  by (simp add: claim_close_def view_simps split: option.splits)

lemma keeps_claim_close' [view_simps]: "claim_close i s = (b, t) \<Longrightarrow> keeps I s \<Longrightarrow> keeps I t"
  using keeps_claim_close[of I s i] by simp

lemma keeps_count_close [view_simps]: "keeps I s \<Longrightarrow> keeps I (count_close now r i s)"
  by (simp add: count_close_def view_simps split: prod.splits)

lemma keeps_reset_once [view_simps]: "keeps I s \<Longrightarrow> keeps I (reset_once now r b i s)"
  by (simp add: reset_once_def Let_def view_simps split: option.splits)

lemma keeps_recv_fin_once [view_simps]: "keeps I s \<Longrightarrow> keeps I (recv_fin_once i s)"
  unfolding recv_fin_once_def by (rule keeps_upd_stream) (simp_all add: view_simps)

section \<open>ACKs\<close>

lemma keeps_mark_ack_dirty [view_simps]: "keeps I s \<Longrightarrow> keeps I (mark_ack_dirty now i s)"
  unfolding mark_ack_dirty_def by (rule keeps_upd_stream) (simp_all add: view_simps sv_of_def)

lemma keeps_store_ack [view_simps]: "keeps I s \<Longrightarrow> keeps I (snd (store_ack now i k a s))"
  by (simp add: store_ack_def view_simps pv_def split: option.splits)

lemma keeps_store_ack' [view_simps]: "store_ack now i k a s = (b, t) \<Longrightarrow> keeps I s \<Longrightarrow> keeps I t"
  using keeps_store_ack[of I s now i k a] by simp

lemma keeps_note_zero [view_simps]: "keeps I s \<Longrightarrow> keeps I (note_zero_window i x s)"
  by (simp add: note_zero_window_def view_simps split: prod.splits)

lemma keeps_send_ack [view_simps]:
  assumes "keeps I s" shows "keeps I (send_ack now i k s)"
proof (cases "get_stream i s")
  case (Some x)
  let ?a = "ack_of x"
  let ?t1 = "if sa_window ?a = 0 then note_zero_window i x s else s"
  have k1: "keeps I ?t1" using assms by (simp add: view_simps)
  obtain b2 t2 where r2: "store_ack now i k ?a ?t1 = (b2, t2)" by fastforce
  then have k2: "keeps I t2" using k1 by (rule keeps_store_ack')
  obtain b3 t3 where r3: "(if sticky x \<noteq> 0 \<and> sticky x \<noteq> k then store_ack now i (sticky x) ?a t2
      else (False, t2)) = (b3, t3)" by fastforce
  then have k3: "keeps I t3" using k2 keeps_store_ack' by (metis prod.inject)
  obtain b4 t4 where r4: "(case pick_pref now PickInteractive t3 of
        Some j \<Rightarrow> if j \<noteq> k \<and> j \<noteq> sticky x then store_ack now i j ?a t3 else (False, t3)
      | None \<Rightarrow> (False, t3)) = (b4, t4)" by fastforce
  then have k4: "keeps I t4" using k3
    by (cases "pick_pref now PickInteractive t3")
       (auto dest: keeps_store_ack' split: if_splits)
  show ?thesis
    unfolding send_ack_def Some option.case Let_def r2 prod.case r3 r4
    using k2 k3 k4 by (simp add: view_simps)
qed (simp add: send_ack_def assms)

lemma keeps_merge_pending [view_simps]: "keeps I s \<Longrightarrow> keeps I (merge_pending_acks now g t s)"
  by (simp add: merge_pending_acks_def view_simps split: option.splits)

section \<open>Marks\<close>

lemma keeps_on_pong [view_simps]: "keeps I s \<Longrightarrow> keeps I (on_pong_frame now i q s)"
  by (simp add: on_pong_frame_def view_simps split: option.splits)

lemma sv_recv_stall: "sv_of (snd (recv_stall now t x)) = sv_of x"
  by (simp add: recv_stall_def Let_def view_simps)

lemma keeps_scan_stall [view_simps]:
  assumes "keeps I s" shows "keeps I (scan_stall now i s)"
proof (cases "get_stream i s")
  case (Some x)
  obtain b x1 where r: "recv_stall now (stall_thresh_ms x s) x = (b, x1)" by fastforce
  have "sv_of x1 = sv_of x" using sv_recv_stall[of now "stall_thresh_ms x s" x] r by simp
  then have "keeps I (upd_stream i (\<lambda>_. x1) s)" by (rule keeps_set_stream[OF assms Some])
  with Some r assms show ?thesis by (simp add: scan_stall_def Let_def view_simps split: option.splits)
qed (simp add: scan_stall_def assms)

lemma keeps_count_divert [view_simps]: "keeps I s \<Longrightarrow> keeps I (count_divert i s)"
  by (simp add: count_divert_def view_simps)

lemma keeps_bulk_home [view_simps]: "keeps I s \<Longrightarrow> keeps I (snd (snd (bulk_home now k s)))"
  by (simp add: bulk_home_def view_simps split: option.splits)

lemma keeps_snd_eqs [view_simps]:
  "bulk_home now k s = (r, b, t) \<Longrightarrow> keeps I s \<Longrightarrow> keeps I t"
  "pick_bulk_home now e s = (r', t) \<Longrightarrow> keeps I s \<Longrightarrow> keeps I t"
  "loop_fit_id now i s = (r'', t) \<Longrightarrow> keeps I s \<Longrightarrow> keeps I t"
  "bulk_overflow now k s = (r', t) \<Longrightarrow> keeps I s \<Longrightarrow> keeps I t"
  "hol_place_bulk now c s = (r', t) \<Longrightarrow> keeps I s \<Longrightarrow> keeps I t"
  using keeps_bulk_home[of I s now k] keeps_pick_bulk_home[of I s now e] keeps_loop_fit_id[of I s now i]
    keeps_bulk_overflow[of I s now k] keeps_hol_place[of I s now c] by simp_all

lemma keeps_bulk_elsewhere [view_simps]: "keeps I s \<Longrightarrow> keeps I (snd (bulk_elsewhere now k b s))"
  by (auto simp: bulk_elsewhere_def Let_def view_simps split: option.splits prod.splits)

lemma keeps_pick_bulk_path [view_simps]: "keeps I s \<Longrightarrow> keeps I (snd (pick_bulk_path now i k s))"
  by (auto simp: pick_bulk_path_def view_simps split: option.splits prod.splits)

lemma keeps_pick_send_path [view_simps]: "keeps I s \<Longrightarrow> keeps I (snd (pick_send_path now b i k s))"
  by (simp add: pick_send_path_def view_simps)

lemma keeps_place_unfit [view_simps]: "keeps I s \<Longrightarrow> keeps I (snd (place_unfit now k b s))"
  by (auto simp: place_unfit_def view_simps split: option.splits prod.splits)

lemma keeps_place_first [view_simps]: "keeps I s \<Longrightarrow> keeps I (snd (place_first_bulk now k b s))"
  by (auto simp: place_first_bulk_def view_simps split: option.splits prod.splits)

lemma keeps_budget_block [view_simps]:
  assumes "keeps I s" shows "keeps I (count_budget_block i s)"
proof -
  have "keeps I (upd_held i (\<lambda>y. y\<lparr>budget_blocks := budget_blocks y + 1\<rparr>) (bump M_budget_blocks s))"
    using assms by (simp add: view_simps)
  from keeps_map_paths[OF this] show ?thesis by (simp add: count_budget_block_def Let_def view_simps)
qed

lemma keeps_no_path [view_simps]: "keeps I s \<Longrightarrow> keeps I (snd (no_path_yet now i b off d w t s))"
  by (simp add: no_path_yet_def Let_def view_simps)

lemma keeps_window_block [view_simps]: "keeps I s \<Longrightarrow> keeps I (count_window_block i s)"
  by (simp add: count_window_block_def Let_def view_simps)

lemma keeps_stamp_delivered [view_simps]:
  assumes "keeps I s" shows "keeps I (stamp_delivered now i off j s)"
proof (cases "get_path j s")
  case (Some p)
  have "keeps I (upd_path j (\<lambda>_. if c then p\<lparr>bud := b\<rparr> else p) s)" for c b
    by (rule keeps_set_path[OF assms Some]) (simp add: view_simps)
  then show ?thesis
    unfolding stamp_delivered_def Some option.case Let_def
    by (intro keeps_upd_held_piece) (simp_all add: view_simps)
qed (simp add: stamp_delivered_def assms)

lemma keeps_mark_enqueued [view_simps]: "keeps I s \<Longrightarrow> keeps I (mark_enqueued now i k off s)"
  unfolding mark_enqueued_def
  by (intro keeps_stamp_delivered keeps_upd_held_piece) (simp_all add: uv_def ua_len_def)

end
