(* ===== verification/Stream_Facts.thy ===== *)
theory Stream_Facts
  imports Stream_Recv
begin

text \<open>
  What one stream's receive side guarantees: the application reads exactly the prefix of the
  bytes sent, all of them once every piece has arrived; the SACK ranges are sound and bounded;
  the receive window stays in its band and the session's memory guard is exact.
\<close>

section \<open>SACK ranges\<close>

definition run_covered :: "(nat \<times> byte list) list \<Rightarrow> nat \<times> nat \<Rightarrow> bool" where
  "run_covered buf r \<longleftrightarrow> (\<forall>x. fst r \<le> x \<and> x < snd r \<longrightarrow>
     (\<exists>(off, c)\<in>set buf. off \<le> x \<and> x < off + length c))"

lemma run_covered_mono: "run_covered buf r \<Longrightarrow> set buf \<subseteq> set buf' \<Longrightarrow> run_covered buf' r"
  unfolding run_covered_def by blast

lemma run_covered_join:
  "run_covered buf (a, b) \<Longrightarrow> (b, c) \<in> set buf \<Longrightarrow> run_covered buf (a, b + length c)"
proof -
  assume a: "run_covered buf (a, b)" and c: "(b, c) \<in> set buf"
  have "\<exists>(off, d)\<in>set buf. off \<le> x \<and> x < off + length d" if x: "a \<le> x" "x < b + length c" for x
  proof (cases "x < b")
    case True
    then show ?thesis using a x unfolding run_covered_def by simp
  next
    case False
    then show ?thesis using c x by (intro bexI[of _ "(b, c)"]) auto
  qed
  then show ?thesis unfolding run_covered_def by simp
qed

lemma foldl_runs_covered:
  "\<forall>r\<in>set runs. run_covered pre r \<Longrightarrow> \<forall>r\<in>set (foldl add_run runs buf). run_covered (pre @ buf) r"
proof (induction buf arbitrary: runs pre)
  case (Cons x buf)
  obtain off c where x: "x = (off, c)" by (cases x)
  have old: "\<forall>r\<in>set runs. run_covered (pre @ [x]) r"
  proof
    fix r assume "r \<in> set runs"
    then have "run_covered pre r" using Cons.prems by blast
    then show "run_covered (pre @ [x]) r" by (rule run_covered_mono) auto
  qed
  have one: "run_covered (pre @ [x]) (off, off + length c)" by (auto simp: run_covered_def x)
  have "\<forall>r\<in>set (add_run runs x). run_covered (pre @ [x]) r"
  proof (cases "runs \<noteq> [] \<and> snd (last runs) = off")
    case True
    then have "run_covered (pre @ [x]) (fst (last runs), off)" using old last_in_set by force
    then have "run_covered (pre @ [x]) (fst (last runs), off + length c)"
      by (rule run_covered_join) (simp add: x)
    then show ?thesis using True old in_set_butlastD by (fastforce simp: x Let_def)
  qed (use old one in \<open>auto simp: x Let_def\<close>)
  from Cons.IH[OF this] show ?case by simp
qed simp

lemma buf_runs_covered: "r \<in> set (buf_runs buf) \<Longrightarrow> run_covered buf r"
  using foldl_runs_covered[of "[]" "[]" buf] by (simp add: buf_runs_def)

lemma take_runs_props:
  "distinct out \<Longrightarrow> distinct (take_runs out rs)"
  "length out \<le> MAX_SACK_RANGES \<Longrightarrow> length (take_runs out rs) \<le> MAX_SACK_RANGES"
  "set (take_runs out rs) \<subseteq> set out \<union> set rs"
  by (induction out rs rule: take_runs.induct) auto

lemma sack_from_runs: "r \<in> set (sack_ranges s) \<Longrightarrow> r \<in> set (buf_runs (recv_buf s))"
  unfolding sack_ranges_def Let_def
  by (auto split: if_splits option.splits dest!: subsetD[OF take_runs_props(3)] find_Some_in)

lemma sack_ranges_bounds_aux:
  "length (sack_ranges s) \<le> MAX_SACK_RANGES \<and> distinct (sack_ranges s)"
proof -
  have one: "length [r :: nat \<times> nat] \<le> MAX_SACK_RANGES" for r by (simp add: MAX_SACK_RANGES_def)
  have none: "length ([] :: (nat \<times> nat) list) \<le> MAX_SACK_RANGES" by simp
  have d: "distinct [r :: nat \<times> nat]" "distinct ([] :: (nat \<times> nat) list)" for r by simp_all
  note k = take_runs_props(2)[OF one] take_runs_props(2)[OF none]
    take_runs_props(1)[OF d(1)] take_runs_props(1)[OF d(2)]
  show ?thesis unfolding sack_ranges_def Let_def by (simp add: k split: option.split)
qed

lemma sack_sound_aux:
  assumes run: "rx_run cs s arr out" and ne: "\<forall>c\<in>set cs. c \<noteq> []"
    and i: "i < length cs" and r: "(a, b) \<in> set (sack_ranges s)"
    and cov: "a \<le> cut cs i" "cut cs i + length (cs ! i) \<le> b"
  shows "map_of (recv_buf s) (cut cs i) = Some (cs ! i)"
proof -
  have inv: "arrived_inv cs arr s" using rx_run_arrived[OF run ne] by simp
  have pos: "0 < length (cs ! i)" using ne i by simp
  have rc: "run_covered (recv_buf s) (a, b)" using sack_from_runs[OF r] by (rule buf_runs_covered)
  have lt: "cut cs i < b" using cov pos by linarith
  have "\<exists>(off, c)\<in>set (recv_buf s). off \<le> cut cs i \<and> cut cs i < off + length c"
    using rc cov(1) lt unfolding run_covered_def fst_conv snd_conv by (elim allE[of _ "cut cs i"] impE) blast+
  then obtain off c where m: "(off, c) \<in> set (recv_buf s)" "off \<le> cut cs i" "cut cs i < off + length c"
    by (elim bexE) (simp split: prod.splits)
  then have "is_piece cs off c" using inv by (auto simp: arrived_inv_def)
  then obtain j where j: "j < length cs" "off = cut cs j" "c = cs ! j" by (auto simp: is_piece_def)
  have "i = j"
  proof (rule ccontr)
    assume "i \<noteq> j"
    then consider "i < j" | "Suc j \<le> i" by linarith
    then show False
    proof cases
      case 1
      then show False using cut_strict[OF ne 1] j m(2) by simp
    next
      case 2
      then have "cut cs (Suc j) \<le> cut cs i" by (rule cut_mono)
      then show False using m(3) j by (simp add: cut_Suc)
    qed
  qed
  moreover have "hm_inv (recv_buf s)" using inv by (simp add: arrived_inv_def bt_inv_hm)
  ultimately show ?thesis using m(1) j by (simp add: map_of_hm_iff)
qed

section \<open>The receive window\<close>

lemma recv_ceil_ge: "0 < chan t \<Longrightarrow> st_initial_window s \<le> u32_max \<Longrightarrow> st_initial_window s \<le> recv_ceil t s"
  by (simp add: recv_ceil_def sat_mul32_def)

lemma recv_ceil_u32: "recv_ceil t s \<le> u32_max"
  by (simp add: recv_ceil_def sat_mul32_def)

lemma tune_cap_bounds:
  assumes "st_initial_window s \<le> recv_ceil t s"
  shows "st_initial_window s \<le> tune_cap now t b alive extra s \<and> tune_cap now t b alive extra s \<le> recv_ceil t s"
  unfolding tune_cap_def Let_def using clamp_nat_bounds[OF assms] by blast

lemma tune_cap_cases:
  fixes s t now b alive extra
  defines "cur \<equiv> clamp_nat (recv_cap s) (st_initial_window s) (recv_ceil t s)"
  assumes fc: "st_initial_window s \<le> recv_ceil t s"
  shows "tune_cap now t b alive extra s \<le> cur + (sat_mul alive (recv_ceil t s) - extra)"
    and "snd (recv_evidence s) \<le> cur div 2 \<Longrightarrow> cur \<le> tune_cap now t b alive extra s"
    and "min cur (buffered_in s + recv_buffered s) \<le> tune_cap now t b alive extra s"
proof -
  have c: "st_initial_window s \<le> cur" "cur \<le> recv_ceil t s"
    unfolding cur_def using clamp_nat_bounds[OF fc] by auto
  have u: "cur \<le> u32_max" using c(2) recv_ceil_u32 by (rule le_trans)
  have uu: "u32_max \<le> u64_max" by (simp add: u32_max_def u64_max_def)
  define cap0 where "cap0 = (if snd (recv_evidence s) > cur div 2
    then min cur (max (recv_cap_target now t b s) (buffered_in s + recv_buffered s))
    else max cur (recv_cap_target now t b s))"
  define cap1 where "cap1 = min cap0 (sat_add cur (sat_mul alive (recv_ceil t s) - extra))"
  have tc: "tune_cap now t b alive extra s = clamp_nat (min cap1 u32_max) (st_initial_window s) (recv_ceil t s)"
    unfolding tune_cap_def Let_def cap1_def cap0_def cur_def ..
  have lo: "n \<le> tune_cap now t b alive extra s" if "n \<le> cap1" "n \<le> cur" for n
    unfolding tc using that c u by (auto simp: clamp_nat_def)
  have "cap1 \<le> cur + (sat_mul alive (recv_ceil t s) - extra)"
    unfolding cap1_def sat_add_def by linarith
  then show "tune_cap now t b alive extra s \<le> cur + (sat_mul alive (recv_ceil t s) - extra)"
    unfolding tc clamp_nat_def using c by (auto simp: min_def)
  have room: "cur \<le> sat_add cur (sat_mul alive (recv_ceil t s) - extra)"
    using u uu by (simp add: sat_add_def)
  show "snd (recv_evidence s) \<le> cur div 2 \<Longrightarrow> cur \<le> tune_cap now t b alive extra s"
    using room by (intro lo) (auto simp: cap1_def cap0_def)
  show "min cur (buffered_in s + recv_buffered s) \<le> tune_cap now t b alive extra s"
    using room by (intro lo) (auto simp: cap1_def cap0_def)
qed

lemma tune_recv_aux:
  assumes w: "0 < chan t" "st_initial_window s \<le> u32_max"
    and cap: "st_initial_window s \<le> recv_cap s" "recv_cap s \<le> recv_ceil t s"
    and guard: "recv_cap s - st_initial_window s \<le> extra"
    and r: "tune_recv_core now t b alive extra s = (s', extra')"
  shows "st_initial_window s \<le> recv_cap s' \<and> recv_cap s' \<le> recv_ceil t s"
    and "extra' + (recv_cap s - st_initial_window s) = extra + (recv_cap s' - st_initial_window s)"
    and "extra' \<le> max extra (sat_mul alive (recv_ceil t s))"
    and "snd (recv_evidence s) \<le> recv_cap s div 2 \<Longrightarrow> recv_cap s \<le> recv_cap s'"
    and "buffered_in s + recv_buffered s \<le> recv_cap s \<Longrightarrow> buffered_in s + recv_buffered s \<le> recv_cap s'"
proof -
  have fc: "st_initial_window s \<le> recv_ceil t s" using w by (rule recv_ceil_ge)
  have cl: "clamp_nat (recv_cap s) (st_initial_window s) (recv_ceil t s) = recv_cap s"
    using cap by (rule clamp_nat_id)
  note k = tune_cap_cases[OF fc, of now b alive extra, unfolded cl]
  have s': "recv_cap s' = tune_cap now t b alive extra s"
    and e': "extra' = (if recv_cap s' > recv_cap s then extra + (recv_cap s' - recv_cap s)
                   else if recv_cap s' < recv_cap s then extra - (recv_cap s - recv_cap s') else extra)"
    using r by (auto simp: tune_recv_core_def Let_def cl)
  show bnd: "st_initial_window s \<le> recv_cap s' \<and> recv_cap s' \<le> recv_ceil t s"
    unfolding s' by (rule tune_cap_bounds[OF fc])
  show "extra' + (recv_cap s - st_initial_window s) = extra + (recv_cap s' - st_initial_window s)"
    unfolding e' using bnd cap guard by auto
  show "extra' \<le> max extra (sat_mul alive (recv_ceil t s))"
    unfolding e' using k(1) unfolding s'[symmetric] by auto
  show "snd (recv_evidence s) \<le> recv_cap s div 2 \<Longrightarrow> recv_cap s \<le> recv_cap s'"
    unfolding s' by (rule k(2))
  show "buffered_in s + recv_buffered s \<le> recv_cap s \<Longrightarrow> buffered_in s + recv_buffered s \<le> recv_cap s'"
    unfolding s' using k(3) by simp
qed

section \<open>Properties\<close>

text \<open>
  C3: In-order, exactly-once delivery. However the pieces of a stream arrive (any order, any
  paths, duplicated, re-sent) and whenever the application reads, what it has read followed by
  what waits in its channel is exactly the stream's prefix up to \<open>recv_next\<close>.
\<close>

theorem delivery_in_order:
  assumes "rx_run cs s arr out"
  shows "out @ data_of (inbound_q s) = take (recv_next s) (concat cs)"
  using rx_run_prefix[OF assms] by (simp add: rx_inv_def)

definition witness_pieces :: "byte list list" where "witness_pieces = [[1, 2], [3]]"

lemma witness_rx_run:
  "rx_run witness_pieces
     (recv_piece 5 1 0 [1, 2] (recv_piece 4 2 2 [3] (stream_new 7 4 100 0)))
     {(0, [1, 2]), (2, [3])} []"
proof -
  have p: "is_piece witness_pieces 0 [1, 2]" "is_piece witness_pieces 2 [3]"
    unfolding is_piece_def witness_pieces_def cut_def
    by (intro exI[of _ 0] conjI; simp) (intro exI[of _ 1] conjI; simp)
  show ?thesis by (intro rx_run.arrive rx_run.start p)
qed

theorem delivery_in_order_witness:
  "data_of (inbound_q (recv_piece 5 1 0 [1, 2] (recv_piece 4 2 2 [3] (stream_new 7 4 100 0))))
     = take (recv_next (recv_piece 5 1 0 [1, 2] (recv_piece 4 2 2 [3] (stream_new 7 4 100 0)))) [1, 2, 3]"
  using delivery_in_order[OF witness_rx_run] by (simp add: witness_pieces_def)

text \<open>
  C7: Delivery is complete. Once every piece of the stream has arrived at least once and the
  application's channel has room, nothing is left behind: all bytes have been read or wait in
  the channel.
\<close>

theorem delivery_complete:
  assumes "rx_run cs s arr out" and "\<forall>c\<in>set cs. c \<noteq> []"
    and "\<forall>i<length cs. (cut cs i, cs ! i) \<in> arr" and "channel_room s"
  shows "out @ data_of (inbound_q s) = concat cs"
  using assms by (rule rx_run_complete)

lemma witness_channel:
  "channel_room (recv_piece 5 1 0 [1, 2] (recv_piece 4 2 2 [3] (stream_new 7 4 100 0)))"
  by (simp add: recv_piece_def accept_piece_def stream_new_def recv_over_def drain_core_def
      drain_loop.simps inbound_send_def bt_remove_def track_hole_def sample_hole_def
      sample_hole_bytes_def channel_room_def Let_def in_order_held_def)

theorem delivery_complete_witness:
  "data_of (inbound_q (recv_piece 5 1 0 [1, 2] (recv_piece 4 2 2 [3] (stream_new 7 4 100 0)))) = [1, 2, 3]"
proof -
  have "\<forall>i<length witness_pieces. (cut witness_pieces i, witness_pieces ! i) \<in> {(0, [1, 2]), (2, [3])}"
    by (auto simp: witness_pieces_def cut_def less_Suc_eq)
  then show ?thesis
    using delivery_complete[OF witness_rx_run _ _ witness_channel] by (simp add: witness_pieces_def)
qed

text \<open>
  C10: SACK is sound. A piece that a reported range covers is in the receiver's buffer, whole;
  the sender may release it. At most \<open>MAX_SACK_RANGES\<close> ranges are reported, no range twice.
\<close>

theorem sack_sound:
  assumes "rx_run cs s arr out" and "\<forall>c\<in>set cs. c \<noteq> []" and "i < length cs"
    and "(a, b) \<in> set (sack_ranges s)" and "a \<le> cut cs i" and "cut cs i + length (cs ! i) \<le> b"
  shows "map_of (recv_buf s) (cut cs i) = Some (cs ! i)
    \<and> length (sack_ranges s) \<le> MAX_SACK_RANGES \<and> distinct (sack_ranges s)"
  using sack_sound_aux[OF assms] sack_ranges_bounds_aux by simp

theorem sack_sound_witness:
  "map_of (recv_buf (recv_piece 4 2 2 [3] (stream_new 7 4 100 0))) 2 = Some [3]"
proof -
  let ?s = "recv_piece 4 2 2 [3] (stream_new 7 4 100 0)"
  have p: "is_piece witness_pieces 2 [3]"
    unfolding is_piece_def witness_pieces_def cut_def by (intro exI[of _ 1] conjI; simp)
  have r: "rx_run witness_pieces ?s {(2, [3])} []" by (intro rx_run.arrive rx_run.start p)
  have k: "(2, 3) \<in> set (sack_ranges ?s)"
    by (simp add: recv_piece_def accept_piece_def stream_new_def recv_over_def drain_core_def
      drain_loop.simps track_hole_def sample_hole_bytes_def Let_def in_order_held_def sack_ranges_def
      buf_runs_def MAX_SACK_RANGES_def)
  have c: "cut witness_pieces 1 = 2" "witness_pieces ! 1 = [3]" "length witness_pieces = 2"
    "\<forall>c\<in>set witness_pieces. c \<noteq> []"
    by (simp_all add: witness_pieces_def cut_def)
  show ?thesis using sack_sound[OF r c(4) _ k, of 1] c by simp
qed

text \<open>
  C28: The receive-window controller. The cap stays between the initial window and the ceiling;
  the session's memory guard changes by exactly the change of this stream's share, and growth
  stops at one ceiling per alive path; the cap never shrinks while the application keeps up,
  and never below what is already held for the application.
\<close>

theorem recv_window_controller:
  assumes "0 < chan t" and "st_initial_window s \<le> u32_max"
    and "st_initial_window s \<le> recv_cap s" and "recv_cap s \<le> recv_ceil t s"
    and "recv_cap s - st_initial_window s \<le> extra"
    and "tune_recv_core now t b alive extra s = (s', extra')"
  shows "st_initial_window s \<le> recv_cap s' \<and> recv_cap s' \<le> recv_ceil t s
    \<and> extra' + (recv_cap s - st_initial_window s) = extra + (recv_cap s' - st_initial_window s)
    \<and> extra' \<le> max extra (sat_mul alive (recv_ceil t s))
    \<and> (snd (recv_evidence s) \<le> recv_cap s div 2 \<longrightarrow> recv_cap s \<le> recv_cap s')
    \<and> (buffered_in s + recv_buffered s \<le> recv_cap s \<longrightarrow> buffered_in s + recv_buffered s \<le> recv_cap s')"
  using tune_recv_aux[OF assms] by blast

theorem recv_window_controller_witness:
  "131072 \<le> recv_cap (fst (tune_recv_core 0 STANDARD None 2 0 (stream_new 7 64 131072 0)))"
proof -
  let ?s = "stream_new 7 64 131072 0"
  obtain s' e' where r: "tune_recv_core 0 STANDARD None 2 0 ?s = (s', e')"
    by (cases "tune_recv_core 0 STANDARD None 2 0 ?s")
  have "0 < chan STANDARD" "st_initial_window ?s \<le> u32_max" "st_initial_window ?s \<le> recv_cap ?s"
    "recv_cap ?s \<le> recv_ceil STANDARD ?s" "recv_cap ?s - st_initial_window ?s \<le> 0"
    by (simp_all add: STANDARD_def stream_new_def u32_max_def recv_ceil_def sat_mul32_def)
  from recv_window_controller[OF this r] have "st_initial_window ?s \<le> recv_cap s'" by (rule conjunct1)
  moreover have "st_initial_window ?s = 131072" by (simp add: stream_new_def)
  ultimately show ?thesis by (simp add: r)
qed

end
