(* ===== verification/Session_Account.thy ===== *)
theory Session_Account
  imports Session_Neutral_Ops Stream_Facts
begin

text \<open>
  The session's books. Every unacknowledged piece of a stream in the table is charged to one
  path; a path's inflight count is the sum of what is charged to it and its sticky count the
  number of streams that stick to it; the window memory counter is the sum of what the streams
  have been lent, those that have left but are still held included. Ids are never reused.
\<close>

section \<open>The invariant\<close>

definition pieces_on :: "nat \<Rightarrow> piece_view list \<Rightarrow> nat" where
  "pieces_on i us = (\<Sum>(off, k, n)\<leftarrow>us. if k = i then n else 0)"

definition charged :: "nat \<Rightarrow> stream_view list \<Rightarrow> nat" where
  "charged i xs = (\<Sum>(j, stk, us, cap, win)\<leftarrow>xs. pieces_on i us)"

definition stuck :: "nat \<Rightarrow> stream_view list \<Rightarrow> nat" where
  "stuck i xs = (\<Sum>(j, stk, us, cap, win)\<leftarrow>xs. if stk = i then 1 else 0)"

definition lent :: "stream_view list \<Rightarrow> nat" where
  "lent xs = (\<Sum>(j, stk, us, cap, win)\<leftarrow>xs. cap - win)"

fun path_ok :: "nat \<Rightarrow> stream_view list \<Rightarrow> path_view \<Rightarrow> bool" where
  "path_ok n xs (i, fl, stk) \<longleftrightarrow> 0 < i \<and> i < n \<and> fl = charged i xs \<and> stk = stuck i xs"

fun stream_ok :: "nat \<Rightarrow> nat \<Rightarrow> bool \<Rightarrow> tuning \<Rightarrow> stream_view \<Rightarrow> bool" where
  "stream_ok n m client t (j, stk, us, cap, win) \<longleftrightarrow>
     stk < n \<and> (client \<longrightarrow> j < m) \<and> distinct (map fst us) \<and> (\<forall>(off, k, l)\<in>set us. 0 < k \<and> k < n)
     \<and> win = initial_window t \<and> initial_window t \<le> cap \<and> cap \<le> sat_mul32 (initial_window t) (chan t)"

fun acct_ok :: "session_view \<Rightarrow> bool" where
  "acct_ok (ps, n, xs, ds, extra, m, client, t) \<longleftrightarrow>
     0 < n \<and> 0 < chan t \<and> initial_window t \<le> u32_max
     \<and> (\<forall>p\<in>set ps. path_ok n xs p) \<and> (\<forall>x\<in>set xs. stream_ok n m client t x)
     \<and> extra = lent xs + (\<Sum>(cap, win)\<leftarrow>ds. cap - win)"

abbreviation acct :: "session \<Rightarrow> bool" where "acct \<equiv> keeps acct_ok"

definition xs_of :: "session \<Rightarrow> stream_view list" where "xs_of s = map sv_of (streamtab s)"

definition ds_lent :: "session \<Rightarrow> nat" where
  "ds_lent s = (\<Sum>(cap, win)\<leftarrow>map dv (departed s). cap - win)"

lemma acct_iff:
  "acct s \<longleftrightarrow> ids_ok s \<and> 0 < next_path_id s \<and> 0 < chan (stuning s)
     \<and> initial_window (stuning s) \<le> u32_max
     \<and> (\<forall>p\<in>set (pathtab s). path_ok (next_path_id s) (xs_of s) (pv p))
     \<and> (\<forall>x\<in>set (streamtab s).
          stream_ok (next_path_id s) (next_stream_id s) (is_client s) (stuning s) (sv_of x))
     \<and> recv_cap_extra s = lent (xs_of s) + ds_lent s"
  by (auto simp: keeps_def view_def xs_of_def ds_lent_def)

lemma acct_stream:
  "acct s \<Longrightarrow> x \<in> set (streamtab s) \<Longrightarrow>
   stream_ok (next_path_id s) (next_stream_id s) (is_client s) (stuning s) (sv_of x)"
  and acct_path: "acct s \<Longrightarrow> p \<in> set (pathtab s) \<Longrightarrow> path_ok (next_path_id s) (xs_of s) (pv p)"
  and acct_ids: "acct s \<Longrightarrow> ids_ok s"
  by (simp_all add: acct_iff)

lemma sums_append [simp]:
  "charged i (xs @ ys) = charged i xs + charged i ys" "stuck i (xs @ ys) = stuck i xs + stuck i ys"
  "lent (xs @ ys) = lent xs + lent ys" "pieces_on i (us @ vs) = pieces_on i us + pieces_on i vs"
  by (simp_all add: charged_def stuck_def lent_def pieces_on_def)

lemma sums_Cons [simp]:
  "charged i ((j, stk, us, cap, win) # xs) = pieces_on i us + charged i xs"
  "stuck i ((j, stk, us, cap, win) # xs) = (if stk = i then 1 else 0) + stuck i xs"
  "lent ((j, stk, us, cap, win) # xs) = (cap - win) + lent xs"
  "pieces_on i ((off, k, n) # us) = (if k = i then n else 0) + pieces_on i us"
  by (simp_all add: charged_def stuck_def lent_def pieces_on_def)

lemma sums_Nil [simp]: "charged i [] = 0" "stuck i [] = 0" "lent [] = 0" "pieces_on i [] = 0"
  by (simp_all add: charged_def stuck_def lent_def pieces_on_def)

text \<open>A table with one entry singled out.\<close>

lemma stream_split:
  assumes "ids_ok s" "get_stream i s = Some x"
  obtains as bs where "streamtab s = as @ x # bs" "sid x = i"
    "\<And>f. tbl_upd sid i f (streamtab s) = as @ f x # bs" "tbl_del sid i (streamtab s) = as @ bs"
proof -
  have "distinct (map sid (streamtab s))" using assms(1) by (simp add: ids_ok_def)
  from tbl_split[OF this assms(2)[unfolded get_stream_def]] show ?thesis using that by blast
qed

lemma ids_upd_path: "(\<And>p. pid (f p) = pid p) \<Longrightarrow> ids_ok (upd_path i f s) = ids_ok s"
  by (simp add: ids_ok_def upd_path_def tbl_upd_id)

lemma ids_upd_stream: "(\<And>x. sid (f x) = sid x) \<Longrightarrow> ids_ok (upd_stream i f s) = ids_ok s"
  by (simp add: ids_ok_def upd_stream_def tbl_upd_id)

text \<open>
  The shape of every change: the paths and the streams are rewritten in place, and for each
  path what is charged to it and what sticks to it moves by what the path's counters move by.
\<close>

lemma acctI:
  assumes "acct s"
    and "map pid (pathtab t) = map pid (pathtab s)"
    and "\<And>q. q \<in> set (pathtab t) \<Longrightarrow> \<exists>p\<in>set (pathtab s). pid q = pid p
           \<and> (inflight p = charged (pid p) (xs_of s) \<longrightarrow> inflight q = charged (pid q) (xs_of t))
           \<and> (sticky_streams p = stuck (pid p) (xs_of s) \<longrightarrow> sticky_streams q = stuck (pid q) (xs_of t))"
    and "distinct (map sid (streamtab t))"
    and "\<And>y. y \<in> set (streamtab t) \<Longrightarrow>
           stream_ok (next_path_id s) (next_stream_id s) (is_client s) (stuning s) (sv_of y)"
    and "recv_cap_extra t = lent (xs_of t) + ds_lent t"
    and "next_path_id t = next_path_id s" "next_stream_id t = next_stream_id s"
      "is_client t = is_client s" "scfg t = scfg s"
  shows "acct t"
proof -
  have "path_ok (next_path_id s) (xs_of t) (pv q)" if q: "q \<in> set (pathtab t)" for q
  proof -
    from assms(3)[OF q] obtain p where p: "p \<in> set (pathtab s)" "pid q = pid p"
      "inflight p = charged (pid p) (xs_of s) \<longrightarrow> inflight q = charged (pid q) (xs_of t)"
      "sticky_streams p = stuck (pid p) (xs_of s) \<longrightarrow> sticky_streams q = stuck (pid q) (xs_of t)"
      by blast
    with assms(1) have "path_ok (next_path_id s) (xs_of s) (pv p)" by (simp add: acct_iff)
    with p(2-4) show ?thesis by (simp add: pv_def)
  qed
  with assms show ?thesis by (simp add: acct_iff ids_ok_def)
qed

lemma pathtab_upd_path [simp]: "pathtab (upd_path i f s) = tbl_upd pid i f (pathtab s)"
  and streamtab_upd_stream [simp]: "streamtab (upd_stream i h s) = tbl_upd sid i h (streamtab s)"
  and upd_other [simp]: "streamtab (upd_path i f s) = streamtab s" "pathtab (upd_stream i h s) = pathtab s"
    "departed (upd_path i f s) = departed s" "departed (upd_stream i h s) = departed s"
    "recv_cap_extra (upd_path i f s) = recv_cap_extra s" "recv_cap_extra (upd_stream i h s) = recv_cap_extra s"
    "next_path_id (upd_path i f s) = next_path_id s" "next_path_id (upd_stream i h s) = next_path_id s"
    "next_stream_id (upd_path i f s) = next_stream_id s" "next_stream_id (upd_stream i h s) = next_stream_id s"
    "is_client (upd_path i f s) = is_client s" "is_client (upd_stream i h s) = is_client s"
    "scfg (upd_path i f s) = scfg s" "scfg (upd_stream i h s) = scfg s"
  by (simp_all add: upd_path_def upd_stream_def)

section \<open>Stickiness\<close>

lemma sv_of_sticky: "sv_of (x\<lparr>sticky := k\<rparr>) = (sid x, k, map uv (unacked_q x), recv_cap x, st_initial_window x)"
  by (simp add: sv_of_def)

lemma in_tbl_upd: "q \<in> set (tbl_upd key i f xs) \<longleftrightarrow> (\<exists>p\<in>set xs. q = (if key p = i then f p else p))"
  unfolding tbl_upd_def set_map image_iff by (rule refl)

lemma tbl_upd_idfun [simp]: "tbl_upd key i (\<lambda>p. p) xs = xs"
  by (simp add: tbl_upd_def)

lemma map_pid_upd: "(\<And>p. pid (f p) = pid p) \<Longrightarrow> map pid (tbl_upd pid i f ps) = map pid ps"
  by (rule tbl_upd_id) simp

lemma sticky_fields [simp]:
  "pid (add_sticky p) = pid p" "inflight (add_sticky p) = inflight p"
  "pid (drop_sticky p) = pid p" "inflight (drop_sticky p) = inflight p"
  "sticky_streams (add_sticky p) = sticky_streams p + 1"
  "sticky_streams (drop_sticky p) = sticky_streams p - 1"
  by (simp_all add: add_sticky_def drop_sticky_def)

text \<open>The sticky of one stream moves from \<open>a\<close> to \<open>b\<close>, and the two paths' counters with it.\<close>

definition move_sticky :: "nat \<Rightarrow> nat \<Rightarrow> nat \<Rightarrow> session \<Rightarrow> session" where
  "move_sticky i a b s =
     (let s1 = upd_stream i (\<lambda>y. y\<lparr>sticky := b\<rparr>) s;
          a2 = (if a = 0 then s1 else upd_path a drop_sticky s1)
      in if b = 0 then a2 else upd_path b add_sticky a2)"

lemma acct_move_sticky:
  assumes a: "acct s" and x: "get_stream i s = Some x" and old: "sticky x = a"
    and b: "b < next_path_id s" "b \<noteq> a"
  shows "acct (move_sticky i a b s)"
proof -
  let ?t = "move_sticky i a b s"
  have ids: "ids_ok s" using a by (simp add: acct_iff)
  from stream_split[OF ids x] obtain as bs where sp: "streamtab s = as @ x # bs" "sid x = i"
    "\<And>f. tbl_upd sid i f (streamtab s) = as @ f x # bs" by metis
  have xt: "xs_of ?t = map sv_of as @ (i, b, map uv (unacked_q x), recv_cap x, st_initial_window x) # map sv_of bs"
    using sp by (simp add: xs_of_def move_sticky_def Let_def sv_of_sticky)
  have xs: "xs_of s = map sv_of as @ (i, a, map uv (unacked_q x), recv_cap x, st_initial_window x) # map sv_of bs"
    using sp old by (simp add: xs_of_def sv_of_def)
  have ch: "charged k (xs_of ?t) = charged k (xs_of s)" for k by (simp add: xt xs)
  have st: "stuck k (xs_of ?t) + (if a = k then 1 else 0) = stuck k (xs_of s) + (if b = k then 1 else 0)" for k
    by (simp add: xt xs)
  have pt: "pathtab ?t = tbl_upd pid b (if b = 0 then (\<lambda>p. p) else add_sticky)
              (tbl_upd pid a (if a = 0 then (\<lambda>p. p) else drop_sticky) (pathtab s))"
    by (simp add: move_sticky_def Let_def)
  show ?thesis
  proof (rule acctI[OF a])
    show "map pid (pathtab ?t) = map pid (pathtab s)" by (simp add: pt map_pid_upd)
  next
    fix q assume "q \<in> set (pathtab ?t)"
    then obtain p where p: "p \<in> set (pathtab s)"
      "q = (let r = (if pid p = a \<and> a \<noteq> 0 then drop_sticky p else p)
            in if pid r = b \<and> b \<noteq> 0 then add_sticky r else r)"
      by (auto simp: pt in_tbl_upd Let_def)
    have pos: "0 < pid p" using a p(1) by (auto simp: acct_iff pv_def)
    have "pid q = pid p" "inflight q = inflight p" using p(2) by (auto simp: Let_def)
    moreover have "sticky_streams p = stuck (pid p) (xs_of s) \<longrightarrow> sticky_streams q = stuck (pid p) (xs_of ?t)"
      using p(2) st[of "pid p"] b(2) pos by (auto simp: Let_def split: if_splits)
    ultimately show "\<exists>p\<in>set (pathtab s). pid q = pid p
        \<and> (inflight p = charged (pid p) (xs_of s) \<longrightarrow> inflight q = charged (pid q) (xs_of ?t))
        \<and> (sticky_streams p = stuck (pid p) (xs_of s) \<longrightarrow> sticky_streams q = stuck (pid q) (xs_of ?t))"
      using p(1) ch by metis
  next
    have "map sid (streamtab ?t) = map sid (streamtab s)"
      by (simp add: move_sticky_def Let_def tbl_upd_id)
    then show "distinct (map sid (streamtab ?t))" using ids by (simp add: ids_ok_def)
  next
    fix y assume y: "y \<in> set (streamtab ?t)"
    have "set (streamtab ?t) \<subseteq> insert (x\<lparr>sticky := b\<rparr>) (set (streamtab s))"
      using sp by (auto simp: move_sticky_def Let_def)
    with y consider "y \<in> set (streamtab s)" | "y = x\<lparr>sticky := b\<rparr>" by blast
    then show "stream_ok (next_path_id s) (next_stream_id s) (is_client s) (stuning s) (sv_of y)"
    proof cases
      case 1
      then show ?thesis by (rule acct_stream[OF a])
    next
      case 2
      have "x \<in> set (streamtab s)" by (simp add: sp(1))
      from acct_stream[OF a this] b(1) show ?thesis unfolding 2 sv_of_def by simp
    qed
  next
    have "lent (xs_of ?t) = lent (xs_of s)" by (simp add: xt xs)
    moreover have "ds_lent ?t = ds_lent s" "recv_cap_extra ?t = recv_cap_extra s"
      by (simp_all add: ds_lent_def move_sticky_def Let_def)
    ultimately show "recv_cap_extra ?t = lent (xs_of ?t) + ds_lent ?t" using a by (simp add: acct_iff)
  qed (simp_all add: move_sticky_def Let_def)
qed

lemma upd_commute: "upd_stream i f (upd_path k g s) = upd_path k g (upd_stream i f s)"
  by (simp add: upd_stream_def upd_path_def)

lemma acct_set_sticky [view_simps]:
  assumes a: "acct s" and k: "0 < k" "k < next_path_id s"
  shows "acct (set_sticky now i k s)"
proof (cases "get_stream i s")
  case (Some x)
  show ?thesis
  proof (cases "\<not> is_steerable x \<or> sticky x = k")
    case False
    have "acct (move_sticky i (sticky x) k s)" using a Some k False by (intro acct_move_sticky) auto
    moreover have "set_sticky now i k s =
        (if sticky x = 0 then move_sticky i (sticky x) k s
         else upd_stream i (note_stick_change now) (move_sticky i (sticky x) k s))"
      using Some False k by (simp add: set_sticky_def move_sticky_def Let_def upd_commute)
    ultimately show ?thesis by (cases "sticky x = 0") (simp_all add: view_simps)
  qed (simp add: set_sticky_def Some a)
qed (simp add: set_sticky_def a)

lemma acct_unstick [view_simps]: "acct s \<Longrightarrow> acct (unstick i s)"
proof -
  assume a: "acct s"
  show ?thesis
  proof (cases "get_stream i s")
    case (Some x)
    have "sticky x \<noteq> 0 \<Longrightarrow> unstick i s = move_sticky i (sticky x) 0 s"
      using Some by (simp add: unstick_def move_sticky_def Let_def)
    moreover have "sticky x \<noteq> 0 \<Longrightarrow> acct (move_sticky i (sticky x) 0 s)"
      using a Some by (intro acct_move_sticky) (auto simp: acct_iff)
    ultimately show ?thesis using a Some by (cases "sticky x = 0") (simp_all add: unstick_def)
  qed (simp add: unstick_def a)
qed

end
