(* ===== verification/Session_Custody.thy ===== *)
theory Session_Custody
  imports Session_Account
begin

text \<open>
  Custody moves: a piece is charged, changes path, is acknowledged, or leaves with its stream.
  Each move changes one stream's pieces and the inflight counts of at most two paths, and keeps
  the books.
\<close>

section \<open>One stream's pieces and the paths they ride\<close>

abbreviation on_path :: "nat \<Rightarrow> (nat \<times> unacked) list \<Rightarrow> nat" where
  "on_path k q \<equiv> pieces_on k (map uv q)"

lemma pieces_split:
  assumes "distinct (map fst q)" "map_of q off = Some u"
  obtains q1 q2 where "q = q1 @ (off, u) # q2"
    "\<And>f. map (\<lambda>(k, u). (k, if k = off then f u else u)) q = q1 @ (off, f u) # q2"
    "bt_remove off q = q1 @ q2"
proof -
  have "(off, u) \<in> set q" using assms(2) by (rule map_of_SomeD)
  then obtain q1 q2 where q: "q = q1 @ (off, u) # q2" by (meson split_list)
  have d: "off \<notin> fst ` set q1" "off \<notin> fst ` set q2" using assms(1) unfolding q by auto
  have keep: "map (\<lambda>(k, u). (k, if k = off then f u else u)) r = r" if "off \<notin> fst ` set r" for f r
    using that by (induction r) auto
  have rem: "bt_remove off r = r" if "off \<notin> fst ` set r" for r
    using that by (induction r) (auto simp: bt_remove_def)
  have "map (\<lambda>(k, u). (k, if k = off then f u else u)) q = q1 @ (off, f u) # q2" for f
    unfolding q using keep[OF d(1)] keep[OF d(2)] by simp
  moreover have "bt_remove off q = q1 @ q2"
    unfolding q using rem[OF d(1)] rem[OF d(2)] by (simp add: bt_remove_def)
  ultimately show ?thesis using that q by blast
qed

lemma map_fst_uv: "map fst (map uv q) = map fst q"
  by (simp add: uv_def)

lemma stream_ok_pieces:
  "stream_ok n m c t (sv_of x) \<Longrightarrow> distinct (map fst (unacked_q x))"
  "stream_ok n m c t (sv_of x) \<Longrightarrow> (k, u) \<in> set (unacked_q x) \<Longrightarrow> 0 < ua_path u \<and> ua_path u < n"
proof -
  assume ok: "stream_ok n m c t (sv_of x)"
  have "map fst (map uv (unacked_q x)) = map fst (unacked_q x)" by (rule map_fst_uv)
  then show "distinct (map fst (unacked_q x))" using ok unfolding sv_of_def stream_ok.simps by metis
  show "(k, u) \<in> set (unacked_q x) \<Longrightarrow> 0 < ua_path u \<and> ua_path u < n"
    using ok unfolding sv_of_def stream_ok.simps by (auto simp: uv_def)
qed

text \<open>A new set of pieces for a stream, and the same change on the inflight counts.\<close>

lemma acct_swap:
  assumes a: "acct s" and x: "get_stream i s = Some x"
    and y: "sid y = i" "sticky y = sticky x" "recv_cap y = recv_cap x"
      "st_initial_window y = st_initial_window x"
    and q: "distinct (map fst (unacked_q y))"
      "\<And>k u. (k, u) \<in> set (unacked_q y) \<Longrightarrow> 0 < ua_path u \<and> ua_path u < next_path_id s"
    and g: "\<And>p. p \<in> set (pathtab s) \<Longrightarrow> pid (g p) = pid p \<and> sticky_streams (g p) = sticky_streams p
        \<and> (inflight p = charged (pid p) (xs_of s) \<longrightarrow>
            inflight (g p) + on_path (pid p) (unacked_q x) = inflight p + on_path (pid p) (unacked_q y))"
    and t: "pathtab t = map g (pathtab s)" "streamtab t = tbl_upd sid i (\<lambda>_. y) (streamtab s)"
      "next_path_id t = next_path_id s" "next_stream_id t = next_stream_id s" "is_client t = is_client s"
      "scfg t = scfg s" "departed t = departed s" "recv_cap_extra t = recv_cap_extra s"
  shows "acct t"
proof -
  have ids: "ids_ok s" using a by (rule acct_ids)
  from stream_split[OF ids x] obtain as bs where sp: "streamtab s = as @ x # bs" "sid x = i"
    "\<And>f. tbl_upd sid i f (streamtab s) = as @ f x # bs" by metis
  have xt: "xs_of t = map sv_of as @ sv_of y # map sv_of bs" using sp by (simp add: xs_of_def t)
  have xs: "xs_of s = map sv_of as @ sv_of x # map sv_of bs" using sp by (simp add: xs_of_def)
  have ch: "charged k (xs_of t) + on_path k (unacked_q x) = charged k (xs_of s) + on_path k (unacked_q y)"
    for k unfolding xt xs by (simp add: sv_of_def)
  have st: "stuck k (xs_of t) = stuck k (xs_of s)" for k unfolding xt xs using y by (simp add: sv_of_def)
  show ?thesis
  proof (rule acctI[OF a])
    have "map pid (map g (pathtab s)) = map pid (pathtab s)" using g by simp
    then show "map pid (pathtab t) = map pid (pathtab s)" by (simp only: t)
  next
    fix p assume "p \<in> set (pathtab t)"
    then obtain p0 where p0: "p0 \<in> set (pathtab s)" "p = g p0" by (auto simp: t)
    have "pid p = pid p0" "sticky_streams p = sticky_streams p0"
      "inflight p0 = charged (pid p0) (xs_of s) \<Longrightarrow> inflight p = charged (pid p0) (xs_of t)"
      using g[OF p0(1)] ch[of "pid p0"] p0(2) by auto
    then show "\<exists>p0\<in>set (pathtab s). pid p = pid p0
        \<and> (inflight p0 = charged (pid p0) (xs_of s) \<longrightarrow> inflight p = charged (pid p) (xs_of t))
        \<and> (sticky_streams p0 = stuck (pid p0) (xs_of s) \<longrightarrow> sticky_streams p = stuck (pid p) (xs_of t))"
      using p0(1) st by metis
  next
    have "map sid (streamtab t) = map sid (streamtab s)" using sp y(1) by (simp add: t)
    then show "distinct (map sid (streamtab t))" using ids by (simp add: ids_ok_def)
  next
    fix z assume "z \<in> set (streamtab t)"
    then consider "z \<in> set (streamtab s)" | "z = y" using sp by (auto simp: t)
    then show "stream_ok (next_path_id s) (next_stream_id s) (is_client s) (stuning s) (sv_of z)"
    proof cases
      case 1
      then show ?thesis by (rule acct_stream[OF a])
    next
      case 2
      have "x \<in> set (streamtab s)" by (simp add: sp(1))
      from acct_stream[OF a this] y q sp(2) show ?thesis
        unfolding 2 sv_of_def stream_ok.simps map_fst_uv by (auto simp: uv_def)
    qed
  next
    have "lent (xs_of t) = lent (xs_of s)" unfolding xt xs using y by (simp add: sv_of_def)
    then show "recv_cap_extra t = lent (xs_of t) + ds_lent t"
      using a by (simp add: acct_iff ds_lent_def t)
  qed (simp_all add: t)
qed

lemma tbl_upd_as_map: "tbl_upd key i f xs = map (\<lambda>x. if key x = i then f x else x) xs"
  by (simp add: tbl_upd_def)

lemma inflight_fields [simp]:
  "pid (add_inflight n p) = pid p" "sticky_streams (add_inflight n p) = sticky_streams p"
  "inflight (add_inflight n p) = inflight p + n"
  "pid (sub_inflight n p) = pid p" "sticky_streams (sub_inflight n p) = sticky_streams p"
  "inflight (sub_inflight n p) = inflight p - n"
  by (simp_all add: add_inflight_def sub_inflight_def)

lemma charged_ge:
  assumes "ids_ok s" "get_stream i s = Some x"
  shows "on_path k (unacked_q x) \<le> charged k (xs_of s)"
proof -
  from stream_split[OF assms] obtain as bs where "streamtab s = as @ x # bs" by metis
  then show ?thesis by (simp add: xs_of_def sv_of_def)
qed

section \<open>A piece changes path\<close>

lemma acct_rehome:
  assumes a: "acct s" and b: "0 < b" "b < next_path_id s"
  shows "acct (rehome_unacked now i off b s)"
proof (cases "get_piece i off s")
  case (Some u)
  then obtain x where x: "get_stream i s = Some x" and u: "map_of (unacked_q x) off = Some u"
    by (auto simp: get_piece_def split: option.splits)
  have ids: "ids_ok s" using a by (rule acct_ids)
  have xin: "x \<in> set (streamtab s)" "sid x = i" using get_stream_sid[OF x] by auto
  note xok = acct_stream[OF a xin(1)]
  obtain q1 q2 where q: "unacked_q x = q1 @ (off, u) # q2"
      "\<And>f. map (\<lambda>(k, u). (k, if k = off then f u else u)) (unacked_q x) = q1 @ (off, f u) # q2"
    by (rule pieces_split[OF stream_ok_pieces(1)[OF xok] u]) (rule that)
  let ?s1 = "xfer_inflight (ua_path u) b (ua_len u) s"
  let ?f = "\<lambda>u. case get_path b ?s1 of Some p \<Rightarrow> stamp now p (moved_piece now b u)
                                     | None \<Rightarrow> moved_piece now b u"
  define v where "v = ?f u"
  let ?y = "x\<lparr>unacked_q := q1 @ (off, v) # q2\<rparr>"
  have f0: "ua_path (case g of Some p \<Rightarrow> stamp now p (moved_piece now b u) | None \<Rightarrow> moved_piece now b u) = b
      \<and> ua_len (case g of Some p \<Rightarrow> stamp now p (moved_piece now b u) | None \<Rightarrow> moved_piece now b u) = ua_len u"
    for g by (cases g) (simp_all add: stamp_def moved_piece_def ua_len_def)
  have f: "ua_path v = b" "ua_len v = ua_len u" using f0[of "get_path b ?s1"] by (simp_all add: v_def)
  let ?g = "\<lambda>p. if ua_path u = b \<or> ua_len u = 0 then p
      else (if pid p = b then add_inflight (ua_len u) else (\<lambda>p. p))
             ((if pid p = ua_path u then sub_inflight (ua_len u) else (\<lambda>p. p)) p)"
  have st: "streamtab (rehome_unacked now i off b s) = tbl_upd sid i (\<lambda>_. ?y) (streamtab s)"
  proof -
    from stream_split[OF ids x] obtain as bs where sp: "streamtab s = as @ x # bs"
      "\<And>f. tbl_upd sid i f (streamtab s) = as @ f x # bs" by metis
    have "streamtab ?s1 = streamtab s" by (simp add: xfer_inflight_def)
    then show ?thesis using Some sp by (simp add: rehome_unacked_def Let_def upd_piece_def q(2) v_def)
  qed
  have pt: "pathtab (rehome_unacked now i off b s) = map ?g (pathtab s)"
    using Some by (auto simp: rehome_unacked_def Let_def upd_piece_def xfer_inflight_def tbl_upd_as_map)
  have len: "on_path k (unacked_q ?y) + (if ua_path u = k then ua_len u else 0)
           = on_path k (unacked_q x) + (if b = k then ua_len u else 0)" for k
    using f by (simp add: q(1) uv_def)
  show ?thesis
  proof (rule acct_swap[OF a x, of ?y ?g])
    show "distinct (map fst (unacked_q ?y))"
      using stream_ok_pieces(1)[OF xok] by (simp add: q(1))
    show "0 < ua_path v \<and> ua_path v < next_path_id s" if "(k, v) \<in> set (unacked_q ?y)" for k v
      using that stream_ok_pieces(2)[OF xok] f b by (auto simp: q(1))
    show "pid (?g p) = pid p \<and> sticky_streams (?g p) = sticky_streams p
        \<and> (inflight p = charged (pid p) (xs_of s) \<longrightarrow>
            inflight (?g p) + on_path (pid p) (unacked_q x) = inflight p + on_path (pid p) (unacked_q ?y))"
      for p
    proof -
      have "ua_path u = pid p \<Longrightarrow> ua_len u \<le> on_path (pid p) (unacked_q x)" by (simp add: q(1) uv_def)
      then have le: "inflight p = charged (pid p) (xs_of s) \<Longrightarrow> ua_path u = pid p \<Longrightarrow> ua_len u \<le> inflight p"
        using charged_ge[OF ids x, of "pid p"] by linarith
      have "inflight p = charged (pid p) (xs_of s) \<Longrightarrow>
          inflight (?g p) + (if ua_path u = pid p then ua_len u else 0)
            = inflight p + (if b = pid p then ua_len u else 0)"
        using le by simp
      moreover have "pid (?g p) = pid p" "sticky_streams (?g p) = sticky_streams p" by simp_all
      ultimately show ?thesis using len[of "pid p"] by linarith
    qed
  qed (simp_all add: xin(2) pt st, simp_all add: rehome_unacked_def Some Let_def upd_piece_def xfer_inflight_def)
qed (simp add: rehome_unacked_def a)

section \<open>A piece is acknowledged\<close>

lemma get_piece_split:
  assumes "acct s" "get_piece i off s = Some u"
  obtains x q1 q2 where "get_stream i s = Some x" "unacked_q x = q1 @ (off, u) # q2"
    "bt_remove off (unacked_q x) = q1 @ q2" "x \<in> set (streamtab s)" "sid x = i"
    "stream_ok (next_path_id s) (next_stream_id s) (is_client s) (stuning s) (sv_of x)"
proof -
  from assms(2) obtain x where x: "get_stream i s = Some x" and u: "map_of (unacked_q x) off = Some u"
    by (auto simp: get_piece_def split: option.splits)
  have xin: "x \<in> set (streamtab s)" "sid x = i" using get_stream_sid[OF x] by auto
  note xok = acct_stream[OF assms(1) xin(1)]
  show ?thesis
    by (rule pieces_split[OF stream_ok_pieces(1)[OF xok] u]) (rule that[OF x _ _ xin xok])
qed

text \<open>Dropping a piece with the change on its path, if the path is still there.\<close>

lemma acct_drop_piece:
  assumes a: "acct s" and u: "get_piece i off s = Some u"
    and g: "\<And>p. p \<in> set (pathtab s) \<Longrightarrow> pv (g p) = (if pid p = ua_path u then pv (sub_inflight (ua_len u) p) else pv p)"
  shows "acct ((drop_piece i off s)\<lparr>pathtab := map g (pathtab s)\<rparr>)"
proof -
  from get_piece_split[OF a u] obtain x q1 q2 where x: "get_stream i s = Some x"
    and q: "unacked_q x = q1 @ (off, u) # q2" "bt_remove off (unacked_q x) = q1 @ q2"
    and xin: "x \<in> set (streamtab s)" "sid x = i"
    and xok: "stream_ok (next_path_id s) (next_stream_id s) (is_client s) (stuning s) (sv_of x)" .
  have ids: "ids_ok s" using a by (rule acct_ids)
  let ?y = "x\<lparr>unacked_q := q1 @ q2\<rparr>"
  have len: "on_path k (unacked_q ?y) + (if ua_path u = k then ua_len u else 0) = on_path k (unacked_q x)" for k
    by (simp add: q(1) uv_def)
  show ?thesis
  proof (rule acct_swap[OF a x, of ?y g])
    show "distinct (map fst (unacked_q ?y))" using stream_ok_pieces(1)[OF xok] by (simp add: q(1))
    show "0 < ua_path w \<and> ua_path w < next_path_id s" if "(k, w) \<in> set (unacked_q ?y)" for k w
      using that stream_ok_pieces(2)[OF xok] by (auto simp: q(1))
    show "pid (g p) = pid p \<and> sticky_streams (g p) = sticky_streams p
        \<and> (inflight p = charged (pid p) (xs_of s) \<longrightarrow>
            inflight (g p) + on_path (pid p) (unacked_q x) = inflight p + on_path (pid p) (unacked_q ?y))"
      if p: "p \<in> set (pathtab s)" for p
    proof -
      have le: "inflight p = charged (pid p) (xs_of s) \<Longrightarrow> ua_path u = pid p \<Longrightarrow> ua_len u \<le> inflight p"
        using charged_ge[OF ids x, of "pid p"] len[of "pid p"] by simp
      have "pid (g p) = pid p" "sticky_streams (g p) = sticky_streams p"
        "inflight (g p) = (if pid p = ua_path u then inflight p - ua_len u else inflight p)"
        using g[OF p] by (auto simp: pv_def split: if_splits)
      with le len[of "pid p"] show ?thesis by (auto split: if_splits)
    qed
    show "streamtab ((drop_piece i off s)\<lparr>pathtab := map g (pathtab s)\<rparr>) = tbl_upd sid i (\<lambda>_. ?y) (streamtab s)"
    proof -
      from stream_split[OF ids x] obtain as bs where sp: "streamtab s = as @ x # bs"
        "\<And>f. tbl_upd sid i f (streamtab s) = as @ f x # bs" by metis
      show ?thesis using sp by (simp add: drop_piece_def q(2))
    qed
  qed (simp_all add: xin(2), simp_all add: drop_piece_def)
qed

lemma pv_released:
  "pv (ack_rtt_sample now s n u d (note_ack_clock now t u d (sub_inflight (ua_len u) p)))
    = pv (sub_inflight (ua_len u) p)"
  by (simp add: view_simps)

lemma acct_ack_piece:
  assumes a: "acct s" and u: "get_piece i off s = Some u"
  shows "acct (ack_piece now i (off, u) s)"
proof (cases "get_path (ua_path u) s")
  case None
  have "acct ((drop_piece i off s)\<lparr>pathtab := map (\<lambda>p. p) (pathtab s)\<rparr>)"
  proof (rule acct_drop_piece[OF a u])
    fix p assume "p \<in> set (pathtab s)"
    then have "pid p \<noteq> ua_path u" using None by (auto simp: get_path_def tbl_find_None)
    then show "pv p = (if pid p = ua_path u then pv (sub_inflight (ua_len u) p) else pv p)" by simp
  qed
  moreover have "(drop_piece i off s)\<lparr>pathtab := map (\<lambda>p. p) (pathtab s)\<rparr> = drop_piece i off s"
    by (simp add: drop_piece_def upd_stream_def)
  ultimately have "acct (drop_piece i off s)" by metis
  moreover have "get_path (ua_path u) (drop_piece i off s) = None"
    using None by (simp add: drop_piece_def get_path_def)
  ultimately show ?thesis by (simp add: release_piece_def)
next
  case (Some p)
  let ?d = "drop_piece i off s" and ?e = "elapsed now (ua_last_sent u)"
  define r where "r = ack_rtt_sample now ?d (inflight p) u ?e
      (note_ack_clock now (stuning s) u ?e (sub_inflight (ua_len u) p))"
  let ?t = "?d\<lparr>pathtab := map (\<lambda>q. if pid q = ua_path u then r else q) (pathtab s)\<rparr>"
  have "acct ?t"
  proof (rule acct_drop_piece[OF a u])
    fix q assume q: "q \<in> set (pathtab s)"
    have "pid q = ua_path u \<Longrightarrow> q = p"
      using get_path_pid[OF Some] q acct_ids[OF a] unique_key[of pid "pathtab s" q p] by (simp add: ids_ok_def)
    then show "pv (if pid q = ua_path u then r else q)
        = (if pid q = ua_path u then pv (sub_inflight (ua_len u) q) else pv q)"
      by (simp add: r_def pv_released)
  qed
  moreover have "upd_path (ua_path u) (\<lambda>_. r) ?d = ?t"
    by (simp add: upd_path_def drop_piece_def upd_stream_def tbl_upd_def)
  moreover have "get_path (ua_path u) ?d = Some p" "stuning ?d = stuning s"
    using Some by (simp_all add: get_path_def drop_piece_def)
  ultimately show ?thesis
    by (simp add: release_piece_def Let_def r_def[symmetric] view_simps)
qed

lemma get_piece_ack_other:
  assumes "j \<noteq> off" shows "get_piece i j (ack_piece now i (off, u) s) = get_piece i j s"
proof -
  have "streamtab (ack_piece now i (off, u) s) = tbl_upd sid i (\<lambda>x. x\<lparr>unacked_q := bt_remove off (unacked_q x)\<rparr>) (streamtab s)"
    by (simp add: release_piece_def Let_def drop_piece_def observe_def split: option.splits)
  moreover have "tbl_find sid i (tbl_upd sid i f xs) = map_option f (tbl_find sid i xs)"
    if "\<And>x. sid (f x) = sid x" for f and xs :: "stream_state list"
    using that by (induction xs) (auto simp: tbl_find_def tbl_upd_def)
  ultimately show ?thesis using assms
    by (simp add: get_piece_def get_stream_def bt_lookup_remove split: option.splits)
qed

lemma acct_ack_pieces:
  assumes "acct s" "distinct (map fst due)" "\<And>k u. (k, u) \<in> set due \<Longrightarrow> get_piece i k s = Some u"
  shows "acct (fold (ack_piece now i) due s)"
  using assms
proof (induction due arbitrary: s)
  case (Cons ku due)
  obtain k u where ku: "ku = (k, u)" by (cases ku)
  have "acct (ack_piece now i (k, u) s)" using Cons.prems(1,3) ku by (intro acct_ack_piece) auto
  moreover have "get_piece i j (ack_piece now i (k, u) s) = Some w" if "(j, w) \<in> set due" for j w
  proof -
    have "j \<noteq> k" using that Cons.prems(2) ku by (auto simp: image_iff)
    with that Cons.prems(3) ku show ?thesis by (simp add: get_piece_ack_other del: ack_piece.simps)
  qed
  ultimately show ?case using Cons ku by (simp del: ack_piece.simps)
qed simp

lemma pieces_due:
  assumes "acct s" "get_stream i s = Some x" "due = filter P (unacked_q x)"
  shows "distinct (map fst due)" "\<And>k u. (k, u) \<in> set due \<Longrightarrow> get_piece i k s = Some u"
proof -
  have "x \<in> set (streamtab s)" using get_stream_sid[OF assms(2)] by simp
  then have d: "distinct (map fst (unacked_q x))"
    using acct_stream[OF assms(1)] stream_ok_pieces(1) by blast
  then show "distinct (map fst due)" unfolding assms(3) by (rule distinct_map_fst_filter)
  show "get_piece i k s = Some u" if "(k, u) \<in> set due" for k u
    using that assms(2,3) d by (simp add: get_piece_def)
qed

lemma tbl_find_upd:
  "(\<And>x. key (f x) = key x) \<Longrightarrow> tbl_find key i (tbl_upd key i f xs) = map_option f (tbl_find key i xs)"
  by (induction xs) (auto simp: tbl_find_def tbl_upd_def)

lemma get_stream_upd:
  "(\<And>x. sid (f x) = sid x) \<Longrightarrow> get_stream i (upd_stream i f s) = map_option f (get_stream i s)"
  by (simp add: get_stream_def tbl_find_upd)

lemma acct_ack_cumulative [view_simps]:
  assumes a: "acct s" shows "acct (ack_cumulative now k s)"
proof (cases "get_stream (sa_stream_id k) s")
  case (Some x)
  let ?t = "upd_stream (sa_stream_id k) (\<lambda>y. y\<lparr>send_acked := sa_acked_offset k, last_ack_ms := max (mono_ms now) 1\<rparr>) s"
  have t: "acct ?t" using a by (intro keeps_upd_stream) (simp_all add: sv_of_def)
  have x: "get_stream (sa_stream_id k) ?t = Some (x\<lparr>send_acked := sa_acked_offset k, last_ack_ms := max (mono_ms now) 1\<rparr>)"
    using Some by (simp add: get_stream_upd)
  have "acct (fold (ack_piece now (sa_stream_id k)) (filter (acked_by (sa_acked_offset k)) (unacked_q x)) ?t)"
    by (rule acct_ack_pieces[OF t]) (use pieces_due[OF t x, of _ "acked_by (sa_acked_offset k)"] in simp_all)
  then show ?thesis using a Some by (simp add: ack_cumulative_def Let_def)
qed (simp add: ack_cumulative_def a)

lemma acct_ack_selective [view_simps]:
  assumes a: "acct s" shows "acct (ack_selective now k s)"
proof (cases "get_stream (sa_stream_id k) s")
  case (Some x)
  have "acct (fold (ack_piece now (sa_stream_id k)) (filter (sacked_by (sa_sack k)) (unacked_q x)) s)"
    by (rule acct_ack_pieces[OF a]) (use pieces_due[OF a Some, of _ "sacked_by (sa_sack k)"] in simp_all)
  then show ?thesis using Some a
    by (simp add: ack_selective_def Let_def view_simps sv_of_def)
qed (simp add: ack_selective_def a)

lemma acct_on_ack [view_simps]: "acct s \<Longrightarrow> acct (on_ack now k s)"
  by (simp add: on_ack_def Let_def view_simps)

end
