(* ===== verification/Session_Turnover.thy ===== *)
theory Session_Turnover
  imports Session_Custody
begin

text \<open>
  Streams and paths come and go: a stream enters the table, leaves it with its pieces, its last
  holder lets go; a path is added or leaves the pool; a window is tuned. Each keeps the books.
\<close>

section \<open>A stream leaves\<close>

fun credit :: "(nat \<times> unacked) list \<Rightarrow> path_state \<Rightarrow> path_state" where
  "credit [] p = p"
| "credit ((k, u) # q) p = credit q (if pid p = ua_path u then sub_inflight (ua_len u) p else p)"

lemma credit_fields:
  "pid (credit q p) = pid p" "sticky_streams (credit q p) = sticky_streams p"
  "inflight (credit q p) = inflight p - on_path (pid p) q"
  by (induction q p rule: credit.induct) (auto simp: uv_def)

lemma release_pieces_eq:
  "release_pieces (map snd q) s = s\<lparr>pathtab := map (credit q) (pathtab s)\<rparr>"
proof (induction q arbitrary: s)
  case Nil
  then show ?case by (simp add: release_pieces_def)
next
  case (Cons ku q)
  obtain k u where ku: "ku = (k, u)" by (cases ku)
  have "release_pieces (map snd (ku # q)) s = release_pieces (map snd q) (credit_piece u s)"
    by (simp add: release_pieces_def ku)
  also have "\<dots> = (credit_piece u s)\<lparr>pathtab := map (credit q) (pathtab (credit_piece u s))\<rparr>"
    by (rule Cons.IH)
  also have "\<dots> = s\<lparr>pathtab := map (credit (ku # q)) (pathtab s)\<rparr>"
    by (simp add: credit_piece_def upd_path_def tbl_upd_def ku)
  finally show ?case .
qed

definition unstuck :: "nat \<Rightarrow> path_state \<Rightarrow> path_state" where
  "unstuck k p = (if k \<noteq> 0 \<and> pid p = k then drop_sticky p else p)"

lemma unstuck_fields:
  "pid (unstuck k p) = pid p" "inflight (unstuck k p) = inflight p"
  "sticky_streams (unstuck k p) = (if k \<noteq> 0 \<and> pid p = k then sticky_streams p - 1 else sticky_streams p)"
  by (simp_all add: unstuck_def)

lemma remove_held_eq:
  assumes "get_stream i s = Some x"
  shows "pathtab (remove_held_stream i s) = map (credit (unacked_q x) \<circ> unstuck (sticky x)) (pathtab s)"
    "streamtab (remove_held_stream i s) = tbl_del sid i (streamtab s)"
    "departed (remove_held_stream i s) = x\<lparr>sticky := 0, unacked_q := [], gone := True\<rparr> # departed s"
    "recv_cap_extra (remove_held_stream i s) = recv_cap_extra s"
    "next_path_id (remove_held_stream i s) = next_path_id s"
    "next_stream_id (remove_held_stream i s) = next_stream_id s"
    "is_client (remove_held_stream i s) = is_client s" "scfg (remove_held_stream i s) = scfg s"
proof -
  have u: "map (unstuck 0) ps = ps" "k \<noteq> 0 \<Longrightarrow> map (unstuck k) ps = tbl_upd pid k drop_sticky ps" for k ps
    by (simp_all add: unstuck_def tbl_upd_def cong: map_cong)
  note d = assms remove_held_stream_def Let_def release_pieces_eq forget_open_def
  show "pathtab (remove_held_stream i s) = map (credit (unacked_q x) \<circ> unstuck (sticky x)) (pathtab s)"
    using u by (cases "sticky x = 0") (simp_all add: d flip: map_map)
  show "streamtab (remove_held_stream i s) = tbl_del sid i (streamtab s)"
    "departed (remove_held_stream i s) = x\<lparr>sticky := 0, unacked_q := [], gone := True\<rparr> # departed s"
    "recv_cap_extra (remove_held_stream i s) = recv_cap_extra s"
    "next_path_id (remove_held_stream i s) = next_path_id s"
    "next_stream_id (remove_held_stream i s) = next_stream_id s"
    "is_client (remove_held_stream i s) = is_client s" "scfg (remove_held_stream i s) = scfg s"
    by (simp_all add: d)
qed

lemma acct_remove_held [view_simps]:
  assumes a: "acct s" shows "acct (remove_held_stream i s)"
proof (cases "get_stream i s")
  case (Some x)
  let ?t = "remove_held_stream i s"
  note eq = remove_held_eq[OF Some]
  have ids: "ids_ok s" using a by (rule acct_ids)
  from stream_split[OF ids Some] obtain as bs where sp: "streamtab s = as @ x # bs" "sid x = i"
    "tbl_del sid i (streamtab s) = as @ bs" by metis
  have xt: "xs_of ?t = map sv_of as @ map sv_of bs" using sp by (simp add: xs_of_def eq)
  have xs: "xs_of s = map sv_of as @ sv_of x # map sv_of bs" using sp by (simp add: xs_of_def)
  have ch: "charged k (xs_of s) = charged k (xs_of ?t) + on_path k (unacked_q x)" for k
    unfolding xt xs by (simp add: sv_of_def)
  have st: "stuck k (xs_of s) = stuck k (xs_of ?t) + (if sticky x = k then 1 else 0)" for k
    unfolding xt xs by (simp add: sv_of_def)
  show ?thesis
  proof (rule acctI[OF a])
    show "map pid (pathtab ?t) = map pid (pathtab s)" by (simp add: eq credit_fields unstuck_fields)
  next
    fix q assume "q \<in> set (pathtab ?t)"
    then obtain p where p: "p \<in> set (pathtab s)" "q = credit (unacked_q x) (unstuck (sticky x) p)"
      by (auto simp: eq)
    have pos: "0 < pid p" using acct_path[OF a p(1)] by (simp add: pv_def)
    have "pid q = pid p" "inflight q = inflight p - on_path (pid p) (unacked_q x)"
      "sticky_streams q = sticky_streams p - (if sticky x = pid p then 1 else 0)"
      using pos by (auto simp: p(2) credit_fields unstuck_fields)
    then show "\<exists>p\<in>set (pathtab s). pid q = pid p
        \<and> (inflight p = charged (pid p) (xs_of s) \<longrightarrow> inflight q = charged (pid q) (xs_of ?t))
        \<and> (sticky_streams p = stuck (pid p) (xs_of s) \<longrightarrow> sticky_streams q = stuck (pid q) (xs_of ?t))"
      using p(1) ch[of "pid p"] st[of "pid p"] by (intro bexI[OF _ p(1)]) simp
  next
    show "distinct (map sid (streamtab ?t))" using ids sp by (simp add: ids_ok_def eq)
  next
    fix y assume "y \<in> set (streamtab ?t)"
    then have "y \<in> set (streamtab s)" using sp by (auto simp: eq)
    then show "stream_ok (next_path_id s) (next_stream_id s) (is_client s) (stuning s) (sv_of y)"
      by (rule acct_stream[OF a])
  next
    have "lent (xs_of s) = lent (xs_of ?t) + (recv_cap x - st_initial_window x)"
      unfolding xt xs by (simp add: sv_of_def)
    moreover have "ds_lent ?t = (recv_cap x - st_initial_window x) + ds_lent s"
      by (simp add: ds_lent_def eq dv_def)
    ultimately show "recv_cap_extra ?t = lent (xs_of ?t) + ds_lent ?t"
      using a by (simp add: acct_iff eq)
  qed (simp_all add: eq)
qed (simp add: remove_held_stream_def a)

lemma acct_drop_departed [view_simps]:
  assumes a: "acct s" shows "acct (drop_departed n s)"
proof (cases "n < length (departed s)")
  case True
  let ?x = "departed s ! n"
  have dep: "departed s = take n (departed s) @ ?x # drop (Suc n) (departed s)"
    using True by (rule id_take_nth_drop)
  define lo where "lo = take n (departed s)"
  define hi where "hi = drop (Suc n) (departed s)"
  have dep': "departed s = lo @ ?x # hi" using dep unfolding lo_def hi_def .
  have "ds_lent s = (\<Sum>(cap, win)\<leftarrow>map dv lo. cap - win) + (recv_cap ?x - st_initial_window ?x)
      + (\<Sum>(cap, win)\<leftarrow>map dv hi. cap - win)"
    unfolding ds_lent_def by (subst dep') (simp add: dv_def)
  moreover have "recv_cap_extra s = lent (xs_of s) + ds_lent s" using a by (simp add: acct_iff)
  ultimately have "stream_drop ?x (recv_cap_extra s)
      = lent (xs_of s) + ((\<Sum>(cap, win)\<leftarrow>map dv lo. cap - win) + (\<Sum>(cap, win)\<leftarrow>map dv hi. cap - win))"
    by (simp add: stream_drop_def Let_def)
  with True a show ?thesis
    by (simp add: drop_departed_def acct_iff ids_ok_def xs_of_def ds_lent_def lo_def hi_def)
qed (simp add: drop_departed_def a)

section \<open>A window is tuned\<close>

lemma recv_ceil_eq: "recv_ceil t x = sat_mul32 (st_initial_window x) (chan t)"
  by (simp add: recv_ceil_def)

lemma acct_tune [view_simps]:
  assumes a: "acct s" shows "acct (tune_recv_cap now i s)"
proof (cases "get_stream i s")
  case (Some x)
  obtain y extra where r: "tune_recv_core now (stuning s) (bdp_rtt now x s) (alive_path_count s)
      (recv_cap_extra s) x = (y, extra)" by fastforce
  let ?t = "tune_recv_cap now i s"
  have ids: "ids_ok s" using a by (rule acct_ids)
  have xin: "x \<in> set (streamtab s)" "sid x = i" using get_stream_sid[OF Some] by auto
  from stream_split[OF ids Some] obtain as bs where sp: "streamtab s = as @ x # bs"
    "\<And>f. tbl_upd sid i f (streamtab s) = as @ f x # bs" by metis
  have ok: "st_initial_window x = initial_window (stuning s)" "st_initial_window x \<le> recv_cap x"
    "recv_cap x \<le> recv_ceil (stuning s) x" "0 < chan (stuning s)" "st_initial_window x \<le> u32_max"
    using acct_stream[OF a xin(1)] a by (simp_all add: sv_of_def recv_ceil_eq acct_iff)
  have xs: "xs_of s = map sv_of as @ sv_of x # map sv_of bs" using sp by (simp add: xs_of_def)
  have ex: "recv_cap_extra s = lent (map sv_of as) + (recv_cap x - st_initial_window x)
      + lent (map sv_of bs) + ds_lent s"
    using a unfolding acct_iff xs by (simp add: sv_of_def)
  then have guard: "recv_cap x - st_initial_window x \<le> recv_cap_extra s" by simp
  note tune = tune_recv_aux[OF ok(4,5,2,3) guard r]
  have y: "sid y = i" "sticky y = sticky x" "unacked_q y = unacked_q x"
    "st_initial_window y = st_initial_window x"
    using r xin(2) by (auto simp: tune_recv_core_def Let_def)
  have t: "pathtab ?t = pathtab s" "streamtab ?t = as @ y # bs" "departed ?t = departed s"
    "recv_cap_extra ?t = extra" "next_path_id ?t = next_path_id s" "next_stream_id ?t = next_stream_id s"
    "is_client ?t = is_client s" "scfg ?t = scfg s"
    using sp by (simp_all add: tune_recv_cap_def Some r)
  have xt: "xs_of ?t = map sv_of as @ sv_of y # map sv_of bs" by (simp add: xs_of_def t)
  have ch: "charged k (xs_of ?t) = charged k (xs_of s)" "stuck k (xs_of ?t) = stuck k (xs_of s)" for k
    unfolding xt xs using y by (simp_all add: sv_of_def)
  show ?thesis
  proof (rule acctI[OF a])
    show "\<exists>p\<in>set (pathtab s). pid q = pid p
        \<and> (inflight p = charged (pid p) (xs_of s) \<longrightarrow> inflight q = charged (pid q) (xs_of ?t))
        \<and> (sticky_streams p = stuck (pid p) (xs_of s) \<longrightarrow> sticky_streams q = stuck (pid q) (xs_of ?t))"
      if "q \<in> set (pathtab ?t)" for q using that ch by (auto simp: t)
  next
    show "distinct (map sid (streamtab ?t))" using ids y(1) xin(2) sp by (simp add: ids_ok_def t)
  next
    fix z assume "z \<in> set (streamtab ?t)"
    then consider "z \<in> set (streamtab s)" | "z = y" using sp by (auto simp: t)
    then show "stream_ok (next_path_id s) (next_stream_id s) (is_client s) (stuning s) (sv_of z)"
    proof cases
      case 1
      then show ?thesis by (rule acct_stream[OF a])
    next
      case 2
      from acct_stream[OF a xin(1)] y tune(1) ok(1) xin(2) show ?thesis
        unfolding 2 sv_of_def stream_ok.simps recv_ceil_eq by simp
    qed
  next
    show "recv_cap_extra ?t = lent (xs_of ?t) + ds_lent ?t"
      using tune(1,2) ex y(4) ok(2) unfolding xt by (simp add: sv_of_def t ds_lent_def)
  qed (simp_all add: t)
qed (simp add: tune_recv_cap_def a)

end
