(* ===== verification/Session_Books.thy ===== *)
theory Session_Books
  imports Session_Turnover
begin

text \<open>
  The books kept by whole operations. \<open>acctb n\<close> is the invariant with a lower bound on the next
  path id, so that an id picked at the start of an operation is still an old id at its end.
\<close>

abbreviation acctb :: "nat \<Rightarrow> session \<Rightarrow> bool" where
  "acctb n \<equiv> keeps (\<lambda>v. acct_ok v \<and> n \<le> fst (snd v))"

lemma acctb_iff: "acctb n s \<longleftrightarrow> acct s \<and> n \<le> next_path_id s"
  by (auto simp: keeps_def view_def)

lemma acctb_acct: "acctb n s \<Longrightarrow> acct s" "acct s \<Longrightarrow> acctb (next_path_id s) s"
  by (simp_all add: acctb_iff)

text \<open>It is enough to take the bound at the start.\<close>

lemma acctb_start:
  assumes "acctb n s" "acctb (next_path_id s) s \<Longrightarrow> acctb (next_path_id s) t"
  shows "acctb n t"
  using assms by (auto simp: acctb_iff)

lemma acctb_lift:
  assumes "acct s \<Longrightarrow> acct t" "next_path_id t = next_path_id s" "acctb n s"
  shows "acctb n t"
  using assms by (simp add: acctb_iff)

named_theorems books

section \<open>Primitive moves\<close>

lemma next_set_sticky: "next_path_id (set_sticky now i k s) = next_path_id s"
  by (simp add: set_sticky_def Let_def split: option.splits)

lemma books_set_sticky [books]: "acctb n s \<Longrightarrow> 0 < k \<Longrightarrow> k < n \<Longrightarrow> acctb n (set_sticky now i k s)"
  by (simp add: acctb_iff next_set_sticky acct_set_sticky)

lemma books_set_sticky_id [books]:
  assumes "acctb n s" "get_path k s \<noteq> None \<or> k < n" "0 < k"
  shows "acctb n (set_sticky now i k s)"
proof -
  have "k < next_path_id s"
    using assms acct_path[of s] get_path_pid[of k s] by (force simp: acctb_iff pv_def)
  then show ?thesis using assms by (simp add: acctb_iff next_set_sticky acct_set_sticky)
qed

lemma books_unstick [books]: "acctb n s \<Longrightarrow> acctb n (unstick i s)"
  by (erule acctb_lift[rotated 2]) (simp_all add: acct_unstick, simp add: unstick_def split: option.splits)

lemma books_remove_held [books]: "acctb n s \<Longrightarrow> acctb n (remove_held_stream i s)"
proof -
  have "next_path_id (remove_held_stream i s) = next_path_id s"
    by (cases "get_stream i s") (simp_all add: remove_held_eq, simp add: remove_held_stream_def)
  then show "acctb n s \<Longrightarrow> acctb n (remove_held_stream i s)"
    by (simp add: acctb_iff acct_remove_held)
qed

lemma books_drop_departed [books]: "acctb n s \<Longrightarrow> acctb n (drop_departed k s)"
  by (erule acctb_lift[rotated 2]) (simp_all add: acct_drop_departed, simp add: drop_departed_def)

lemma books_tune [books]: "acctb n s \<Longrightarrow> acctb n (tune_recv_cap now i s)"
  by (erule acctb_lift[rotated 2])
     (simp_all add: acct_tune, simp add: tune_recv_cap_def split: option.splits prod.splits)

lemma next_rehome: "next_path_id (rehome_unacked now i off b s) = next_path_id s"
  by (simp add: rehome_unacked_def upd_piece_def xfer_inflight_def Let_def split: option.splits)

lemma books_rehome [books]: "acctb n s \<Longrightarrow> 0 < b \<Longrightarrow> b < n \<Longrightarrow> acctb n (rehome_unacked now i off b s)"
  by (simp add: acctb_iff next_rehome acct_rehome)

lemma next_ack_piece: "next_path_id (ack_piece now i ku s) = next_path_id s"
  by (cases ku) (simp add: release_piece_def drop_piece_def observe_def Let_def split: option.splits)

lemma next_fold_ack: "next_path_id (fold (ack_piece now i) due s) = next_path_id s"
  by (induction due arbitrary: s) (simp_all add: next_ack_piece del: ack_piece.simps)

lemma books_on_ack [books]: "acctb n s \<Longrightarrow> acctb n (on_ack now k s)"
proof -
  have "next_path_id (ack_selective now k s) = next_path_id s"
    "next_path_id (ack_cumulative now k s) = next_path_id s" for s
    by (simp_all add: ack_selective_def ack_cumulative_def Let_def next_fold_ack bump_by_def split: option.splits)
  then have "next_path_id (on_ack now k s) = next_path_id s"
    by (simp add: on_ack_def Let_def forget_open_def)
  then show "acctb n s \<Longrightarrow> acctb n (on_ack now k s)" by (simp add: acctb_iff acct_on_ack)
qed

lemma books_fold: "(\<And>x s. acctb n s \<Longrightarrow> acctb n (f x s)) \<Longrightarrow> acctb n s \<Longrightarrow> acctb n (fold f xs s)"
  by (rule keeps_fold)

section \<open>A stream enters\<close>

lemma acct_alloc:
  assumes a: "acct s" and new: "get_stream i s = None" "is_client s \<Longrightarrow> i < next_stream_id s"
  shows "acct (alloc_stream now i s)"
proof -
  let ?t = "alloc_stream now i s"
  let ?v = "(i, 0, [], initial_window (stuning s), initial_window (stuning s))"
  have xt: "xs_of ?t = xs_of s @ [?v]" by (simp add: xs_of_def alloc_stream_def stream_new_def sv_of_def)
  have ch: "charged k (xs_of ?t) = charged k (xs_of s)" for k by (simp add: xt)
  have st: "0 < k \<Longrightarrow> stuck k (xs_of ?t) = stuck k (xs_of s)" for k by (simp add: xt)
  have t: "pathtab ?t = pathtab s" by (simp add: alloc_stream_def)
  show ?thesis
  proof (rule acctI[OF a])
    fix q assume q: "q \<in> set (pathtab ?t)"
    then have "0 < pid q" using acct_path[OF a, of q] by (simp add: t pv_def)
    with q ch st show "\<exists>p\<in>set (pathtab s). pid q = pid p
        \<and> (inflight p = charged (pid p) (xs_of s) \<longrightarrow> inflight q = charged (pid q) (xs_of ?t))
        \<and> (sticky_streams p = stuck (pid p) (xs_of s) \<longrightarrow> sticky_streams q = stuck (pid q) (xs_of ?t))"
      by (intro bexI[of _ q]) (simp_all add: t)
  next
    have "i \<notin> sid ` set (streamtab s)" using new(1) by (auto simp: get_stream_def tbl_find_None)
    then show "distinct (map sid (streamtab ?t))"
      using acct_ids[OF a] by (simp add: ids_ok_def alloc_stream_def stream_new_def)
  next
    fix y assume "y \<in> set (streamtab ?t)"
    then consider "y \<in> set (streamtab s)" | "sv_of y = ?v"
      by (auto simp: alloc_stream_def sv_of_def stream_new_def)
    then show "stream_ok (next_path_id s) (next_stream_id s) (is_client s) (stuning s) (sv_of y)"
    proof cases
      case 1
      then show ?thesis by (rule acct_stream[OF a])
    next
      case 2
      have c: "0 < chan (stuning s)" "initial_window (stuning s) \<le> u32_max" "0 < next_path_id s"
        using a by (simp_all add: acct_iff)
      then have "initial_window (stuning s) \<le> sat_mul32 (initial_window (stuning s)) (chan (stuning s))"
        using recv_ceil_ge[of "stuning s" "stream_new 0 0 (initial_window (stuning s)) 0"]
        by (simp add: recv_ceil_def stream_new_def)
      with c new(2) show ?thesis unfolding 2 by simp
    qed
  next
    show "recv_cap_extra ?t = lent (xs_of ?t) + ds_lent ?t"
      using a unfolding xt by (simp add: acct_iff alloc_stream_def ds_lent_def)
  qed (simp_all add: t, simp_all add: alloc_stream_def)
qed

lemma books_alloc [books]:
  "acctb n s \<Longrightarrow> get_stream i s = None \<Longrightarrow> (is_client s \<Longrightarrow> i < next_stream_id s) \<Longrightarrow> acctb n (alloc_stream now i s)"
  by (simp add: acctb_iff acct_alloc) (simp add: alloc_stream_def)

lemma books_next_stream [books]: "acctb n s \<Longrightarrow> next_stream_id s \<le> m \<Longrightarrow> acctb n (s\<lparr>next_stream_id := m\<rparr>)"
  by (force simp: acctb_iff acct_iff ids_ok_def xs_of_def ds_lent_def sv_of_def)

section \<open>A path enters or leaves\<close>

lemma charged_new: "\<forall>x\<in>set xs. stream_ok n m c t x \<Longrightarrow> n \<le> k \<Longrightarrow> charged k xs = 0 \<and> stuck k xs = 0"
proof (induction xs)
  case (Cons x xs)
  obtain j stk us cap win where x: "x = (j, stk, us, cap, win)" by (cases x)
  have "\<forall>(off, k', l)\<in>set us. k' < n" using Cons.prems x by auto
  then have "pieces_on k us = 0" using Cons.prems(2) by (induction us) auto
  with Cons x show ?case by simp
qed simp

lemma acct_start_path:
  assumes a: "acct s" shows "acct (snd (start_path now nm s))"
proof (cases "sess_dead s \<or> length (pathtab s) \<ge> max_paths (scfg s)")
  case False
  let ?k = "next_path_id s" and ?p = "fresh_path now (next_path_id s) nm (stuning s)"
  let ?t = "s\<lparr>next_path_id := ?k + 1, pathtab := pathtab s @ [?p], all_down_since := None\<rparr>"
  have ok: "\<forall>x\<in>set (xs_of s). stream_ok ?k (next_stream_id s) (is_client s) (stuning s) x"
    using acct_stream[OF a] by (auto simp: xs_of_def)
  have new: "pv ?p = (?k, 0, 0)" "pid ?p = ?k" by (simp_all add: fresh_path_def path_new_def pv_def Let_def)
  have "pid p < ?k" if "p \<in> set (pathtab s)" for p using acct_path[OF a that] by (simp add: pv_def)
  then have "?k \<notin> pid ` set (pathtab s)" by force
  then have "ids_ok ?t" using acct_ids[OF a] new by (simp add: ids_ok_def)
  moreover have "xs_of ?t = xs_of s" "ds_lent ?t = ds_lent s" by (simp_all add: xs_of_def ds_lent_def)
  moreover have "path_ok (?k + 1) (xs_of s) (pv p)" if "p \<in> set (pathtab ?t)" for p
    using that acct_path[OF a, of p] new charged_new[OF ok, of ?k] a by (auto simp: pv_def acct_iff)
  moreover have "stream_ok (?k + 1) (next_stream_id s) (is_client s) (stuning s) (sv_of x)"
    if "x \<in> set (streamtab s)" for x
    using acct_stream[OF a that] by (auto simp: sv_of_def)
  ultimately have "acct ?t" using a by (simp add: acct_iff)
  then show ?thesis using False by (simp add: start_path_def Let_def view_simps)
qed (simp add: start_path_def a)

lemma books_start_path [books]: "acctb n s \<Longrightarrow> acctb n (snd (start_path now nm s))"
  using acct_start_path[of s now nm]
  by (simp add: acctb_iff) (simp add: start_path_def Let_def bump_def bump_by_def)

lemma books_del_path [books]:
  assumes "acctb n s" shows "acctb n (s\<lparr>pathtab := tbl_del pid i (pathtab s)\<rparr>)"
proof -
  have "distinct (map pid (tbl_del pid i (pathtab s)))"
    using assms by (simp add: acctb_iff acct_iff ids_ok_def tbl_del_def distinct_map_filter)
  then show ?thesis using assms
    by (simp add: acctb_iff acct_iff ids_ok_def xs_of_def ds_lent_def tbl_del_def)
qed

end
