(* ===== verification/Session_Keep.thy ===== *)
theory Session_Keep
  imports Session_Books
begin

text \<open>
  Every operation of the session keeps the books: the ends of streams, the receive side, the
  retries of data, paths that fail, opening and accepting, and the health tick.
\<close>

section \<open>Picked paths are paths of the pool\<close>

definition in_pool :: "nat \<Rightarrow> session \<Rightarrow> bool" where
  "in_pool k s \<longleftrightarrow> k \<in> pid ` set (pathtab s)"

lemma in_pool_get: "in_pool k s \<longleftrightarrow> get_path k s \<noteq> None"
  by (auto simp: in_pool_def get_path_def tbl_find_None)

lemma in_pool_old: "acctb n s \<Longrightarrow> in_pool k s \<Longrightarrow> 0 < k \<and> k < next_path_id s"
  using acct_path[of s] by (auto simp: in_pool_def acctb_iff pv_def)

lemma pick_pref_in: "pick_pref now pref s = Some k \<Longrightarrow> in_pool k s"
  using interactive_subset fastest_subset
  by (fastforce simp: pick_pref_def pick_path_pref_def in_pool_def dest!: pick_from_SomeD split: pick_pref.splits)

lemma pick_retry_tried_in: "pick_retry_tried now tr s = Some k \<Longrightarrow> in_pool k s"
proof -
  assume "pick_retry_tried now tr s = Some k"
  moreover have "pick_rung now (scfg s) l P o' (pathtab s) = Some k \<Longrightarrow> in_pool k s" for l P o'
    using pick_rung_SomeD by (fastforce simp: in_pool_def)
  ultimately show ?thesis
    unfolding pick_retry_tried_def pick_retry_path_def Let_def or_else_eq_Some by blast
qed

lemma pick_retry_in: "pick_retry now k s = Some j \<Longrightarrow> in_pool j s"
  unfolding pick_retry_def by (rule pick_retry_tried_in)

text \<open>An id picked at the start of an operation.\<close>

lemma books_pick:
  assumes "acctb n s" "in_pool k s" "acctb (next_path_id s) s \<Longrightarrow> 0 < k \<Longrightarrow> k < next_path_id s \<Longrightarrow> acctb (next_path_id s) t"
  shows "acctb n t"
  using acctb_start[OF assms(1)] assms in_pool_old[OF assms(1,2)] by blast

section \<open>Ends of streams\<close>

lemma books_finish [books]: "acctb n s \<Longrightarrow> acctb n (finish_stream now r b i s)"
  by (simp add: finish_stream_def view_simps books)

lemma books_reset_stream [books]: "acctb n s \<Longrightarrow> acctb n (reset_stream now w i s)"
  by (simp add: reset_stream_def books)

lemma books_linger [books]: "acctb n s \<Longrightarrow> acctb n (linger_reap_progress_fine now i s)"
  by (auto simp: linger_reap_progress_fine_def view_simps books split: option.splits prod.splits)

lemma books_residual [books]: "acctb n s \<Longrightarrow> acctb n (residual_d_client now i s)"
  by (auto simp: residual_d_client_def view_simps books split: option.splits prod.splits)

lemma books_graceful [books]: "acctb n s \<Longrightarrow> acctb n (maybe_count_graceful now i s)"
  by (simp add: maybe_count_graceful_def view_simps books split: option.splits)

lemma books_close_send [books]: "acctb n s \<Longrightarrow> acctb n (close_send now i s)"
  by (simp add: close_send_def view_simps books split: option.splits)

lemma books_reap_stream [books]: "acctb n s \<Longrightarrow> acctb n (reap_stream now i s)"
  by (simp add: reap_stream_def view_simps books split: option.splits)

lemma books_apply_fin [books]: "acctb n s \<Longrightarrow> acctb n (apply_recv_fin now i s)"
  by (simp add: apply_recv_fin_def view_simps books)

lemma books_try_finish [books]: "acctb n s \<Longrightarrow> acctb n (try_finish_recv_close now i s)"
  by (simp add: try_finish_recv_close_def view_simps books split: option.splits)

lemma books_peer_close [books]: "acctb n s \<Longrightarrow> acctb n (on_peer_close now c s)"
proof -
  assume a: "acctb n s"
  have "acctb n (upd_stream i (\<lambda>y. let y1 = note_close_started now y in
          if recv_close_off y1 = None then y1\<lparr>recv_close_off := Some off\<rparr> else y1) s)" for i off
    by (rule keeps_upd_stream[OF a]) (simp add: Let_def view_simps)
  then show ?thesis using a by (simp add: on_peer_close_def Let_def books split: option.splits)
qed

lemma books_expire_closes [books]: "acctb n s \<Longrightarrow> acctb n (expire_recv_closes now s)"
  unfolding expire_recv_closes_def by (rule books_fold) (simp_all add: books)

lemma books_peer_reset [books]: "acctb n s \<Longrightarrow> acctb n (on_peer_reset now i w s)"
  by (simp add: on_peer_reset_def view_simps books)

lemma books_mark_dead [books]: "acctb n s \<Longrightarrow> acctb n (mark_dead now b s)"
  unfolding mark_dead_def Let_def
  by (auto simp: view_simps intro!: books_fold books_finish split: option.splits)

lemma books_shutdown [books]: "acctb n s \<Longrightarrow> acctb n (shutdown now s)"
  by (simp add: shutdown_def books)

section \<open>The receive side\<close>

lemma tbl_find_set:
  "tbl_find key i xs = Some x \<Longrightarrow> key y = i \<Longrightarrow> tbl_find key i (tbl_upd key i (\<lambda>_. y) xs) = Some y"
  by (induction xs) (auto simp: tbl_find_def tbl_upd_def)

lemma get_stream_set:
  "get_stream i s = Some x \<Longrightarrow> sid y = i \<Longrightarrow> get_stream i (upd_stream i (\<lambda>_. y) s) = Some y"
  by (simp add: get_stream_def tbl_find_set)

lemma books_tune_windows [books]: "acctb n s \<Longrightarrow> acctb n (tune_recv_windows now s)"
  unfolding tune_recv_windows_def by (rule books_fold) (simp_all add: books)

lemma books_drain [books]:
  assumes a: "acctb n s" shows "acctb n (drain_recv now i k s)"
proof (cases "get_stream i s")
  case (Some x)
  obtain got x1 where d: "drain_core now x = (got, x1)" by fastforce
  have x1: "sv_of x1 = sv_of x" using sv_drain[of now x] d by simp
  let ?s1 = "upd_stream i (\<lambda>_. x1) s"
  have s1: "acctb n ?s1" using x1 by (rule keeps_set_stream[OF a Some])
  let ?y = "snd (note_deliver now got (deliver_min_dt now x1 ?s1) x1)"
  have sid: "sid x1 = i" using x1 get_stream_sid[OF Some] by (simp add: sv_of_def)
  have g1: "get_stream i ?s1 = Some x1" using Some sid by (rule get_stream_set)
  have "acctb n (upd_stream i (\<lambda>_. ?y) ?s1)" by (rule keeps_set_stream[OF s1 g1]) (simp add: view_simps)
  then show ?thesis using s1 by (simp add: drain_recv_def Some d Let_def view_simps books)
qed (simp add: drain_recv_def a)

lemma books_deliver [books]:
  assumes a: "acctb n s" shows "acctb n (deliver_data now k d s)"
proof (cases "get_stream (sd_stream_id d) s")
  case (Some x)
  obtain w x1 where p: "accept_piece k (sd_offset d) (sd_data d) x = (w, x1)" by fastforce
  have "sv_of x1 = sv_of x" using sv_accept[of k "sd_offset d" "sd_data d" x] p by simp
  from keeps_set_stream[OF a Some this] a show ?thesis
    by (cases w) (simp_all add: deliver_data_def Let_def Some p view_simps books)
qed (simp add: deliver_data_def a)

lemma books_on_data [books]: "acctb n s \<Longrightarrow> acctb n (on_data now k d s)"
  by (simp add: on_data_def view_simps books)

lemma books_app_read [books]: "acctb n s \<Longrightarrow> acctb n (note_app_read now i k s)"
  by (simp add: note_app_read_def view_simps books split: option.splits)

lemma books_pump_recv [books]: "acctb n s \<Longrightarrow> acctb n (snd (pump_recv now i s))"
  by (simp add: pump_recv_def Let_def view_simps books split: option.splits list.splits inbound.splits)

end
