(* ===== verification/Session_Keep_Paths.thy ===== *)
theory Session_Keep_Paths
  imports Session_Keep
begin

text \<open>
  The books kept by what moves data between paths: the retries of pieces, a path that fails, the
  steering of streams, the health tick, and every arriving frame.
\<close>

section \<open>Pieces re-sent\<close>

lemma books_retransmit [books]:
  assumes a: "acctb n s" and k: "0 < k" "k < n"
  shows "acctb n (retransmit_from_on now i g k s)"
proof (cases "get_stream i s")
  case (Some x)
  let ?due = "filter (\<lambda>(_, u). ua_path u = g) (unacked_q x)"
  let ?f = "\<lambda>(off, u) s. snd (send_data_frame now i off (ua_data u) k (rehome_unacked now i off k s))"
  have "acctb n (fold ?f ?due s)"
    by (rule books_fold[OF _ a]) (auto simp: view_simps books k)
  then show ?thesis
    using a by (simp add: retransmit_from_on_def Some Let_def view_simps)
qed (simp add: retransmit_from_on_def a)

lemma books_rehome_from [books]:
  assumes a: "acctb n s" shows "acctb n (rehome_unacked_from now g s)"
proof (cases "pick_retry now g s")
  case (Some alt)
  show ?thesis
  proof (rule books_pick[OF a pick_retry_in[OF Some]])
    assume b: "acctb (next_path_id s) s" and k: "0 < alt" "alt < next_path_id s"
    show "acctb (next_path_id s) (rehome_unacked_from now g s)"
      unfolding rehome_unacked_from_def Some option.case
      by (rule books_fold[OF _ b]) (rule books_retransmit[OF _ k])
  qed
qed (simp add: rehome_unacked_from_def a)

lemma uv_deferred:
  "uv (k, u\<lparr>ua_tried := t, ua_dropped := b, ua_not_before := m\<rparr>) = uv (k, u)"
  "uv (k, u\<lparr>ua_dropped := b, ua_not_before := m\<rparr>) = uv (k, u)"
  by (simp_all add: uv_def ua_len_def)

lemma books_resend_interactive [books]:
  assumes a: "acctb n s" shows "acctb n (resend_interactive now i d s)"
proof (cases "pick_retry_tried now (push_tried (du_tried d) (du_from d)) s")
  case (Some alt)
  show ?thesis
  proof (rule books_pick[OF a pick_retry_tried_in[OF Some]])
    assume b: "acctb (next_path_id s) s" and k: "0 < alt" "alt < next_path_id s"
    obtain ok s1 where f: "send_data_frame now i (du_off d) (du_data d) alt s = (ok, s1)" by fastforce
    have s1: "acctb (next_path_id s) s1" using keeps_send_data'[OF f b] .
    then have "acctb (next_path_id s) (rehome_unacked now i (du_off d) alt s1)" using k by (rule books_rehome)
    then have "acctb (next_path_id s) (note_resent i (du_from d) alt (du_why d) (du_dropped d)
        (rehome_unacked now i (du_off d) alt s1))" by (rule keeps_note_resent)
    moreover have "acctb (next_path_id s) (upd_piece i (du_off d) (\<lambda>u. u\<lparr>ua_tried := push_tried (ua_tried u) alt,
        ua_dropped := True, ua_not_before := now + retry_after (du_from d) s1\<rparr>) s1)"
      by (rule keeps_upd_piece[OF s1 uv_deferred(1)])
    moreover have "acctb (next_path_id s) (bump M_skip_write_stalled s)" using b by (simp add: view_simps)
    ultimately show "acctb (next_path_id s) (resend_interactive now i d s)"
      unfolding resend_interactive_def Some option.case f Let_def prod.case by (simp only: if_split) blast
  qed
qed (simp add: resend_interactive_def a view_simps)

lemma books_resend_bulk_to [books]:
  assumes b: "acctb n s" and k: "0 < alt" "alt < n"
  shows "acctb n (resend_bulk_to now i d alt s)"
proof -
  obtain ok s1 where f: "send_data_frame now i (du_off d) (du_data d) alt s = (ok, s1)" by fastforce
  have "acctb n s1" using keeps_send_data'[OF f b] .
  then show ?thesis
    unfolding resend_bulk_to_def f Let_def prod.case
    using k by (simp add: view_simps books uv_deferred)
qed

lemma bulk_alt_in: "bulk_alt now i d s = Some k \<Longrightarrow> in_pool k s"
  using rx.pick_in pick_retry_tried_in
  by (fastforce simp: bulk_alt_def in_pool_def split: if_splits)

lemma books_resend_bulk_home:
  assumes b: "acctb n s" "acctb n r0" and k: "0 < du_from d" "du_from d < n"
  shows "acctb n (let s1 = rehome_unacked now i (du_off d) (du_from d) r0;
             s2 = upd_piece i (du_off d)
                    (\<lambda>u. u\<lparr>ua_not_before := ua_last_sent u + retry_after_bulk_id (du_from d) s1\<rparr>) s1
         in note_resent i (du_from d) (du_from d) (du_why d) (du_dropped d) s2)"
  using assms by (simp add: Let_def view_simps books)

lemma books_resend_bulk [books]:
  assumes a: "acctb n s" shows "acctb n (resend_bulk now i d s)"
proof -
  obtain home s0' where r: "(if du_dropped d then resend_on_source now i d s else (False, s)) = (home, s0')"
    by fastforce
  have s0: "acctb m s0'" if "acctb m s" for m
    using r that by (auto simp: resend_on_source_def view_simps split: if_splits)
  have home: "in_pool (du_from d) s" if home
    using r that by (auto simp: resend_on_source_def fresh_dest_def in_pool_get split: if_splits option.splits)
  show ?thesis
  proof (cases home)
    case True
    show ?thesis
    proof (rule books_pick[OF a home[OF True]])
      assume b: "acctb (next_path_id s) s" and k: "0 < du_from d" "du_from d < next_path_id s"
      show "acctb (next_path_id s) (resend_bulk now i d s)"
        using books_resend_bulk_home[OF b s0[OF b] k] True by (simp add: resend_bulk_def r)
    qed
  next
    case False
    show ?thesis
    proof (cases "bulk_alt now i d s0'")
      case None
      with False s0[OF a] show ?thesis by (simp add: resend_bulk_def r view_simps)
    next
      case (Some alt)
      show ?thesis
      proof (rule acctb_start[OF a])
        assume b: "acctb (next_path_id s) s"
        have b0: "acctb (next_path_id s) s0'" by (rule s0[OF b])
        have eq: "next_path_id s0' = next_path_id s"
        proof -
          have "keeps (\<lambda>v. fst (snd v) = next_path_id s) s" using b by (simp add: keeps_def view_def)
          then have "keeps (\<lambda>v. fst (snd v) = next_path_id s) s0'"
            using r by (auto simp: resend_on_source_def view_simps split: if_splits)
          then show ?thesis by (simp add: keeps_def view_def)
        qed
        have k: "0 < alt" "alt < next_path_id s"
          using in_pool_old[OF b0 bulk_alt_in[OF Some]] eq by auto
        show "acctb (next_path_id s) (resend_bulk now i d s)"
          using False Some b0 k by (simp add: resend_bulk_def r view_simps books)
      qed
    qed
  qed
qed

lemma books_resend_due [books]: "acctb n s \<Longrightarrow> acctb n (resend_due now i l al d s)"
  by (simp add: resend_due_def view_simps books)

lemma books_retry_expired [books]: "acctb n s \<Longrightarrow> acctb n (retry_expired_unacked now i s)"
  by (auto simp: retry_expired_unacked_def Let_def intro!: books_fold books_resend_due split: option.splits)

section \<open>A path fails\<close>

lemma books_leave_pool [books]: "acctb n s \<Longrightarrow> acctb n (leave_pool now i s)"
  by (simp add: leave_pool_def Let_def view_simps books comp_def)

lemma books_path_failed [books]:
  assumes a: "acctb n s" shows "acctb n (path_failed now i s)"
proof -
  have "acctb n (upd_path i (\<lambda>p. p\<lparr>pstate := DOWN\<rparr>) t)" if "acctb n t" for t
    using that by (rule keeps_upd_path) (simp add: pv_def)
  with a show ?thesis by (simp add: path_failed_def Let_def view_simps books split: option.splits)
qed

section \<open>Opening and accepting\<close>

lemma no_stream_new: "acctb n s \<Longrightarrow> is_client s \<Longrightarrow> get_stream (next_stream_id s) s = None"
  using acct_stream[of s] by (fastforce simp: acctb_iff get_stream_def tbl_find_None sv_of_def)

lemma books_open_stream [books]:
  assumes a: "acctb n s" shows "acctb n (snd (open_stream now t s))"
proof (cases "is_client s \<and> has_alive_path s")
  case True
  let ?i = "next_stream_id s" and ?s1 = "s\<lparr>next_stream_id := next_stream_id s + 1\<rparr>"
  have s1: "acctb m ?s1" if "acctb m s" for m using that by (simp add: books)
  show ?thesis
  proof (cases "pick_pref now PickInteractive ?s1")
    case None
    with True s1[OF a] show ?thesis by (simp add: open_stream_def Let_def)
  next
    case (Some p)
    have fresh: "get_stream ?i ?s1 = None"
      using no_stream_new[OF a] True by (simp add: get_stream_def)
    show ?thesis
    proof (rule acctb_start[OF a])
      assume b: "acctb (next_path_id s) s"
      have k: "0 < p" "p < next_path_id s" using in_pool_old[OF s1[OF b] pick_pref_in[OF Some]] by auto
      define s2 where "s2 = remember_open now ?i p t (note_unknown_pick p (bump M_streams_opened
                        (set_sticky now ?i p (alloc_stream now ?i ?s1))))"
      have b2: "acctb (next_path_id s) s2"
        unfolding s2_def using s1[OF b] k fresh by (simp add: view_simps books)
      obtain ok s3 where r: "send_on_path now p (open_frame ?i t) s2 = (ok, s3)" by fastforce
      have b3: "acctb (next_path_id s) s3" by (rule keeps_send_on_path'[OF r b2])
      have eq: "snd (open_stream now t s) = (if ok then note_pick p s3 else case pick_retry now p s3 of
          None \<Rightarrow> s3 | Some alt \<Rightarrow>
            (case send_on_path now alt (open_frame ?i t) s3 of (ok2, s4) \<Rightarrow>
               if ok2 then note_pick alt (remember_open now ?i alt t (set_sticky now ?i alt s4)) else s4))"
        using True unfolding open_stream_def Let_def
        by (simp only: Some option.case s2_def[symmetric] r prod.case simp_thms if_True if_False snd_conv)
      show "acctb (next_path_id s) (snd (open_stream now t s))"
      proof (cases "ok \<or> pick_retry now p s3 = None")
        case fin: True
        with b3 show ?thesis by (auto simp: eq view_simps)
      next
        case retry: False
        then obtain alt where alt: "pick_retry now p s3 = Some alt" by blast
        obtain ok2 s4 where r2: "send_on_path now alt (open_frame ?i t) s3 = (ok2, s4)" by fastforce
        have b4: "acctb (next_path_id s) s4" by (rule keeps_send_on_path'[OF r2 b3])
        have pos: "0 < alt" using in_pool_old[OF b3 pick_retry_in[OF alt]] by simp
        have "acctb (next_path_id s) (set_sticky now ?i alt s4)"
        proof (rule acctb_start[OF b4])
          assume c: "acctb (next_path_id s4) s4"
          have "keeps (\<lambda>v. acct_ok v \<and> next_path_id s3 \<le> fst (snd v)) s4"
            by (rule keeps_send_on_path'[OF r2]) (use b3 in \<open>simp add: acctb_iff\<close>)
          then have "next_path_id s3 \<le> next_path_id s4" by (simp add: acctb_iff)
          with in_pool_old[OF b3 pick_retry_in[OF alt]] have "alt < next_path_id s4" by simp
          with c pos show "acctb (next_path_id s4) (set_sticky now ?i alt s4)" by (simp add: books)
        qed
        with retry alt b4 show ?thesis by (simp add: eq r2 view_simps)
      qed
    qed
  qed
qed (auto simp: open_stream_def a)

lemma books_accept [books]:
  assumes a: "acctb n s" and k: "0 < path" "path < n" and srv: "\<not> is_client s"
  shows "acctb n (accept_remote_stream now acc path op s)"
proof (cases "get_stream (so_stream_id op) s")
  case None
  let ?i = "so_stream_id op"
  let ?s1 = "bump M_streams_opened (set_sticky now ?i path (alloc_stream now ?i s))"
  obtain es s2' where e: "take_early_data ?i ?s1 = (es, s2')" by fastforce
  have "acctb n (alloc_stream now ?i s)" by (rule books_alloc[OF a None]) (simp add: srv)
  then have "acctb n (set_sticky now ?i path (alloc_stream now ?i s))" using k by (rule books_set_sticky)
  then have "acctb n ?s1" by (simp add: view_simps)
  then have b2: "acctb n s2'" using e keeps_retry_tables(8)[of _ ?i ?s1] by simp
  have b3: "acctb n (fold (\<lambda>e. deliver_data now (pe_path e) (pe_data e)) es s2')"
    by (rule books_fold[OF _ b2]) (simp add: books)
  then show ?thesis
    by (simp add: accept_remote_stream_def None Let_def e view_simps books split: option.splits)
qed (simp add: accept_remote_stream_def a)

end
