(* ===== verification/Session_Keep_Tick.thy ===== *)
theory Session_Keep_Tick
  imports Session_Keep_Paths
begin

text \<open>The books kept by the steering of streams, the health tick and every arriving frame.\<close>

section \<open>What a neutral operation leaves alone\<close>

lemma neutral_view:
  assumes "\<And>I. keeps I s \<Longrightarrow> keeps I t" "ids_ok s"
  shows "view t = view s"
  using assms(1)[of "\<lambda>v. v = view s"] assms(2) by (simp add: keeps_def)

lemma view_next: "view t = view s \<Longrightarrow> next_path_id t = next_path_id s"
  by (simp add: view_def)

lemma view_pool: "view t = view s \<Longrightarrow> in_pool k t = in_pool k s"
  unfolding in_pool_def by (metis view_ids(1) set_map)

lemma neutral_next: "(\<And>I. keeps I s \<Longrightarrow> keeps I t) \<Longrightarrow> ids_ok s \<Longrightarrow> next_path_id t = next_path_id s"
  by (rule view_next) (rule neutral_view)

lemma neutral_pool: "(\<And>I. keeps I s \<Longrightarrow> keeps I t) \<Longrightarrow> ids_ok s \<Longrightarrow> in_pool k t = in_pool k s"
  by (rule view_pool) (rule neutral_view)

section \<open>Steering\<close>

lemma hol_place_in:
  assumes "hol_place_bulk now c s = (Some k, t)" shows "in_pool k s"
proof -
  have r: "\<exists>p\<in>set (pathtab s). pid p = k"
    if "fst (hol_place_bulk_fallback now (scfg s) cur r h (pathtab s)) = Some k" for cur r h
  proof -
    let ?c = "filter (\<lambda>p. pid p \<noteq> pid cur \<and> hol_bulk_dest_ok now (scfg s) p \<and> \<not> h (pid p)
                \<and> effective_class_rtt (scfg s) p \<le> effective_class_rtt (scfg s) cur) (pathtab s)"
    obtain fit us where l: "loop_fit_or_all now (scfg s) r ?c = (fit, us)" by fastforce
    with that obtain q where q: "q \<in> set fit" "pid q = k"
      by (auto simp: hol_place_bulk_fallback_def Let_def dest: pick_from_SomeD)
    have "\<exists>p\<in>set ?c. pv q = pv p"
      using l q(1) filter_upd_pv[of "loop_fit now (scfg s) r" q ?c]
        filter_upd_kept_pv[of "loop_fit now (scfg s) r" q ?c]
      by (auto simp: loop_fit_or_all_def view_simps Let_def split: prod.splits if_splits)
    with q(2) show ?thesis by (auto simp: pv_def)
  qed
  show ?thesis
    using assms r by (force simp: hol_place_bulk_def in_pool_def Let_def case_prod_unfold
        split: if_splits option.splits dest: find_Some_in)
qed

lemma sv_restick [view_simps]: "pv (snd (restick_cand now c s p)) = pv p"
  using pv_loop_fit[of now "scfg s" "pool_ref s" p]
  by (cases "loop_fit now (scfg s) (pool_ref s) p") (simp add: restick_cand_def)

lemma books_restick_to [books]:
  "acctb n s \<Longrightarrow> 0 < k \<Longrightarrow> k < n \<Longrightarrow> acctb n (restick_to now i k s)"
  unfolding restick_to_def
  by (simp only: keeps_notes) (intro books_set_sticky keeps_upd_path, simp_all add: pv_def)

lemma books_restick [books]:
  assumes a: "acctb n s" shows "acctb n (snd (maybe_restick_unfit now i c s))"
proof -
  obtain fit s1 where l: "loop_fit_id now c s = (fit, s1)" by fastforce
  have n1: "keeps I s1" if "keeps I s" for I using keeps_loop_fit_id[OF that, of now c] l by simp
  let ?xs = "fastest_class_set (scfg s1) (pathtab s1)"
  obtain cands us where f: "filter_upd (restick_cand now c s1) ?xs = (cands, us)" by fastforce
  let ?t = "s1\<lparr>pathtab := put_paths us (pathtab s1)\<rparr>"
  have us: "\<exists>p\<in>set (pathtab s1). pv q = pv p" if "q \<in> set us \<or> q \<in> set cands" for q
  proof -
    have "\<exists>p\<in>set ?xs. pv q = pv p"
      using that f filter_upd_pv[where f = "restick_cand now c s1" and q = q and xs = ?xs, OF sv_restick]
        filter_upd_kept_pv[where f = "restick_cand now c s1" and q = q and xs = ?xs, OF sv_restick] by simp blast
    then show ?thesis using fastest_subset by blast
  qed
  have n2: "keeps I ?t" if "keeps I s" for I by (rule keeps_put_paths[OF n1[OF that]]) (use us in blast)
  show ?thesis
  proof (cases "pick_from_scored (scfg s1) PickAny cands")
    case None
    then have "cands = []" by simp
    with n1[OF a] n2[OF a] f show ?thesis
      by (simp add: maybe_restick_unfit_def l Let_def pick_from_scored_def split: option.splits)
  next
    case (Some k)
    then obtain q where "q \<in> set cands" "pid q = k" using scored.pick_in by blast
    with us[of q] have "in_pool k s1" by (auto simp: in_pool_def pv_def)
    then have "in_pool k s" using neutral_pool[OF n1] a by (simp add: keeps_def)
    then have "acctb n (restick_to now i k ?t)"
      by (rule books_pick[OF a]) (rule books_restick_to[OF n2])
    with n1[OF a] Some show ?thesis by (simp add: maybe_restick_unfit_def l f Let_def split: option.splits)
  qed
qed

lemma books_hol_move [books]:
  assumes "acctb n s" "\<And>d. dest = Some d \<Longrightarrow> 0 < d \<and> d < n"
  shows "acctb n (hol_move now i c dest s)"
  using assms by (cases dest) (simp_all add: hol_move_def view_simps books)

lemma rebalance_in: "rebalance_dest now c s = Some k \<Longrightarrow> in_pool k s"
  by (auto simp: rebalance_dest_def in_pool_def dest: find_Some_in)

lemma books_hol [books]:
  assumes a: "acctb n s" shows "acctb n (maybe_hol now i s)"
proof (rule acctb_start[OF a])
  assume b: "acctb (next_path_id s) s"
  have "acctb (next_path_id s) (hol_move now i c (rebalance_dest now cur s) s)" for c cur
    by (rule books_hol_move[OF b]) (use in_pool_old[OF b] rebalance_in in blast)
  moreover have "acctb (next_path_id s) (let (moved, r1) = maybe_restick_unfit now i c s in
      if moved then r1 else (let (dest, a2) = hol_place_bulk now c r1 in hol_move now i c dest a2))" for c
  proof -
    obtain moved s1 where r: "maybe_restick_unfit now i c s = (moved, s1)" by fastforce
    then have b1: "acctb (next_path_id s) s1" using books_restick[OF b, of now i c] by simp
    obtain dest a2 where h: "hol_place_bulk now c s1 = (dest, a2)" by fastforce
    have "acctb (next_path_id s) (hol_move now i c dest a2)"
    proof (rule acctb_start)
      show "acctb (next_path_id s) a2" by (rule keeps_snd_eqs(5)[OF h b1])
      assume a2: "acctb (next_path_id a2) a2"
      have "next_path_id a2 = next_path_id s1"
        by (rule neutral_next) (use keeps_snd_eqs(5)[OF h] b1 in \<open>auto simp: acctb_iff acct_ids\<close>)
      then show "acctb (next_path_id a2) (hol_move now i c dest a2)"
        using in_pool_old[OF b1] hol_place_in[of now c s1 _ a2] h by (intro books_hol_move[OF a2]) auto
    qed
    with b1 show ?thesis by (simp add: r h)
  qed
  ultimately show "acctb (next_path_id s) (maybe_hol now i s)"
    using b by (simp add: maybe_hol_def split: option.splits)
qed

lemma books_count_failback: "keeps I (count_failback c w s) = keeps I s"
  by (simp add: count_failback_def view_simps)

lemma books_failback [books]:
  assumes a: "acctb n s" shows "acctb n (maybe_failback now i s)"
proof (rule acctb_start[OF a])
  assume b: "acctb (next_path_id s) s"
  have "get_path k s = Some p \<Longrightarrow> acctb (next_path_id s) (set_sticky now i k s)" for k p
    using in_pool_old[OF b, of k] b by (simp add: in_pool_get books)
  with b show "acctb (next_path_id s) (maybe_failback now i s)"
    by (simp add: maybe_failback_def books_count_failback split: option.splits)
qed

section \<open>The tick\<close>

lemma books_tend_path [books]: "acctb n s \<Longrightarrow> acctb n (tend_path now c sp m i s)"
  by (simp add: tend_path_def view_simps books split: option.splits)

lemma books_reset_all [books]: "acctb n s \<Longrightarrow> acctb n (reset_all now s)"
  by (auto simp: reset_all_def view_simps intro!: books_fold books_reset_stream)

lemma books_tend_pool [books]:
  assumes a: "acctb n s" shows "acctb n (tend_pool now s)"
proof -
  obtain ms s1 where t: "tick_pings now s = (ms, s1)" by fastforce
  have "acctb n s1" using keeps_tick_pings[OF a, of now] t by simp
  then have "acctb n (note_correlated now c (sample_fits now s1))" for c by (simp add: view_simps)
  then have "acctb n (fold (tend_path now c sp ms) ks (note_correlated now c (sample_fits now s1)))" for c sp ks
    by (intro books_fold books_tend_path)
  then show ?thesis by (simp add: tend_pool_def t Let_def books)
qed

lemma books_recycle [books]:
  assumes a: "acctb n s" shows "acctb n (maybe_recycle_outliers now s)"
proof -
  have "acctb n (s\<lparr>pathtab := map (\<lambda>p. if is_outlier now s p then snd (mark_outlier now p)
                                      else clear_outlier p) (pathtab s)\<rparr>)"
    by (rule keeps_map_paths[OF a]) (simp add: view_simps)
  then show ?thesis
    unfolding maybe_recycle_outliers_def Let_def
    by (rule books_fold[rotated]) (simp add: recycle_path_def view_simps books split: option.splits)
qed

lemma books_reap_lingered [books]: "acctb n s \<Longrightarrow> acctb n (reap_lingered now i s)"
  by (simp add: reap_lingered_def books split: option.splits)

lemma books_reap_closed [books]: "acctb n s \<Longrightarrow> acctb n (reap_closed_streams now s)"
  unfolding reap_closed_streams_def Let_def
  by (intro books_fold books_reap_lingered books_remove_held)

lemma books_tend_streams [books]: "acctb n s \<Longrightarrow> acctb n (tend_streams now s)"
proof -
  assume a: "acctb n s"
  have "acctb n (fold (scan_stall now) ids (fold (maybe_hol now) ids s))" for ids
    by (rule books_fold[OF keeps_scan_stall]) (assumption, rule books_fold[OF books_hol a])
  then show ?thesis
    unfolding tend_streams_def Let_def
    by (intro books_fold books_retry_expired) (simp_all add: view_simps)
qed

lemma books_retry_tables [books]: "acctb n s \<Longrightarrow> acctb n (retry_tables now s)"
  by (simp add: retry_tables_def view_simps books)

lemma books_tend_all_down [books]: "acctb n s \<Longrightarrow> acctb n (tend_all_down now s)"
  by (simp add: tend_all_down_def Let_def view_simps books)

lemma books_maintain [books]: "acctb n s \<Longrightarrow> acctb n (maintain now s)"
  by (simp add: maintain_def Let_def view_simps books)

section \<open>Frames\<close>

lemma books_handle_frame [books]:
  assumes a: "acctb n s" and i: "0 < i" "i < next_path_id s"
  shows "acctb n (handle_frame now acc i f s)"
proof (rule acctb_start[OF a])
  assume b: "acctb (next_path_id s) s"
  then show "acctb (next_path_id s) (handle_frame now acc i f s)"
    using i by (cases f) (simp_all add: handle_frame_def view_simps books)
qed

end
