(* ===== verification/Session_Pump.thy ===== *)
theory Session_Pump
  imports Session_Keep_Tick
begin

text \<open>
  The books kept by a pump: a piece is cut, placed on a path, and moved when its queue refuses
  it. Each step has the condition the rest of the session can break while the pump is parked:
  the stream is still in the table, and a piece that waits for a queue is still charged to the
  path it waits for.
\<close>

section \<open>A slot and a piece of a stream\<close>

definition slot_free :: "nat \<Rightarrow> nat \<Rightarrow> session \<Rightarrow> bool" where
  "slot_free i off s \<longleftrightarrow> (\<exists>x\<in>set (streamtab s). sid x = i \<and> off \<notin> fst ` set (unacked_q x))"

definition piece_at :: "nat \<Rightarrow> nat \<Rightarrow> nat \<Rightarrow> nat \<Rightarrow> session \<Rightarrow> bool" where
  "piece_at i off k l s \<longleftrightarrow> (\<exists>x\<in>set (streamtab s). sid x = i \<and> (off, k, l) \<in> set (map uv (unacked_q x)))"

lemma view_streams: "view t = view s \<Longrightarrow> map sv_of (streamtab t) = map sv_of (streamtab s)"
  by (simp add: view_def)

lemma slot_free_view: "view t = view s \<Longrightarrow> slot_free i off t = slot_free i off s"
proof -
  assume v: "view t = view s"
  have eq: "slot_free i off s \<longleftrightarrow> (\<exists>v\<in>set (map sv_of (streamtab s)). fst v = i \<and> off \<notin> set (map fst (fst (snd (snd v)))))"
    for s unfolding slot_free_def by (simp add: sv_of_def uv_def image_image comp_def)
  show ?thesis unfolding eq[of t] eq[of s] view_streams[OF v] ..
qed

lemma piece_at_view: "view t = view s \<Longrightarrow> piece_at i off k l t = piece_at i off k l s"
proof -
  assume v: "view t = view s"
  have eq: "piece_at i off k l s \<longleftrightarrow> (\<exists>v\<in>set (map sv_of (streamtab s)). fst v = i \<and> (off, k, l) \<in> set (fst (snd (snd v))))"
    for s unfolding piece_at_def by (simp add: sv_of_def)
  show ?thesis unfolding eq[of t] eq[of s] view_streams[OF v] ..
qed

lemma slot_free_get:
  assumes "ids_ok s" "slot_free i off s"
  obtains x where "get_stream i s = Some x" "off \<notin> fst ` set (unacked_q x)"
proof -
  from assms(2) obtain x where x: "x \<in> set (streamtab s)" "sid x = i" "off \<notin> fst ` set (unacked_q x)"
    by (auto simp: slot_free_def)
  have "get_stream i s \<noteq> None" using x(1,2) by (auto simp: get_stream_def tbl_find_None)
  then obtain y where y: "get_stream i s = Some y" by blast
  have "y = x" using get_stream_sid[OF y] x(1,2) assms(1) unique_key[of sid "streamtab s" y x]
    by (simp add: ids_ok_def)
  with y x(3) that show ?thesis by blast
qed

lemma piece_at_get:
  assumes "acct s" "piece_at i off k l s"
  obtains u where "get_piece i off s = Some u" "ua_path u = k" "ua_len u = l"
proof -
  from assms(2) obtain x u where x: "x \<in> set (streamtab s)" "sid x = i" "(off, u) \<in> set (unacked_q x)"
    "ua_path u = k" "ua_len u = l"
    by (auto simp: piece_at_def uv_def)
  have "get_stream i s \<noteq> None" using x(1,2) by (auto simp: get_stream_def tbl_find_None)
  then obtain y where y: "get_stream i s = Some y" by blast
  have "y = x" using get_stream_sid[OF y] x(1,2) acct_ids[OF assms(1)] unique_key[of sid "streamtab s" y x]
    by (simp add: ids_ok_def)
  moreover have "map_of (unacked_q x) off = Some u"
    using stream_ok_pieces(1)[OF acct_stream[OF assms(1) x(1)]] x(3) by simp
  ultimately have "get_piece i off s = Some u" using y by (simp add: get_piece_def)
  then show ?thesis using that x(4,5) by blast
qed

text \<open>Sticking a stream to a path leaves its pieces alone.\<close>

lemma sticky_streamtab:
  "\<exists>h. streamtab (set_sticky now i k s) = map h (streamtab s)
     \<and> (\<forall>x. sid (h x) = sid x \<and> unacked_q (h x) = unacked_q x)"
proof (cases "get_stream i s")
  case (Some x)
  consider "\<not> is_steerable x \<or> sticky x = k" | "is_steerable x" "sticky x \<noteq> k" "sticky x = 0"
    | "is_steerable x" "sticky x \<noteq> k" "sticky x \<noteq> 0" by blast
  then show ?thesis
  proof cases
    case 1
    then show ?thesis by (intro exI[of _ "\<lambda>x. x"]) (simp add: set_sticky_def Some)
  next
    case 2
    then show ?thesis
      by (intro exI[of _ "\<lambda>x. if sid x = i then x\<lparr>sticky := k\<rparr> else x"])
         (simp add: set_sticky_def Some Let_def tbl_upd_def)
  next
    case 3
    then show ?thesis
      by (intro exI[of _ "\<lambda>x. if sid x = i then note_stick_change now (x\<lparr>sticky := k\<rparr>) else x"])
         (simp add: set_sticky_def Some Let_def tbl_upd_def note_stick_change_def)
  qed
qed (intro exI[of _ "\<lambda>x. x"], simp add: set_sticky_def)

lemma sticky_keeps_slot: "slot_free i off (set_sticky now j k s) = slot_free i off s"
  and sticky_keeps_piece: "piece_at i off m l (set_sticky now j k s) = piece_at i off m l s"
proof -
  obtain h where h: "streamtab (set_sticky now j k s) = map h (streamtab s)"
    "\<And>x. sid (h x) = sid x" "\<And>x. unacked_q (h x) = unacked_q x"
    using sticky_streamtab by blast
  show "slot_free i off (set_sticky now j k s) = slot_free i off s"
    "piece_at i off m l (set_sticky now j k s) = piece_at i off m l s"
    by (simp_all add: slot_free_def piece_at_def h)
qed

section \<open>A piece is charged\<close>

lemma on_path_insert:
  "off \<notin> fst ` set q \<Longrightarrow> on_path j (bt_insert off u q) = on_path j q + (if ua_path u = j then ua_len u else 0)"
  by (induction off u q rule: bt_insert.induct) (auto simp: uv_def)

lemma set_insert_new: "off \<notin> fst ` set q \<Longrightarrow> set (bt_insert off u q) = insert (off, u) (set q)"
  by (induction off u q rule: bt_insert.induct) auto

lemma distinct_insert_new:
  "off \<notin> fst ` set q \<Longrightarrow> distinct (map fst q) \<Longrightarrow> distinct (map fst (bt_insert off u q))"
  by (induction off u q rule: bt_insert.induct) (auto simp: set_insert_new)

lemma path_used_fields [simp]:
  "sid (note_path_used k x) = sid x" "sticky (note_path_used k x) = sticky x"
  "recv_cap (note_path_used k x) = recv_cap x" "st_initial_window (note_path_used k x) = st_initial_window x"
  "unacked_q (note_path_used k x) = unacked_q x"
  by (simp_all add: note_path_used_def)

lemma acct_charge:
  assumes a: "acct s" and f: "slot_free i off s" and k: "0 < k" "k < next_path_id s"
  shows "acct (charge_piece now i off d k s)"
proof -
  from slot_free_get[OF acct_ids[OF a] f] obtain x where x: "get_stream i s = Some x"
    and new: "off \<notin> fst ` set (unacked_q x)" .
  let ?u = "new_piece now k d"
  let ?y = "note_path_used k (x\<lparr>unacked_q := bt_insert off ?u (unacked_q x)\<rparr>)"
  let ?g = "\<lambda>p. if pid p = k then add_inflight (length d) p else p"
  let ?h = "\<lambda>x. note_path_used k (x\<lparr>unacked_q := bt_insert off ?u (unacked_q x)\<rparr>)"
  let ?t = "upd_path k (add_inflight (length d)) (upd_held i ?h s)"
  have u: "ua_path ?u = k" "ua_len ?u = length d" by (simp_all add: new_piece_def ua_len_def)
  have xin: "x \<in> set (streamtab s)" "sid x = i" using get_stream_sid[OF x] by auto
  note xok = acct_stream[OF a xin(1)]
  have held: "upd_held i ?h s = upd_stream i ?h s" using x by (simp add: upd_held_def)
  have "acct ?t"
  proof (rule acct_swap[OF a x, of ?y ?g])
    show "distinct (map fst (unacked_q ?y))"
      using stream_ok_pieces(1)[OF xok] new by (simp add: distinct_insert_new)
    show "0 < ua_path v \<and> ua_path v < next_path_id s" if "(j, v) \<in> set (unacked_q ?y)" for j v
      using that stream_ok_pieces(2)[OF xok] u(1) k new by (auto simp: set_insert_new)
    show "pid (?g p) = pid p \<and> sticky_streams (?g p) = sticky_streams p
        \<and> (inflight p = charged (pid p) (xs_of s) \<longrightarrow>
            inflight (?g p) + on_path (pid p) (unacked_q x) = inflight p + on_path (pid p) (unacked_q ?y))" for p
      using new u by (simp add: on_path_insert)
    show "streamtab ?t = tbl_upd sid i (\<lambda>_. ?y) (streamtab s)"
    proof -
      from stream_split[OF acct_ids[OF a] x] obtain as bs where "streamtab s = as @ x # bs"
        "\<And>f. tbl_upd sid i f (streamtab s) = as @ f x # bs" by metis
      then show ?thesis by (simp add: held)
    qed
  qed (simp_all add: xin(2) held, simp add: tbl_upd_as_map)
  then show ?thesis unfolding charge_piece_def by (rule keeps_stamp_delivered)
qed

lemma charge_piece_at:
  assumes a: "acct s" and f: "slot_free i off s" and k: "0 < k" "k < next_path_id s"
  shows "piece_at i off k (length d) (charge_piece now i off d k s)"
proof -
  from slot_free_get[OF acct_ids[OF a] f] obtain x where x: "get_stream i s = Some x"
    and new: "off \<notin> fst ` set (unacked_q x)" .
  let ?u = "new_piece now k d"
  let ?h = "\<lambda>x. note_path_used k (x\<lparr>unacked_q := bt_insert off ?u (unacked_q x)\<rparr>)"
  let ?t = "upd_path k (add_inflight (length d)) (upd_held i ?h s)"
  have held: "upd_held i ?h s = upd_stream i ?h s" using x by (simp add: upd_held_def)
  have "?h x \<in> set (streamtab ?t)" using get_stream_sid[OF x] by (simp add: held in_tbl_upd) blast
  moreover have "uv (off, ?u) = (off, k, length d)" by (simp add: uv_def new_piece_def ua_len_def)
  then have "(off, k, length d) \<in> set (map uv (unacked_q (?h x)))"
    using new by (simp add: set_insert_new)
  ultimately have "piece_at i off k (length d) ?t"
    using get_stream_sid[OF x] unfolding piece_at_def by (intro bexI[of _ "?h x"]) simp_all
  moreover have "view (charge_piece now i off d k s) = view ?t"
    unfolding charge_piece_def
  proof (rule neutral_view)
    show "ids_ok ?t"
      using acct_ids[OF a] by (simp add: held ids_ok_def tbl_upd_id)
  qed (rule keeps_stamp_delivered)
  ultimately show ?thesis using piece_at_view by blast
qed

lemma next_charge: "ids_ok s \<Longrightarrow> next_path_id (charge_piece now i off d k s) = next_path_id s"
proof -
  have "next_path_id (stamp_delivered now i off k t) = next_path_id t" for t
    by (simp add: stamp_delivered_def upd_held_piece_def upd_held_def Let_def split: option.splits)
  then show ?thesis by (simp add: charge_piece_def upd_held_def)
qed

section \<open>A piece its queue refuses\<close>

lemma move_is_rehome:
  assumes p: "get_piece i off s = Some u" "ua_path u = k" "ua_len u = n"
  shows "view (xfer_inflight k b n (upd_held_piece i off (moved_piece now b) s))
       = view (rehome_unacked now i off b s)"
proof -
  let ?s1 = "xfer_inflight k b n s"
  let ?f = "\<lambda>u. case get_path b ?s1 of Some p \<Rightarrow> stamp now p (moved_piece now b u) | None \<Rightarrow> moved_piece now b u"
  have x: "get_stream i s \<noteq> None" using p(1) by (auto simp: get_piece_def split: option.splits)
  have uvf: "uv (j, ?f v) = uv (j, moved_piece now b v)" for j v
    by (cases "get_path b ?s1") (simp_all add: stamp_def uv_def ua_len_def)
  have sv: "sv_of (x\<lparr>unacked_q := map (\<lambda>(j, v). (j, if j = off then ?f v else v)) (unacked_q x)\<rparr>)
          = sv_of (x\<lparr>unacked_q := map (\<lambda>(j, v). (j, if j = off then moved_piece now b v else v)) (unacked_q x)\<rparr>)" for x
    using uvf by (simp add: sv_of_def case_prod_unfold)
  have st: "map sv_of (tbl_upd sid i (\<lambda>x. x\<lparr>unacked_q := map (\<lambda>(j, v). (j, if j = off then ?f v else v)) (unacked_q x)\<rparr>) xs)
      = map sv_of (tbl_upd sid i (\<lambda>x. x\<lparr>unacked_q := map (\<lambda>(j, v). (j, if j = off then moved_piece now b v else v)) (unacked_q x)\<rparr>) xs)" for xs
    unfolding tbl_upd_def using sv by simp
  have l: "xfer_inflight k b n (upd_held_piece i off (moved_piece now b) s)
      = upd_stream i (\<lambda>x. x\<lparr>unacked_q := map (\<lambda>(j, v). (j, if j = off then moved_piece now b v else v)) (unacked_q x)\<rparr>) ?s1"
    using x by (simp add: upd_held_piece_def upd_held_def xfer_inflight_def upd_commute)
  have r: "rehome_unacked now i off b s
      = upd_stream i (\<lambda>x. x\<lparr>unacked_q := map (\<lambda>(j, v). (j, if j = off then ?f v else v)) (unacked_q x)\<rparr>) ?s1"
    using p by (simp add: rehome_unacked_def Let_def upd_piece_def)
  show ?thesis unfolding l r by (simp add: view_def st)
qed

lemma books_migrate [books]:
  assumes a: "acctb n s" and p: "piece_at i off k (length d) s"
  shows "acctb n (migrate_send_blocked now i k off d s)"
proof (cases "pick_retry now k s")
  case (Some alt)
  obtain ok s1 where f: "send_data_frame now i off d alt s = (ok, s1)" by fastforce
  have n1: "keeps I s1" if "keeps I s" for I by (rule keeps_send_data'[OF f that])
  show ?thesis
  proof (rule books_pick[OF a pick_retry_in[OF Some]])
    assume b: "acctb (next_path_id s) s" and alt: "0 < alt" "alt < next_path_id s"
    let ?r = "set_sticky now i alt s1"
    let ?t = "xfer_inflight k alt (length d) (upd_held_piece i off (moved_piece now alt) ?r)"
    have r: "acctb (next_path_id s) ?r" by (rule books_set_sticky[OF n1[OF b] alt])
    have "view s1 = view s" by (rule neutral_view[OF n1]) (use a in \<open>simp_all add: keeps_def\<close>)
    then have "piece_at i off k (length d) s1" using p piece_at_view by blast
    then have "piece_at i off k (length d) ?r" by (simp add: sticky_keeps_piece)
    from piece_at_get[OF acctb_acct(1)[OF r] this] obtain u where
      u: "get_piece i off ?r = Some u" "ua_path u = k" "ua_len u = length d" .
    have "acctb (next_path_id s) (rehome_unacked now i off alt ?r)" by (rule books_rehome[OF r alt])
    then have "acctb (next_path_id s) ?t" using keeps_view[OF move_is_rehome[OF u]] by blast
    then show "acctb (next_path_id s) (migrate_send_blocked now i k off d s)"
      using n1[OF b] by (simp add: migrate_send_blocked_def Some f view_simps)
  qed
qed (simp add: migrate_send_blocked_def a view_simps)

end
