(* ===== verification/Session_Machine.thy ===== *)
theory Session_Machine
  imports Session_Pump
begin

text \<open>
  The session as a state machine: the steps of the network tasks, the health tick, the
  application and the pumps, in any order, and the books as an invariant of every run.
\<close>

section \<open>The path of a piece\<close>

lemma bulk_overflow_in: "bulk_overflow now k s = (Some j, t) \<Longrightarrow> in_pool j s"
proof -
  assume h: "bulk_overflow now k s = (Some j, t)"
  let ?f = "\<lambda>p. if pid p \<noteq> k \<and> is_schedulable p \<and> is_quiet_fresh now (scfg s) p
                then (let (fit, p1) = loop_fit now (scfg s) (pool_ref s) p
                      in if fit then has_room_or_mark p1 else (False, p1))
                else (False, p)"
  have f: "pv (snd (?f p)) = pv p" for p
    using pv_loop_fit[of now "scfg s" "pool_ref s" p]
    by (cases "loop_fit now (scfg s) (pool_ref s) p") (simp add: view_simps)
  let ?xs = "fastest_class_set (scfg s) (pathtab s)"
  obtain room us where r: "filter_upd ?f ?xs = (room, us)" by fastforce
  from h obtain q where q: "q \<in> set room" "pid q = j"
    using quiet_or_all_subset
    by (auto simp: bulk_overflow_def bulk_overflow_pick_def Let_def r split: if_splits dest!: scored.pick_in)
  have "\<exists>p\<in>set ?xs. pv q = pv p" using filter_upd_kept_pv[where f = ?f, OF f] q(1) r by fastforce
  then show ?thesis using q(2) fastest_subset by (fastforce simp: in_pool_def pv_def)
qed

lemma pick_bulk_home_in: "pick_bulk_home now e s = (Some j, t) \<Longrightarrow> in_pool j s"
proof -
  assume h: "pick_bulk_home now e s = (Some j, t)"
  let ?fresh = "filter_or_all (is_quiet_fresh now (scfg s))
     (filter (\<lambda>p. is_schedulable p \<and> Some (pid p) \<noteq> e) (fastest_class_set (scfg s) (pathtab s)))"
  obtain room us where r: "filter_upd has_room_or_mark ?fresh = (room, us)" by fastforce
  obtain fit us2 where l: "loop_fit_or_all now (scfg s) (pool_ref s) room = (fit, us2)" by fastforce
  from h obtain q where q: "q \<in> set fit" "pid q = j"
    using quiet_or_all_subset
    by (auto simp: pick_bulk_home_def pick_bulk_def Let_def r l split: if_splits dest!: scored.pick_in)
  have "\<exists>p\<in>set room. pv q = pv p"
    using l q(1) filter_upd_pv[of "loop_fit now (scfg s) (pool_ref s)" q room]
      filter_upd_kept_pv[of "loop_fit now (scfg s) (pool_ref s)" q room]
    by (auto simp: loop_fit_or_all_def view_simps Let_def split: prod.splits if_splits)
  then obtain p where p: "p \<in> set room" "pv q = pv p" by blast
  have "\<exists>o'\<in>set ?fresh. pv p = pv o'"
    using filter_upd_kept_pv[of has_room_or_mark p ?fresh, OF pv_room_mark] p(1) r by simp
  then obtain z where "z \<in> set ?fresh" "pv p = pv z" by blast
  moreover from this(1) have "z \<in> set (fastest_class_set (scfg s) (pathtab s))"
    using filter_or_all_subset by fastforce
  ultimately show ?thesis using p(2) q(2) fastest_subset by (fastforce simp: in_pool_def pv_def)
qed

lemma bulk_home_in: "bulk_home now k s = (Some j, b, t) \<Longrightarrow> in_pool j s"
  by (auto simp: bulk_home_def in_pool_get split: option.splits if_splits)

lemma bulk_elsewhere_in:
  assumes ids: "ids_ok s" and h: "bulk_elsewhere now k b s = ((Some j, o'), t)"
  shows "in_pool j s"
proof (cases b)
  case True
  obtain r s1 where p: "pick_bulk_home now (Some k) s = (r, s1)" by fastforce
  with h True have "r = Some j"
    by (auto simp: bulk_elsewhere_def Let_def split: option.splits prod.splits if_splits)
  with p show ?thesis using pick_bulk_home_in by blast
next
  case False
  obtain r s1 where p: "pick_bulk_home now None s = (r, s1)" by fastforce
  have "in_pool j s1 = in_pool j s" by (rule neutral_pool[OF _ ids]) (rule keeps_snd_eqs(2)[OF p])
  moreover have "r = Some j \<or> pick_pref now PickAny s1 = Some j"
    using h False p by (auto simp: bulk_elsewhere_def or_else_eq_Some split: if_splits)
  ultimately show ?thesis using p pick_bulk_home_in pick_pref_in by blast
qed

lemma pick_bulk_path_in:
  assumes ids: "ids_ok s" and h: "pick_bulk_path now i k s = ((Some j, o'), t)"
  shows "in_pool j s"
proof -
  obtain r b s1 where r: "bulk_home now k s = (r, b, s1)" by (cases "bulk_home now k s") auto
  show ?thesis
  proof (cases r)
    case (Some m)
    with h r show ?thesis using bulk_home_in by (auto simp: pick_bulk_path_def)
  next
    case None
    have n1: "keeps I s1" if "keeps I s" for I by (rule keeps_snd_eqs(1)[OF r that])
    have ids1: "ids_ok s1" using ids n1[of "\<lambda>_. True"] by (simp add: keeps_def)
    obtain r2 t2 where r2: "bulk_overflow now k s1 = (r2, t2)" by fastforce
    have n2: "keeps I t2" if "keeps I s" for I by (rule keeps_snd_eqs(4)[OF r2 n1[OF that]])
    have ids2: "ids_ok t2" using ids n2[of "\<lambda>_. True"] by (simp add: keeps_def)
    have "in_pool j s1 \<or> in_pool j t2"
    proof (cases r2)
      case (Some m)
      with h None r r2 have "m = j" by (auto simp: pick_bulk_path_def split: if_splits)
      with r2 Some show ?thesis using bulk_overflow_in by blast
    next
      case none2: None
      with h None r r2 show ?thesis using bulk_elsewhere_in[OF ids2] by (auto simp: pick_bulk_path_def)
    qed
    then show ?thesis using neutral_pool[OF n1 ids] neutral_pool[OF n2 ids] by blast
  qed
qed

lemma pick_send_path_in:
  assumes "ids_ok s" "pick_send_path now b i k s = ((Some j, o'), t)"
  shows "in_pool j s"
proof (cases b)
  case True
  then show ?thesis using assms pick_bulk_path_in[OF assms(1), of now i k j o' t] by (simp add: pick_send_path_def)
next
  case False
  then have "interactive_affinity now k s = Some j \<or> pick_pref now PickInteractive s = Some j"
    using assms(2) by (auto simp: pick_send_path_def or_else_eq_Some)
  then show ?thesis
    using pick_pref_in by (auto simp: interactive_affinity_def in_pool_get split: if_splits option.splits)
qed

lemma place_unfit_in:
  assumes ids: "ids_ok s" and h: "place_unfit now k b s = ((j, o'), t)"
  shows "j = k \<or> in_pool j s"
proof -
  obtain fit s1 where l: "loop_fit_id now k s = (fit, s1)" by fastforce
  obtain r t2 where p: "pick_bulk_home now (Some k) s1 = (r, t2)" by fastforce
  have "in_pool j s1 = in_pool j s" by (rule neutral_pool[OF _ ids]) (rule keeps_snd_eqs(3)[OF l])
  moreover have "j = k \<or> r = Some j"
    using h by (auto simp: place_unfit_def l p split: if_splits option.splits prod.splits)
  ultimately show ?thesis using p pick_bulk_home_in by blast
qed

lemma place_first_in:
  assumes ids: "ids_ok s" and h: "place_first_bulk now k b s = ((j, o'), t)"
  shows "j = k \<or> in_pool j s"
proof -
  obtain r s1 where l: "hol_place_bulk now k s = (r, s1)" by fastforce
  have n1: "keeps I s1" if "keeps I s" for I by (rule keeps_snd_eqs(5)[OF l that])
  have ids1: "ids_ok s1" "ids_ok (bump m s1)" for m
    using ids n1[of "\<lambda>_. True"] keeps_counters(2)[of "\<lambda>_. True" m s1] by (auto simp: keeps_def)
  have pool: "in_pool j s1 = in_pool j s" using neutral_pool[OF n1 ids] by simp
  then have pool2: "in_pool j (bump M_hol_rebalances s1) = in_pool j s" by (simp add: in_pool_get view_simps)
  show ?thesis
  proof (cases r)
    case None
    with h l have "place_unfit now k b s1 = ((j, o'), t)" by (simp add: place_first_bulk_def)
    from place_unfit_in[OF ids1(1) this] pool show ?thesis by simp
  next
    case (Some m)
    with h l have "place_unfit now m False (bump M_hol_rebalances s1) = ((j, o'), t)"
      by (simp add: place_first_bulk_def)
    from place_unfit_in[OF ids1(2) this] pool2 have "j = m \<or> in_pool j s" by simp
    with Some l show ?thesis using hol_place_in by blast
  qed
qed

section \<open>A waiting piece\<close>

lemma piece_at_neutral:
  assumes "\<And>I. keeps I s \<Longrightarrow> keeps I t" "ids_ok s" "piece_at i off k l s"
  shows "piece_at i off k l t"
  using assms(3) piece_at_view[OF neutral_view[OF assms(1,2)]] by blast

lemma slot_free_neutral:
  assumes "\<And>I. keeps I s \<Longrightarrow> keeps I t" "ids_ok s" "slot_free i off s"
  shows "slot_free i off t"
  using assms(3) slot_free_view[OF neutral_view[OF assms(1,2)]] by blast

lemma acctb_ids: "acctb n s \<Longrightarrow> ids_ok s" by (simp add: keeps_def)

lemma books_bulk_head [books]:
  assumes a: "acctb n s" and p: "piece_at i off k (length d) s"
  shows "acctb n (snd (bulk_wait_head now i k off d dl s))"
proof -
  obtain ok t where f: "(if path_alive k s then send_data_frame now i off d k s else (False, s)) = (ok, t)"
    by fastforce
  have n: "keeps I t" if "keeps I s" for I
    using that f by (auto split: if_splits dest: keeps_send_data')
  have "acctb n (migrate_send_blocked now i k off d t)"
    by (rule books_migrate[OF n[OF a] piece_at_neutral[OF n acctb_ids[OF a] p]])
  then show ?thesis using a n[OF a] by (simp add: bulk_wait_head_def f view_simps)
qed

lemma books_bulk_wait [books]:
  assumes a: "acctb n s" and p: "piece_at i off k (length d) s"
  shows "acctb n (snd (bulk_wait now w i k off d dl s))"
proof -
  obtain ok t where f: "send_data_frame now i off d k s = (ok, t)" by fastforce
  have n: "keeps I t" if "keeps I s" for I by (rule keeps_send_data'[OF f that])
  have "acctb n (snd (bulk_wait_head now i k off d dl t))"
    by (rule books_bulk_head[OF n[OF a] piece_at_neutral[OF n acctb_ids[OF a] p]])
  then show ?thesis using books_bulk_head[OF a p] n[OF a] by (simp add: bulk_wait_def f view_simps)
qed

lemma books_begin_wait [books]:
  assumes a: "acctb n s" and p: "piece_at i off k (length d) s"
  shows "acctb n (snd (begin_bulk_wait now i k off d s))"
proof (cases "get_path k s")
  case (Some q)
  let ?t = "upd_held_piece i off (\<lambda>u. u\<lparr>ua_not_before := bulk_deadline now q s\<rparr>) s"
  have n: "keeps I ?t" if "keeps I s" for I
    by (rule keeps_upd_held_piece[OF that]) (simp add: uv_def ua_len_def)
  show ?thesis
    using books_bulk_head[OF n[OF a] piece_at_neutral[OF n acctb_ids[OF a] p]]
    by (simp add: begin_bulk_wait_def Some Let_def)
qed (use books_migrate[OF a p] in \<open>simp add: begin_bulk_wait_def\<close>)

section \<open>A piece is placed\<close>

lemma books_place_piece [books]:
  assumes a: "acctb n s" and f: "slot_free i off s" and k: "in_pool k s"
  shows "acctb n (snd (place_piece now i off d k b s))"
proof -
  let ?bulk = "case get_held i s of Some x \<Rightarrow> bulk x | None \<Rightarrow> False"
  let ?big = "length d > interactive_max (stuning s)"
  let ?u1 = "if ?big then upd_held i (\<lambda>x. x\<lparr>bulk := True\<rparr>) s else s"
  have n1: "keeps I ?u1" if "keeps I s" for I
    using that by (simp add: keeps_upd_held sv_of_def)
  note ids1 = acctb_ids[OF n1[OF a]]
  have k1: "in_pool k ?u1" using k neutral_pool[OF n1 acctb_ids[OF a]] by simp
  obtain j o' u2 where p2: "(if ?big \<and> \<not> ?bulk then place_first_bulk now k b ?u1 else ((k, b), ?u1))
      = ((j, o'), u2)" by (cases "if ?big \<and> \<not> ?bulk then place_first_bulk now k b ?u1 else ((k, b), ?u1)") auto
  have n2: "keeps I u2" if "keeps I ?u1" for I
    using that p2 keeps_place_first[OF that, of now k b] by (auto split: if_splits)
  have j1: "in_pool j ?u1"
    using p2 k1 place_first_in[OF ids1, of now k b j o' u2] by (auto split: if_splits)
  then have j2: "in_pool j u2" using neutral_pool[OF n2 ids1] by simp
  have f2: "slot_free i off u2"
    by (rule slot_free_neutral[OF n2 ids1]) (simp_all add: slot_free_neutral[OF n1 acctb_ids[OF a] f])
  show ?thesis
  proof (rule acctb_start[OF a])
    assume "acctb (next_path_id s) s"
    then have b2: "acctb (next_path_id s) u2" by (intro n2 n1)
    have j: "0 < j" "j < next_path_id u2" using in_pool_old[OF b2 j2] by auto
    have nx: "next_path_id u2 = next_path_id s"
      using neutral_next[OF n2 ids1] neutral_next[OF n1 acctb_ids[OF a]] by simp
    let ?u2 = "if o' then u2 else set_sticky now i j u2"
    let ?u3 = "charge_piece now i off d j ?u2"
    have b2': "acctb (next_path_id s) ?u2" using b2 j nx by (simp add: books_set_sticky)
    have f2': "slot_free i off ?u2" using f2 by (simp add: sticky_keeps_slot)
    have j': "j < next_path_id ?u2" using j nx by (simp add: next_set_sticky)
    have b3: "acctb (next_path_id s) ?u3"
      using acct_charge[OF acctb_acct(1)[OF b2'] f2' j(1) j'] b2' next_charge[OF acctb_ids[OF b2']]
      by (simp add: acctb_iff)
    have p3: "piece_at i off j (length d) ?u3"
      by (rule charge_piece_at[OF acctb_acct(1)[OF b2'] f2' j(1) j'])
    obtain ok u4 where s4: "send_data_frame now i off d j ?u3 = (ok, u4)" by fastforce
    have n4: "keeps I u4" if "keeps I ?u3" for I by (rule keeps_send_data'[OF s4 that])
    note p4 = piece_at_neutral[OF n4 acctb_ids[OF b3] p3]
    show "acctb (next_path_id s) (snd (place_piece now i off d k b s))"
      unfolding place_piece_def Let_def p2 prod.case s4
      using n4[OF b3] books_begin_wait[OF n4[OF b3] p4] books_migrate[OF n4[OF b3] p4] by simp
  qed
qed

lemma books_pick_and_place [books]:
  assumes a: "acctb n s" and f: "slot_free i off s"
  shows "acctb n (snd (pick_and_place now i off d w t0 s))"
proof (cases "get_held i s")
  case (Some x)
  obtain r o' u1 where p: "pick_send_path now (bulk x) i (sticky x) s = ((r, o'), u1)"
    by (cases "pick_send_path now (bulk x) i (sticky x) s") auto
  have n1: "keeps I u1" if "keeps I s" for I
    using keeps_pick_send_path[OF that, of now "bulk x" i "sticky x"] p by simp
  show ?thesis
  proof (cases r)
    case None
    then show ?thesis using Some p keeps_no_path[OF n1[OF a]] by (simp add: pick_and_place_def)
  next
    case (Some j)
    have "in_pool j u1"
      using pick_send_path_in[OF acctb_ids[OF a], of now "bulk x" i "sticky x" j o' u1] p Some
        neutral_pool[OF n1 acctb_ids[OF a]] by simp
    from books_place_piece[OF n1[OF a] slot_free_neutral[OF n1 acctb_ids[OF a] f] this]
    show ?thesis using Some p \<open>get_held i s = Some x\<close> by (simp add: pick_and_place_def)
  qed
qed (simp add: pick_and_place_def a)

lemma books_at_window [books]:
  assumes a: "acctb n s" and f: "\<And>x. get_held i s = Some x \<Longrightarrow> rest \<noteq> [] \<Longrightarrow> window_ok x 1 \<Longrightarrow> slot_free i (send_next x) s"
  shows "acctb n (snd (at_window now b i w rest s))"
proof (cases "get_held i s")
  case (Some x)
  let ?u = "upd_held i (\<lambda>y. y\<lparr>send_next := send_next y + cut_len x rest\<rparr>) s"
  have n: "keeps I ?u" if "keeps I s" for I
    by (rule keeps_upd_held[OF that]) (simp add: sv_of_def)
  obtain out u1 where p: "pick_and_place now i (send_next x) (take (cut_len x rest) rest) False now ?u = (out, u1)"
    by fastforce
  have "acctb n u1" if r: "rest \<noteq> []" "window_ok x 1"
    using books_pick_and_place[OF n[OF a] slot_free_neutral[OF n acctb_ids[OF a] f[OF Some r]],
        of now "take (cut_len x rest) rest" False now] p by simp
  then show ?thesis using a Some p keeps_window_block[OF a, of i]
    by (simp add: at_window_def Let_def)
qed (simp add: at_window_def a)

end
