(* ===== verification/Session_Run.thy ===== *)
theory Session_Run
  imports Session_Machine Path_Machine "HOL-Library.Code_Target_Numeral"
begin

text \<open>
  The session as a state machine: the steps of the path tasks, the maintenance timer, the hop
  copiers and the pumps, in any order, and its books as an invariant of every run.
\<close>

section \<open>Steps\<close>

text \<open>
  What a parked pump relies on when it is resumed: the piece it is about to place belongs to a
  stream of the table and is not in flight yet, and the piece that waits for room on a bulk queue
  is still charged to the path of that queue.
\<close>

fun pump_ready :: "nat \<Rightarrow> send_phase \<Rightarrow> session \<Rightarrow> bool" where
  "pump_ready i (AtWindow w) s =
     (case get_stream i s of
        None \<Rightarrow> get_held i s = None
      | Some x \<Rightarrow> send_next x \<notin> fst ` set (unacked_q x))"
| "pump_ready i (AtPick off d w t) s =
     (case get_stream i s of None \<Rightarrow> False | Some x \<Rightarrow> off \<notin> fst ` set (unacked_q x))"
| "pump_ready i (AtBulk k off d dl) s =
     (case get_piece i off s of None \<Rightarrow> False | Some u \<Rightarrow> ua_path u = k \<and> ua_len u = length d)"

inductive session_step :: "session \<Rightarrow> session \<Rightarrow> bool" where
  attach: "session_step s (snd (start_path now name s))"
| fail: "session_step s (path_failed now k s)"
| touch: "session_step s (upd_path k (touch_rx now) s)"
| frame: "0 < k \<Longrightarrow> k < next_path_id s \<Longrightarrow> session_step s (handle_frame now acceptor k f s)"
| writer: "get_path k s = Some p \<Longrightarrow>
    session_step s (upd_path k (\<lambda>_. wr_path (writer_step env now at_us p)) s)"
| ack_sent: "session_step s (note_ack_sent now i k s)"
| tick: "session_step s (maintain now s)"
| opened: "session_step s (snd (open_stream now t s))"
| close: "session_step s (close_send now i s)"
| reset: "session_step s (reset_stream now w i s)"
| reap: "session_step s (reap_stream now i s)"
| read: "session_step s (snd (pump_recv now i s))"
| consumed: "session_step s (note_app_read now i k s)"
| send: "pump_ready i ph s \<Longrightarrow> session_step s (snd (send_resume now flag i ph rest s))"
| let_go: "session_step s (drop_departed j s)"
| die: "session_step s (mark_dead now b s)"
| stop: "session_step s (shutdown now s)"

inductive session_run :: "session \<Rightarrow> session \<Rightarrow> bool" where
  here: "session_run s s"
| more: "session_run s t \<Longrightarrow> session_step t u \<Longrightarrow> session_run s u"

section \<open>The writer task\<close>

lemma pv_writer_parts [view_simps]:
  "pv (write_one now out p) = pv p" "pv (note_dequeue u p) = pv p" "pv (snd (next_ping now p)) = pv p"
  "pv (snd (take_acks k p)) = pv p" "pv (p\<lparr>urgent_q := q\<rparr>) = pv p" "pv (p\<lparr>writer_q := q\<rparr>) = pv p"
  "pv (p\<lparr>last_tx := now\<rparr>) = pv p"
  by (simp_all add: pv_def write_one_def note_dequeue_def undo_enqueue_def next_ping_def take_acks_def Let_def)

lemma pv_park [view_simps]: "pv (snd (park_stream_data f p)) = pv p"
  by (simp add: park_stream_data_def try_send_def note_enqueue_def undo_enqueue_def pv_def Let_def split: option.splits)

lemma pv_flush_acks: "flush_acks now outs i as p = (w, r, q) \<Longrightarrow> pv q = pv p"
proof (induction now outs i as p arbitrary: w r q rule: flush_acks.induct)
  case (2 now outs i a as p)
  then show ?case by (cases "outs i") (auto simp: Let_def view_simps split: prod.splits)
qed simp

lemma pv_flush_urgent: "flush_urgent ts dl p = (w, q) \<Longrightarrow> pv q = pv p"
proof (induction ts dl p arbitrary: w q rule: flush_urgent.induct)
  case (2 t ts dl p)
  then show ?case
    by (cases "urgent_q p") (auto simp: Let_def view_simps split: prod.splits if_splits)
qed simp

lemma pv_after_write: "pv (wr_path (after_write e now w out na p)) = pv p"
  by (auto simp: after_write_def pv_flush_urgent split: write_out.splits prod.splits)

lemma pv_writer_step: "pv (wr_path (writer_step e now na p)) = pv p"
proof -
  obtain w0 p0 where fl: "flush_urgent (we_flush e) (now + we_ping_max e) p = (w0, p0)" by fastforce
  obtain sq p1 where np: "next_ping now p = (sq, p1)" by fastforce
  obtain rows p2 where ta: "take_acks ACK_FLUSH_K p = (rows, p2)" by fastforce
  obtain w r p3 where fa: "flush_acks now (we_outs e) 0 rows p2 = (w, r, p3)" by (rule prod_cases3)
  have n: "pv p0 = pv p" "pv p1 = pv p" "pv p3 = pv p"
    using pv_flush_urgent[OF fl] pv_writer_parts(3)[of now p] np pv_writer_parts(4)[of ACK_FLUSH_K p] ta
      pv_flush_acks[OF fa] by simp_all
  have park: "pv q = pv p" if "park_stream_data f (note_dequeue True (p\<lparr>urgent_q := fs\<rparr>)) = (d, q)" for d q f fs
    using pv_park[of f "note_dequeue True (p\<lparr>urgent_q := fs\<rparr>)"] that by (simp add: pv_writer_parts)
  consider "we_close e" | "\<not> we_close e" "ping_due now na (we_dead e) (we_every e) p"
    | "\<not> we_close e" "\<not> ping_due now na (we_dead e) (we_every e) p" "pending_acks p \<noteq> []"
    | "\<not> we_close e" "\<not> ping_due now na (we_dead e) (we_every e) p" "pending_acks p = []" by blast
  then show ?thesis
  proof cases
    case 4
    then show ?thesis
      by (auto simp: writer_step_def Let_def pv_after_write pv_writer_parts dest: park
          split: prod.splits list.splits bool.splits)
  qed (simp_all add: writer_step_def Let_def fl np ta fa n pv_after_write pv_writer_parts split: option.splits)
qed

section \<open>The books of a run\<close>

definition books_ok :: "session \<Rightarrow> bool" where
  "books_ok s \<longleftrightarrow>
     distinct (map pid (pathtab s)) \<and> distinct (map sid (streamtab s))
     \<and> (\<forall>p\<in>set (pathtab s). 0 < pid p \<and> pid p < next_path_id s
          \<and> inflight p = (\<Sum>x\<leftarrow>streamtab s. \<Sum>(off, u)\<leftarrow>unacked_q x. if ua_path u = pid p then ua_len u else 0)
          \<and> sticky_streams p = length (filter (\<lambda>x. sticky x = pid p) (streamtab s)))
     \<and> (\<forall>x\<in>set (streamtab s). sticky x < next_path_id s \<and> distinct (map fst (unacked_q x))
          \<and> initial_window (stuning s) \<le> recv_cap x
          \<and> recv_cap x \<le> sat_mul32 (initial_window (stuning s)) (chan (stuning s)))
     \<and> recv_cap_extra s = (\<Sum>x\<leftarrow>streamtab s @ departed s. recv_cap x - st_initial_window x)"

lemma pieces_on_uv: "pieces_on i (map uv q) = (\<Sum>(off, u)\<leftarrow>q. if ua_path u = i then ua_len u else 0)"
  by (induction q) (auto simp: uv_def)

lemma charged_sum:
  "charged i (map sv_of xs) = (\<Sum>x\<leftarrow>xs. \<Sum>(off, u)\<leftarrow>unacked_q x. if ua_path u = i then ua_len u else 0)"
  by (induction xs) (simp_all add: sv_of_def pieces_on_uv)

lemma stuck_count: "stuck i (map sv_of xs) = length (filter (\<lambda>x. sticky x = i) xs)"
  by (induction xs) (simp_all add: sv_of_def)

lemma lent_sum: "lent (map sv_of xs) = (\<Sum>x\<leftarrow>xs. recv_cap x - st_initial_window x)"
  by (induction xs) (simp_all add: sv_of_def)

lemma acct_books: "acct s \<Longrightarrow> books_ok s"
proof -
  assume a: "acct s"
  have "path_ok (next_path_id s) (xs_of s) (pv p)" if "p \<in> set (pathtab s)" for p by (rule acct_path[OF a that])
  moreover have "stream_ok (next_path_id s) (next_stream_id s) (is_client s) (stuning s) (sv_of x)"
    if "x \<in> set (streamtab s)" for x by (rule acct_stream[OF a that])
  moreover have "map fst (map uv q) = map fst q" for q by (simp add: uv_def comp_def)
  moreover have "ds_lent s = (\<Sum>x\<leftarrow>departed s. recv_cap x - st_initial_window x)"
    by (simp add: ds_lent_def dv_def comp_def)
  ultimately show ?thesis
    using a unfolding books_ok_def acct_iff ids_ok_def
    by (simp add: xs_of_def pv_def sv_of_def[of "_"] charged_sum stuck_count lent_sum del: map_map)
qed

section \<open>Every step keeps the books\<close>

lemma get_held_stream: "get_stream i s = Some x \<Longrightarrow> get_held i s = Some x"
  by (simp add: get_held_def)

lemma slot_freeI: "get_stream i s = Some x \<Longrightarrow> off \<notin> fst ` set (unacked_q x) \<Longrightarrow> slot_free i off s"
  using get_stream_sid[of i s x] by (auto simp: slot_free_def)

lemma piece_atI:
  assumes "get_piece i off s = Some u" "ua_path u = k" "ua_len u = l"
  shows "piece_at i off k l s"
proof -
  from assms(1) obtain x where x: "get_stream i s = Some x" "map_of (unacked_q x) off = Some u"
    by (auto simp: get_piece_def split: option.splits)
  then have "(off, k, l) \<in> set (map uv (unacked_q x))"
    using map_of_SomeD[OF x(2)] assms(2,3) by (force simp: uv_def)
  with get_stream_sid[OF x(1)] show ?thesis by (auto simp: piece_at_def)
qed

lemma books_send_resume:
  assumes a: "acctb n s" and r: "pump_ready i ph s"
  shows "acctb n (snd (send_resume now flag i ph rest s))"
proof (cases ph)
  case (AtWindow w)
  have "slot_free i (send_next x) s" if "get_held i s = Some x" for x
    using r AtWindow that get_held_stream by (auto intro: slot_freeI split: option.splits)
  from books_at_window[OF a this] show ?thesis by (simp add: send_resume_def AtWindow)
next
  case (AtPick off d w t0)
  have "slot_free i off s" using r AtPick by (auto intro: slot_freeI split: option.splits)
  from books_pick_and_place[OF a this, of now d w t0] show ?thesis
    by (cases "pick_and_place now i off d w t0 s") (simp add: send_resume_def AtPick)
next
  case (AtBulk k off d dl)
  have "piece_at i off k (length d) s" using r AtBulk by (auto intro: piece_atI split: option.splits)
  from books_bulk_wait[OF a this, of now flag dl] show ?thesis
    by (cases "bulk_wait now flag i k off d dl s") (simp add: send_resume_def AtBulk)
qed

lemma keeps_writer:
  assumes "keeps I s" "get_path k s = Some p"
  shows "keeps I (upd_path k (\<lambda>_. wr_path (writer_step e now na p)) s)"
  by (rule keeps_set_path[OF assms pv_writer_step])

lemma keeps_touch: "keeps I s \<Longrightarrow> keeps I (upd_path k (touch_rx now) s)"
  by (rule keeps_upd_path) (simp_all add: pv_def touch_rx_def Let_def)

lemma session_step_books: "session_step s t \<Longrightarrow> acctb n s \<Longrightarrow> acctb n t"
proof (induction rule: session_step.induct)
  case (frame k s now acceptor f)
  show ?case by (rule books_handle_frame[OF frame(3,1,2)])
next
  case (send i ph s now flag rest)
  show ?case by (rule books_send_resume[OF send(2,1)])
next
  case (writer k s p env now at_us)
  show ?case by (rule keeps_writer[OF writer(2,1)])
qed (simp_all add: books keeps_touch keeps_note_ack_sent)

lemma session_run_books: "session_run s t \<Longrightarrow> acct s \<Longrightarrow> acct t"
proof (induction rule: session_run.induct)
  case (more s t u)
  then show ?case using session_step_books[of t u 0] by (simp add: acctb_iff)
qed

lemma session_new_books:
  "0 < chan (cfg_tuning cfg) \<Longrightarrow> initial_window (cfg_tuning cfg) \<le> u32_max
   \<Longrightarrow> acct (session_new cfg client live gone_n)"
  by (simp add: acct_iff session_new_def ids_ok_def xs_of_def ds_lent_def)

lemma run_books:
  assumes "session_run (session_new cfg client live gone_n) s"
    and "0 < chan (cfg_tuning cfg)" "initial_window (cfg_tuning cfg) \<le> u32_max"
  shows "books_ok s"
  by (rule acct_books[OF session_run_books[OF assms(1) session_new_books[OF assms(2,3)]]])


section \<open>Runs\<close>

lemma demo_cfg: "0 < chan (cfg_tuning default_config)" "initial_window (cfg_tuning default_config) \<le> u32_max"
  by (simp_all add: default_config_def STANDARD_def u32_max_def)

text \<open>A client with one path opens a stream and sends three bytes; the path then fails.\<close>

definition demo_target :: target where "demo_target = \<lparr>host = [104], port = 1\<rparr>"

definition demo_open :: session where
  "demo_open = snd (open_stream 0 demo_target
     (snd (start_path 0 ''a'' (session_new default_config True 0 0))))"

definition demo_sent :: session where
  "demo_sent = snd (send_resume 0 False 1 (AtWindow False) [1, 2, 3] demo_open)"

lemma demo_open_run: "session_run (session_new default_config True 0 0) demo_open"
  unfolding demo_open_def
  by (rule session_run.more[OF session_run.more[OF session_run.here session_step.attach] session_step.opened])

lemma demo_sent_facts:
  "pump_ready 1 (AtWindow False) demo_open
   \<and> map inflight (pathtab demo_sent) = [3] \<and> map sticky_streams (pathtab demo_sent) = [1]"
  by code_simp

lemma demo_sent_run: "session_run (session_new default_config True 0 0) demo_sent"
  unfolding demo_sent_def
  by (rule session_run.more[OF demo_open_run session_step.send]) (rule demo_sent_facts[THEN conjunct1])


section \<open>Where the books break\<close>

text \<open>
  The conditions of \<open>pump_ready\<close> that are not about the pump itself are needed, and the code does
  not check them. Here, a pump parked without a path while its stream is reset.
\<close>

definition demo_parked :: "(send_out \<times> byte list) \<times> session" where
  "demo_parked = send_resume 0 False 1 (AtWindow False) [1, 2, 3] (path_failed 0 1 demo_open)"

definition demo_reset :: session where
  "demo_reset = snd (start_path 0 ''b'' (reset_stream 0 Timeout 1 (snd demo_parked)))"

lemma demo_reset_facts:
  "pump_ready 1 (AtWindow False) (path_failed 0 1 demo_open)
   \<and> fst demo_parked = (Wait (AtPick 0 [1, 2, 3] False 0), [])
   \<and> (let ((out, rest), t) = send_resume 0 False 1 (AtPick 0 [1, 2, 3] False 0) [] demo_reset
      in out = Wait (AtWindow False) \<and> streamtab t = [] \<and> map inflight (pathtab t) = [3]
         \<and> \<not> books_ok t)"
  by code_simp

lemma demo_reset_run: "session_run (session_new default_config True 0 0) demo_reset"
  unfolding demo_reset_def demo_parked_def
  by (rule session_run.more[OF session_run.more[OF session_run.more[OF
        session_run.more[OF demo_open_run session_step.fail] session_step.send] session_step.reset]
        session_step.attach])
     (rule demo_reset_facts[THEN conjunct1])


end
