(* ===== verification/Session_Failover.thy ===== *)
theory Session_Failover
  imports Session_Keep_Tick
begin

text \<open>
  What a path failure does to the pieces in flight: all of them move to one surviving path, and
  nothing else about them changes.
\<close>

section \<open>Moving pieces, on the view\<close>

fun move_at :: "nat \<Rightarrow> nat set \<Rightarrow> nat \<Rightarrow> stream_view \<Rightarrow> stream_view" where
  "move_at i offs b (j, stk, us, cap, win) =
     (j, stk, if j = i then map (\<lambda>(off, k, l). (off, if off \<in> offs then b else k, l)) us else us, cap, win)"

fun move_off :: "nat \<Rightarrow> nat \<Rightarrow> stream_view \<Rightarrow> stream_view" where
  "move_off g b (j, stk, us, cap, win) =
     (j, stk, map (\<lambda>(off, k, l). (off, if k = g then b else k, l)) us, cap, win)"

abbreviation svs :: "session \<Rightarrow> stream_view list" where "svs s \<equiv> map sv_of (streamtab s)"

lemma move_at_id: "fst (move_at i offs b v) = fst v" "fst (move_off g b v) = fst v"
  by (cases v, simp)+

lemma move_at_none: "move_at i {} b v = v"
  by (cases v) (simp add: case_prod_unfold)

lemma move_at_comp: "move_at i A b (move_at i B b v) = move_at i (A \<union> B) b v"
  by (cases v) (simp add: comp_def case_prod_unfold)

lemma move_at_other: "fst v \<noteq> i \<Longrightarrow> move_at i offs b v = v"
  by (cases v) simp

lemma view_svs: "view t = view s \<Longrightarrow> svs t = svs s"
  by (simp add: view_def)

lemma svs_sids: "map sid (streamtab s) = map fst (svs s)"
  by (simp add: sv_of_def comp_def)

lemma svs_ids: "svs t = map f (svs s) \<Longrightarrow> (\<And>v. fst (f v) = fst v) \<Longrightarrow> map sid (streamtab t) = map sid (streamtab s)"
  unfolding svs_sids by (simp only: map_map comp_def)

section \<open>One piece\<close>

lemma sv_moved_piece:
  "(\<And>u. uv (off, f u) = (off, b, ua_len u)) \<Longrightarrow>
   sv_of (x\<lparr>unacked_q := map (\<lambda>(k, u). (k, if k = off then f u else u)) (unacked_q x)\<rparr>)
     = move_at (sid x) {off} b (sv_of x)"
  by (auto simp: sv_of_def comp_def case_prod_unfold uv_def ua_len_def)

lemma svs_upd_stream:
  assumes "\<And>x. sid x = i \<Longrightarrow> sv_of (f x) = move_at i A b (sv_of x)"
  shows "svs (upd_stream i f s) = map (move_at i A b) (svs s)"
  using assms by (auto simp: tbl_upd_def) (simp add: move_at_other sv_of_def)

lemma move_at_miss: "i' = i \<longrightarrow> off \<notin> fst ` set us \<Longrightarrow> move_at i {off} b (i', k, us, cap, win) = (i', k, us, cap, win)"
proof -
  assume h: "i' = i \<longrightarrow> off \<notin> fst ` set us"
  have "map (\<lambda>(off', k, l). (off', if off' \<in> {off} then b else k, l)) us = us" if "i' = i"
    using h that by (intro map_idI) (force split: prod.splits)
  then show ?thesis by simp
qed

lemma svs_rehome:
  assumes d: "distinct (map sid (streamtab s))"
  shows "svs (rehome_unacked now i off b s) = map (move_at i {off} b) (svs s)"
proof (cases "get_piece i off s")
  case None
  have "move_at i {off} b (sv_of x) = sv_of x" if x: "x \<in> set (streamtab s)" for x
  proof -
    have "off \<notin> fst ` set (unacked_q x)" if "sid x = i"
    proof -
      have "get_stream i s \<noteq> None" using x that by (auto simp: get_stream_def tbl_find_None)
      then obtain y where y: "get_stream i s = Some y" by blast
      then have "y = x" using get_stream_sid[OF y] that x unique_key[OF d] by metis
      with None y show ?thesis by (simp add: get_piece_def map_of_eq_None_iff)
    qed
    then have "off \<notin> fst ` set (map uv (unacked_q x))" if "sid x = i"
      using that by (auto simp: uv_def image_image)
    then show ?thesis unfolding sv_of_def by (intro move_at_miss) blast
  qed
  then have "map (move_at i {off} b) (svs s) = svs s" by simp
  with None show ?thesis by (simp add: rehome_unacked_def)
next
  case (Some u)
  let ?s1 = "xfer_inflight (ua_path u) b (ua_len u) s"
  let ?f = "\<lambda>u. case get_path b ?s1 of Some p \<Rightarrow> stamp now p (moved_piece now b u) | None \<Rightarrow> moved_piece now b u"
  have f: "uv (off, ?f v) = (off, b, ua_len v)" for v
    by (cases "get_path b ?s1") (simp_all add: stamp_def moved_piece_def uv_def ua_len_def)
  have "svs (upd_piece i off ?f ?s1) = map (move_at i {off} b) (svs ?s1)"
    unfolding upd_piece_def by (rule svs_upd_stream) (use sv_moved_piece[of off ?f b, OF f] in auto)
  moreover have "svs ?s1 = svs s" by (simp add: xfer_inflight_def)
  ultimately show ?thesis using Some by (simp add: rehome_unacked_def Let_def)
qed

section \<open>Every piece of a path\<close>

lemma keeps_svs: "(\<And>I. keeps I s \<Longrightarrow> keeps I t) \<Longrightarrow> ids_ok s \<Longrightarrow> svs t = svs s"
  by (rule view_svs) (rule neutral_view)

lemma svs_send: "svs (snd (send_data_frame now i off d k s)) = svs s"
  by (simp add: send_data_frame_def send_on_path_def queue_frame_def account_overlay_frame_def
      bump_def bump_by_def Let_def split: option.splits frame.splits)

lemma svs_rehome_fold:
  assumes "distinct (map sid (streamtab s))"
  shows "svs (fold (\<lambda>(off, u) s. snd (send_data_frame now i off (ua_data u) b (rehome_unacked now i off b s))) due s)
       = map (move_at i (fst ` set due) b) (svs s)"
  using assms
proof (induction due arbitrary: s)
  case Nil
  show ?case by (simp add: move_at_none)
next
  case (Cons d due)
  obtain off u where d: "d = (off, u)" by (cases d)
  let ?t = "snd (send_data_frame now i off (ua_data u) b (rehome_unacked now i off b s))"
  have t: "svs ?t = map (move_at i {off} b) (svs s)" unfolding svs_send by (rule svs_rehome[OF Cons.prems])
  have "distinct (map sid (streamtab ?t))" using svs_ids[OF t move_at_id(1)] Cons.prems by simp
  from Cons.IH[OF this] show ?case
    unfolding d fold_simps prod.case comp_apply t by (simp add: comp_def move_at_comp insert_commute)
qed

lemma move_at_due:
  assumes "distinct (map fst q)"
  shows "move_at i (fst ` set (filter (\<lambda>(_, u). ua_path u = g) q)) b (i, stk, map uv q, cap, win)
       = move_off g b (i, stk, map uv q, cap, win)"
proof -
  have "fst ku \<in> fst ` set (filter (\<lambda>(_, u). ua_path u = g) q) \<longleftrightarrow> ua_path (snd ku) = g" if "ku \<in> set q" for ku
    using assms that by (force simp: distinct_map inj_on_def)
  then show ?thesis by (simp add: uv_def case_prod_unfold comp_def)
qed

text \<open>The pieces of one stream, then of all.\<close>

definition move_of :: "nat set \<Rightarrow> nat \<Rightarrow> nat \<Rightarrow> stream_view \<Rightarrow> stream_view" where
  "move_of is g b v = (if fst v \<in> is then move_off g b v else v)"

lemma move_of_id: "fst (move_of is g b v) = fst v" by (simp add: move_of_def move_at_id)

definition offs_ok :: "session \<Rightarrow> bool" where
  "offs_ok s \<longleftrightarrow> distinct (map sid (streamtab s)) \<and> (\<forall>x\<in>set (streamtab s). distinct (map fst (unacked_q x)))"

lemma svs_retransmit:
  assumes ok: "offs_ok s"
  shows "svs (retransmit_from_on now i g b s) = map (move_of {i} g b) (svs s)"
proof (cases "get_stream i s")
  case None
  then have "\<forall>x\<in>set (streamtab s). sid x \<noteq> i" by (simp add: get_stream_def tbl_find_None)
  then have "map (move_of {i} g b) (svs s) = svs s" by (auto simp: move_of_def sv_of_def)
  with None show ?thesis by (simp add: retransmit_from_on_def)
next
  case (Some x)
  let ?due = "filter (\<lambda>(_, u). ua_path u = g) (unacked_q x)"
  let ?s1 = "fold (\<lambda>(off, u) s. snd (send_data_frame now i off (ua_data u) b (rehome_unacked now i off b s))) ?due s"
  have d: "distinct (map sid (streamtab s))" using ok by (simp add: offs_ok_def)
  have "svs (retransmit_from_on now i g b s) = svs ?s1"
    using Some by (auto simp: retransmit_from_on_def Let_def bump_by_def tbl_upd_def sv_of_def note_path_used_def)
  also have "\<dots> = map (move_at i (fst ` set ?due) b) (svs s)" by (rule svs_rehome_fold[OF d])
  also have "\<dots> = map (move_of {i} g b) (svs s)"
    unfolding map_map
  proof (rule map_cong[OF refl])
    fix y assume y: "y \<in> set (streamtab s)"
    show "(move_at i (fst ` set ?due) b \<circ> sv_of) y = (move_of {i} g b \<circ> sv_of) y"
    proof (cases "sid y = i")
      case True
      then have "y = x" using get_stream_sid[OF Some] unique_key[OF d y] by metis
      moreover have "distinct (map fst (unacked_q y))" using ok y by (simp add: offs_ok_def)
      ultimately show ?thesis using True move_at_due by (simp add: sv_of_def move_of_def)
    qed (simp add: move_of_def move_at_other sv_of_def)
  qed
  finally show ?thesis .
qed

definition offs_of :: "stream_view \<Rightarrow> nat list" where
  "offs_of v = map fst (fst (snd (snd v)))"

lemma offs_of_sv: "offs_of (sv_of x) = map fst (unacked_q x)"
  by (simp add: offs_of_def sv_of_def uv_def comp_def)

lemma offs_ok_svs: "offs_ok s \<longleftrightarrow> distinct (map fst (svs s)) \<and> (\<forall>v\<in>set (svs s). distinct (offs_of v))"
  unfolding offs_ok_def svs_sids by (simp add: offs_of_sv)

lemma offs_move: "offs_of (move_of is g b v) = offs_of v"
  by (cases v) (auto simp: move_of_def offs_of_def)

lemma offs_ok_move: "offs_ok s \<Longrightarrow> svs t = map (move_of is g b) (svs s) \<Longrightarrow> offs_ok t"
  unfolding offs_ok_svs by (simp add: comp_def move_of_id offs_move del: map_map) (simp add: comp_def move_of_id offs_move)

lemma move_of_comp: "move_of A g b (move_of B g b v) = move_of (A \<union> B) g b v"
  by (cases v) (auto simp: move_of_def comp_def)

lemma svs_rehome_streams:
  assumes "offs_ok s"
  shows "svs (fold (\<lambda>i. retransmit_from_on now i g b) is s) = map (move_of (set is) g b) (svs s)"
  using assms
proof (induction "is" arbitrary: s)
  case Nil
  show ?case by (simp add: move_of_def)
next
  case (Cons i "is")
  note t = svs_retransmit[OF Cons.prems, of now i g b]
  from Cons.IH[OF offs_ok_move[OF Cons.prems t]] show ?case
    unfolding fold_simps comp_apply t by (simp add: comp_def move_of_comp insert_commute)
qed

lemma svs_rehome_from:
  assumes ok: "offs_ok s" and alt: "pick_retry now g s = Some b"
  shows "svs (rehome_unacked_from now g s) = map (move_off g b) (svs s)"
proof -
  have "move_of (set (map sid (streamtab s))) g b (sv_of x) = move_off g b (sv_of x)" if "x \<in> set (streamtab s)" for x
    using that by (simp add: move_of_def sv_of_def)
  then show ?thesis
    using svs_rehome_streams[OF ok, of now g b "map sid (streamtab s)"]
    by (simp add: rehome_unacked_from_def alt)
qed

section \<open>A path fails\<close>

lemma acct_offs: "acct s \<Longrightarrow> offs_ok s"
  using acct_ids[of s] stream_ok_pieces(1)[OF acct_stream[of s]] by (auto simp: offs_ok_def ids_ok_def)

lemma svs_leave_pool:
  assumes a: "acct s" and alt: "pick_retry now g (upd_path g (snd \<circ> take_all_acks) s) = Some b"
  shows "svs (leave_pool now g s) = map (move_off g b) (svs s)"
proof -
  let ?s1 = "upd_path g (snd \<circ> take_all_acks) s"
  let ?r = "rehome_unacked_from now g ?s1"
  let ?s2 = "retry_reset_from now g (retry_close_from now g (retry_open_from now g ?r))"
  have n1: "keeps I s \<Longrightarrow> keeps I ?s1" for I by (simp add: view_simps comp_def)
  have a1: "acct ?s1" by (rule n1[OF a])
  have "acctb (next_path_id ?s1) ?r" by (intro books_rehome_from acctb_acct(2) a1)
  then have r: "ids_ok ?r" by (simp add: keeps_def)
  have n2: "keeps I ?r \<Longrightarrow> keeps I ?s2" for I by (simp add: view_simps)
  have s2: "svs ?s2 = map (move_off g b) (svs s)"
    using keeps_svs[OF n2 r] svs_rehome_from[OF acct_offs[OF a1] alt] by simp
  have "svs (merge_pending_acks now g m t) = svs t" for m t
    by (simp add: merge_pending_acks_def split: option.splits)
  then show ?thesis using s2 by (simp add: leave_pool_def Let_def)
qed

text \<open>A path is looked for among the others, which are as they were.\<close>

lemma pick_retry_others:
  assumes p: "p \<in> set (pathtab s)" "pid p \<noteq> g" "is_alive p"
  shows "\<exists>b. pick_retry now g s = Some b"
proof (rule ccontr)
  assume "\<not> (\<exists>b. pick_retry now g s = Some b)"
  then have "pick_retry_path now (scfg s) [g] (pathtab s) = None"
    by (simp add: pick_retry_def pick_retry_tried_def)
  then show False using retry_None_aux[of now "scfg s" "[g]" "pathtab s"] p by auto
qed

lemma other_kept: "p \<in> set (pathtab s) \<Longrightarrow> pid p \<noteq> g \<Longrightarrow> p \<in> set (pathtab (upd_path g f s))"
  by (auto simp: in_tbl_upd)

lemma other_kept_observe:
  "p \<in> set (pathtab s) \<Longrightarrow> pid p \<noteq> g \<Longrightarrow> p \<in> set (pathtab (observe_failover now g s))"
  using other_kept[of p s g] by (simp add: observe_failover_def observe_def split: option.splits)

lemma path_failed_moves:
  assumes a: "acct s" and g: "get_path g s = Some q" "pstate q \<noteq> DOWN"
    and p: "p \<in> set (pathtab s)" "pid p \<noteq> g" "is_alive p"
  shows "\<exists>b. b \<noteq> g \<and> in_pool b s \<and> svs (path_failed now g s) = map (move_off g b) (svs s)"
proof -
  let ?s1 = "if rtt_known q then s\<lparr>last_rtt_us := AList.update (pname q) (rtt_us q) (last_rtt_us s)\<rparr> else s"
  let ?s2 = "upd_path g (\<lambda>p. p\<lparr>pstate := DOWN\<rparr>) ?s1"
  let ?s3 = "observe_failover now g (bump M_path_down
       (?s2\<lparr>last_lived := AList.update (pname q) (up_age now q) (last_lived ?s2)\<rparr>))"
  let ?s4 = "upd_path g (snd \<circ> take_all_acks) ?s3"
  have d: "keeps I (upd_path g (\<lambda>p. p\<lparr>pstate := DOWN\<rparr>) t)" if "keeps I t" for I t
    using that by (rule keeps_upd_path) (simp add: pv_def)
  have n3: "keeps I ?s3" if "keeps I s" for I using that by (simp add: view_simps d)
  have n4: "keeps I ?s4" if "keeps I s" for I using n3[OF that] by (simp add: view_simps comp_def)
  have "p \<in> set (pathtab ?s1)" using p(1) by simp
  from other_kept[OF this p(2)] have "p \<in> set (pathtab (bump M_path_down
       (?s2\<lparr>last_lived := AList.update (pname q) (up_age now q) (last_lived ?s2)\<rparr>)))"
    by (simp add: bump_def bump_by_def del: pathtab_upd_path)
  from other_kept[OF other_kept_observe[OF this p(2)] p(2)]
  have keep: "p \<in> set (pathtab ?s4)" .
  from pick_retry_others[OF keep p(2,3)] obtain b where b: "pick_retry now g ?s4 = Some b" by blast
  have "b \<noteq> g"
    using b retry_Some_aux[of now "scfg ?s4" "[g]" "pathtab ?s4" b] by (auto simp: pick_retry_def pick_retry_tried_def)
  moreover have "in_pool b s"
    using pick_retry_in[OF b] neutral_pool[OF n4 acct_ids[OF a]] by simp
  moreover have "svs (leave_pool now g ?s3) = map (move_off g b) (svs s)"
    using svs_leave_pool[OF n3[OF a] b] keeps_svs[OF n3 acct_ids[OF a]] by simp
  ultimately show ?thesis using g by (auto simp: path_failed_def Let_def)
qed

end
