(* ===== verification/Session_Properties.thy ===== *)
theory Session_Properties
  imports Session_Run Session_Failover
begin

text \<open>
  Properties of session operations in any state a run reaches: a path failure, a pump, the end of
  a session.
\<close>

section \<open>Failover\<close>

text \<open>The pieces in flight: of every stream, offset, path and length.\<close>

definition in_flight :: "session \<Rightarrow> (nat \<times> (nat \<times> nat \<times> nat) list) list" where
  "in_flight s = map (\<lambda>x. (sid x, map (\<lambda>(off, u). (off, ua_path u, ua_len u)) (unacked_q x))) (streamtab s)"

lemma in_flight_svs: "in_flight s = map (\<lambda>v. (fst v, fst (snd (snd v)))) (svs s)"
  by (simp add: in_flight_def sv_of_def comp_def uv_def case_prod_unfold)

lemma in_flight_move:
  "svs t = map (move_off g b) (svs s) \<Longrightarrow>
   in_flight t = map (\<lambda>(i, us). (i, map (\<lambda>(off, k, l). (off, if k = g then b else k, l)) us)) (in_flight s)"
proof -
  have m: "(\<lambda>v. (fst v, fst (snd (snd v)))) (move_off g b v)
      = (\<lambda>(i, us). (i, map (\<lambda>(off, k, l). (off, if k = g then b else k, l)) us)) (fst v, fst (snd (snd v)))" for v
    by (cases v) simp
  assume "svs t = map (move_off g b) (svs s)"
  then show ?thesis unfolding in_flight_svs by (simp only: map_map comp_def m)
qed

lemma failed_path_gone: "get_path g (path_failed now g s) = None" if "get_path g s = Some q" "pstate q \<noteq> DOWN" for q
proof -
  have d: "get_path g (t\<lparr>pathtab := tbl_del pid g (pathtab t)\<rparr>) = None" for t
    by (simp add: get_path_def tbl_find_None tbl_del_def)
  have u: "get_path g (upd_path k (restore_acks as) t) = None" if "get_path g t = None" for k as t
  proof -
    have "pid (restore_acks as p) = pid p" for p using pv_restore_acks[of as p] by (simp add: pv_def)
    moreover have "\<forall>p\<in>set (pathtab t). pid p \<noteq> g" using that by (simp add: get_path_def tbl_find_None)
    ultimately have "pid (if pid p = k then restore_acks as p else p) \<noteq> g" if "p \<in> set (pathtab t)" for p
      using that by (cases "pid p = k") auto
    then show ?thesis
      unfolding get_path_def tbl_find_None pathtab_upd_path tbl_upd_def set_map by blast
  qed
  have "get_path g (leave_pool now g t) = None" for t
    using d u by (simp add: leave_pool_def Let_def merge_pending_acks_def split: option.splits)
  then show ?thesis using that by (simp add: path_failed_def Let_def get_path_def)
qed


definition demo_pair :: session where "demo_pair = snd (start_path 0 ''b'' demo_sent)"

lemma demo_pair_run: "session_run (session_new default_config True 0 0) demo_pair"
  unfolding demo_pair_def by (rule session_run.more[OF demo_sent_run session_step.attach])

lemma demo_pair_facts:
  "map pid (pathtab demo_pair) = [1, 2] \<and> list_all is_alive (pathtab demo_pair)
   \<and> list_all (\<lambda>p. pstate p \<noteq> DOWN) (pathtab demo_pair) \<and> in_flight demo_pair = [(1, [(0, 1, 3)])]"
  by code_simp


section \<open>A wait that outlives its path\<close>

definition infl :: "nat \<Rightarrow> session \<Rightarrow> nat option" where
  "infl j s = map_option inflight (get_path j s)"

lemma find_pv: "tbl_find fst j (map pv ps) = map_option pv (tbl_find pid j ps)"
  unfolding tbl_find_def by (induction ps) (auto simp: pv_def)

lemma infl_view: "view t = view s \<Longrightarrow> infl j t = infl j s"
proof -
  assume v: "view t = view s"
  have "infl j s = map_option (fst \<circ> snd) (tbl_find fst j (map pv (pathtab s)))" for s
    by (simp add: infl_def get_path_def find_pv option.map_comp comp_def pv_def)
  moreover have "map pv (pathtab t) = map pv (pathtab s)" using v by (simp add: view_def)
  ultimately show ?thesis by simp
qed

lemma get_upd_path:
  "(\<And>p. pid (f p) = pid p) \<Longrightarrow>
   get_path j (upd_path k f s) = (if j = k then map_option f (get_path k s) else get_path j s)"
proof -
  assume f: "\<And>p. pid (f p) = pid p"
  have "tbl_find pid j (tbl_upd pid k f ps) = (if j = k then map_option f (tbl_find pid k ps) else tbl_find pid j ps)" for ps
    unfolding tbl_find_def tbl_upd_def by (induction ps) (auto simp: f)
  then show ?thesis by (simp add: get_path_def)
qed

lemma infl_fields [simp]:
  "pid (add_inflight n p) = pid p" "inflight (add_inflight n p) = inflight p + n"
  "pid (sub_inflight n p) = pid p" "inflight (sub_inflight n p) = inflight p - n"
  by (simp_all add: add_inflight_def sub_inflight_def)

lemma infl_xfer:
  "infl j (xfer_inflight a b n s) =
     (if a = b \<or> n = 0 then infl j s
      else if j = b then map_option (\<lambda>m. m + n) (infl j s)
      else if j = a then map_option (\<lambda>m. m - n) (infl j s) else infl j s)"
  by (auto simp: xfer_inflight_def infl_def get_upd_path option.map_comp comp_def)

lemma svs_xfer: "svs (xfer_inflight a b n s) = svs s"
  by (simp add: xfer_inflight_def)

lemma ids_xfer: "ids_ok (xfer_inflight a b n s) = ids_ok s"
  by (simp add: xfer_inflight_def ids_upd_path)

lemma infl_sticky: "infl j (set_sticky now i k s) = infl j s"
proof -
  have "get_path j (upd_stream i f t) = get_path j t" for f t by (simp add: get_path_def)
  then show ?thesis
    by (auto simp: set_sticky_def infl_def Let_def get_upd_path option.map_comp comp_def split: option.splits)
qed

lemma infl_held: "infl j (upd_held_piece i off f s) = infl j s"
  by (simp add: upd_held_piece_def upd_held_def infl_def get_path_def)

lemma acct_infl: "acct s \<Longrightarrow> infl j s = Some m \<Longrightarrow> m = charged j (svs s)"
  using acct_path[of s] get_path_pid[of j s] by (fastforce simp: infl_def pv_def xs_of_def)

lemma books_infl: "books_ok s \<Longrightarrow> infl j s = Some m \<Longrightarrow> m = charged j (svs s)"
  using get_path_pid[of j s] by (auto simp: books_ok_def infl_def charged_sum)

lemma piece_le_charged: "piece_at i off j l s \<Longrightarrow> l \<le> charged j (svs s)"
proof -
  assume "piece_at i off j l s"
  then obtain x where x: "x \<in> set (streamtab s)" "(off, j, l) \<in> set (map uv (unacked_q x))"
    by (auto simp: piece_at_def)
  have "l \<le> on_path j q" if "(off, j, l) \<in> set (map uv q)" for q
    using that
  proof (induction q)
    case (Cons ku q)
    obtain o' u where ku: "ku = (o', u)" by (cases ku)
    consider "ua_path u = j" "ua_len u = l" | "(off, j, l) \<in> set (map uv q)"
      using Cons.prems by (auto simp: ku uv_def)
    then show ?case using Cons.IH by cases (auto simp: ku uv_def)
  qed simp
  moreover have "on_path j (unacked_q x) \<le> charged j (map sv_of xs)" if "x \<in> set xs" for xs
    using that by (induction xs) (auto simp: sv_of_def)
  ultimately show ?thesis using x by (meson le_trans)
qed


text \<open>The pair of paths after the first has failed: the piece of three bytes is on the second.\<close>

definition demo_moved :: session where "demo_moved = path_failed 0 1 demo_pair"

lemma demo_moved_run: "session_run (session_new default_config True 0 0) demo_moved"
  unfolding demo_moved_def by (rule session_run.more[OF demo_pair_run session_step.fail])

lemma demo_moved_state:
  "map_option (\<lambda>u. (ua_path u, ua_len u)) (get_piece 1 0 demo_moved) = Some (2, 3)
   \<and> \<not> sess_dead demo_moved \<and> \<not> held_reset 1 demo_moved"
  by code_simp

lemma demo_moved_retry: "pick_retry 0 1 demo_moved = Some 2"
  by code_simp

lemma demo_moved_sends: "fst (send_data_frame 0 1 0 [1, 2, 3] 2 demo_moved)"
  by code_simp

lemma demo_moved_piece:
  "map_option (\<lambda>u. (ua_path u, ua_len u)) (get_piece 1 0 demo_moved) = Some (2, 3)"
  "\<not> sess_dead demo_moved" "\<not> held_reset 1 demo_moved"
  using demo_moved_state by simp_all


end
