(* ===== verification/Handshake.thy ===== *)
theory Handshake
  imports Wire_Codec Session_End
begin

text \<open>
  \<open>nya-core/src/auth.rs\<close>, \<open>handshake.rs\<close> and the \<open>SessionTable\<close> of \<open>session/mod.rs\<close>: the two
  proofs, both sides of the exchange as functions of the bytes received, and the table of live
  sessions. HMAC-SHA-256 and HKDF-SHA-256 are library code: they are the fields of \<open>crypto\<close>.
  Nonces and session ids come from the system's generator and are arguments; \<open>wok\<close> says whether
  the transport accepts what is written.
\<close>

section \<open>Proofs\<close>

record crypto =
  hmac_sha256 :: "bytes \<Rightarrow> bytes \<Rightarrow> bytes"
  hkdf_sha256 :: "bytes \<Rightarrow> bytes \<Rightarrow> bytes \<Rightarrow> bytes"

definition ascii :: "string \<Rightarrow> bytes" where
  "ascii s = map of_char s"

definition create_proof :: "crypto \<Rightarrow> bytes \<Rightarrow> bytes \<Rightarrow> bytes \<Rightarrow> bytes \<Rightarrow> bytes" where
  "create_proof c psk exporter nonce user_id =
     hmac_sha256 c psk (ascii ''nya-create-v1'' @ exporter @ nonce @ user_id)"

text \<open>The salt is the session id, the input key material the shared secret.\<close>

definition session_key :: "crypto \<Rightarrow> bytes \<Rightarrow> bytes \<Rightarrow> bytes" where
  "session_key c psk session_id = hkdf_sha256 c session_id psk (ascii ''nya-session-v1'')"

definition join_proof :: "crypto \<Rightarrow> bytes \<Rightarrow> bytes \<Rightarrow> bytes \<Rightarrow> bytes" where
  "join_proof c key exporter path_name =
     hmac_sha256 c key (ascii ''nya-join-v1'' @ exporter @ path_name)"

text \<open>The comparison looks at every byte.\<close>

definition proofs_equal :: "bytes \<Rightarrow> bytes \<Rightarrow> bool" where
  "proofs_equal a b =
     (if length a \<noteq> length b then False
      else foldl (\<lambda>d (x, y). or d (xor x y)) 0 (zip a b) = 0)"

section \<open>The session table\<close>

record session_table =
  tb_cfg :: session_config
  tb_sessions :: "(bytes \<times> session) list"
  tb_closed :: bool
  tb_live :: nat
  tb_gone :: nat

definition table_new :: "session_config \<Rightarrow> session_table" where
  "table_new cfg = \<lparr>tb_cfg = cfg, tb_sessions = [], tb_closed = False, tb_live = 0, tb_gone = 0\<rparr>"

definition server_session :: "session_table \<Rightarrow> session" where
  "server_session t = (session_new (tb_cfg t) False (tb_live t) (tb_gone t))\<lparr>reap_on_all_down := True\<rparr>"

definition table_insert :: "bytes \<Rightarrow> session_table \<Rightarrow> session_table" where
  "table_insert i t =
     t\<lparr>tb_sessions := AList.update i (server_session t) (tb_sessions t), tb_live := tb_live t + 1\<rparr>"

definition create_with_incoming :: "bytes \<Rightarrow> session_table \<Rightarrow> session_table option" where
  "create_with_incoming i t = (if tb_closed t then None else Some (table_insert i t))"

definition table_get :: "bytes \<Rightarrow> session_table \<Rightarrow> session option \<times> session_table" where
  "table_get i t =
     (if tb_closed t then (None, t)
      else case map_of (tb_sessions t) i of
        None \<Rightarrow> (None, t)
      | Some s \<Rightarrow> if sess_dead s then (None, t\<lparr>tb_sessions := AList.delete i (tb_sessions t)\<rparr>)
                  else (Some s, t))"

definition table_remove :: "bytes \<Rightarrow> session_table \<Rightarrow> session_table" where
  "table_remove i t = t\<lparr>tb_sessions := AList.delete i (tb_sessions t)\<rparr>"

text \<open>\<open>shutdown_all\<close>: the flag first, then the drained sessions are shut down.\<close>

definition table_close :: "session_table \<Rightarrow> session_table" where
  "table_close t = t\<lparr>tb_closed := True\<rparr>"

definition table_drain :: "instant \<Rightarrow> session_table \<Rightarrow> (bytes \<times> session) list \<times> session_table" where
  "table_drain now t = (map (\<lambda>(i, s). (i, shutdown now s)) (tb_sessions t), t\<lparr>tb_sessions := []\<rparr>)"

definition shutdown_all :: "instant \<Rightarrow> session_table \<Rightarrow> (bytes \<times> session) list \<times> session_table" where
  "shutdown_all now t = table_drain now (table_close t)"

section \<open>The exchange\<close>

datatype handshake_error =
  HsProto proto_error | HsRejected bytes | HsUnexpected | HsUnknownSession

datatype handshake_result = Created bytes bytes | Joined bytes bytes

definition send_frame :: "bool \<Rightarrow> frame \<Rightarrow> handshake_error + bytes" where
  "send_frame wok f =
     (case write_frame [] f of
        Inl e \<Rightarrow> Inl (HsProto e)
      | Inr w \<Rightarrow> if wok then Inr w else Inl (HsProto Io))"

definition recv_frame :: "bytes \<Rightarrow> handshake_error + frame" where
  "recv_frame input = (case read_frame input of Inl e \<Rightarrow> Inl (HsProto e) | Inr (f, _) \<Rightarrow> Inr f)"

definition create_request :: "crypto \<Rightarrow> bytes \<Rightarrow> bytes \<Rightarrow> bytes \<Rightarrow> bytes \<Rightarrow> bytes \<Rightarrow> frame" where
  "create_request c psk exporter user_id path_name nonce =
     CreateSession \<lparr>cs_version = PROTOCOL_VERSION, cs_user_id = user_id, cs_nonce = nonce,
       cs_proof = create_proof c psk exporter nonce user_id, cs_path_name = path_name\<rparr>"

definition refusal :: "bytes \<Rightarrow> handshake_error" where
  "refusal m = (if m = ascii ''unknown session'' then HsUnknownSession else HsRejected m)"

fun create_answer :: "frame \<Rightarrow> handshake_error + bytes" where
  "create_answer (CreateSessionOk i) = Inr i"
| "create_answer (HandshakeErr m) = Inl (refusal m)"
| "create_answer _ = Inl HsUnexpected"

text \<open>The client writes its request and then reads one frame of what the server sends.\<close>

definition client_create_session ::
  "crypto \<Rightarrow> bytes \<Rightarrow> bytes \<Rightarrow> bytes \<Rightarrow> bytes \<Rightarrow> bytes \<Rightarrow> bool \<Rightarrow> bytes \<Rightarrow> handshake_error + bytes" where
  "client_create_session c psk exporter user_id path_name nonce wok input =
     rbind (send_frame wok (create_request c psk exporter user_id path_name nonce))
       (\<lambda>_. rbind (recv_frame input) create_answer)"

definition join_request :: "crypto \<Rightarrow> bytes \<Rightarrow> bytes \<Rightarrow> bytes \<Rightarrow> bytes \<Rightarrow> frame" where
  "join_request c psk exporter session_id path_name =
     JoinSession \<lparr>js_session_id = session_id, js_path_name = path_name,
       js_proof = join_proof c (session_key c psk session_id) exporter path_name\<rparr>"

fun join_answer :: "frame \<Rightarrow> handshake_error + unit" where
  "join_answer JoinSessionOk = Inr ()"
| "join_answer (HandshakeErr m) = Inl (refusal m)"
| "join_answer _ = Inl HsUnexpected"

definition client_join_session ::
  "crypto \<Rightarrow> bytes \<Rightarrow> bytes \<Rightarrow> bytes \<Rightarrow> bytes \<Rightarrow> bool \<Rightarrow> bytes \<Rightarrow> handshake_error + unit" where
  "client_join_session c psk exporter session_id path_name wok input =
     rbind (send_frame wok (join_request c psk exporter session_id path_name))
       (\<lambda>_. rbind (recv_frame input) join_answer)"

text \<open>A refusal is written on a best-effort basis.\<close>

definition write_refusal :: "bool \<Rightarrow> bytes \<Rightarrow> bytes" where
  "write_refusal wok m = (case send_frame wok (HandshakeErr m) of Inl _ \<Rightarrow> [] | Inr w \<Rightarrow> w)"

definition accept_create ::
  "crypto \<Rightarrow> bytes \<Rightarrow> bytes \<Rightarrow> bytes \<Rightarrow> bool \<Rightarrow> create_session \<Rightarrow> session_table
    \<Rightarrow> (handshake_error + handshake_result) \<times> bytes \<times> session_table" where
  "accept_create c psk exporter fresh wok m t =
     (if cs_version m \<noteq> PROTOCOL_VERSION then
        (Inl (HsRejected (ascii ''version'')),
         write_refusal wok (ascii ''unsupported version '' @ dec_digits (unat (cs_version m))), t)
      else if \<not> proofs_equal (create_proof c psk exporter (cs_nonce m) (cs_user_id m)) (cs_proof m) then
        (Inl (HsRejected (ascii ''auth'')), write_refusal wok (ascii ''auth failed''), t)
      else case create_with_incoming fresh t of
        None \<Rightarrow> (Inl (HsRejected (ascii ''closed'')), write_refusal wok (ascii ''session table closed''), t)
      | Some t1 \<Rightarrow>
          (case send_frame wok (CreateSessionOk fresh) of
             Inl e \<Rightarrow> (Inl e, [], t1)
           | Inr w \<Rightarrow> (Inr (Created fresh (if cs_path_name m = [] then ascii ''init'' else cs_path_name m)), w, t1)))"

definition accept_join ::
  "crypto \<Rightarrow> bytes \<Rightarrow> bytes \<Rightarrow> bool \<Rightarrow> join_session \<Rightarrow> session_table
    \<Rightarrow> (handshake_error + handshake_result) \<times> bytes \<times> session_table" where
  "accept_join c psk exporter wok m t =
     (case table_get (js_session_id m) t of
        (None, t1) \<Rightarrow> (Inl HsUnknownSession, write_refusal wok (ascii ''unknown session''), t1)
      | (Some s, t1) \<Rightarrow>
          if \<not> proofs_equal (join_proof c (session_key c psk (js_session_id m)) exporter (js_path_name m)) (js_proof m)
          then (Inl (HsRejected (ascii ''auth'')), write_refusal wok (ascii ''auth failed''), t1)
          else (case send_frame wok JoinSessionOk of
                  Inl e \<Rightarrow> (Inl e, [], t1)
                | Inr w \<Rightarrow> (Inr (Joined (js_session_id m) (js_path_name m)), w, t1)))"

definition server_accept_handshake ::
  "crypto \<Rightarrow> bytes \<Rightarrow> bytes \<Rightarrow> bytes \<Rightarrow> bool \<Rightarrow> bytes \<Rightarrow> session_table
    \<Rightarrow> (handshake_error + handshake_result) \<times> bytes \<times> session_table" where
  "server_accept_handshake c psk exporter fresh wok input t =
     (case recv_frame input of
        Inl e \<Rightarrow> (Inl e, [], t)
      | Inr f \<Rightarrow>
          (case f of
             CreateSession m \<Rightarrow> accept_create c psk exporter fresh wok m t
           | JoinSession m \<Rightarrow> accept_join c psk exporter wok m t
           | _ \<Rightarrow> (Inl HsUnexpected, [], t)))"

text \<open>\<open>handshake_is_noise\<close> of the server: what scanners cause is not worth a warning.\<close>

fun handshake_is_noise :: "handshake_error \<Rightarrow> bool" where
  "handshake_is_noise HsUnexpected = True"
| "handshake_is_noise (HsProto e) = (case e of Io \<Rightarrow> False | proto_error.Version _ \<Rightarrow> False | _ \<Rightarrow> True)"
| "handshake_is_noise _ = False"

end
