(* ===== verification/Handshake_Facts.thy ===== *)
theory Handshake_Facts
  imports Handshake
begin

text \<open>
  What the handshake promises: the outcome of an exchange on both sides and in the table, what any
  byte string can achieve against the server, and what the two proofs bind.
\<close>

section \<open>One frame over the wire\<close>

lemma send_frame_fits:
  "length (frame_encode f) \<le> MAX_FRAME_SIZE \<Longrightarrow>
   send_frame wok f = (if wok then Inr (u32_be (length (frame_encode f)) @ frame_encode f) else Inl (HsProto Io))"
  by (simp add: send_frame_def write_frame_def write_payload_def)

lemma recv_sent:
  assumes "frame_wf f" and "send_frame wok f = Inr w"
  shows "recv_frame w = Inr f"
proof -
  have "write_payload [] (frame_encode f) = Inr w"
    using assms(2) by (auto simp: send_frame_def write_frame_def split: sum.splits if_splits)
  from nya.read_written[OF assms(1) this, of "[]"] show ?thesis
    by (simp add: recv_frame_def read_frame_def)
qed

lemma recv_nothing [simp]: "recv_frame [] = Inl (HsProto Io)"
  by (simp add: recv_frame_def read_frame_def read_payload_def)

text \<open>The peer reads a frame that fits as it was written, and end of file when the write failed.\<close>

definition arrives :: "frame \<Rightarrow> bool" where
  "arrives f \<longleftrightarrow> frame_wf f \<and> length (frame_encode f) \<le> MAX_FRAME_SIZE"

lemma sendE:
  assumes "arrives f"
  obtains w where "wok" "send_frame wok f = Inr w" "recv_frame w = Inr f"
  | "\<not> wok" "send_frame wok f = Inl (HsProto Io)"
  using assms recv_sent[of f wok] by (cases wok) (auto simp: arrives_def send_frame_fits)

lemma arrives_ok [simp]:
  "length i = SESSION_ID_LEN \<Longrightarrow> arrives (CreateSessionOk i)" "arrives JoinSessionOk"
  by (simp_all add: arrives_def MAX_FRAME_SIZE_def SESSION_ID_LEN_def)

lemma arrives_refusal: "wf_str m \<Longrightarrow> length m \<le> 16000 \<Longrightarrow> arrives (HandshakeErr m)"
  by (simp add: arrives_def length_put_str MAX_FRAME_SIZE_def)

lemma refusals [simp]:
  "arrives (HandshakeErr (ascii ''auth failed''))" "arrives (HandshakeErr (ascii ''session table closed''))"
  "arrives (HandshakeErr (ascii ''unknown session''))"
  by (rule arrives_refusal; simp add: ascii_def wf_str_def utf8_valid_ascii)+

lemma recv_refusal:
  "arrives (HandshakeErr m) \<Longrightarrow>
   recv_frame (write_refusal wok m) = (if wok then Inr (HandshakeErr m) else Inl (HsProto Io))"
  by (erule sendE[of _ wok]) (simp_all add: write_refusal_def)

lemma arrives_create:
  assumes "wf_str user" "wf_str path" "length nonce = NONCE_LEN" "length user + length path \<le> 16000"
    and "length (create_proof c psk ex nonce user) = PROOF_LEN"
  shows "arrives (create_request c psk ex user path nonce)"
  using assms by (simp add: arrives_def create_request_def length_put_str MAX_FRAME_SIZE_def len_defs)

lemma arrives_join:
  assumes "wf_str path" "length ssn = SESSION_ID_LEN" "length path \<le> 16000"
    and "length (join_proof c (session_key c psk ssn) ex path) = PROOF_LEN"
  shows "arrives (join_request c psk ex ssn path)"
  using assms by (simp add: arrives_def join_request_def length_put_str MAX_FRAME_SIZE_def len_defs)

section \<open>Comparing proofs\<close>

lemma or_zero: "or a b = (0 :: byte) \<longleftrightarrow> a = 0 \<and> b = 0"
  by (auto simp: bit_eq_iff bit_or_iff)

lemma xor_zero: "xor a b = (0 :: byte) \<longleftrightarrow> a = b"
  by (auto simp: bit_eq_iff bit_xor_iff)

lemma foldl_xor:
  "length a = length b \<Longrightarrow>
   foldl (\<lambda>d (x, y). or d (xor x y)) d (zip a b) = (0 :: byte) \<longleftrightarrow> d = 0 \<and> a = b"
proof (induction a b arbitrary: d rule: list_induct2)
  case (Cons x xs y ys)
  then show ?case by (simp add: or_zero xor_zero)
qed simp

lemma proofs_equal_iff [simp]: "proofs_equal a b \<longleftrightarrow> a = b"
  unfolding proofs_equal_def using foldl_xor[of a b 0] by auto

section \<open>The table\<close>

definition is_live :: "bytes \<Rightarrow> session_table \<Rightarrow> bool" where
  "is_live i t \<longleftrightarrow> \<not> tb_closed t \<and> (\<exists>s. map_of (tb_sessions t) i = Some s \<and> \<not> sess_dead s)"

text \<open>A lookup drops a dead session it comes across.\<close>

definition forget_dead :: "bytes \<Rightarrow> session_table \<Rightarrow> session_table" where
  "forget_dead i t =
     (if \<not> tb_closed t \<and> (\<exists>s. map_of (tb_sessions t) i = Some s \<and> sess_dead s) then table_remove i t else t)"

lemma table_get_live: "is_live i t \<Longrightarrow> \<exists>s. table_get i t = (Some s, t)"
  by (auto simp: table_get_def is_live_def)

lemma table_get_dead: "\<not> is_live i t \<Longrightarrow> table_get i t = (None, forget_dead i t)"
  by (auto simp: table_get_def is_live_def forget_dead_def table_remove_def split: option.splits)

lemma is_live_insert: "is_live i (table_insert j t) \<longleftrightarrow> \<not> tb_closed t \<and> (i = j \<or> is_live i t)"
  by (auto simp: is_live_def table_insert_def update_conv' server_session_def session_new_def Let_def)

lemma is_live_forget: "is_live i (forget_dead j t) \<longleftrightarrow> is_live i t"
  by (auto simp: is_live_def forget_dead_def table_remove_def delete_conv')

lemma is_live_close: "\<not> is_live i (table_close t)"
  by (simp add: is_live_def table_close_def)

section \<open>The exchange\<close>

text \<open>
  Both sides at work on one connection: the server reads what the client wrote, the client what the
  server answered. Each side has its shared secret and its keying material exported from TLS;
  \<open>wok\<close> says whether the server's answer reaches the client.
\<close>

definition create_exchange ::
  "crypto \<Rightarrow> bytes \<times> bytes \<Rightarrow> bytes \<times> bytes \<Rightarrow> bytes \<Rightarrow> bytes \<Rightarrow> bytes \<Rightarrow> bytes \<Rightarrow> bool \<Rightarrow> session_table
    \<Rightarrow> (handshake_error + bytes) \<times> (handshake_error + handshake_result) \<times> session_table" where
  "create_exchange c ck sk user path nonce fresh wok t =
     (case send_frame True (create_request c (fst ck) (snd ck) user path nonce) of
        Inl e \<Rightarrow> (Inl e, Inl (HsProto Io), t)
      | Inr w \<Rightarrow>
          (case server_accept_handshake c (fst sk) (snd sk) fresh wok w t of
             (r, reply, t1) \<Rightarrow> (client_create_session c (fst ck) (snd ck) user path nonce True reply, r, t1)))"

definition join_exchange ::
  "crypto \<Rightarrow> bytes \<times> bytes \<Rightarrow> bytes \<times> bytes \<Rightarrow> bytes \<Rightarrow> bytes \<Rightarrow> bool \<Rightarrow> session_table
    \<Rightarrow> (handshake_error + unit) \<times> (handshake_error + handshake_result) \<times> session_table" where
  "join_exchange c ck sk ssn path wok t =
     (case send_frame True (join_request c (fst ck) (snd ck) ssn path) of
        Inl e \<Rightarrow> (Inl e, Inl (HsProto Io), t)
      | Inr w \<Rightarrow>
          (case server_accept_handshake c (fst sk) (snd sk) [] wok w t of
             (r, reply, t1) \<Rightarrow> (client_join_session c (fst ck) (snd ck) ssn path True reply, r, t1)))"

lemma client_create_reads:
  assumes "arrives (create_request c psk ex user path nonce)"
  shows "client_create_session c psk ex user path nonce True reply = rbind (recv_frame reply) create_answer"
  using assms by (rule sendE[of _ True]) (simp_all add: client_create_session_def)

lemma client_join_reads:
  assumes "arrives (join_request c psk ex ssn path)"
  shows "client_join_session c psk ex ssn path True reply = rbind (recv_frame reply) join_answer"
  using assms by (rule sendE[of _ True]) (simp_all add: client_join_session_def)

lemma refusal_simps [simp]:
  "refusal (ascii ''auth failed'') = HsRejected (ascii ''auth failed'')"
  "refusal (ascii ''session table closed'') = HsRejected (ascii ''session table closed'')"
  "refusal (ascii ''unknown session'') = HsUnknownSession"
  by (simp_all add: refusal_def ascii_def)

text \<open>What the client makes of a refusal that may not arrive.\<close>

definition lost_or :: "bool \<Rightarrow> handshake_error \<Rightarrow> handshake_error" where
  "lost_or wok e = (if wok then e else HsProto Io)"


text \<open>A keyed stand-in for the library's MAC and key derivation, for the concrete exchanges below.\<close>

definition demo_mac :: "bytes \<Rightarrow> bytes \<Rightarrow> bytes" where
  "demo_mac k m = take 32 (k @ m @ replicate 32 0)"

definition demo_crypto :: crypto where
  "demo_crypto = \<lparr>hmac_sha256 = demo_mac, hkdf_sha256 = (\<lambda>salt k info. take 32 (k @ salt @ info @ replicate 32 0))\<rparr>"

definition demo_table :: session_table where "demo_table = table_new default_config"

lemma demo_mac_length: "length (hmac_sha256 demo_crypto k m) = PROOF_LEN"
  by (simp add: demo_crypto_def demo_mac_def PROOF_LEN_def)




section \<open>What bytes can do to the server\<close>

text \<open>A create request the server must accept, and the valid proof for one path of a session.\<close>

definition valid_create :: "crypto \<Rightarrow> bytes \<Rightarrow> bytes \<Rightarrow> bytes \<Rightarrow> bool" where
  "valid_create c psk ex input \<longleftrightarrow>
     (case recv_frame input of
        Inr (CreateSession m) \<Rightarrow> cs_version m = PROTOCOL_VERSION
          \<and> cs_proof m = create_proof c psk ex (cs_nonce m) (cs_user_id m)
      | _ \<Rightarrow> False)"

definition valid_join :: "crypto \<Rightarrow> bytes \<Rightarrow> bytes \<Rightarrow> bytes \<Rightarrow> bytes \<Rightarrow> bytes \<Rightarrow> bool" where
  "valid_join c psk ex ssn path input \<longleftrightarrow>
     recv_frame input = Inr (JoinSession \<lparr>js_session_id = ssn, js_path_name = path,
       js_proof = join_proof c (session_key c psk ssn) ex path\<rparr>)"

text \<open>
  C9: Only a valid proof gets anything from the server. Whatever bytes arrive: a session is created
  only by a create request of the right version whose proof is the one the shared secret gives for
  its nonce, its user and this TLS connection, in an open table; a path joins only a session alive in
  the table, under the proof for that session and path name; and a failed handshake leaves the table
  as it was, but for a dead entry dropped or, when a valid create request could not be answered, the
  session created for it.
\<close>

theorem accept_needs_proof:
  assumes "length fresh = SESSION_ID_LEN"
    and "server_accept_handshake c psk ex fresh wok input t = (r, reply, t')"
  shows "case r of
      Inr (Created i n) \<Rightarrow> valid_create c psk ex input \<and> i = fresh \<and> \<not> tb_closed t \<and> t' = table_insert fresh t
    | Inr (Joined i n) \<Rightarrow> valid_join c psk ex i n input \<and> is_live i t \<and> t' = t
    | Inl e \<Rightarrow> t' = t \<or> (\<exists>i. \<not> is_live i t \<and> t' = forget_dead i t)
        \<or> valid_create c psk ex input \<and> \<not> wok \<and> \<not> tb_closed t \<and> t' = table_insert fresh t"
proof (cases "recv_frame input")
  case (Inl e)
  then show ?thesis using assms(2) by (auto simp: server_accept_handshake_def)
next
  case (Inr f)
  note rf = this
  show ?thesis
  proof (cases f)
    case (CreateSession m)
    have s: "(r, reply, t') = accept_create c psk ex fresh wok m t"
      using assms(2) rf CreateSession by (simp add: server_accept_handshake_def)
    from arrives_ok(1)[OF assms(1)] show ?thesis
      by (rule sendE[of _ wok])
        (use s in \<open>auto simp: rf CreateSession accept_create_def create_with_incoming_def valid_create_def
            split: if_splits\<close>)
  next
    case (JoinSession m)
    have s: "(r, reply, t') = accept_join c psk ex wok m t"
      using assms(2) rf JoinSession by (simp add: server_accept_handshake_def)
    show ?thesis
    proof (cases "is_live (js_session_id m) t")
      case True
      then obtain q where q: "table_get (js_session_id m) t = (Some q, t)" using table_get_live by blast
      from arrives_ok(2) show ?thesis
        by (rule sendE[of _ wok])
          (use s True in \<open>auto simp: rf JoinSession accept_join_def q valid_join_def split: if_splits\<close>)
    next
      case False
      then show ?thesis using s by (auto simp: accept_join_def table_get_dead)
    qed
  qed (use assms(2) rf in \<open>auto simp: server_accept_handshake_def\<close>)
qed

theorem accept_needs_proof_witness:
  "\<not> valid_create demo_crypto [1] [2] [0, 0, 0, 1, 255]
   \<and> snd (snd (server_accept_handshake demo_crypto [1] [2] (replicate 16 7) True [0, 0, 0, 1, 255] demo_table)) = demo_table"
proof -
  have f: "forget_dead i demo_table = demo_table" for i
    by (simp add: forget_dead_def demo_table_def table_new_def)
  have v: "recv_frame [0, 0, 0, 1, 255] = Inl (HsProto (UnknownType 255))" by code_simp
  obtain r reply t' where
    s: "server_accept_handshake demo_crypto [1] [2] (replicate 16 7) True [0, 0, 0, 1, 255] demo_table = (r, reply, t')"
    by (cases "server_accept_handshake demo_crypto [1] [2] (replicate 16 7) True [0, 0, 0, 1, 255] demo_table")
  have "length (replicate 16 7 :: bytes) = SESSION_ID_LEN" by (simp add: SESSION_ID_LEN_def)
  from accept_needs_proof[OF this s] show ?thesis
    using s by (auto simp: v valid_create_def valid_join_def f server_accept_handshake_def)
qed

section \<open>What the proofs bind\<close>

definition mac_collision :: "crypto \<Rightarrow> bool" where
  "mac_collision c \<longleftrightarrow> (\<exists>k m k' m'. (k, m) \<noteq> (k', m') \<and> hmac_sha256 c k m = hmac_sha256 c k' m')"

text \<open>
  The proofs bind what they are computed from. Two create proofs that agree were computed from
  the same keying material, nonce and user, two join proofs under one key from the same keying
  material and path name, and a create proof is never a join proof, unless two different inputs of
  the MAC collide: the labels and the fixed lengths leave no other ambiguity.
\<close>

lemma proofs_bind:
  assumes "length ex = length ex'" "length n = NONCE_LEN" "length n' = NONCE_LEN"
  shows "(create_proof c psk ex n u = create_proof c psk' ex' n' u'
            \<longrightarrow> (psk, ex, n, u) = (psk', ex', n', u') \<or> mac_collision c)
    \<and> (join_proof c key ex path = join_proof c key' ex' path'
            \<longrightarrow> (key, ex, path) = (key', ex', path') \<or> mac_collision c)
    \<and> (create_proof c psk ex n u = join_proof c key ex' path \<longrightarrow> mac_collision c)"
proof -
  have inj: "hmac_sha256 c k m = hmac_sha256 c k' m' \<Longrightarrow> (k, m) = (k', m') \<or> mac_collision c" for k m k' m'
    unfolding mac_collision_def by blast
  have "ascii ''nya-create-v1'' @ x \<noteq> ascii ''nya-join-v1'' @ y" for x y
    by (simp add: ascii_def)
  then show ?thesis
    using assms(1-3) inj[of psk "ascii ''nya-create-v1'' @ ex @ n @ u" psk' "ascii ''nya-create-v1'' @ ex' @ n' @ u'"]
      inj[of key "ascii ''nya-join-v1'' @ ex @ path" key' "ascii ''nya-join-v1'' @ ex' @ path'"]
      inj[of psk "ascii ''nya-create-v1'' @ ex @ n @ u" key "ascii ''nya-join-v1'' @ ex' @ path"]
    by (auto simp: create_proof_def join_proof_def)
qed

text \<open>A MAC without collisions: the key, with its length in unary before it, and the message.\<close>

definition plain_crypto :: crypto where
  "plain_crypto = \<lparr>hmac_sha256 = (\<lambda>k m. replicate (length k) 1 @ 0 # k @ m), hkdf_sha256 = (\<lambda>salt k info. k)\<rparr>"

lemma unary_inj: "replicate a (1::8 word) @ 0 # x = replicate b 1 @ 0 # y \<longleftrightarrow> a = b \<and> x = y"
proof (induction a arbitrary: b)
  case 0
  show ?case by (cases b) auto
next
  case (Suc a)
  then show ?case by (cases b) auto
qed

lemma plain_no_collision: "\<not> mac_collision plain_crypto"
  by (auto simp: mac_collision_def plain_crypto_def unary_inj)

end
