(* ===== verification/Table_Race.thy ===== *)
theory Table_Race
  imports Handshake
begin

text \<open>
  The table of sessions under concurrency: \<open>SessionTable::create_with_incoming\<close> and
  \<open>shutdown_all\<close> of \<open>session/mod.rs\<close> with the connection tasks of \<open>nya-server\<close> (\<open>serve_one\<close>),
  cut at the points where another task can run. A creator reads the flag, inserts its session,
  writes its answer and reads the flag again; the shutdown stores the flag, drains the table and
  shuts the drained sessions down one at a time.
\<close>

datatype creator = Arriving | Passed | Refused | Listed | Answered | Unanswered | Serving | Stopped

record table_race =
  rc_closed :: bool
  rc_slots :: "bytes set"
  rc_todo :: "bytes set option"
  rc_dead :: "bytes set"
  rc_task :: "bytes \<Rightarrow> creator"

text \<open>A creator is known by the session id it draws; ids are drawn once.\<close>

definition race_start :: table_race where
  "race_start = \<lparr>rc_closed = False, rc_slots = {}, rc_todo = None, rc_dead = {}, rc_task = (\<lambda>_. Arriving)\<rparr>"

definition creator_goes :: "bytes \<Rightarrow> creator \<Rightarrow> table_race \<Rightarrow> table_race" where
  "creator_goes i c t = t\<lparr>rc_task := (rc_task t)(i := c)\<rparr>"

definition check_flag :: "bytes \<Rightarrow> table_race \<Rightarrow> table_race" where
  "check_flag i t = creator_goes i (if rc_closed t then Refused else Passed) t"

definition list_session :: "bytes \<Rightarrow> table_race \<Rightarrow> table_race" where
  "list_session i t = creator_goes i Listed (t\<lparr>rc_slots := insert i (rc_slots t)\<rparr>)"

definition answer_client :: "bool \<Rightarrow> bytes \<Rightarrow> table_race \<Rightarrow> table_race" where
  "answer_client wok i t = creator_goes i (if wok then Answered else Unanswered) t"

definition recheck_flag :: "bytes \<Rightarrow> table_race \<Rightarrow> table_race" where
  "recheck_flag i t =
     (if rc_closed t then creator_goes i Stopped (t\<lparr>rc_dead := insert i (rc_dead t)\<rparr>)
      else creator_goes i Serving t)"

definition drain_slots :: "table_race \<Rightarrow> table_race" where
  "drain_slots t = t\<lparr>rc_todo := Some (rc_slots t), rc_slots := {}\<rparr>"

definition shut_one :: "bytes \<Rightarrow> table_race \<Rightarrow> table_race" where
  "shut_one i t = t\<lparr>rc_todo := map_option (\<lambda>T. T - {i}) (rc_todo t), rc_dead := insert i (rc_dead t)\<rparr>"

definition session_dies :: "bytes \<Rightarrow> table_race \<Rightarrow> table_race" where
  "session_dies i t = t\<lparr>rc_dead := insert i (rc_dead t)\<rparr>"

definition drop_slot :: "bytes \<Rightarrow> table_race \<Rightarrow> table_race" where
  "drop_slot i t = t\<lparr>rc_slots := rc_slots t - {i}\<rparr>"

text \<open>The task that \<open>create_with_incoming\<close> spawns drops the slot of a session that has died.\<close>

inductive race_step :: "table_race \<Rightarrow> table_race \<Rightarrow> bool" where
  check: "rc_task t i = Arriving \<Longrightarrow> race_step t (check_flag i t)"
| list: "rc_task t i = Passed \<Longrightarrow> race_step t (list_session i t)"
| answer: "rc_task t i = Listed \<Longrightarrow> race_step t (answer_client wok i t)"
| recheck: "rc_task t i = Answered \<Longrightarrow> race_step t (recheck_flag i t)"
| flag: "race_step t (t\<lparr>rc_closed := True\<rparr>)"
| drain: "rc_closed t \<Longrightarrow> rc_todo t = None \<Longrightarrow> race_step t (drain_slots t)"
| shut: "rc_todo t = Some T \<Longrightarrow> i \<in> T \<Longrightarrow> race_step t (shut_one i t)"
| die: "rc_task t i \<notin> {Arriving, Passed, Refused} \<Longrightarrow> race_step t (session_dies i t)"
| reap: "i \<in> rc_dead t \<Longrightarrow> race_step t (drop_slot i t)"

inductive race_reaches :: "table_race \<Rightarrow> table_race \<Rightarrow> bool" where
  here: "race_reaches t t"
| more: "race_reaches t u \<Longrightarrow> race_step u v \<Longrightarrow> race_reaches t v"

inductive_cases race_stepE: "race_step t u"

lemmas race_ops = creator_goes_def check_flag_def list_session_def answer_client_def recheck_flag_def
  drain_slots_def shut_one_def session_dies_def drop_slot_def

text \<open>A session that has not been shut down, and \<open>shutdown_all\<close> having returned.\<close>

definition session_up :: "bytes \<Rightarrow> table_race \<Rightarrow> bool" where
  "session_up i t \<longleftrightarrow> rc_task t i \<notin> {Arriving, Passed, Refused} \<and> i \<notin> rc_dead t"

definition shutdown_done :: "table_race \<Rightarrow> bool" where
  "shutdown_done t \<longleftrightarrow> rc_todo t = Some {}"

definition todo :: "table_race \<Rightarrow> bytes set" where
  "todo t = (case rc_todo t of None \<Rightarrow> {} | Some T \<Rightarrow> T)"

definition race_inv :: "table_race \<Rightarrow> bool" where
  "race_inv t \<longleftrightarrow>
     (rc_todo t \<noteq> None \<longrightarrow> rc_closed t)
     \<and> (\<forall>i. session_up i t \<longrightarrow> rc_task t i \<noteq> Stopped)
     \<and> (\<forall>i. session_up i t \<longrightarrow> i \<in> rc_slots t \<union> todo t)
     \<and> (\<forall>i. session_up i t \<longrightarrow> rc_task t i = Serving \<longrightarrow> rc_todo t \<noteq> None \<longrightarrow> i \<in> todo t)"

lemma race_inv_start: "race_inv race_start"
  by (simp add: race_inv_def race_start_def session_up_def)

lemma race_inv_step: "race_step t u \<Longrightarrow> race_inv t \<Longrightarrow> race_inv u"
  by (erule race_stepE)
    (auto simp: race_inv_def race_ops session_up_def todo_def split: option.splits if_splits)

lemma race_inv_reaches: "race_reaches t u \<Longrightarrow> race_inv t \<Longrightarrow> race_inv u"
  by (induction rule: race_reaches.induct) (auto intro: race_inv_step)

text \<open>
  C13: A shutdown misses no session in service. Whatever the interleaving with the connections being
  accepted: once \<open>shutdown_all\<close> has returned, a session that has not been shut down is still in the
  table, and its creator has yet to answer the client, has yet to look at the flag again, which ends
  the session, or has failed to answer; only the last is left for the session's own clock to end.
\<close>

theorem shutdown_misses_none:
  assumes "race_reaches race_start t" and "shutdown_done t" and "session_up i t"
  shows "i \<in> rc_slots t \<and> rc_task t i \<in> {Listed, Answered, Unanswered}
    \<and> (rc_task t i = Answered \<longrightarrow> \<not> session_up i (recheck_flag i t))"
proof -
  have inv: "race_inv t" by (rule race_inv_reaches[OF assms(1) race_inv_start])
  have d: "todo t = {}" "rc_todo t \<noteq> None" using assms(2) by (simp_all add: shutdown_done_def todo_def)
  have c: "rc_closed t" and l: "i \<in> rc_slots t" and s: "rc_task t i \<noteq> Serving" "rc_task t i \<noteq> Stopped"
    using inv assms(3) d unfolding race_inv_def by blast+
  have "rc_task t i \<in> {Listed, Answered, Unanswered}"
    using s assms(3) by (cases "rc_task t i") (simp_all add: session_up_def)
  moreover have "\<not> session_up i (recheck_flag i t)" using c by (simp add: session_up_def race_ops)
  ultimately show ?thesis using l by blast
qed

text \<open>The creator passes the flag before the shutdown and fails to answer after it.\<close>

definition demo_orphan :: table_race where
  "demo_orphan = answer_client False [1] (list_session [1]
     (drain_slots ((check_flag [1] race_start)\<lparr>rc_closed := True\<rparr>)))"

lemma demo_orphan_run: "race_reaches race_start demo_orphan"
proof -
  let ?a = "check_flag [1] race_start"
  let ?b = "?a\<lparr>rc_closed := True\<rparr>"
  have a: "race_reaches race_start ?a"
    by (rule race_reaches.more[OF race_reaches.here race_step.check]) (simp add: race_start_def)
  have b: "race_reaches race_start ?b" by (rule race_reaches.more[OF a race_step.flag])
  have c: "race_reaches race_start (drain_slots ?b)"
    by (rule race_reaches.more[OF b race_step.drain]) (simp_all add: race_start_def race_ops)
  have d: "race_reaches race_start (list_session [1] (drain_slots ?b))"
    by (rule race_reaches.more[OF c race_step.list]) (simp add: race_start_def race_ops)
  show ?thesis unfolding demo_orphan_def
    by (rule race_reaches.more[OF d race_step.answer]) (simp add: race_ops)
qed

theorem shutdown_misses_none_witness:
  "shutdown_done demo_orphan \<and> session_up [1] demo_orphan
   \<and> [1] \<in> rc_slots demo_orphan \<and> rc_task demo_orphan [1] = Unanswered"
proof -
  have f: "shutdown_done demo_orphan" "session_up [1] demo_orphan" "rc_task demo_orphan [1] = Unanswered"
    by (simp_all add: demo_orphan_def race_start_def race_ops shutdown_done_def session_up_def)
  from shutdown_misses_none[OF demo_orphan_run f(1,2)] f show ?thesis by blast
qed

end
