(* ===== verification/Hop_Copy.thy ===== *)
theory Hop_Copy
  imports Wire_Frame
begin

text \<open>
  The copier of \<open>nya-core/src/hop.rs\<close>: \<open>DirState\<close> moves bytes one way between a reader and a
  writer, \<open>CopyTimed\<close> drives one per direction and ends the way into the overlay when the stream
  behind it is gone. A poll is a function of the answers the sockets give during it; a poll that
  asks for more answers than there are is told to wait.
\<close>

section \<open>The sockets during one poll\<close>

definition COPY_BUF :: nat where "COPY_BUF = 8 * 1024"

datatype io_failure = WriteZero | IoFailed

datatype read_answer = ReadWait | ReadFail | ReadSome bytes
datatype write_answer = WriteWait | WriteFail | WriteSome nat
datatype done_answer = DoneWait | DoneFail | DoneOk

text \<open>
  What the reader and the writer of one direction will answer, the bytes the reader has handed over
  and the writer has taken so far, and whether the writer was shut down. The asynchronous traits
  promise that a read fills at most the buffer and that a write takes at most what it is offered.
\<close>

record io_env =
  rds :: "read_answer list"
  wrs :: "write_answer list"
  fls :: "done_answer list"
  shs :: "done_answer list"
  src :: bytes
  dst :: bytes
  dst_shut :: bool
  asleep :: bool

text \<open>\<open>asleep\<close>: some call of this poll was told to wait, and will wake the task.\<close>

definition poll_read :: "io_env \<Rightarrow> read_answer \<times> io_env" where
  "poll_read e =
     (case rds e of
        [] \<Rightarrow> (ReadWait, e\<lparr>asleep := True\<rparr>)
      | ReadWait # q \<Rightarrow> (ReadWait, e\<lparr>rds := q, asleep := True\<rparr>)
      | ReadFail # q \<Rightarrow> (ReadFail, e\<lparr>rds := q\<rparr>)
      | ReadSome bs # q \<Rightarrow>
          (ReadSome (take COPY_BUF bs), e\<lparr>rds := q, src := src e @ take COPY_BUF bs\<rparr>))"

definition poll_write :: "bytes \<Rightarrow> io_env \<Rightarrow> write_answer \<times> io_env" where
  "poll_write bs e =
     (case wrs e of
        [] \<Rightarrow> (WriteWait, e\<lparr>asleep := True\<rparr>)
      | WriteWait # q \<Rightarrow> (WriteWait, e\<lparr>wrs := q, asleep := True\<rparr>)
      | WriteFail # q \<Rightarrow> (WriteFail, e\<lparr>wrs := q\<rparr>)
      | WriteSome n # q \<Rightarrow> (WriteSome (min n (length bs)), e\<lparr>wrs := q, dst := dst e @ take n bs\<rparr>))"

definition poll_flush :: "io_env \<Rightarrow> done_answer \<times> io_env" where
  "poll_flush e =
     (case fls e of
        [] \<Rightarrow> (DoneWait, e\<lparr>asleep := True\<rparr>)
      | DoneWait # q \<Rightarrow> (DoneWait, e\<lparr>fls := q, asleep := True\<rparr>)
      | a # q \<Rightarrow> (a, e\<lparr>fls := q\<rparr>))"

definition poll_shutdown :: "io_env \<Rightarrow> done_answer \<times> io_env" where
  "poll_shutdown e =
     (case shs e of
        [] \<Rightarrow> (DoneWait, e\<lparr>asleep := True\<rparr>)
      | DoneWait # q \<Rightarrow> (DoneWait, e\<lparr>shs := q, asleep := True\<rparr>)
      | DoneFail # q \<Rightarrow> (DoneFail, e\<lparr>shs := q\<rparr>)
      | DoneOk # q \<Rightarrow> (DoneOk, e\<lparr>shs := q, dst_shut := True\<rparr>))"

section \<open>One direction\<close>

record dir_copy =
  dc_bytes :: nat
  read_wait_us :: nat
  write_wait_us :: nat
  dropped_bytes :: nat

datatype wait_on = WaitRead | WaitWrite

text \<open>
  \<open>buffered\<close> is \<open>buf[pos..cap]\<close>: the code uses the buffer only through that range, and
  \<open>pos = cap\<close> is its being empty.
\<close>

record dir_state =
  buffered :: bytes
  read_done :: bool
  need_flush :: bool
  shutting_down :: bool
  dir_done :: bool
  dir_out :: dir_copy
  dir_wait :: "(instant \<times> wait_on) option"

definition dir_new :: dir_state where
  "dir_new = \<lparr>buffered = [], read_done = False, need_flush = False, shutting_down = False, dir_done = False,
     dir_out = \<lparr>dc_bytes = 0, read_wait_us = 0, write_wait_us = 0, dropped_bytes = 0\<rparr>, dir_wait = None\<rparr>"

definition wait_starts :: "instant \<Rightarrow> wait_on \<Rightarrow> dir_state \<Rightarrow> dir_state" where
  "wait_starts now on d = (if dir_wait d = None then d\<lparr>dir_wait := Some (now, on)\<rparr> else d)"

definition wait_ends :: "instant \<Rightarrow> dir_state \<Rightarrow> dir_state" where
  "wait_ends now d =
     (case dir_wait d of
        None \<Rightarrow> d
      | Some (t, on) \<Rightarrow>
          let us = as_micros (now - t); o1 = dir_out d in
          d\<lparr>dir_wait := None,
            dir_out := (case on of
                WaitRead \<Rightarrow> o1\<lparr>read_wait_us := read_wait_us o1 + us\<rparr>
              | WaitWrite \<Rightarrow> o1\<lparr>write_wait_us := write_wait_us o1 + us\<rparr>)\<rparr>)"

datatype poll_result = Pending | Ready | Failed io_failure

text \<open>The parts of the loop: None goes on, Some returns from the poll.\<close>

definition read_part :: "instant \<Rightarrow> dir_state \<Rightarrow> io_env \<Rightarrow> poll_result option \<times> dir_state \<times> io_env" where
  "read_part now d e =
     (case poll_read e of
        (ReadWait, e1) \<Rightarrow>
          (if need_flush d then
             (case poll_flush e1 of
                (DoneWait, e2) \<Rightarrow> (Some Pending, d, e2)
              | (DoneFail, e2) \<Rightarrow> (Some (Failed IoFailed), d, e2)
              | (DoneOk, e2) \<Rightarrow> (Some Pending, wait_starts now WaitRead (d\<lparr>need_flush := False\<rparr>), e2))
           else (Some Pending, wait_starts now WaitRead d, e1))
      | (ReadFail, e1) \<Rightarrow> (Some (Failed IoFailed), d, e1)
      | (ReadSome bs, e1) \<Rightarrow>
          let d1 = wait_ends now d in
          (None, if bs = [] then d1\<lparr>read_done := True\<rparr> else d1\<lparr>buffered := bs\<rparr>, e1))"

definition wrote :: "instant \<Rightarrow> nat \<Rightarrow> dir_state \<Rightarrow> dir_state" where
  "wrote now n d =
     (let d1 = wait_ends now d; o1 = dir_out d1 in
      d1\<lparr>buffered := drop n (buffered d1), dir_out := o1\<lparr>dc_bytes := dc_bytes o1 + n\<rparr>, need_flush := True\<rparr>)"

function write_part :: "instant \<Rightarrow> dir_state \<Rightarrow> io_env \<Rightarrow> poll_result option \<times> dir_state \<times> io_env" where
  "write_part now d e =
     (if buffered d = [] then (None, d, e)
      else case poll_write (buffered d) e of
        (WriteWait, e1) \<Rightarrow> (Some Pending, wait_starts now WaitWrite d, e1)
      | (WriteFail, e1) \<Rightarrow> (Some (Failed IoFailed), d, e1)
      | (WriteSome n, e1) \<Rightarrow>
          if n = 0 then (Some (Failed WriteZero), d, e1) else write_part now (wrote now n d) e1)"
  by pat_completeness auto
termination
  by (relation "measure (\<lambda>(now, d, e). length (wrs e))")
    (auto simp: poll_write_def split: list.splits write_answer.splits)

declare write_part.simps [simp del]

text \<open>The answers left: every pass through the loop uses one, or it is the last.\<close>

definition answers_left :: "io_env \<Rightarrow> nat" where
  "answers_left e = length (rds e) + length (wrs e) + length (fls e) + length (shs e)"

lemma poll_read_left: "poll_read e = (a, e1) \<Longrightarrow> answers_left e1 \<le> answers_left e"
  "poll_read e = (ReadSome bs, e1) \<Longrightarrow> answers_left e1 < answers_left e"
  by (auto simp: poll_read_def answers_left_def split: list.splits read_answer.splits)

lemma poll_write_left: "poll_write bs e = (a, e1) \<Longrightarrow> answers_left e1 \<le> answers_left e"
  "poll_write bs e = (WriteSome n, e1) \<Longrightarrow> answers_left e1 < answers_left e"
  by (auto simp: poll_write_def answers_left_def split: list.splits write_answer.splits)

lemma poll_flush_left: "poll_flush e = (DoneOk, e1) \<Longrightarrow> answers_left e1 < answers_left e"
  by (auto simp: poll_flush_def answers_left_def split: list.splits done_answer.splits)

lemma poll_shutdown_left: "poll_shutdown e = (DoneOk, e1) \<Longrightarrow> answers_left e1 < answers_left e"
  by (auto simp: poll_shutdown_def answers_left_def split: list.splits done_answer.splits)

lemma read_part_left: "read_part now d e = (None, d1, e1) \<Longrightarrow> answers_left e1 < answers_left e"
  using poll_read_left(2)
  by (auto simp: read_part_def Let_def split: prod.splits read_answer.splits done_answer.splits if_splits)

lemma write_part_left:
  "write_part now d e = (None, d1, e1) \<Longrightarrow>
   answers_left e1 \<le> answers_left e \<and> buffered d1 = [] \<and> (buffered d \<noteq> [] \<longrightarrow> answers_left e1 < answers_left e)"
proof (induction now d e rule: write_part.induct)
  case (1 now d e)
  show ?case
  proof (cases "buffered d = []")
    case True
    then show ?thesis using 1(2) by (simp add: write_part.simps[of now d e])
  next
    case False
    obtain a e2 where p: "poll_write (buffered d) e = (a, e2)" by fastforce
    show ?thesis
    proof (cases a)
      case (WriteSome n)
      have n: "n \<noteq> 0" and r: "write_part now (wrote now n d) e2 = (None, d1, e1)"
        using 1(2) p False WriteSome by (auto simp: write_part.simps[of now d e] split: if_splits)
      have "answers_left e2 < answers_left e" using p WriteSome poll_write_left(2) by blast
      with 1(1)[OF False p[symmetric] WriteSome n r] show ?thesis by auto
    qed (use 1(2) p False in \<open>simp_all add: write_part.simps[of now d e]\<close>)
  qed
qed

lemma pass_left:
  assumes "(if buffered d = [] \<and> \<not> read_done d then read_part now d e else (None, d, e)) = (None, d1, e1)"
    and "write_part now d1 e1 = (None, d2, e2)"
  shows "answers_left e2 \<le> answers_left e \<and> (\<not> read_done d2 \<longrightarrow> answers_left e2 < answers_left e)"
proof (cases "buffered d = [] \<and> \<not> read_done d")
  case True
  then show ?thesis using assms read_part_left[of now d e d1 e1] write_part_left[of now d1 e1 d2 e2] by auto
next
  case False
  then have "d1 = d" "e1 = e" using assms(1) by auto
  then show ?thesis using False assms(2) write_part_left[of now d1 e1 d2 e2]
    by (auto simp: write_part.simps[of now d e])
qed

function dir_poll :: "instant \<Rightarrow> dir_state \<Rightarrow> io_env \<Rightarrow> poll_result \<times> dir_state \<times> io_env" where
  "dir_poll now d e =
     (if dir_done d then (Ready, d, e)
      else if shutting_down d then
        (case poll_shutdown e of
           (DoneWait, e1) \<Rightarrow> (Pending, d, e1)
         | (DoneFail, e1) \<Rightarrow> (Failed IoFailed, d, e1)
         | (DoneOk, e1) \<Rightarrow> dir_poll now (d\<lparr>dir_done := True\<rparr>) e1)
      else case (if buffered d = [] \<and> \<not> read_done d then read_part now d e else (None, d, e)) of
        (Some r, d1, e1) \<Rightarrow> (r, d1, e1)
      | (None, d1, e1) \<Rightarrow>
          (case write_part now d1 e1 of
             (Some r, d2, e2) \<Rightarrow> (r, d2, e2)
           | (None, d2, e2) \<Rightarrow>
               if read_done d2 then
                 (case poll_flush e2 of
                    (DoneWait, e3) \<Rightarrow> (Pending, d2, e3)
                  | (DoneFail, e3) \<Rightarrow> (Failed IoFailed, d2, e3)
                  | (DoneOk, e3) \<Rightarrow> dir_poll now (d2\<lparr>need_flush := False, shutting_down := True\<rparr>) e3)
               else dir_poll now d2 e2))"
  by pat_completeness auto

text \<open>After the writes the buffer is empty, so the test of the code for \<open>pos = cap\<close> holds there.\<close>

termination
proof (relation "measure (\<lambda>(now, d, e). answers_left e)", goal_cases)
  case (2 now d e a e1)
  then show ?case using poll_shutdown_left[of e e1] by simp
next
  case (3 now d e x d1e1 d1 e1 y d2e2 d2 e2 z e3)
  then show ?case using pass_left[of d now e d1 e1 d2 e2] poll_flush_left[of e2 e3] by simp
next
  case (4 now d e x d1e1 d1 e1 y d2e2 d2 e2)
  then show ?case using pass_left[of d now e d1 e1 d2 e2] by (cases d2e2) simp
qed simp

declare dir_poll.simps [simp del]

section \<open>Both directions\<close>

text \<open>\<open>gone_wait\<close>: the future that tells of the stream's removal is there and has not resolved.\<close>

record copy_timed =
  way_ab :: dir_state
  way_ba :: dir_state
  gone_wait :: bool
  was_reaped :: bool

record copy_outcome =
  a_to_b :: dir_copy
  b_to_a :: dir_copy
  out_reaped :: bool

datatype copy_result = CopyWaits | CopyDone copy_outcome | CopyFails io_failure

definition copy_bidirectional_timed :: copy_timed where
  "copy_bidirectional_timed = \<lparr>way_ab = dir_new, way_ba = dir_new, gone_wait = False, was_reaped = False\<rparr>"

definition copy_bidirectional_timed_until :: copy_timed where
  "copy_bidirectional_timed_until = \<lparr>way_ab = dir_new, way_ba = dir_new, gone_wait = True, was_reaped = False\<rparr>"

definition end_way :: "instant \<Rightarrow> dir_state \<Rightarrow> dir_state" where
  "end_way now d =
     (let d1 = wait_ends now d; o1 = dir_out d1 in
      d1\<lparr>dir_out := o1\<lparr>dropped_bytes := dropped_bytes o1 + length (buffered d1)\<rparr>, buffered := [], read_done := True\<rparr>)"

text \<open>\<open>g\<close>: the removal is known at this poll.\<close>

definition hear_gone :: "instant \<Rightarrow> bool \<Rightarrow> copy_timed \<Rightarrow> copy_timed" where
  "hear_gone now g c =
     (if gone_wait c \<and> g then
        (let c1 = c\<lparr>gone_wait := False\<rparr> in
         if read_done (way_ab c1) then c1 else c1\<lparr>way_ab := end_way now (way_ab c1), was_reaped := True\<rparr>)
      else c)"

text \<open>The reader of \<open>a\<close> with the writer of \<open>b\<close> is one environment, the other two are the other.\<close>

definition copy_poll ::
  "instant \<Rightarrow> bool \<Rightarrow> copy_timed \<times> io_env \<times> io_env \<Rightarrow> copy_result \<times> copy_timed \<times> io_env \<times> io_env" where
  "copy_poll now g = (\<lambda>(c, eab, eba).
     let c0 = hear_gone now g c in
     case dir_poll now (way_ab c0) eab of
       (Failed x, d, e) \<Rightarrow> (CopyFails x, c0\<lparr>way_ab := d\<rparr>, e, eba)
     | (rab, d, e) \<Rightarrow>
         (let c1 = c0\<lparr>way_ab := d\<rparr> in
          case dir_poll now (way_ba c1) eba of
            (Failed x, d2, e2) \<Rightarrow> (CopyFails x, c1\<lparr>way_ba := d2\<rparr>, e, e2)
          | (rba, d2, e2) \<Rightarrow>
              (let c2 = c1\<lparr>way_ba := d2\<rparr> in
               (if rab = Ready \<and> rba = Ready
                then CopyDone \<lparr>a_to_b = dir_out (way_ab c2), b_to_a = dir_out (way_ba c2), out_reaped = was_reaped c2\<rparr>
                else CopyWaits, c2, e, e2))))"

text \<open>
  \<open>waits_from_outcome\<close> and \<open>close_label\<close>: what the hop reports of a copy, \<open>a\<close> being the local
  socket and \<open>b\<close> the tunnel.
\<close>

record hop_waits =
  local_read_us :: nat
  local_write_us :: nat
  overlay_read_us :: nat
  overlay_write_us :: nat

definition waits_from_outcome :: "copy_outcome \<Rightarrow> hop_waits" where
  "waits_from_outcome r =
     \<lparr>local_read_us = read_wait_us (a_to_b r), local_write_us = write_wait_us (b_to_a r),
      overlay_read_us = read_wait_us (b_to_a r), overlay_write_us = write_wait_us (a_to_b r)\<rparr>"

definition close_label :: "copy_outcome \<Rightarrow> string" where
  "close_label r = (if out_reaped r then ''reaped'' else ''eof'')"

definition outcome_dropped :: "copy_outcome \<Rightarrow> nat" where
  "outcome_dropped r = dropped_bytes (a_to_b r) + dropped_bytes (b_to_a r)"

end
