(* ===== verification/Hop_Pipe.thy ===== *)
theory Hop_Pipe
  imports Hop_Copy
begin

text \<open>
  The copier against a pipe. A one-buffer pipe is the specification of one direction; every poll of
  \<open>DirState\<close> is a sequence of small steps, each of which the pipe can do.
\<close>

section \<open>The pipe\<close>

record pipe =
  pipe_in :: bytes
  pipe_out :: bytes
  pipe_held :: bytes
  pipe_lost :: bytes
  pipe_eof :: bool
  pipe_shut :: bool

definition pipe_empty :: pipe where
  "pipe_empty = \<lparr>pipe_in = [], pipe_out = [], pipe_held = [], pipe_lost = [], pipe_eof = False, pipe_shut = False\<rparr>"

inductive pipe_step :: "pipe \<Rightarrow> pipe \<Rightarrow> bool" where
  fill: "pipe_held p = [] \<Longrightarrow> \<not> pipe_eof p \<Longrightarrow> bs \<noteq> [] \<Longrightarrow> length bs \<le> COPY_BUF
    \<Longrightarrow> pipe_step p (p\<lparr>pipe_in := pipe_in p @ bs, pipe_held := bs\<rparr>)"
| give: "pipe_held p = bs @ r \<Longrightarrow> bs \<noteq> []
    \<Longrightarrow> pipe_step p (p\<lparr>pipe_out := pipe_out p @ bs, pipe_held := r\<rparr>)"
| end_in: "pipe_held p = [] \<Longrightarrow> pipe_step p (p\<lparr>pipe_eof := True\<rparr>)"
| cut: "\<not> pipe_eof p \<Longrightarrow> pipe_step p (p\<lparr>pipe_lost := pipe_held p, pipe_held := [], pipe_eof := True\<rparr>)"
| shut: "pipe_eof p \<Longrightarrow> pipe_held p = [] \<Longrightarrow> pipe_step p (p\<lparr>pipe_shut := True\<rparr>)"

definition pipe_inv :: "pipe \<Rightarrow> bool" where
  "pipe_inv p \<longleftrightarrow> pipe_in p = pipe_out p @ pipe_lost p @ pipe_held p
     \<and> (pipe_lost p \<noteq> [] \<longrightarrow> pipe_eof p \<and> pipe_held p = [])
     \<and> (pipe_shut p \<longrightarrow> pipe_eof p \<and> pipe_held p = [])
     \<and> length (pipe_held p) \<le> COPY_BUF"

inductive_cases pipe_stepE: "pipe_step p q"

lemma pipe_inv_step: "pipe_step p q \<Longrightarrow> pipe_inv p \<Longrightarrow> pipe_inv q"
  by (erule pipe_stepE) (auto simp: pipe_inv_def)

lemma pipe_inv_steps: "pipe_step\<^sup>*\<^sup>* p q \<Longrightarrow> pipe_inv p \<Longrightarrow> pipe_inv q"
  by (induction rule: rtranclp_induct) (auto intro: pipe_inv_step)

lemma pipe_inv_empty: "pipe_inv pipe_empty"
  by (simp add: pipe_inv_def pipe_empty_def)

section \<open>The small steps of a poll\<close>

definition same_io :: "io_env \<Rightarrow> io_env \<Rightarrow> bool" where
  "same_io e e' \<longleftrightarrow> src e' = src e \<and> dst e' = dst e \<and> dst_shut e' = dst_shut e"

inductive dir_step :: "instant \<Rightarrow> dir_state \<times> io_env \<Rightarrow> dir_state \<times> io_env \<Rightarrow> bool" for now where
  ask: "same_io e e' \<Longrightarrow> dir_step now (d, e) (d, e')"
| wait: "dir_step now (d, e) (wait_starts now on d, e)"
| flushed_early: "dir_step now (d, e) (d\<lparr>need_flush := False\<rparr>, e)"
| took: "buffered d = [] \<Longrightarrow> \<not> read_done d \<Longrightarrow> bs \<noteq> [] \<Longrightarrow> length bs \<le> COPY_BUF \<Longrightarrow>
    src e' = src e @ bs \<Longrightarrow> dst e' = dst e \<Longrightarrow> dst_shut e' = dst_shut e
    \<Longrightarrow> dir_step now (d, e) ((wait_ends now d)\<lparr>buffered := bs\<rparr>, e')"
| ended: "buffered d = [] \<Longrightarrow> same_io e e' \<Longrightarrow> dir_step now (d, e) ((wait_ends now d)\<lparr>read_done := True\<rparr>, e')"
| gave: "0 < n \<Longrightarrow> n \<le> length (buffered d) \<Longrightarrow> \<not> shutting_down d \<Longrightarrow>
    src e' = src e \<Longrightarrow> dst e' = dst e @ take n (buffered d) \<Longrightarrow> dst_shut e' = dst_shut e
    \<Longrightarrow> dir_step now (d, e) (wrote now n d, e')"
| flushed: "buffered d = [] \<Longrightarrow> read_done d \<Longrightarrow> same_io e e'
    \<Longrightarrow> dir_step now (d, e) (d\<lparr>need_flush := False, shutting_down := True\<rparr>, e')"
| closed: "shutting_down d \<Longrightarrow> src e' = src e \<Longrightarrow> dst e' = dst e \<Longrightarrow> dst_shut e'
    \<Longrightarrow> dir_step now (d, e) (d\<lparr>dir_done := True\<rparr>, e')"

lemma poll_read_io:
  "poll_read e = (ReadWait, e1) \<Longrightarrow> same_io e e1 \<and> asleep e1"
  "poll_read e = (ReadFail, e1) \<Longrightarrow> same_io e e1"
  "poll_read e = (ReadSome bs, e1) \<Longrightarrow>
     length bs \<le> COPY_BUF \<and> src e1 = src e @ bs \<and> dst e1 = dst e \<and> dst_shut e1 = dst_shut e"
  by (auto simp: poll_read_def same_io_def split: list.splits read_answer.splits)

lemma poll_write_io:
  "poll_write bs e = (WriteWait, e1) \<Longrightarrow> same_io e e1 \<and> asleep e1"
  "poll_write bs e = (WriteFail, e1) \<Longrightarrow> same_io e e1"
  "poll_write bs e = (WriteSome n, e1) \<Longrightarrow>
     n \<le> length bs \<and> src e1 = src e \<and> dst e1 = dst e @ take n bs \<and> dst_shut e1 = dst_shut e"
  by (auto simp: poll_write_def same_io_def min_def split: list.splits write_answer.splits)

lemma poll_flush_io: "poll_flush e = (a, e1) \<Longrightarrow> same_io e e1 \<and> (a = DoneWait \<longrightarrow> asleep e1)
  \<and> (asleep e \<longrightarrow> asleep e1)"
  by (auto simp: poll_flush_def same_io_def split: list.splits done_answer.splits)

lemma poll_shutdown_io:
  "poll_shutdown e = (DoneWait, e1) \<Longrightarrow> same_io e e1 \<and> asleep e1"
  "poll_shutdown e = (DoneFail, e1) \<Longrightarrow> same_io e e1"
  "poll_shutdown e = (DoneOk, e1) \<Longrightarrow> src e1 = src e \<and> dst e1 = dst e \<and> dst_shut e1"
  by (auto simp: poll_shutdown_def same_io_def split: list.splits done_answer.splits)

lemma same_io_trans: "same_io e e1 \<Longrightarrow> same_io e1 e2 \<Longrightarrow> same_io e e2"
  by (simp add: same_io_def)

text \<open>A part of the loop that returns has done steps and left the task with a wake-up if it waits.\<close>

definition part_ok :: "poll_result option \<Rightarrow> io_env \<Rightarrow> bool" where
  "part_ok r e \<longleftrightarrow> r \<noteq> Some Ready \<and> (r = Some Pending \<longrightarrow> asleep e)"

lemma read_part_steps:
  assumes "read_part now d e = (r, d', e')" and "buffered d = []" "\<not> read_done d"
  shows "(dir_step now)\<^sup>*\<^sup>* (d, e) (d', e') \<and> part_ok r e'"
proof -
  obtain a e1 where p: "poll_read e = (a, e1)" by fastforce
  show ?thesis
  proof (cases a)
    case ReadWait
    then have io: "same_io e e1" "asleep e1" using p poll_read_io(1) by blast+
    show ?thesis
    proof (cases "need_flush d")
      case True
      obtain b e2 where f: "poll_flush e1 = (b, e2)" by fastforce
      have io2: "same_io e e2" using poll_flush_io[OF f] io same_io_trans by blast
      have s: "dir_step now (d, e) (d, e2)" by (rule dir_step.ask[OF io2])
      show ?thesis
      proof (cases b)
        case DoneOk
        then have "d' = wait_starts now WaitRead (d\<lparr>need_flush := False\<rparr>)" "e' = e2" "r = Some Pending"
          using assms(1) p ReadWait f True by (auto simp: read_part_def)
        moreover have "(dir_step now)\<^sup>*\<^sup>* (d, e) (d\<lparr>need_flush := False\<rparr>, e2)"
          using s dir_step.flushed_early by (meson r_into_rtranclp rtranclp.rtrancl_into_rtrancl)
        ultimately show ?thesis using dir_step.wait poll_flush_io[OF f] io(2) unfolding part_ok_def
          by (metis option.inject poll_result.distinct(1) rtranclp.rtrancl_into_rtrancl)
      qed (use assms(1) p ReadWait f True s poll_flush_io[OF f] in \<open>auto simp: read_part_def part_ok_def\<close>)
    next
      case False
      then have "d' = wait_starts now WaitRead d" "e' = e1" "r = Some Pending"
        using assms(1) p ReadWait by (auto simp: read_part_def)
      then show ?thesis using dir_step.ask[OF io(1), of now d] dir_step.wait[of now d e1 WaitRead] io(2)
        unfolding part_ok_def by (metis converse_rtranclp_into_rtranclp option.inject poll_result.distinct(1) r_into_rtranclp)
    qed
  next
    case ReadFail
    then show ?thesis using assms(1) p poll_read_io(2)[of e e1]
      by (auto simp: read_part_def part_ok_def intro!: r_into_rtranclp dir_step.ask)
  next
    case (ReadSome bs)
    note io = poll_read_io(3)[OF p[unfolded ReadSome]]
    have r: "r = None" "e' = e1"
      "d' = (if bs = [] then (wait_ends now d)\<lparr>read_done := True\<rparr> else (wait_ends now d)\<lparr>buffered := bs\<rparr>)"
      using assms(1) p ReadSome by (auto simp: read_part_def Let_def)
    have "dir_step now (d, e) (d', e')"
    proof (cases "bs = []")
      case True
      then show ?thesis using r io dir_step.ended[OF assms(2), of e e1 now] by (simp add: same_io_def)
    next
      case False
      then show ?thesis using r io dir_step.took[OF assms(2,3) False, of e1 e now] by simp
    qed
    then show ?thesis using r(1) by (simp add: part_ok_def r_into_rtranclp)
  qed
qed

lemma write_part_steps:
  assumes "write_part now d e = (r, d', e')" and "\<not> shutting_down d"
  shows "(dir_step now)\<^sup>*\<^sup>* (d, e) (d', e') \<and> part_ok r e' \<and> (r = None \<longrightarrow> buffered d' = [])
    \<and> shutting_down d' = shutting_down d"
  using assms
proof (induction now d e rule: write_part.induct)
  case (1 now d e)
  show ?case
  proof (cases "buffered d = []")
    case True
    then show ?thesis using 1(2) by (simp add: write_part.simps[of now d e] part_ok_def)
  next
    case False
    obtain a e1 where p: "poll_write (buffered d) e = (a, e1)" by fastforce
    show ?thesis
    proof (cases a)
      case WriteWait
      note io = poll_write_io(1)[OF p[unfolded WriteWait]]
      have q: "d' = wait_starts now WaitWrite d" "e' = e1" "r = Some Pending"
        using 1(2) p False WriteWait by (auto simp: write_part.simps[of now d e])
      have "(dir_step now)\<^sup>*\<^sup>* (d, e) (d, e1)" using io by (blast intro: dir_step.ask)
      then have "(dir_step now)\<^sup>*\<^sup>* (d, e) (d', e')" unfolding q
        by (rule rtranclp.rtrancl_into_rtrancl) (rule dir_step.wait)
      then show ?thesis using q io by (simp add: part_ok_def wait_starts_def)
    next
      case WriteFail
      then show ?thesis using 1(2) p False poll_write_io(2)[of "buffered d" e e1]
        by (auto simp: write_part.simps[of now d e] part_ok_def intro!: r_into_rtranclp dir_step.ask)
    next
      case (WriteSome n)
      note io = poll_write_io(3)[OF p[unfolded WriteSome]]
      show ?thesis
      proof (cases "n = 0")
        case True
        then have "dst e1 = dst e" using io by simp
        then show ?thesis using 1(2) p False WriteSome True io
          by (auto simp: write_part.simps[of now d e] part_ok_def same_io_def intro!: r_into_rtranclp dir_step.ask)
      next
        case n: False
        have g: "dir_step now (d, e) (wrote now n d, e1)"
          using io n 1(3) by (intro dir_step.gave) auto
        have w: "shutting_down (wrote now n d) = shutting_down d"
          by (simp add: wrote_def wait_ends_def Let_def split: option.splits prod.splits wait_on.splits)
        have "write_part now (wrote now n d) e1 = (r, d', e')"
          using 1(2) p False WriteSome n by (simp add: write_part.simps[of now d e])
        from 1(1)[OF False p[symmetric] WriteSome n this] g w 1(3) show ?thesis
          by (auto intro: converse_rtranclp_into_rtranclp)
      qed
    qed
  qed
qed

lemma read_part_keeps:
  "read_part now d e = (r, d', e') \<Longrightarrow> shutting_down d' = shutting_down d \<and> dir_done d' = dir_done d"
  by (auto simp: read_part_def wait_starts_def wait_ends_def Let_def
      split: prod.splits read_answer.splits done_answer.splits if_splits option.splits wait_on.splits)

lemma dir_poll_steps:
  assumes "dir_poll now d e = (r, d', e')"
  shows "(dir_step now)\<^sup>*\<^sup>* (d, e) (d', e') \<and> (r = Ready \<longrightarrow> dir_done d') \<and> (r = Pending \<longrightarrow> asleep e')"
  using assms
proof (induction now d e rule: dir_poll.induct)
  case (1 now d e)
  consider (fin) "dir_done d" | (shut) "\<not> dir_done d" "shutting_down d" | (copy) "\<not> dir_done d" "\<not> shutting_down d"
    by blast
  then show ?case
  proof cases
    case fin
    then show ?thesis using 1(4) by (simp add: dir_poll.simps[of now d e])
  next
    case shut
    obtain a e1 where p: "poll_shutdown e = (a, e1)" by fastforce
    show ?thesis
    proof (cases a)
      case DoneOk
      have c: "dir_step now (d, e) (d\<lparr>dir_done := True\<rparr>, e1)"
        using poll_shutdown_io(3)[OF p[unfolded DoneOk]] shut(2) by (intro dir_step.closed) auto
      have "dir_poll now (d\<lparr>dir_done := True\<rparr>) e1 = (r, d', e')"
        using 1(4) p shut DoneOk by (simp add: dir_poll.simps[of now d e])
      from 1(1)[OF shut p[symmetric] DoneOk this] c show ?thesis
        by (auto intro: converse_rtranclp_into_rtranclp)
    next
      case DoneWait
      note io = poll_shutdown_io(1)[OF p[unfolded DoneWait]]
      then show ?thesis using 1(4) p shut DoneWait
        by (auto simp: dir_poll.simps[of now d e] intro!: r_into_rtranclp dir_step.ask)
    next
      case DoneFail
      note io = poll_shutdown_io(2)[OF p[unfolded DoneFail]]
      then show ?thesis using 1(4) p shut DoneFail
        by (auto simp: dir_poll.simps[of now d e] intro!: r_into_rtranclp dir_step.ask)
    qed
  next
    case copy
    let ?rd = "if buffered d = [] \<and> \<not> read_done d then read_part now d e else (None, d, e)"
    obtain x d1 e1 where rd: "?rd = (x, d1, e1)" by (cases "?rd")
    have s1: "(dir_step now)\<^sup>*\<^sup>* (d, e) (d1, e1) \<and> part_ok x e1" and n1: "\<not> shutting_down d1"
      using rd read_part_steps[of now d e x d1 e1] read_part_keeps[of now d e x d1 e1] copy
      by (auto simp: part_ok_def split: if_splits)
    show ?thesis
    proof (cases x)
      case (Some q)
      then have "r = q" "d' = d1" "e' = e1" using 1(4) copy rd by (simp_all add: dir_poll.simps[of now d e])
      then show ?thesis using s1 Some by (auto simp: part_ok_def)
    next
      case None
      obtain y d2 e2 where wr: "write_part now d1 e1 = (y, d2, e2)" by (cases "write_part now d1 e1")
      from write_part_steps[OF wr n1] s1 have s2: "(dir_step now)\<^sup>*\<^sup>* (d, e) (d2, e2)" "part_ok y e2"
        and b: "y = None \<Longrightarrow> buffered d2 = []" by auto
      show ?thesis
      proof (cases y)
        case (Some q)
        then have "r = q" "d' = d2" "e' = e2" using 1(4) copy rd None wr by (simp_all add: dir_poll.simps[of now d e])
        then show ?thesis using s2 Some by (auto simp: part_ok_def)
      next
        case y: None
        show ?thesis
        proof (cases "read_done d2")
          case True
          obtain a e3 where f: "poll_flush e2 = (a, e3)" by fastforce
          note io = poll_flush_io[OF f]
          have s3: "(dir_step now)\<^sup>*\<^sup>* (d, e) (d2, e3)"
            using s2(1) io by (auto intro: rtranclp.rtrancl_into_rtrancl dir_step.ask)
          have s4: "(dir_step now)\<^sup>*\<^sup>* (d, e) (d2\<lparr>need_flush := False, shutting_down := True\<rparr>, e3)"
            by (rule rtranclp.rtrancl_into_rtrancl[OF s2(1)]) (use b[OF y] True io in \<open>intro dir_step.flushed; simp\<close>)
          show ?thesis
          proof (cases a)
            case DoneOk
            then have "dir_poll now (d2\<lparr>need_flush := False, shutting_down := True\<rparr>) e3 = (r, d', e')"
              using 1(4) copy rd None wr y True f by (simp add: dir_poll.simps[of now d e])
            from 1(2)[OF copy rd[symmetric] None refl wr[symmetric] y refl True f[symmetric] DoneOk this] s4 show ?thesis
              by (auto intro: rtranclp_trans)
          qed (use 1(4) copy rd None wr y True f s3 io in \<open>auto simp: dir_poll.simps[of now d e]\<close>)
        next
          case False
          then have "dir_poll now d2 e2 = (r, d', e')"
            using 1(4) copy rd None wr y by (simp add: dir_poll.simps[of now d e])
          from 1(3)[OF copy rd[symmetric] None refl wr[symmetric] y refl False this] s2(1) show ?thesis
            by (auto intro: rtranclp_trans)
        qed
      qed
    qed
  qed
qed

section \<open>Each step is a step of the pipe\<close>

text \<open>\<open>l\<close> is what was dropped when the stream behind the writer went.\<close>

definition pipe_of :: "bytes \<Rightarrow> dir_state \<Rightarrow> io_env \<Rightarrow> pipe" where
  "pipe_of l d e = \<lparr>pipe_in = src e, pipe_out = dst e, pipe_held = buffered d, pipe_lost = l,
     pipe_eof = read_done d, pipe_shut = dst_shut e\<rparr>"

definition dir_ok :: "bytes \<Rightarrow> dir_state \<Rightarrow> io_env \<Rightarrow> bool" where
  "dir_ok l d e \<longleftrightarrow>
     (shutting_down d \<longrightarrow> read_done d \<and> buffered d = [])
     \<and> (dir_done d \<longrightarrow> dst_shut e)
     \<and> dc_bytes (dir_out d) = length (dst e)
     \<and> dropped_bytes (dir_out d) = length l"

lemma wait_fields [simp]:
  "buffered (wait_starts now on d) = buffered d" "read_done (wait_starts now on d) = read_done d"
  "shutting_down (wait_starts now on d) = shutting_down d" "dir_done (wait_starts now on d) = dir_done d"
  "dir_out (wait_starts now on d) = dir_out d"
  "buffered (wait_ends now d) = buffered d" "read_done (wait_ends now d) = read_done d"
  "shutting_down (wait_ends now d) = shutting_down d" "dir_done (wait_ends now d) = dir_done d"
  "dc_bytes (dir_out (wait_ends now d)) = dc_bytes (dir_out d)"
  "dropped_bytes (dir_out (wait_ends now d)) = dropped_bytes (dir_out d)"
  by (auto simp: wait_starts_def wait_ends_def Let_def split: option.splits wait_on.splits)

lemma wrote_fields [simp]:
  "buffered (wrote now n d) = drop n (buffered d)" "read_done (wrote now n d) = read_done d"
  "shutting_down (wrote now n d) = shutting_down d" "dir_done (wrote now n d) = dir_done d"
  "dc_bytes (dir_out (wrote now n d)) = dc_bytes (dir_out d) + n"
  "dropped_bytes (dir_out (wrote now n d)) = dropped_bytes (dir_out d)"
  by (simp_all add: wrote_def Let_def)

lemma end_way_fields [simp]:
  "buffered (end_way now d) = []" "read_done (end_way now d)"
  "shutting_down (end_way now d) = shutting_down d" "dir_done (end_way now d) = dir_done d"
  "dc_bytes (dir_out (end_way now d)) = dc_bytes (dir_out d)"
  "dropped_bytes (dir_out (end_way now d)) = dropped_bytes (dir_out d) + length (buffered d)"
  by (simp_all add: end_way_def Let_def)

lemma dir_step_pipe:
  assumes "dir_step now (d, e) (d', e')" and "dir_ok l d e"
  shows "dir_ok l d' e' \<and> pipe_step\<^sup>*\<^sup>* (pipe_of l d e) (pipe_of l d' e')"
  using assms
proof (cases rule: dir_step.cases)
  case (took bs)
  then have "pipe_step (pipe_of l d e) (pipe_of l d' e')"
    using pipe_step.fill[of "pipe_of l d e" bs] by (simp add: pipe_of_def)
  then show ?thesis using took assms(2) by (auto simp: dir_ok_def)
next
  case ended
  then have "pipe_step (pipe_of l d e) (pipe_of l d' e')"
    using pipe_step.end_in[of "pipe_of l d e"] by (simp add: pipe_of_def same_io_def)
  then show ?thesis using ended assms(2) by (auto simp: dir_ok_def same_io_def)
next
  case (gave n)
  then have "buffered d \<noteq> []" by auto
  with gave have "pipe_step (pipe_of l d e) (pipe_of l d' e')"
    using pipe_step.give[of "pipe_of l d e" "take n (buffered d)" "drop n (buffered d)"] by (auto simp: pipe_of_def)
  then show ?thesis using gave assms(2) by (auto simp: dir_ok_def)
next
  case closed
  then have "pipe_step (pipe_of l d e) (pipe_of l d' e')"
    using pipe_step.shut[of "pipe_of l d e"] assms(2) by (simp add: pipe_of_def dir_ok_def)
  then show ?thesis using closed assms(2) by (auto simp: dir_ok_def)
qed (simp_all add: pipe_of_def dir_ok_def same_io_def)

lemma dir_steps_pipe:
  "(dir_step now)\<^sup>*\<^sup>* (d, e) (d', e') \<Longrightarrow> dir_ok l d e \<Longrightarrow>
   dir_ok l d' e' \<and> pipe_step\<^sup>*\<^sup>* (pipe_of l d e) (pipe_of l d' e')"
proof (induction "(d', e')" arbitrary: d' e' rule: rtranclp_induct)
  case (step y)
  obtain d1 e1 where y: "y = (d1, e1)" by (cases y)
  show ?case using step.hyps(3)[OF y step.prems] dir_step_pipe[of now d1 e1 d' e' l] step.hyps(2)
    unfolding y by (blast intro: rtranclp_trans)
qed simp

section \<open>A copy from its start\<close>

definition io_start :: io_env where
  "io_start = \<lparr>rds = [], wrs = [], fls = [], shs = [], src = [], dst = [], dst_shut = False, asleep = False\<rparr>"

text \<open>Between two polls the sockets get new answers: those of \<open>n\<close>.\<close>

definition feed :: "io_env \<Rightarrow> io_env \<Rightarrow> io_env" where
  "feed n e = e\<lparr>rds := rds n, wrs := wrs n, fls := fls n, shs := shs n, asleep := False\<rparr>"

inductive copy_run ::
  "copy_timed \<Rightarrow> instant \<Rightarrow> instant \<Rightarrow> copy_result \<times> copy_timed \<times> io_env \<times> io_env \<Rightarrow> bool" for c0 t0 where
  begun: "copy_run c0 t0 t0 (CopyWaits, c0, io_start, io_start)"
| woken: "copy_run c0 t0 t (CopyWaits, c, ea, eb) \<Longrightarrow> t \<le> now
    \<Longrightarrow> copy_run c0 t0 now (copy_poll now g (c, feed na ea, feed nb eb))"

definition copy_ok :: "bytes \<Rightarrow> copy_timed \<Rightarrow> io_env \<Rightarrow> io_env \<Rightarrow> bool" where
  "copy_ok l c ea eb \<longleftrightarrow>
     dir_ok l (way_ab c) ea \<and> dir_ok [] (way_ba c) eb
     \<and> pipe_step\<^sup>*\<^sup>* pipe_empty (pipe_of l (way_ab c) ea)
     \<and> pipe_step\<^sup>*\<^sup>* pipe_empty (pipe_of [] (way_ba c) eb)
     \<and> (gone_wait c \<longrightarrow> l = []) \<and> (l \<noteq> [] \<longrightarrow> was_reaped c)"

lemma copy_ok_new: "copy_ok [] \<lparr>way_ab = dir_new, way_ba = dir_new, gone_wait = u, was_reaped = False\<rparr> io_start io_start"
  by (simp add: copy_ok_def dir_ok_def dir_new_def io_start_def pipe_of_def pipe_empty_def)

lemma copy_ok_feed: "copy_ok l c ea eb \<Longrightarrow> copy_ok l c (feed na ea) (feed nb eb)"
  by (simp add: copy_ok_def dir_ok_def pipe_of_def feed_def)

lemma hear_gone_ok:
  assumes "copy_ok l c ea eb"
  obtains l' where "copy_ok l' (hear_gone now g c) ea eb" "way_ba (hear_gone now g c) = way_ba c"
proof (cases "gone_wait c \<and> g \<and> \<not> read_done (way_ab c)")
  case True
  let ?d = "way_ab c"
  have l: "l = []" using True assms by (simp add: copy_ok_def)
  have c: "pipe_step (pipe_of [] ?d ea) (pipe_of (buffered ?d) (end_way now ?d) ea)"
    using pipe_step.cut[of "pipe_of [] ?d ea"] True by (simp add: pipe_of_def)
  have p: "pipe_step\<^sup>*\<^sup>* pipe_empty (pipe_of (buffered ?d) (end_way now ?d) ea)"
    using assms c unfolding copy_ok_def l by (meson rtranclp.rtrancl_into_rtrancl)
  have "copy_ok (buffered ?d) (hear_gone now g c) ea eb"
    using assms True l p by (simp add: copy_ok_def hear_gone_def dir_ok_def)
  then show ?thesis by (rule that) (use True in \<open>simp add: hear_gone_def\<close>)
next
  case False
  then have "copy_ok l (hear_gone now g c) ea eb"
    using assms by (auto simp: copy_ok_def hear_gone_def Let_def)
  then show ?thesis by (rule that) (use False in \<open>auto simp: hear_gone_def Let_def\<close>)
qed

lemma copy_poll_ok:
  assumes "copy_poll now g (c, ea, eb) = (r, c', ea', eb')" and "copy_ok l c ea eb"
  shows "(\<exists>l'. copy_ok l' c' ea' eb')
    \<and> (r = CopyWaits \<longrightarrow> asleep ea' \<or> asleep eb')
    \<and> (\<forall>q. r = CopyDone q \<longrightarrow> dir_done (way_ab c') \<and> dir_done (way_ba c')
          \<and> q = \<lparr>a_to_b = dir_out (way_ab c'), b_to_a = dir_out (way_ba c'), out_reaped = was_reaped c'\<rparr>)"
proof -
  obtain l' where h: "copy_ok l' (hear_gone now g c) ea eb" "way_ba (hear_gone now g c) = way_ba c"
    by (rule hear_gone_ok[OF assms(2)])
  let ?c = "hear_gone now g c"
  obtain x d e where ab: "dir_poll now (way_ab ?c) ea = (x, d, e)" by (cases "dir_poll now (way_ab ?c) ea")
  obtain y d2 e2 where ba: "dir_poll now (way_ba c) eb = (y, d2, e2)" by (cases "dir_poll now (way_ba c) eb")
  have ab': "dir_ok l' d e" "pipe_step\<^sup>*\<^sup>* pipe_empty (pipe_of l' d e)"
    using dir_steps_pipe[of now "way_ab ?c" ea d e l'] dir_poll_steps[OF ab] h unfolding copy_ok_def
    by (auto intro: rtranclp_trans)
  have ba': "dir_ok [] d2 e2" "pipe_step\<^sup>*\<^sup>* pipe_empty (pipe_of [] d2 e2)"
    using dir_steps_pipe[of now "way_ba c" eb d2 e2 "[]"] dir_poll_steps[OF ba] h unfolding copy_ok_def
    by (auto intro: rtranclp_trans)
  have one: "copy_ok l' (?c\<lparr>way_ab := d\<rparr>) e eb" using h ab' by (simp add: copy_ok_def)
  have two: "copy_ok l' (?c\<lparr>way_ab := d, way_ba := d2\<rparr>) e e2" using h ab' ba' by (simp add: copy_ok_def)
  show ?thesis
  proof (cases "\<exists>z. x = Failed z")
    case True
    then show ?thesis using assms(1) ab one by (auto simp: copy_poll_def Let_def)
  next
    case nx: False
    show ?thesis
    proof (cases "\<exists>z. y = Failed z")
      case True
      then show ?thesis using assms(1) ab ba nx two h(2) by (cases x) (auto simp: copy_poll_def Let_def)
    next
      case False
      have "(r, c', ea', eb') = (if x = Ready \<and> y = Ready
          then CopyDone \<lparr>a_to_b = dir_out d, b_to_a = dir_out d2, out_reaped = was_reaped ?c\<rparr> else CopyWaits,
          ?c\<lparr>way_ab := d, way_ba := d2\<rparr>, e, e2)"
        using assms(1) ab ba nx False h(2) by (cases x; cases y) (auto simp: copy_poll_def Let_def)
      then show ?thesis using two dir_poll_steps[OF ab] dir_poll_steps[OF ba] nx False
        by (cases x; cases y) auto
    qed
  qed
qed

end
