(* ===== verification/Hop_Facts.thy ===== *)
theory Hop_Facts
  imports Hop_Pipe
begin

text \<open>
  What the copier promises: it refines the pipe, what it reports is what it did, it never sleeps
  without a wake-up, it bills no wait twice, and it finishes when its sockets let it.
\<close>

section \<open>Refinement\<close>

definition copier :: "bool \<Rightarrow> copy_timed" where
  "copier u = (if u then copy_bidirectional_timed_until else copy_bidirectional_timed)"

lemma copier_ok: "copy_ok [] (copier u) io_start io_start"
  using copy_ok_new[of True] copy_ok_new[of False] by (simp add: copier_def copy_bidirectional_timed_def copy_bidirectional_timed_until_def)

lemma copy_run_ok:
  "copy_run c0 t0 t (r, c, ea, eb) \<Longrightarrow> copy_ok [] c0 io_start io_start \<Longrightarrow>
   (\<exists>l. copy_ok l c ea eb) \<and> (\<forall>q. r = CopyDone q \<longrightarrow> dir_done (way_ab c) \<and> dir_done (way_ba c)
      \<and> q = \<lparr>a_to_b = dir_out (way_ab c), b_to_a = dir_out (way_ba c), out_reaped = was_reaped c\<rparr>)"
proof (induction t "(r, c, ea, eb)" arbitrary: r c ea eb rule: copy_run.induct)
  case begun
  then show ?case by blast
next
  case (woken t c1 ea1 eb1 now g na nb)
  obtain l where "copy_ok l c1 ea1 eb1" using woken.hyps(2) woken.prems by blast
  from copy_poll_ok[OF woken.hyps(4) copy_ok_feed[OF this]] show ?case by blast
qed


text \<open>One poll: three bytes come in, two go out, the writer then makes the copier wait.\<close>

definition demo_poll :: "copy_result \<times> copy_timed \<times> io_env \<times> io_env" where
  "demo_poll = copy_poll 5000 False (copier True,
     feed (io_start\<lparr>rds := [ReadSome [1, 2, 3]], wrs := [WriteSome 2, WriteWait]\<rparr>) io_start, feed io_start io_start)"

lemma demo_poll_run: "copy_run (copier True) 0 5000 demo_poll"
  unfolding demo_poll_def by (rule copy_run.woken[OF copy_run.begun]) simp

lemma demo_poll_state:
  "(case demo_poll of (r, c, ea, eb) \<Rightarrow> r = CopyWaits \<and> dst ea = [1, 2] \<and> buffered (way_ab c) = [3]
      \<and> gone_wait c \<and> asleep ea)"
  by code_simp


text \<open>
  C12: A finished copy has delivered everything it says. When the copier reports success, both
  writers were shut down, everything read from the tunnel was written to the local socket,
  everything read locally was written to the tunnel but for a tail of the reported length, which is
  empty unless the stream was reaped, and the reported byte counts are those written.
\<close>

theorem copy_done_delivered:
  assumes "copy_run (copier u) t0 t (CopyDone q, c, ea, eb)"
  shows "dst_shut ea \<and> dst_shut eb \<and> dst eb = src eb
    \<and> (\<exists>l. src ea = dst ea @ l \<and> length l = outcome_dropped q \<and> (l \<noteq> [] \<longrightarrow> out_reaped q))
    \<and> dc_bytes (a_to_b q) = length (dst ea) \<and> dc_bytes (b_to_a q) = length (dst eb)"
proof -
  from copy_run_ok[OF assms copier_ok] obtain l where
    l: "copy_ok l c ea eb" "dir_done (way_ab c)" "dir_done (way_ba c)"
    and q: "q = \<lparr>a_to_b = dir_out (way_ab c), b_to_a = dir_out (way_ba c), out_reaped = was_reaped c\<rparr>" by blast
  have i: "pipe_inv (pipe_of l (way_ab c) ea)" "pipe_inv (pipe_of [] (way_ba c) eb)"
    using l(1) pipe_inv_steps pipe_inv_empty unfolding copy_ok_def by blast+
  have s: "dst_shut ea" "dst_shut eb" using l by (auto simp: copy_ok_def dir_ok_def)
  then have "src ea = dst ea @ l" "src eb = dst eb" using i by (auto simp: pipe_inv_def pipe_of_def)
  then show ?thesis using s l(1) by (auto simp: q copy_ok_def dir_ok_def outcome_dropped_def)
qed

text \<open>The stream goes while two bytes wait for the tunnel; the other way then drains.\<close>

definition demo_reaped :: "copy_result \<times> copy_timed \<times> io_env \<times> io_env" where
  "demo_reaped = (case demo_poll of (r, c, ea, eb) \<Rightarrow> copy_poll 9000 True (c,
     feed (io_start\<lparr>fls := [DoneOk], shs := [DoneOk]\<rparr>) ea,
     feed (io_start\<lparr>rds := [ReadSome [7], ReadSome []], wrs := [WriteSome 1], fls := [DoneOk], shs := [DoneOk]\<rparr>) eb))"

lemma demo_reaped_run: "copy_run (copier True) 0 9000 demo_reaped"
proof -
  obtain r c ea eb where d: "demo_poll = (r, c, ea, eb)" by (cases demo_poll)
  have "r = CopyWaits" using demo_poll_state by (simp add: d)
  from copy_run.woken[OF demo_poll_run[unfolded d this], of 9000] show ?thesis by (simp add: demo_reaped_def d)
qed

lemma demo_reaped_state:
  "(case demo_reaped of (r, c, ea, eb) \<Rightarrow>
      (case r of CopyDone q \<Rightarrow> out_reaped q \<and> outcome_dropped q = 1 \<and> dc_bytes (a_to_b q) = 2 | _ \<Rightarrow> False)
      \<and> src ea = [1, 2, 3] \<and> dst eb = [7])"
  by code_simp

theorem copy_done_delivered_witness:
  "case demo_reaped of (r, c, ea, eb) \<Rightarrow> dst_shut ea \<and> dst_shut eb \<and> dst eb = [7] \<and> src eb = [7]
     \<and> (\<exists>l. [1, 2, 3] = dst ea @ l \<and> length l = 1)"
proof -
  obtain r c ea eb where d: "demo_reaped = (r, c, ea, eb)" by (cases demo_reaped)
  obtain q where q: "r = CopyDone q" using demo_reaped_state by (cases r) (auto simp: d)
  from copy_done_delivered[OF demo_reaped_run[unfolded d q]] demo_reaped_state show ?thesis
    by (auto simp: d q)
qed

section \<open>Waiting\<close>

text \<open>
  C26: The copier never sleeps without a wake-up. When a poll of a running copy ends in waiting, some
  call it made on a socket was told to wait during that same poll, so the task is woken.
\<close>

theorem copy_sleeps_woken:
  assumes "copy_run (copier u) t0 t (CopyWaits, c, ea, eb)"
    and "copy_poll now g (c, feed na ea, feed nb eb) = (CopyWaits, c', ea', eb')"
  shows "asleep ea' \<or> asleep eb'"
proof -
  from copy_run_ok[OF assms(1) copier_ok] obtain l where "copy_ok l c ea eb" by blast
  from copy_poll_ok[OF assms(2) copy_ok_feed[OF this]] show ?thesis by blast
qed

theorem copy_sleeps_woken_witness:
  "case demo_poll of (r, c, ea, eb) \<Rightarrow> asleep ea \<or> asleep eb"
proof -
  obtain r c ea eb where d: "demo_poll = (r, c, ea, eb)" by (cases demo_poll)
  have "r = CopyWaits" using demo_poll_state by (simp add: d)
  from copy_sleeps_woken[OF copy_run.begun, OF d[unfolded demo_poll_def this]] show ?thesis by (simp add: d)
qed

text \<open>The waits billed so far, in nanoseconds, with the one under way.\<close>

definition billed :: "instant \<Rightarrow> instant \<Rightarrow> dir_state \<Rightarrow> bool" where
  "billed t0 now d \<longleftrightarrow> t0 \<le> now
     \<and> 1000 * (read_wait_us (dir_out d) + write_wait_us (dir_out d))
         + (case dir_wait d of None \<Rightarrow> 0 | Some (t, on) \<Rightarrow> now - t) \<le> now - t0
     \<and> (\<forall>t on. dir_wait d = Some (t, on) \<longrightarrow> t \<le> now)"

lemma billed_later: "billed t0 now d \<Longrightarrow> now \<le> now' \<Longrightarrow> billed t0 now' d"
  by (auto simp: billed_def split: option.splits)

lemma billed_starts: "billed t0 now d \<Longrightarrow> billed t0 now (wait_starts now on d)"
  by (auto simp: billed_def wait_starts_def split: option.splits)

lemma billed_ends: "billed t0 now d \<Longrightarrow> billed t0 now (wait_ends now d)"
proof (cases "dir_wait d")
  case (Some ton)
  obtain t on where ton: "ton = (t, on)" by (cases ton)
  have "1000 * as_micros (now - t) \<le> now - t" by (simp add: as_micros_def)
  moreover assume "billed t0 now d"
  ultimately show ?thesis
    by (cases on) (auto simp: billed_def wait_ends_def Some ton Let_def algebra_simps)
qed (simp add: wait_ends_def)

lemma billed_step: "dir_step now (d, e) (d', e') \<Longrightarrow> billed t0 now d \<Longrightarrow> billed t0 now d'"
proof (erule dir_step.cases, goal_cases)
  case (2 d1 e1 on)
  then show ?case using billed_starts by auto
qed (use billed_ends[of t0 now d] in \<open>auto simp: billed_def wrote_def Let_def\<close>)

lemma billed_steps: "(dir_step now)\<^sup>*\<^sup>* x y \<Longrightarrow> billed t0 now (fst x) \<Longrightarrow> billed t0 now (fst y)"
  by (induction rule: rtranclp_induct) (auto dest: billed_step)

lemma billed_poll: "dir_poll now d e = (r, d', e') \<Longrightarrow> billed t0 now d \<Longrightarrow> billed t0 now d'"
  using dir_poll_steps billed_steps[of now "(d, e)" "(d', e')"] by simp

lemma billed_gone:
  "billed t0 now (way_ab c) \<Longrightarrow> billed t0 now (way_ab (hear_gone now g c))"
  using billed_ends[of t0 now "way_ab c"] by (auto simp: hear_gone_def Let_def end_way_def billed_def)

lemma billed_run:
  "copy_run c0 t0 t (r, c, ea, eb) \<Longrightarrow> billed t0 t0 (way_ab c0) \<Longrightarrow> billed t0 t0 (way_ba c0) \<Longrightarrow>
   billed t0 t (way_ab c) \<and> billed t0 t (way_ba c)"
proof (induction t "(r, c, ea, eb)" arbitrary: r c ea eb rule: copy_run.induct)
  case (woken t c1 ea1 eb1 now g na nb)
  let ?c = "hear_gone now g c1"
  from woken have b: "billed t0 now (way_ab c1)" "billed t0 now (way_ba c1)" by (blast intro: billed_later)+
  have h: "billed t0 now (way_ab ?c)" "way_ba ?c = way_ba c1"
    using billed_gone[OF b(1)] by (simp_all add: hear_gone_def Let_def)
  obtain x d e where ab: "dir_poll now (way_ab ?c) (feed na ea1) = (x, d, e)"
    by (cases "dir_poll now (way_ab ?c) (feed na ea1)")
  obtain y d2 e2 where ba: "dir_poll now (way_ba c1) (feed nb eb1) = (y, d2, e2)"
    by (cases "dir_poll now (way_ba c1) (feed nb eb1)")
  have "billed t0 now d" "billed t0 now d2" using billed_poll[OF ab h(1)] billed_poll[OF ba b(2)] .
  then show ?case using woken.hyps(4) ab ba h(2) b(2)
    by (cases x; cases y) (auto simp: copy_poll_def Let_def)
qed simp

text \<open>
  No wait is billed twice. Read waits and write waits of one direction never add up to more than
  the time since the copy began, as each interval of waiting is billed to one side only.
\<close>

lemma copy_waits_billed_once:
  assumes "copy_run (copier u) t0 t (r, c, ea, eb)"
  shows "1000 * (read_wait_us (dir_out (way_ab c)) + write_wait_us (dir_out (way_ab c))) \<le> t - t0
    \<and> 1000 * (read_wait_us (dir_out (way_ba c)) + write_wait_us (dir_out (way_ba c))) \<le> t - t0"
proof -
  have "billed t0 t0 (way_ab (copier u))" "billed t0 t0 (way_ba (copier u))"
    by (simp_all add: billed_def copier_def copy_bidirectional_timed_def copy_bidirectional_timed_until_def dir_new_def)
  from billed_run[OF assms this] show ?thesis by (auto simp: billed_def)
qed

section \<open>Finishing\<close>

text \<open>
  Sockets that let a direction finish in one poll: the reader hands over non-empty pieces and then
  its end, the writer takes something every time, and flush and shutdown succeed.
\<close>

definition willing :: "dir_state \<Rightarrow> io_env \<Rightarrow> bool" where
  "willing d e \<longleftrightarrow>
     (\<exists>ds ns. (\<forall>bs\<in>set ds. bs \<noteq> []) \<and> (\<forall>n\<in>set ns. 0 < n)
        \<and> rds e = map ReadSome ds @ [ReadSome []] \<and> wrs e = map WriteSome ns
        \<and> length (buffered d) + length (concat ds) \<le> length ns)
     \<and> (\<exists>fs. fls e = DoneOk # fs) \<and> (\<exists>ss. shs e = DoneOk # ss)"

text \<open>The write loop empties the buffer, using at most one answer a byte.\<close>

lemma write_part_all:
  "\<forall>n\<in>set ns. 0 < n \<Longrightarrow> wrs e = map WriteSome ns \<Longrightarrow> length (buffered d) \<le> length ns \<Longrightarrow>
   \<exists>d' e' ms. write_part now d e = (None, d', e') \<and> wrs e' = map WriteSome ms
     \<and> set ms \<subseteq> set ns \<and> length ns \<le> length ms + length (buffered d)
     \<and> rds e' = rds e \<and> fls e' = fls e \<and> shs e' = shs e
     \<and> buffered d' = [] \<and> read_done d' = read_done d \<and> shutting_down d' = shutting_down d \<and> dir_done d' = dir_done d"
proof (induction ns arbitrary: d e)
  case Nil
  then have "write_part now d e = (None, d, e)" by (simp add: write_part.simps[of now d e])
  with Nil show ?case by (intro exI[of _ d] exI[of _ e] exI[of _ "[]"]) simp
next
  case (Cons n ns)
  show ?case
  proof (cases "buffered d = []")
    case True
    then have "write_part now d e = (None, d, e)" by (simp add: write_part.simps[of now d e])
    with Cons.prems True show ?thesis by (intro exI[of _ d] exI[of _ e] exI[of _ "n # ns"]) simp
  next
    case False
    let ?m = "min n (length (buffered d))"
    let ?e = "e\<lparr>wrs := map WriteSome ns, dst := dst e @ take n (buffered d)\<rparr>" and ?d = "wrote now ?m d"
    have m: "0 < ?m" using Cons.prems(1) False by simp
    then have m0: "(?m = 0) = False" by (rule neq0_conv[THEN iffD2, THEN Eq_FalseI, THEN meta_eq_to_obj_eq])
    have w: "write_part now d e = write_part now ?d ?e"
      using False Cons.prems(2) by (simp add: write_part.simps[of now d e] poll_write_def m0)
    have "length (buffered ?d) \<le> length ns" using Cons.prems(1,3) False by (cases "buffered d") auto
    then obtain d' e' ms where r: "write_part now ?d ?e = (None, d', e')" "wrs e' = map WriteSome ms"
      "set ms \<subseteq> set ns" "length ns \<le> length ms + length (buffered ?d)"
      "rds e' = rds ?e" "fls e' = fls ?e" "shs e' = shs ?e"
      "buffered d' = []" "read_done d' = read_done ?d" "shutting_down d' = shutting_down ?d" "dir_done d' = dir_done ?d"
      using Cons.IH[of ?e ?d] Cons.prems(1) by auto
    have "length ns \<le> length ms + (length (buffered d) - ?m)" using r(4) by simp
    then have "length (n # ns) \<le> length ms + length (buffered d)" using m by (simp only: length_Cons)
    with r show ?thesis unfolding w
      by (intro exI[of _ d'] exI[of _ e'] exI[of _ ms]) auto
  qed
qed

lemma shut_finishes:
  assumes "shs e = DoneOk # ss" and "dir_done d \<or> shutting_down d"
  shows "\<exists>d' e'. dir_poll now d e = (Ready, d', e')"
  using assms by (auto simp: dir_poll.simps[of now d e] dir_poll.simps[of now "d\<lparr>dir_done := True\<rparr>"] poll_shutdown_def)

text \<open>With its source at the end, a direction writes, flushes and shuts down.\<close>

lemma flush_finishes:
  assumes "\<forall>n\<in>set ns. 0 < n" "wrs e = map WriteSome ns" "length (buffered d) \<le> length ns"
    and "fls e = DoneOk # fs" "shs e = DoneOk # ss" and "read_done d" "\<not> shutting_down d" "\<not> dir_done d"
  shows "\<exists>d' e'. dir_poll now d e = (Ready, d', e')"
proof -
  from write_part_all[OF assms(1-3)] obtain d1 e1 where
    w: "write_part now d e = (None, d1, e1)" "fls e1 = fls e" "shs e1 = shs e" "read_done d1 = read_done d" by blast
  have "dir_poll now d e = dir_poll now (d1\<lparr>need_flush := False, shutting_down := True\<rparr>) (e1\<lparr>fls := fs\<rparr>)"
    using assms w by (simp add: dir_poll.simps[of now d e] poll_flush_def)
  then show ?thesis using shut_finishes[of "e1\<lparr>fls := fs\<rparr>" ss] w(3) assms(5) by simp
qed

lemma read_finishes:
  assumes "\<forall>bs\<in>set ds. bs \<noteq> []" "\<forall>n\<in>set ns. 0 < n"
    and "rds e = map ReadSome ds @ [ReadSome []]" "wrs e = map WriteSome ns"
    and "length (buffered d) + length (concat ds) \<le> length ns"
    and "fls e = DoneOk # fs" "shs e = DoneOk # ss"
    and "\<not> read_done d" "\<not> shutting_down d" "\<not> dir_done d" "buffered d = []"
  shows "\<exists>d' e'. dir_poll now d e = (Ready, d', e')"
  using assms
proof (induction ds arbitrary: d e ns)
  case Nil
  let ?d = "(wait_ends now d)\<lparr>read_done := True\<rparr>" and ?e = "e\<lparr>rds := []\<rparr>"
  have "dir_poll now d e = dir_poll now ?d ?e"
    using Nil.prems by (simp add: dir_poll.simps[of now d e] dir_poll.simps[of now ?d ?e] read_part_def poll_read_def Let_def)
  then show ?case using flush_finishes[of ns ?e ?d] Nil.prems by simp
next
  case (Cons bs ds)
  let ?b = "take COPY_BUF bs"
  let ?d = "(wait_ends now d)\<lparr>buffered := ?b\<rparr>" and ?e = "e\<lparr>rds := map ReadSome ds @ [ReadSome []], src := src e @ ?b\<rparr>"
  have b: "?b \<noteq> []" using Cons.prems(1) by (simp add: COPY_BUF_def)
  have "length (buffered ?d) \<le> length ns" using Cons.prems(5) by simp
  from write_part_all[of ns ?e ?d now, OF Cons.prems(2) _ this] Cons.prems(4) obtain d1 e1 ms where
    w: "write_part now ?d ?e = (None, d1, e1)" "wrs e1 = map WriteSome ms" "set ms \<subseteq> set ns"
      "length ns \<le> length ms + length (buffered ?d)"
      "rds e1 = rds ?e" "fls e1 = fls ?e" "shs e1 = shs ?e" "buffered d1 = []" "read_done d1 = read_done ?d"
      "shutting_down d1 = shutting_down ?d" "dir_done d1 = dir_done ?d" by auto
  have step: "dir_poll now d e = dir_poll now d1 e1"
    using Cons.prems(3,8-11) b w(1,9) by (simp add: dir_poll.simps[of now d e] read_part_def poll_read_def Let_def)
  have "length (concat ds) \<le> length ms" using w(4) Cons.prems(5) by simp
  then show ?case unfolding step
    using Cons.IH[of ms e1 d1] w Cons.prems by auto
qed

lemma dir_finishes:
  assumes "willing d e"
  shows "\<exists>d' e'. dir_poll now d e = (Ready, d', e')"
proof -
  from assms obtain ds ns fs ss where
    w: "\<forall>bs\<in>set ds. bs \<noteq> []" "\<forall>n\<in>set ns. 0 < n" "rds e = map ReadSome ds @ [ReadSome []]" "wrs e = map WriteSome ns"
      "length (buffered d) + length (concat ds) \<le> length ns" "fls e = DoneOk # fs" "shs e = DoneOk # ss"
    unfolding willing_def by blast
  show ?thesis
  proof (cases "dir_done d \<or> shutting_down d")
    case True
    then show ?thesis using shut_finishes w(7) by blast
  next
    case c: False
    show ?thesis
    proof (cases "read_done d")
      case True
      then show ?thesis using flush_finishes[OF w(2,4) _ w(6,7)] w(5) c by simp
    next
      case nr: False
      show ?thesis
      proof (cases "buffered d = []")
        case True
        then show ?thesis using read_finishes[OF w] c nr by blast
      next
        case False
        from write_part_all[OF w(2,4), of d now] w(5) obtain d1 e1 ms where
          p: "write_part now d e = (None, d1, e1)" "wrs e1 = map WriteSome ms" "set ms \<subseteq> set ns"
            "length ns \<le> length ms + length (buffered d)" "rds e1 = rds e" "fls e1 = fls e" "shs e1 = shs e"
            "buffered d1 = []" "read_done d1 = read_done d" "shutting_down d1 = shutting_down d" "dir_done d1 = dir_done d"
          by auto
        have "dir_poll now d e = dir_poll now d1 e1"
          using False c nr p(1,9) by (simp add: dir_poll.simps[of now d e])
        moreover have "\<exists>d' e'. dir_poll now d1 e1 = (Ready, d', e')"
          by (rule read_finishes[of ds ms]) (use p w c nr in auto)
        ultimately show ?thesis by simp
      qed
    qed
  qed
qed



end
