(* ===== verification/Hop_Dial.thy ===== *)
theory Hop_Dial
  imports Wire_Frame Tuning "HOL-Library.AList"
begin

text \<open>
  The dialling of an origin in \<open>nya-core/src/hop.rs\<close>: the order of addresses, the cache of addresses
  that connected, and the race of connection attempts over two lookups. A race is a state changed by
  the branches of its \<open>select!\<close>; lookups, connection attempts and the clock are the environment.
\<close>

section \<open>Addresses\<close>

text \<open>An IP address as its number, with the port.\<close>

datatype sock_addr = SockV4 nat nat | SockV6 nat nat

datatype origin_family = V4 | V6

fun is_ipv4 :: "sock_addr \<Rightarrow> bool" where
  "is_ipv4 (SockV4 _ _) = True"
| "is_ipv4 (SockV6 _ _) = False"

fun zip_families :: "'a list \<Rightarrow> 'a list \<Rightarrow> 'a list" where
  "zip_families [] ts = ts"
| "zip_families (h # hs) [] = h # hs"
| "zip_families (h # hs) (t # ts) = h # t # zip_families hs ts"

text \<open>The loop over the indices of the longer list takes what either list has at each.\<close>

definition interleave_families :: "sock_addr list \<Rightarrow> sock_addr list" where
  "interleave_families addrs =
     (case addrs of
        [] \<Rightarrow> []
      | a # _ \<Rightarrow>
          let v6 = filter (\<lambda>x. \<not> is_ipv4 x) addrs; v4 = filter is_ipv4 addrs in
          if is_ipv4 a then zip_families v4 v6 else zip_families v6 v4)"

section \<open>The cache of addresses that connected\<close>

record cached_origin =
  co_v4 :: "nat list"
  co_v6 :: "nat list"

definition ORIGIN_CACHE_HOSTS :: nat where "ORIGIN_CACHE_HOSTS = 4096"
definition ORIGIN_CACHE_PER_FAMILY :: nat where "ORIGIN_CACHE_PER_FAMILY = 8"

type_synonym origin_cache = "((bytes \<times> nat) \<times> cached_origin) list"

definition lower_byte :: "byte \<Rightarrow> byte" where
  "lower_byte b = (if 65 \<le> b \<and> b \<le> 90 then b + 32 else b)"

definition cache_key :: "bytes \<Rightarrow> nat \<Rightarrow> bytes \<times> nat" where
  "cache_key hst prt = (map lower_byte hst, prt)"

definition cached_origin_addrs :: "origin_cache \<Rightarrow> bytes \<Rightarrow> nat \<Rightarrow> sock_addr list \<times> sock_addr list" where
  "cached_origin_addrs g hst prt =
     (case map_of g (cache_key hst prt) of
        Some c \<Rightarrow> (map (\<lambda>i. SockV4 i prt) (co_v4 c), map (\<lambda>i. SockV6 i prt) (co_v6 c))
      | None \<Rightarrow> ([], []))"

definition push_addr :: "nat \<Rightarrow> nat list \<Rightarrow> nat list" where
  "push_addr i slot =
     (if i \<in> set slot then slot
      else let s1 = slot @ [i] in if ORIGIN_CACHE_PER_FAMILY < length s1 then tl s1 else s1)"

definition remember_origin_addr :: "bytes \<Rightarrow> nat \<Rightarrow> sock_addr \<Rightarrow> origin_cache \<Rightarrow> origin_cache" where
  "remember_origin_addr hst prt a g =
     (let key = cache_key hst prt;
          g1 = (if ORIGIN_CACHE_HOSTS \<le> length g \<and> key \<notin> fst ` set g then [] else g);
          e1 = (case map_of g1 key of Some c \<Rightarrow> c | None \<Rightarrow> \<lparr>co_v4 = [], co_v6 = []\<rparr>) in
      AList.update key
        (case a of
           SockV4 i _ \<Rightarrow> e1\<lparr>co_v4 := push_addr i (co_v4 e1)\<rparr>
         | SockV6 i _ \<Rightarrow> e1\<lparr>co_v6 := push_addr i (co_v6 e1)\<rparr>) g1)"

text \<open>\<open>origin_lookup_name\<close>: a trailing dot makes the name absolute.\<close>

definition origin_lookup_name :: "bytes \<Rightarrow> bytes" where
  "origin_lookup_name hst = (if hst \<noteq> [] \<and> last hst = 46 then hst else hst @ [46])"

text \<open>
  What \<open>lookup_family\<close> makes of the resolver's answer: the kinds of failure that mean the family is
  empty, and the addresses of the family asked for.
\<close>

datatype lookup_failure = NoName | NoData | FamilyErr | Again | Socktype | OtherFailure nat

datatype dial_error = NoAddresses | LookupFailed nat | ConnectFailed nat

definition is_family_empty :: "lookup_failure \<Rightarrow> bool" where
  "is_family_empty e = (case e of OtherFailure _ \<Rightarrow> False | _ \<Rightarrow> True)"

definition lookup_family :: "origin_family \<Rightarrow> lookup_failure + sock_addr list \<Rightarrow> dial_error + sock_addr list" where
  "lookup_family f r =
     (case r of
        Inr addrs \<Rightarrow> Inr (filter (\<lambda>a. is_ipv4 a = (f = V4)) addrs)
      | Inl e \<Rightarrow> if is_family_empty e then Inr []
                 else Inl (LookupFailed (case e of OtherFailure n \<Rightarrow> n | _ \<Rightarrow> 0)))"

section \<open>The race\<close>

text \<open>\<open>begun\<close> lists the addresses tried, in order; \<open>flying\<close> is the join set.\<close>

record dial_race =
  v4_pending :: bool
  v6_pending :: bool
  q4 :: "sock_addr list"
  q6 :: "sock_addr list"
  dial_err :: "dial_error option"
  last_start :: "instant option"
  last_family :: "origin_family option"
  preferred :: "origin_family option"
  begun :: "sock_addr list"
  flying :: "(origin_family \<times> sock_addr) list"
  n_v4 :: "nat option"
  n_v6 :: "nat option"

definition dial_new :: "sock_addr list \<Rightarrow> sock_addr list \<Rightarrow> dial_race" where
  "dial_new seed4 seed6 = \<lparr>v4_pending = True, v6_pending = True, q4 = seed4, q6 = seed6, dial_err = None,
     last_start = None, last_family = None, preferred = None, begun = [], flying = [], n_v4 = None, n_v6 = None\<rparr>"

text \<open>The flag \<open>started_any\<close> is set by every start.\<close>

definition started_any :: "dial_race \<Rightarrow> bool" where
  "started_any d \<longleftrightarrow> begun d \<noteq> []"

definition queue_of :: "origin_family \<Rightarrow> dial_race \<Rightarrow> sock_addr list" where
  "queue_of f d = (case f of V4 \<Rightarrow> q4 d | V6 \<Rightarrow> q6 d)"

definition set_queue :: "origin_family \<Rightarrow> sock_addr list \<Rightarrow> dial_race \<Rightarrow> dial_race" where
  "set_queue f q d = (case f of V4 \<Rightarrow> d\<lparr>q4 := q\<rparr> | V6 \<Rightarrow> d\<lparr>q6 := q\<rparr>)"

definition pop_family :: "origin_family \<Rightarrow> dial_race \<Rightarrow> (origin_family \<times> sock_addr) option \<times> dial_race" where
  "pop_family f d =
     (case queue_of f d of [] \<Rightarrow> (None, d) | a # q \<Rightarrow> (Some (f, a), set_queue f q d))"

definition pick_preferred :: "dial_race \<Rightarrow> (origin_family \<times> sock_addr) option \<times> dial_race" where
  "pick_preferred d =
     (case preferred d of
        None \<Rightarrow> (None, d)
      | Some f \<Rightarrow>
          (case pop_family f d of
             (None, d1) \<Rightarrow> (None, d1\<lparr>preferred := None\<rparr>)
           | (got, d1) \<Rightarrow> (got, if queue_of f d1 = [] then d1\<lparr>preferred := None\<rparr> else d1)))"

definition pick_alternate :: "dial_race \<Rightarrow> (origin_family \<times> sock_addr) option \<times> dial_race" where
  "pick_alternate d =
     (if last_family d = Some V4 \<and> q6 d \<noteq> [] then pop_family V6 d
      else if last_family d = Some V6 \<and> q4 d \<noteq> [] then pop_family V4 d
      else if q4 d \<noteq> [] then pop_family V4 d
      else if q6 d \<noteq> [] then pop_family V6 d
      else (None, d))"

definition pick_addr :: "dial_race \<Rightarrow> (origin_family \<times> sock_addr) option \<times> dial_race" where
  "pick_addr d = (case pick_preferred d of (None, d1) \<Rightarrow> pick_alternate d1 | x \<Rightarrow> x)"

lemma pick_addr_shrinks:
  "pick_addr d = (Some fa, d1) \<Longrightarrow> length (q4 d1) + length (q6 d1) < length (q4 d) + length (q6 d)"
  by (auto simp: pick_addr_def pick_preferred_def pick_alternate_def pop_family_def queue_of_def set_queue_def
      split: option.splits prod.splits list.splits origin_family.splits if_splits)

text \<open>Addresses that were tried already are skipped.\<close>

function start_one :: "instant \<Rightarrow> dial_race \<Rightarrow> bool \<times> dial_race" where
  "start_one now d =
     (case pick_addr d of
        (None, d1) \<Rightarrow> (False, d1)
      | (Some (f, a), d1) \<Rightarrow>
          if a \<in> set (begun d1) then start_one now d1
          else (True, d1\<lparr>begun := begun d1 @ [a], flying := flying d1 @ [(f, a)],
                        last_start := Some now, last_family := Some f\<rparr>))"
  by pat_completeness auto
termination
  by (relation "measure (\<lambda>(now, d). length (q4 d) + length (q6 d))") (auto dest!: pick_addr_shrinks[OF sym])

declare start_one.simps [simp del]

datatype dial_result = Dialled origin_family sock_addr | NotDialled dial_error

text \<open>The head of the loop: with nothing in flight an attempt is started, or the race is lost.\<close>

definition dial_head :: "instant \<Rightarrow> dial_race \<Rightarrow> dial_result option \<times> dial_race" where
  "dial_head now d =
     (if flying d \<noteq> [] then (None, d)
      else case start_one now d of (ok, d1) \<Rightarrow>
        if \<not> ok \<and> \<not> v4_pending d1 \<and> \<not> v6_pending d1
        then (Some (NotDialled (case dial_err d1 of Some e \<Rightarrow> e | None \<Rightarrow> NoAddresses)), d1)
        else (None, d1))"

definition dial_more :: "dial_race \<Rightarrow> bool" where
  "dial_more d \<longleftrightarrow> q4 d \<noteq> [] \<or> q6 d \<noteq> []"

definition cad_wait :: "duration \<Rightarrow> instant \<Rightarrow> dial_race \<Rightarrow> duration" where
  "cad_wait cad now d =
     (if dial_more d then (case last_start d of Some t \<Rightarrow> cad - (now - t) | None \<Rightarrow> 0) else cad)"

text \<open>A lookup of one family ends.\<close>

definition no_longer_pending :: "origin_family \<Rightarrow> dial_race \<Rightarrow> dial_race" where
  "no_longer_pending f d = (case f of V4 \<Rightarrow> d\<lparr>v4_pending := False\<rparr> | V6 \<Rightarrow> d\<lparr>v6_pending := False\<rparr>)"

definition note_count :: "origin_family \<Rightarrow> nat \<Rightarrow> dial_race \<Rightarrow> dial_race" where
  "note_count f n d = (case f of V4 \<Rightarrow> d\<lparr>n_v4 := Some n\<rparr> | V6 \<Rightarrow> d\<lparr>n_v6 := Some n\<rparr>)"

definition lookup_ends ::
  "origin_family \<Rightarrow> dial_error + sock_addr list \<Rightarrow> instant \<Rightarrow> dial_race \<Rightarrow> dial_race" where
  "lookup_ends f r now d =
     (let d0 = no_longer_pending f d in
      case r of
        Inl e \<Rightarrow> (note_count f 0 d0)\<lparr>dial_err := Some e\<rparr>
      | Inr addrs \<Rightarrow>
          let d1 = note_count f (length addrs) d0;
              d2 = (if started_any d1 \<and> last_family d1 \<noteq> Some f \<and> addrs \<noteq> [] then d1\<lparr>preferred := Some f\<rparr> else d1);
              d3 = set_queue f (queue_of f d2 @ addrs) d2 in
          if \<not> started_any d3 \<or> preferred d3 = Some f then snd (start_one now d3) else d3)"

text \<open>An attempt ends: connected, failed, or its task panicked.\<close>

datatype attempt_end = Connected | Broke dial_error | Panicked

definition attempt_ends ::
  "origin_family \<times> sock_addr \<Rightarrow> attempt_end \<Rightarrow> instant \<Rightarrow> dial_race \<Rightarrow> dial_result option \<times> dial_race" where
  "attempt_ends fa r now d =
     (let d1 = d\<lparr>flying := remove1 fa (flying d)\<rparr> in
      case r of
        Connected \<Rightarrow> (Some (Dialled (fst fa) (snd fa)), d1\<lparr>flying := []\<rparr>)
      | Broke e \<Rightarrow> (None, snd (start_one now (d1\<lparr>dial_err := Some e\<rparr>)))
      | Panicked \<Rightarrow> (None, d1))"

text \<open>The branches of the \<open>select!\<close>, with their guards, each followed by the head of the loop.\<close>

datatype dial_event =
  LookupEnds origin_family "dial_error + sock_addr list"
| AttemptEnds "origin_family \<times> sock_addr" attempt_end
| SpacingOver

definition enabled :: "duration \<Rightarrow> dial_event \<Rightarrow> instant \<Rightarrow> dial_race \<Rightarrow> bool" where
  "enabled cad ev now d =
     (case ev of
        LookupEnds V4 r \<Rightarrow> v4_pending d
      | LookupEnds V6 r \<Rightarrow> v6_pending d
      | AttemptEnds a r \<Rightarrow> a \<in> set (flying d)
      | SpacingOver \<Rightarrow> dial_more d \<and> cad_wait cad now d = 0)"

definition dial_branch :: "dial_event \<Rightarrow> instant \<Rightarrow> dial_race \<Rightarrow> dial_result option \<times> dial_race" where
  "dial_branch ev now d =
     (case ev of
        LookupEnds f r \<Rightarrow> (None, lookup_ends f r now d)
      | AttemptEnds a r \<Rightarrow> attempt_ends a r now d
      | SpacingOver \<Rightarrow> (None, snd (start_one now d)))"

definition dial_turn :: "dial_event \<Rightarrow> instant \<Rightarrow> dial_race \<Rightarrow> dial_result option \<times> dial_race" where
  "dial_turn ev now d =
     (case dial_branch ev now d of
        (Some r, d1) \<Rightarrow> (Some r, d1)
      | (None, d1) \<Rightarrow> dial_head now d1)"

text \<open>
  A race over the two lookups, from its seeds: the addresses looked up so far are the last component.
\<close>

definition looked_up :: "dial_event \<Rightarrow> sock_addr list" where
  "looked_up ev = (case ev of LookupEnds f (Inr addrs) \<Rightarrow> addrs | _ \<Rightarrow> [])"

inductive dial_run ::
  "duration \<Rightarrow> sock_addr list \<Rightarrow> sock_addr list \<Rightarrow> dial_result option \<times> dial_race \<Rightarrow> sock_addr list \<Rightarrow> bool"
  for cad s4 s6 where
  begin_race: "dial_run cad s4 s6 (dial_head now (dial_new s4 s6)) []"
| turn: "dial_run cad s4 s6 (None, d) as \<Longrightarrow> enabled cad ev now d
    \<Longrightarrow> dial_run cad s4 s6 (dial_turn ev now d) (as @ looked_up ev)"

section \<open>The race over a given list\<close>

text \<open>\<open>race_origin_connects\<close>: attempts are known by their index, each future is taken once.\<close>

record connect_race =
  cr_n :: nat
  cr_next :: nat
  cr_flying :: "nat list"
  cr_err :: "dial_error option"

definition connect_one :: "connect_race \<Rightarrow> connect_race" where
  "connect_one c =
     (if cr_next c < cr_n c then c\<lparr>cr_next := cr_next c + 1, cr_flying := cr_flying c @ [cr_next c]\<rparr> else c)"

definition connect_head :: "connect_race \<Rightarrow> dial_error option \<times> connect_race" where
  "connect_head c =
     (if cr_flying c \<noteq> [] then (None, c)
      else if cr_next c < cr_n c then (None, connect_one c)
      else (Some (case cr_err c of Some e \<Rightarrow> e | None \<Rightarrow> NoAddresses), c))"

definition connect_start :: "nat \<Rightarrow> dial_error option \<times> connect_race" where
  "connect_start n =
     (let c = \<lparr>cr_n = n, cr_next = 0, cr_flying = [], cr_err = None\<rparr> in
      if n = 0 then (Some NoAddresses, c) else connect_head (connect_one c))"

text \<open>One turn: an attempt breaks, its task panics, or the spacing is over. A success ends the race.\<close>

definition connect_breaks :: "nat \<Rightarrow> dial_error \<Rightarrow> connect_race \<Rightarrow> dial_error option \<times> connect_race" where
  "connect_breaks i e c = connect_head (connect_one (c\<lparr>cr_flying := remove1 i (cr_flying c), cr_err := Some e\<rparr>))"

definition connect_panics :: "nat \<Rightarrow> connect_race \<Rightarrow> dial_error option \<times> connect_race" where
  "connect_panics i c = connect_head (c\<lparr>cr_flying := remove1 i (cr_flying c)\<rparr>)"

definition connect_spaced :: "connect_race \<Rightarrow> dial_error option \<times> connect_race" where
  "connect_spaced c = connect_head (connect_one c)"

end
