(* ===== verification/Dial_Facts.thy ===== *)
theory Dial_Facts
  imports Hop_Dial "HOL-Library.Multiset"
begin

text \<open>
  What dialling an origin promises: the order of addresses, the bounds of the cache, and, for every
  race: no address is tried twice, none is left out when the race is lost, and the race never waits
  for nothing.
\<close>

section \<open>Starting an attempt\<close>

text \<open>The addresses a race knows of: those tried and those queued.\<close>

definition known :: "dial_race \<Rightarrow> sock_addr set" where
  "known d = set (begun d) \<union> set (q4 d) \<union> set (q6 d)"

definition dial_idle :: "dial_race \<Rightarrow> dial_race \<Rightarrow> bool" where
  "dial_idle d d' \<longleftrightarrow> begun d' = begun d \<and> flying d' = flying d \<and> v4_pending d' = v4_pending d
     \<and> v6_pending d' = v6_pending d \<and> last_start d' = last_start d \<and> last_family d' = last_family d"

lemmas pick_defs = pick_addr_def pick_preferred_def pick_alternate_def pop_family_def queue_of_def set_queue_def

lemma pick_addr_some:
  "pick_addr d = (Some (f, a), d1) \<Longrightarrow>
   dial_idle d d1 \<and> set (q4 d) \<union> set (q6 d) = insert a (set (q4 d1) \<union> set (q6 d1))"
  by (auto simp: pick_defs dial_idle_def split: option.splits prod.splits list.splits origin_family.splits if_splits)

lemma pick_addr_none:
  "pick_addr d = (None, d1) \<Longrightarrow> dial_idle d d1 \<and> q4 d = [] \<and> q6 d = [] \<and> q4 d1 = [] \<and> q6 d1 = []"
  by (auto simp: pick_defs dial_idle_def split: option.splits prod.splits list.splits origin_family.splits if_splits)

text \<open>A start adds one address not tried before; a failing one finds the queues used up.\<close>

lemma start_one_ok:
  "start_one now d = (ok, d1) \<Longrightarrow>
   known d1 = known d \<and> v4_pending d1 = v4_pending d \<and> v6_pending d1 = v6_pending d
   \<and> (if ok then \<exists>f a. a \<notin> set (begun d) \<and> begun d1 = begun d @ [a] \<and> flying d1 = flying d @ [(f, a)]
          \<and> last_start d1 = Some now
      else begun d1 = begun d \<and> flying d1 = flying d \<and> q4 d1 = [] \<and> q6 d1 = [])"
proof (induction now d rule: start_one.induct)
  case (1 now d)
  obtain x d2 where p: "pick_addr d = (x, d2)" by fastforce
  show ?case
  proof (cases x)
    case None
    then have "ok = False" "d1 = d2" using 1(2) p by (simp_all add: start_one.simps[of now d])
    then show ?thesis using pick_addr_none[of d d2] p None by (auto simp: known_def dial_idle_def)
  next
    case (Some fa)
    obtain f a where fa: "fa = (f, a)" by (cases fa)
    have q: "dial_idle d d2" "set (q4 d) \<union> set (q6 d) = insert a (set (q4 d2) \<union> set (q6 d2))"
      using pick_addr_some[of d f a d2] p Some fa by auto
    have i: "begun d2 = begun d" "flying d2 = flying d" "v4_pending d2 = v4_pending d" "v6_pending d2 = v6_pending d"
      using q(1) by (simp_all add: dial_idle_def)
    show ?thesis
    proof (cases "a \<in> set (begun d2)")
      case True
      then have "start_one now d2 = (ok, d1)" using 1(2) p Some fa by (simp add: start_one.simps[of now d])
      note IH = 1(1)[OF p[symmetric] Some fa[symmetric] True this]
      have "a \<in> set (begun d)" using True i(1) by simp
      then have k: "known d2 = known d" unfolding known_def Un_assoc q(2) i by blast
      show ?thesis using IH unfolding k i .
    next
      case False
      then have s: "ok" "d1 = d2\<lparr>begun := begun d2 @ [a], flying := flying d2 @ [(f, a)],
          last_start := Some now, last_family := Some f\<rparr>"
        using 1(2) p Some fa by (simp_all add: start_one.simps[of now d])
      have "known d1 = known d" using q(2) by (simp add: s known_def i Un_assoc)
      then show ?thesis using s i False by simp
    qed
  qed
qed

section \<open>The race\<close>

definition race_ok :: "sock_addr set \<Rightarrow> dial_race \<Rightarrow> bool" where
  "race_ok A d \<longleftrightarrow> distinct (begun d) \<and> known d = A \<and> snd ` set (flying d) \<subseteq> set (begun d)"

definition result_ok :: "dial_result option \<times> dial_race \<Rightarrow> bool" where
  "result_ok x \<longleftrightarrow>
     (case x of
        (None, d) \<Rightarrow> v4_pending d \<or> v6_pending d \<or> flying d \<noteq> []
      | (Some (NotDialled e), d) \<Rightarrow> \<not> v4_pending d \<and> \<not> v6_pending d \<and> flying d = [] \<and> q4 d = [] \<and> q6 d = []
      | (Some (Dialled f a), d) \<Rightarrow> a \<in> set (begun d))"

lemma race_ok_start: "race_ok A d \<Longrightarrow> race_ok A (snd (start_one now d))"
proof -
  assume r: "race_ok A d"
  obtain ok d1 where s: "start_one now d = (ok, d1)" by fastforce
  show ?thesis
  proof (cases ok)
    case True
    then obtain f a where "a \<notin> set (begun d)" "begun d1 = begun d @ [a]" "flying d1 = flying d @ [(f, a)]"
      using start_one_ok[OF s] by auto
    then show ?thesis using start_one_ok[OF s] r by (simp add: race_ok_def s subset_insertI2)
  next
    case False
    then show ?thesis using start_one_ok[OF s] r by (simp add: race_ok_def s)
  qed
qed

lemma race_ok_head: "race_ok A d \<Longrightarrow> race_ok A (snd (dial_head now d)) \<and> result_ok (dial_head now d)"
proof -
  assume r: "race_ok A d"
  obtain ok d1 where s: "start_one now d = (ok, d1)" by fastforce
  show ?thesis
    using r race_ok_start[OF r, of now] start_one_ok[OF s]
    by (auto simp: dial_head_def s result_ok_def split: if_splits)
qed

lemma race_ok_fields:
  "begun d' = begun d \<Longrightarrow> set (flying d') \<subseteq> set (flying d) \<Longrightarrow> q4 d' = q4 d \<Longrightarrow> q6 d' = q6 d \<Longrightarrow>
   race_ok A d \<Longrightarrow> race_ok A d'"
  by (auto simp: race_ok_def known_def)

lemma race_ok_lookup:
  assumes "race_ok A d"
  shows "race_ok (A \<union> (case r of Inl e \<Rightarrow> {} | Inr as \<Rightarrow> set as)) (lookup_ends f r now d)"
proof (cases r)
  case (Inl e)
  then show ?thesis
    using assms by (auto simp: lookup_ends_def Let_def note_count_def no_longer_pending_def split: origin_family.splits
        intro: race_ok_fields)
next
  case (Inr as)
  let ?d1 = "note_count f (length as) (no_longer_pending f d)"
  let ?d2 = "if started_any ?d1 \<and> last_family ?d1 \<noteq> Some f \<and> as \<noteq> [] then ?d1\<lparr>preferred := Some f\<rparr> else ?d1"
  let ?d3 = "set_queue f (queue_of f ?d2 @ as) ?d2"
  have "begun ?d3 = begun d" "flying ?d3 = flying d" "set (q4 ?d3) \<union> set (q6 ?d3) = set (q4 d) \<union> set (q6 d) \<union> set as"
    by (auto simp: note_count_def no_longer_pending_def set_queue_def queue_of_def split: origin_family.splits)
  then have "race_ok (A \<union> set as) ?d3" using assms by (auto simp: race_ok_def known_def)
  then have "race_ok (A \<union> set as) (if b then snd (start_one now ?d3) else ?d3)" for b
    using race_ok_start by simp
  then show ?thesis unfolding lookup_ends_def Inr Let_def sum.case .
qed

lemma race_ok_turn:
  assumes "race_ok A d" and "enabled cad ev now d"
  shows "race_ok (A \<union> set (looked_up ev)) (snd (dial_turn ev now d)) \<and> result_ok (dial_turn ev now d)"
proof -
  have fin: "race_ok B (snd (dial_turn ev now d)) \<and> result_ok (dial_turn ev now d)"
    if "dial_branch ev now d = (None, d1)" "race_ok B d1" for d1 B
    using that race_ok_head by (simp add: dial_turn_def)
  show ?thesis
  proof (cases ev)
    case (LookupEnds f r)
    show ?thesis
      by (rule fin) (use race_ok_lookup[OF assms(1), of r f now] LookupEnds in
          \<open>auto simp: dial_branch_def looked_up_def split: sum.splits\<close>)
  next
    case (AttemptEnds fa r)
    let ?d1 = "d\<lparr>flying := remove1 fa (flying d)\<rparr>"
    have d1: "race_ok A ?d1" by (rule race_ok_fields[OF _ _ _ _ assms(1)]) (auto simp: set_remove1_subset)
    show ?thesis
    proof (cases r)
      case Connected
      have "snd fa \<in> set (begun d)" using assms AttemptEnds by (auto simp: enabled_def race_ok_def)
      then show ?thesis using d1 AttemptEnds Connected
        by (auto simp: dial_turn_def dial_branch_def attempt_ends_def result_ok_def looked_up_def race_ok_def known_def)
    next
      case (Broke e)
      have b: "dial_branch ev now d = (None, snd (start_one now (?d1\<lparr>dial_err := Some e\<rparr>)))"
        using AttemptEnds Broke by (simp add: dial_branch_def attempt_ends_def)
      have "race_ok A (?d1\<lparr>dial_err := Some e\<rparr>)" by (rule race_ok_fields[OF _ _ _ _ d1]) simp_all
      from fin[OF b race_ok_start[OF this]] show ?thesis using AttemptEnds by (simp add: looked_up_def)
    next
      case Panicked
      have b: "dial_branch ev now d = (None, ?d1)"
        using AttemptEnds Panicked by (simp add: dial_branch_def attempt_ends_def)
      from fin[OF b d1] show ?thesis using AttemptEnds by (simp add: looked_up_def)
    qed
  next
    case SpacingOver
    show ?thesis
      by (rule fin) (use race_ok_start[OF assms(1), of now] SpacingOver in \<open>auto simp: dial_branch_def looked_up_def\<close>)
  qed
qed

lemma dial_run_ok:
  "dial_run cad s4 s6 x as \<Longrightarrow> race_ok (set s4 \<union> set s6 \<union> set as) (snd x) \<and> result_ok x"
proof (induction rule: dial_run.induct)
  case (begin_race now)
  have "race_ok (set s4 \<union> set s6) (dial_new s4 s6)" by (simp add: race_ok_def known_def dial_new_def)
  from race_ok_head[OF this] show ?case by simp
next
  case (turn d as ev now)
  then show ?case using race_ok_turn[of "set s4 \<union> set s6 \<union> set as" d cad ev now] by (simp add: Un_assoc)
qed

text \<open>
  C18: A race tries each address once and never waits for nothing. However lookups, attempts and the
  clock interleave: no address is tried twice, only cached and looked-up addresses are tried, an
  address that won was tried, and a race that goes on waits for a lookup or an attempt.
\<close>

theorem dial_tries_once:
  assumes "dial_run cad s4 s6 (r, d) as"
  shows "distinct (begun d) \<and> set (begun d) \<subseteq> set s4 \<union> set s6 \<union> set as
    \<and> (\<forall>f a. r = Some (Dialled f a) \<longrightarrow> a \<in> set (begun d))
    \<and> (r = None \<longrightarrow> (\<exists>ev. enabled cad ev now d \<and> ev \<noteq> SpacingOver))"
proof -
  have ok: "race_ok (set s4 \<union> set s6 \<union> set as) d" "result_ok (r, d)" using dial_run_ok[OF assms] by simp_all
  have "\<exists>ev. enabled cad ev now d \<and> ev \<noteq> SpacingOver" if "r = None"
  proof -
    from ok(2) that consider "v4_pending d" | "v6_pending d" | fa where "fa \<in> set (flying d)"
      by (cases "flying d") (auto simp: result_ok_def)
    then show ?thesis
    proof cases
      case 1 then show ?thesis by (intro exI[of _ "LookupEnds V4 (Inr [])"]) (simp add: enabled_def)
    next
      case 2 then show ?thesis by (intro exI[of _ "LookupEnds V6 (Inr [])"]) (simp add: enabled_def)
    next
      case 3 then show ?thesis by (intro exI[of _ "AttemptEnds fa Panicked"]) (simp add: enabled_def)
    qed
  qed
  then show ?thesis using ok by (auto simp: race_ok_def known_def result_ok_def)
qed

text \<open>
  C14: A race is lost only when everything failed. When it returns an error, both lookups have ended,
  every address it was seeded with and every one either lookup returned has been tried, and no
  attempt is in flight.
\<close>

theorem dial_lost_exhausted:
  assumes "dial_run cad s4 s6 (Some (NotDialled e), d) as"
  shows "set (begun d) = set s4 \<union> set s6 \<union> set as \<and> \<not> v4_pending d \<and> \<not> v6_pending d \<and> flying d = []"
  using dial_run_ok[OF assms] by (auto simp: race_ok_def known_def result_ok_def)

text \<open>One cached address, one address per lookup; everything fails.\<close>

definition demo_dial :: "dial_result option \<times> dial_race" where
  "demo_dial =
     (let a = SockV4 1 443; b = SockV6 2 443;
          t1 = snd (dial_head 0 (dial_new [a] []));
          t2 = snd (dial_turn (LookupEnds V4 (Inr [a])) 5 t1);
          t3 = snd (dial_turn (LookupEnds V6 (Inr [b])) 9 t2);
          t4 = snd (dial_turn (AttemptEnds (V4, a) (Broke (ConnectFailed 111))) 20 t3) in
      dial_turn (AttemptEnds (V6, b) (Broke (ConnectFailed 113))) 30 t4)"

lemma demo_dial_run: "dial_run 250 [SockV4 1 443] [] demo_dial [SockV4 1 443, SockV6 2 443]"
proof -
  let ?a = "SockV4 1 443" and ?b = "SockV6 2 443"
  let ?t1 = "dial_head 0 (dial_new [?a] [])"
  let ?t2 = "dial_turn (LookupEnds V4 (Inr [?a])) 5 (snd ?t1)"
  let ?t3 = "dial_turn (LookupEnds V6 (Inr [?b])) 9 (snd ?t2)"
  let ?t4 = "dial_turn (AttemptEnds (V4, ?a) (Broke (ConnectFailed 111))) 20 (snd ?t3)"
  have go: "dial_run 250 s4 s6 (dial_turn ev now (snd x)) (as @ looked_up ev)"
    if "dial_run 250 s4 s6 x as" "fst x = None" "enabled 250 ev now (snd x)" for s4 s6 x as ev now
    using dial_run.turn[of 250 s4 s6 "snd x" as ev now] that by (cases x) simp
  have 1: "dial_run 250 [?a] [] ?t1 []" by (rule dial_run.begin_race)
  have 2: "dial_run 250 [?a] [] ?t2 ([] @ looked_up (LookupEnds V4 (Inr [?a])))" by (rule go[OF 1]; code_simp)
  have 3: "dial_run 250 [?a] [] ?t3 (([] @ looked_up (LookupEnds V4 (Inr [?a]))) @ looked_up (LookupEnds V6 (Inr [?b])))"
    by (rule go[OF 2]; code_simp)
  have 4: "dial_run 250 [?a] [] ?t4 ((([] @ looked_up (LookupEnds V4 (Inr [?a]))) @ looked_up (LookupEnds V6 (Inr [?b])))
      @ looked_up (AttemptEnds (V4, ?a) (Broke (ConnectFailed 111))))"
    by (rule go[OF 3]; code_simp)
  have 5: "dial_run 250 [?a] [] demo_dial (((([] @ looked_up (LookupEnds V4 (Inr [?a]))) @ looked_up (LookupEnds V6 (Inr [?b])))
      @ looked_up (AttemptEnds (V4, ?a) (Broke (ConnectFailed 111))))
      @ looked_up (AttemptEnds (V6, ?b) (Broke (ConnectFailed 113))))"
    unfolding demo_dial_def Let_def by (rule go[OF 4]; code_simp)
  then show ?thesis by (simp add: looked_up_def)
qed

lemma demo_dial_lost: "fst demo_dial = Some (NotDialled (ConnectFailed 113))"
  by code_simp

theorem dial_tries_once_witness:
  "distinct (begun (snd demo_dial)) \<and> set (begun (snd demo_dial)) \<subseteq> {SockV4 1 443, SockV6 2 443}"
  using dial_tries_once[of 250 "[SockV4 1 443]" "[]" "fst demo_dial" "snd demo_dial"] demo_dial_run by fastforce

theorem dial_lost_exhausted_witness:
  "set (begun (snd demo_dial)) = {SockV4 1 443, SockV6 2 443} \<and> flying (snd demo_dial) = []"
proof -
  have "dial_run 250 [SockV4 1 443] [] (Some (NotDialled (ConnectFailed 113)), snd demo_dial) [SockV4 1 443, SockV6 2 443]"
    using demo_dial_run demo_dial_lost by (metis prod.collapse)
  from dial_lost_exhausted[OF this] show ?thesis by auto
qed

text \<open>
  C36: The spacing of attempts can be skipped. When a lookup of IPv4 brings only addresses that were
  tried already, and the last attempt was over IPv6, the preference for the new family is used up by
  skipping them, and the next IPv6 address is tried at once, whenever the last attempt began.
\<close>

theorem dial_spacing_skipped:
  assumes "started_any d" "last_family d = Some V6" "addrs \<noteq> []" "set addrs \<subseteq> set (begun d)"
    and "q4 d = []" "q6 d = a # q" "a \<notin> set (begun d)"
  shows "begun (lookup_ends V4 (Inr addrs) now d) = begun d @ [a]
    \<and> (V6, a) \<in> set (flying (lookup_ends V4 (Inr addrs) now d))
    \<and> last_start (lookup_ends V4 (Inr addrs) now d) = Some now"
proof -
  let ?Q = "\<lambda>d. begun (snd (start_one now d)) = begun d @ [a] \<and> (V6, a) \<in> set (flying (snd (start_one now d)))
      \<and> last_start (snd (start_one now d)) = Some now"
  have last: "?Q e" if "q4 e = []" "q6 e = a # q" "a \<notin> set (begun e)" "last_family e = Some V6" "preferred e = None" for e
    using that by (simp add: start_one.simps[of now e] pick_addr_def pick_preferred_def pick_alternate_def pop_family_def
        queue_of_def set_queue_def)
  have skip: "?Q e"
    if "q4 e = bs" "bs \<noteq> []" "set bs \<subseteq> set (begun e)" "q6 e = a # q" "a \<notin> set (begun e)"
      "last_family e = Some V6" "preferred e = Some V4" for bs e
    using that
  proof (induction bs arbitrary: e)
    case (Cons b bs)
    let ?e = "if bs = [] then e\<lparr>q4 := bs, preferred := None\<rparr> else e\<lparr>q4 := bs\<rparr>"
    have "start_one now e = start_one now ?e"
      using Cons.prems by (simp add: start_one.simps[of now e] pick_addr_def pick_preferred_def pop_family_def
          queue_of_def set_queue_def)
    moreover have "?Q ?e"
      using Cons.IH[of ?e] last[of ?e] Cons.prems by (cases "bs = []") simp_all
    ultimately show ?case by (simp split: if_splits)
  qed simp
  let ?e = "d\<lparr>v4_pending := False, n_v4 := Some (length addrs), preferred := Some V4, q4 := addrs\<rparr>"
  have "lookup_ends V4 (Inr addrs) now d = snd (start_one now ?e)"
    using assms by (simp add: lookup_ends_def Let_def note_count_def no_longer_pending_def set_queue_def queue_of_def started_any_def)
  moreover have "?Q ?e" by (rule skip[of ?e addrs]) (use assms in simp_all)
  ultimately show ?thesis by simp
qed

theorem dial_spacing_skipped_witness:
  "begun (lookup_ends V4 (Inr [SockV4 1 443]) 260
     ((dial_new [] [SockV6 3 443])\<lparr>begun := [SockV4 1 443, SockV6 2 443], last_start := Some 250, last_family := Some V6\<rparr>))
   = [SockV4 1 443, SockV6 2 443, SockV6 3 443]"
  using dial_spacing_skipped[of "(dial_new [] [SockV6 3 443])\<lparr>begun := [SockV4 1 443, SockV6 2 443], last_start := Some 250, last_family := Some V6\<rparr>"
      "[SockV4 1 443]" "SockV6 3 443" "[]" 260]
  by (simp add: started_any_def dial_new_def)

section \<open>The order of addresses\<close>

lemma mset_zip: "mset (zip_families xs ys) = mset xs + mset ys"
  by (induction xs ys rule: zip_families.induct) simp_all

lemma filter_zip:
  "\<forall>x\<in>set xs. P x \<Longrightarrow> \<forall>y\<in>set ys. \<not> P y \<Longrightarrow>
   filter P (zip_families xs ys) = xs \<and> filter (\<lambda>x. \<not> P x) (zip_families xs ys) = ys"
  by (induction xs ys rule: zip_families.induct) simp_all

lemma zip_alternates:
  "\<forall>x\<in>set xs. P x \<Longrightarrow> \<forall>y\<in>set ys. \<not> P y \<Longrightarrow> i < min (length xs) (length ys) \<Longrightarrow>
   P (zip_families xs ys ! (2 * i)) \<and> \<not> P (zip_families xs ys ! (2 * i + 1))"
proof (induction xs ys arbitrary: i rule: zip_families.induct)
  case (3 h hs t ts)
  then show ?case by (cases i) auto
qed simp_all

text \<open>
  Interleaving keeps every address and the order within a family. The result holds the same
  addresses, each family in its own order, starts with the first address, and alternates between
  the families while both last.
\<close>

lemma interleave_stable:
  "mset (interleave_families addrs) = mset addrs
   \<and> filter is_ipv4 (interleave_families addrs) = filter is_ipv4 addrs
   \<and> filter (\<lambda>x. \<not> is_ipv4 x) (interleave_families addrs) = filter (\<lambda>x. \<not> is_ipv4 x) addrs
   \<and> take 1 (interleave_families addrs) = take 1 addrs
   \<and> (\<forall>i < min (length (filter is_ipv4 addrs)) (length (filter (\<lambda>x. \<not> is_ipv4 x) addrs)).
        is_ipv4 (interleave_families addrs ! (2 * i)) = is_ipv4 (hd addrs)
        \<and> is_ipv4 (interleave_families addrs ! (2 * i + 1)) \<noteq> is_ipv4 (hd addrs))"
proof (cases addrs)
  case (Cons a r)
  let ?v4 = "filter is_ipv4 addrs" and ?v6 = "filter (\<lambda>x. \<not> is_ipv4 x) addrs"
  have z: "interleave_families addrs = (if is_ipv4 a then zip_families ?v4 ?v6 else zip_families ?v6 ?v4)"
    by (simp add: interleave_families_def Cons Let_def)
  have s: "\<forall>x\<in>set ?v4. is_ipv4 x" "\<forall>x\<in>set ?v6. \<not> is_ipv4 x" by auto
  have m: "mset ?v4 + mset ?v6 = mset addrs" "mset ?v6 + mset ?v4 = mset addrs"
    by (simp_all add: mset_filter add.commute[of "filter_mset (\<lambda>x. \<not> is_ipv4 x) (mset addrs)"])
  have t: "take 1 (interleave_families addrs) = take 1 addrs"
    by (cases "filter is_ipv4 r"; cases "filter (\<lambda>x. \<not> is_ipv4 x) r") (simp_all add: interleave_families_def Cons Let_def)
  have h: "hd addrs = a" by (simp add: Cons)
  show ?thesis
  proof (cases "is_ipv4 a")
    case True
    then have "interleave_families addrs = zip_families ?v4 ?v6" by (simp add: z)
    then show ?thesis unfolding t h using True filter_zip[OF s] zip_alternates[OF s] by (simp only: mset_zip m) simp
  next
    case False
    have n: "\<forall>y\<in>set ?v4. \<not> \<not> is_ipv4 y" by auto
    from False have "interleave_families addrs = zip_families ?v6 ?v4" by (simp add: z)
    then show ?thesis unfolding t h using False filter_zip[OF s(2) n] zip_alternates[OF s(2) n]
      by (simp only: mset_zip m) simp
  qed
qed (simp add: interleave_families_def)

section \<open>The cache\<close>

definition slot_ok :: "nat list \<Rightarrow> bool" where
  "slot_ok s \<longleftrightarrow> distinct s \<and> length s \<le> ORIGIN_CACHE_PER_FAMILY"

definition cache_ok :: "origin_cache \<Rightarrow> bool" where
  "cache_ok g \<longleftrightarrow> distinct (map fst g) \<and> length g \<le> ORIGIN_CACHE_HOSTS
     \<and> (\<forall>c\<in>snd ` set g. slot_ok (co_v4 c) \<and> slot_ok (co_v6 c))"

lemma push_addr_ok: "slot_ok s \<Longrightarrow> slot_ok (push_addr i s) \<and> i \<in> set (push_addr i s)"
  by (cases s) (auto simp: push_addr_def slot_ok_def Let_def ORIGIN_CACHE_PER_FAMILY_def)

lemma length_update:
  "length (AList.update k v g) = (if k \<in> fst ` set g then length g else Suc (length g))"
  by (induction g) auto

lemma snd_update: "x \<in> snd ` set (AList.update k v g) \<Longrightarrow> x = v \<or> x \<in> snd ` set g"
  by (induction g) (auto split: if_splits)

lemma remember_ok:
  assumes "cache_ok g"
  shows "cache_ok (remember_origin_addr hst prt a g)"
proof -
  let ?k = "cache_key hst prt"
  let ?g = "if ORIGIN_CACHE_HOSTS \<le> length g \<and> ?k \<notin> fst ` set g then [] else g"
  let ?e = "case map_of ?g ?k of Some c \<Rightarrow> c | None \<Rightarrow> \<lparr>co_v4 = [], co_v6 = []\<rparr>"
  let ?c = "case a of SockV4 i _ \<Rightarrow> ?e\<lparr>co_v4 := push_addr i (co_v4 ?e)\<rparr> | SockV6 i _ \<Rightarrow> ?e\<lparr>co_v6 := push_addr i (co_v6 ?e)\<rparr>"
  have g: "cache_ok ?g" "?k \<in> fst ` set ?g \<or> length ?g < ORIGIN_CACHE_HOSTS"
    using assms by (auto simp: cache_ok_def ORIGIN_CACHE_HOSTS_def)
  have "slot_ok (co_v4 ?e) \<and> slot_ok (co_v6 ?e)"
  proof (cases "map_of ?g ?k")
    case None
    then show ?thesis by (simp add: slot_ok_def)
  next
    case (Some c)
    have "c \<in> snd ` set ?g" by (rule rev_image_eqI[OF map_of_SomeD[OF Some]]) simp
    then have "slot_ok (co_v4 c) \<and> slot_ok (co_v6 c)" using g(1) unfolding cache_ok_def by blast
    then show ?thesis unfolding Some option.case .
  qed
  then have c: "slot_ok (co_v4 ?c) \<and> slot_ok (co_v6 ?c)" using push_addr_ok by (cases a) simp_all
  have "distinct (map fst (AList.update ?k ?c ?g))" using g(1) unfolding cache_ok_def by (intro distinct_update) blast
  moreover have "length (AList.update ?k ?c ?g) \<le> ORIGIN_CACHE_HOSTS"
    using g unfolding cache_ok_def length_update by (auto split: if_splits)
  moreover have "\<forall>x\<in>snd ` set (AList.update ?k ?c ?g). slot_ok (co_v4 x) \<and> slot_ok (co_v6 x)"
  proof
    fix x assume "x \<in> snd ` set (AList.update ?k ?c ?g)"
    from snd_update[OF this] show "slot_ok (co_v4 x) \<and> slot_ok (co_v6 x)"
      using c g(1) unfolding cache_ok_def by blast
  qed
  ultimately show ?thesis unfolding remember_origin_addr_def Let_def cache_ok_def by blast
qed

lemma remembered:
  assumes "cache_ok g"
  shows "SockV4 i prt \<in> set (fst (cached_origin_addrs (remember_origin_addr hst prt (SockV4 i q) g) hst prt))
    \<and> SockV6 i prt \<in> set (snd (cached_origin_addrs (remember_origin_addr hst prt (SockV6 i q) g) hst prt))"
proof -
  have "slot_ok (co_v4 c) \<and> slot_ok (co_v6 c)" if "map_of g k = Some c" for c k
    using that assms by (force simp: cache_ok_def dest: map_of_SomeD)
  then have "i \<in> set (push_addr i (co_v4 c)) \<and> i \<in> set (push_addr i (co_v6 c))" if "map_of g k = Some c" for c k
    using that push_addr_ok by blast
  moreover have "i \<in> set (push_addr i [])" using push_addr_ok[of "[]" i] by (simp add: slot_ok_def)
  ultimately show ?thesis
    by (auto simp: cached_origin_addrs_def remember_origin_addr_def Let_def update_conv' split: option.splits)
qed

definition remember_all :: "(bytes \<times> nat \<times> sock_addr) list \<Rightarrow> origin_cache" where
  "remember_all xs = foldl (\<lambda>g (h, p, a). remember_origin_addr h p a g) [] xs"

lemma remember_all_ok: "cache_ok (remember_all xs)"
proof (induction xs rule: rev_induct)
  case Nil
  then show ?case by (simp add: remember_all_def cache_ok_def)
next
  case (snoc x xs)
  obtain h p a where x: "x = (h, p, a)" by (cases x)
  have "remember_all (xs @ [x]) = remember_origin_addr h p a (remember_all xs)"
    by (simp add: remember_all_def x)
  then show ?case using remember_ok[OF snoc] by simp
qed

text \<open>
  The cache of origins stays within its bounds and keeps the last address. After any sequence of
  connections it has at most 4096 hosts and, of each host, at most 8 addresses of a family, none
  twice; and the address that connected last is offered for its host and port, in any letter case.
\<close>

lemma origin_cache_bounded:
  "(let g = remember_all xs in distinct (map fst g) \<and> length g \<le> ORIGIN_CACHE_HOSTS
      \<and> length (fst (cached_origin_addrs g hst prt)) \<le> ORIGIN_CACHE_PER_FAMILY
      \<and> length (snd (cached_origin_addrs g hst prt)) \<le> ORIGIN_CACHE_PER_FAMILY)
   \<and> SockV4 i prt \<in> set (fst (cached_origin_addrs (remember_all (xs @ [(hst, prt, SockV4 i q)])) (map lower_byte hst) prt))
   \<and> SockV6 i prt \<in> set (snd (cached_origin_addrs (remember_all (xs @ [(hst, prt, SockV6 i q)])) (map lower_byte hst) prt))"
proof -
  have ok: "cache_ok (remember_all xs)" by (rule remember_all_ok)
  have low: "lower_byte (lower_byte b) = lower_byte b" for b :: byte
    by (auto simp: lower_byte_def word_le_nat_alt unat_word_ariths)
  have key: "cached_origin_addrs g (map lower_byte hst) prt = cached_origin_addrs g hst prt" for g
    by (simp add: cached_origin_addrs_def cache_key_def low comp_def)
  have "length (fst (cached_origin_addrs g hst prt)) \<le> ORIGIN_CACHE_PER_FAMILY
      \<and> length (snd (cached_origin_addrs g hst prt)) \<le> ORIGIN_CACHE_PER_FAMILY" if "cache_ok g" for g
    using that by (force simp: cached_origin_addrs_def cache_ok_def slot_ok_def split: option.splits dest: map_of_SomeD)
  then show ?thesis using ok remembered[OF ok, of i prt hst q]
    by (simp add: Let_def cache_ok_def key remember_all_def)
qed

end
