(* ===== verification/Hop_Sample.thy ===== *)
theory Hop_Sample
  imports Stream_Core Hop_Copy Handshake Wire_Codec
begin

text \<open>
  What a hop reports of one stream: the clocks around its sockets (\<open>HopClock\<close>, \<open>HopProbe\<close>), the
  sample taken when the copy ends, the limiter it names, its rank, and its two text forms. The
  trace span of a sample (\<open>emit_otel_span\<close>) repeats the fields and is left out.
\<close>

section \<open>Clocks\<close>

definition nz :: "nat \<Rightarrow> nat option" where "nz v = (if v \<noteq> 0 then Some v else None)"

definition elapsed_us :: "instant \<Rightarrow> instant \<Rightarrow> nat" where
  "elapsed_us now start = max (as_micros (elapsed now start)) 1"

text \<open>The atomics hold 0 for never.\<close>

record hop_clock =
  hc_start :: instant
  hc_first_rx :: nat
  hc_first_tx :: nat
  hc_last_rx :: nat
  hc_rx_bytes :: nat
  hc_tx_bytes :: nat

definition hop_clock_new :: "instant \<Rightarrow> hop_clock" where
  "hop_clock_new now = \<lparr>hc_start = now, hc_first_rx = 0, hc_first_tx = 0, hc_last_rx = 0,
     hc_rx_bytes = 0, hc_tx_bytes = 0\<rparr>"

record peer_slots =
  ps_crx_at_olast :: nat
  ps_max_gap :: nat
  ps_crx_at_gap :: nat
  ps_origin_at_gap :: nat

definition peer_slots_new :: peer_slots where
  "peer_slots_new = \<lparr>ps_crx_at_olast = 0, ps_max_gap = 0, ps_crx_at_gap = 0, ps_origin_at_gap = 0\<rparr>"

text \<open>The answer of the inner socket: not ready, an error, or so many bytes.\<close>

datatype probe_poll = Probe_pending | Probe_error | Probe_bytes nat

definition probe_clock_read :: "instant \<Rightarrow> nat \<Rightarrow> hop_clock \<Rightarrow> hop_clock" where
  "probe_clock_read now n c =
     (let us = elapsed_us now (hc_start c)
      in c\<lparr>hc_rx_bytes := hc_rx_bytes c + n,
           hc_first_rx := (if hc_first_rx c = 0 then us else hc_first_rx c), hc_last_rx := us\<rparr>)"

definition sample_peer :: "nat \<Rightarrow> hop_clock \<Rightarrow> peer_slots \<Rightarrow> peer_slots" where
  "sample_peer us peer sl =
     (let crx = hc_last_rx peer; gap = us - crx; s1 = sl\<lparr>ps_crx_at_olast := crx\<rparr>
      in if gap > ps_max_gap s1
         then s1\<lparr>ps_max_gap := gap, ps_crx_at_gap := crx, ps_origin_at_gap := us\<rparr> else s1)"

text \<open>\<open>poll_read\<close> with and without a peer, and \<open>poll_write\<close>, after the inner socket has answered.\<close>

definition probe_read ::
  "instant \<Rightarrow> probe_poll \<Rightarrow> hop_clock \<times> (hop_clock \<times> peer_slots) option
    \<Rightarrow> hop_clock \<times> (hop_clock \<times> peer_slots) option" where
  "probe_read now ans stt =
     (case (ans, stt) of
        (Probe_bytes n, c, side) \<Rightarrow>
          if n > 0
          then (probe_clock_read now n c,
                map_option (\<lambda>(peer, sl). (peer, sample_peer (elapsed_us now (hc_start c)) peer sl)) side)
          else stt
      | _ \<Rightarrow> stt)"

definition probe_write :: "instant \<Rightarrow> probe_poll \<Rightarrow> hop_clock \<Rightarrow> hop_clock" where
  "probe_write now ans c =
     (case ans of
        Probe_bytes n \<Rightarrow>
          if n > 0
          then (let us = elapsed_us now (hc_start c)
                in c\<lparr>hc_tx_bytes := hc_tx_bytes c + n,
                     hc_first_tx := (if hc_first_tx c = 0 then us else hc_first_tx c)\<rparr>)
          else c
      | _ \<Rightarrow> c)"

section \<open>The sample\<close>

datatype hop_role = HopClient | HopServer

datatype hop_end = HopOk | HopOpenFail | HopDialFail | HopCopyErr

fun role_str :: "hop_role \<Rightarrow> bytes" where
  "role_str HopClient = ascii ''client''" | "role_str HopServer = ascii ''server''"

fun end_str :: "hop_end \<Rightarrow> bytes" where
  "end_str HopOk = ascii ''ok''" | "end_str HopOpenFail = ascii ''open_fail''"
| "end_str HopDialFail = ascii ''dial_fail''" | "end_str HopCopyErr = ascii ''copy_err''"

text \<open>The kernel's \<open>TCP_INFO\<close> of a socket; what the kernel does not return is 0.\<close>

record tcp_view =
  ti_snd_mss :: nat
  ti_cwnd_bytes :: nat
  ti_rtt_us :: nat
  ti_rttvar_us :: nat
  ti_unacked_bytes :: nat
  ti_lost_segs :: nat
  ti_retrans_segs :: nat
  ti_total_retrans :: nat
  ti_notsent_bytes :: nat
  ti_min_rtt_us :: nat
  ti_delivery_rate_bytes_s :: nat
  ti_pacing_rate_bytes_s :: nat
  ti_rcv_rtt_us :: nat
  ti_rcv_space :: nat
  ti_busy_time_us :: nat
  ti_rwnd_limited_us :: nat
  ti_sndbuf_limited_us :: nat
  ti_bytes_retrans :: nat
  ti_rcv_ooopack :: nat
  ti_bytes_sent :: nat
  ti_app_limited :: bool

definition tcp_view_zero :: tcp_view where
  "tcp_view_zero = \<lparr>ti_snd_mss = 0, ti_cwnd_bytes = 0, ti_rtt_us = 0, ti_rttvar_us = 0, ti_unacked_bytes = 0, ti_lost_segs = 0,
     ti_retrans_segs = 0, ti_total_retrans = 0, ti_notsent_bytes = 0, ti_min_rtt_us = 0, ti_delivery_rate_bytes_s = 0, ti_pacing_rate_bytes_s = 0,
     ti_rcv_rtt_us = 0, ti_rcv_space = 0, ti_busy_time_us = 0, ti_rwnd_limited_us = 0, ti_sndbuf_limited_us = 0, ti_bytes_retrans = 0, ti_rcv_ooopack = 0, ti_bytes_sent = 0,
     ti_app_limited = False\<rparr>"

record hop_sample =
  hs_role :: hop_role
  hs_stream_id :: nat
  hs_host :: bytes
  hs_session_fp :: bytes
  hs_outcome :: hop_end
  hs_copy :: "nat option"
  hs_open :: "nat option"
  hs_first_rx :: "nat option"
  hs_last_rx :: "nat option"
  hs_first_tx :: "nat option"
  hs_dial :: "nat option"
  hs_origin_first_rx :: "nat option"
  hs_origin_last_rx :: "nat option"
  hs_client_first_rx :: "nat option"
  hs_client_last_rx :: "nat option"
  hs_crx_at_olast :: "nat option"
  hs_max_gap :: "nat option"
  hs_crx_at_gap :: "nat option"
  hs_origin_at_gap :: "nat option"
  hs_rx_bytes :: "nat option"
  hs_tx_bytes :: "nat option"
  hs_copy_err :: "bytes option"
  hs_stream :: "stream_stats option"
  hs_waits :: "hop_waits option"
  hs_origin_tcp :: "tcp_view option"
  hs_close :: "bytes option"
  hs_dropped :: "nat option"

definition hop_sample_default :: hop_sample where
  "hop_sample_default =
     \<lparr>hs_role = HopClient, hs_stream_id = 0, hs_host = [], hs_session_fp = [], hs_outcome = HopOk,
      hs_copy = None, hs_open = None, hs_first_rx = None, hs_last_rx = None, hs_first_tx = None,
      hs_dial = None, hs_origin_first_rx = None, hs_origin_last_rx = None, hs_client_first_rx = None,
      hs_client_last_rx = None, hs_crx_at_olast = None, hs_max_gap = None, hs_crx_at_gap = None,
      hs_origin_at_gap = None, hs_rx_bytes = None, hs_tx_bytes = None, hs_copy_err = None,
      hs_stream = None, hs_waits = None, hs_origin_tcp = None, hs_close = None, hs_dropped = None\<rparr>"

text \<open>The end of a copy, as the client and the server report it; \<open>Inl\<close> is the kind of an I/O error.\<close>

definition with_copy :: "(bytes + copy_outcome) \<Rightarrow> hop_sample \<Rightarrow> hop_sample" where
  "with_copy r s =
     (case r of
        Inr o' \<Rightarrow> s\<lparr>hs_outcome := HopOk, hs_copy_err := None, hs_waits := Some (waits_from_outcome o'),
                    hs_close := Some (ascii (close_label o')), hs_dropped := Some (outcome_dropped o')\<rparr>
      | Inl e \<Rightarrow> s\<lparr>hs_outcome := HopCopyErr, hs_copy_err := Some e, hs_waits := None,
                   hs_close := None, hs_dropped := None\<rparr>)"

definition client_sample ::
  "instant \<Rightarrow> instant \<Rightarrow> nat \<Rightarrow> bytes \<Rightarrow> bytes \<Rightarrow> nat \<Rightarrow> hop_clock \<Rightarrow> stream_stats
    \<Rightarrow> (bytes + copy_outcome) \<Rightarrow> hop_sample" where
  "client_sample now t_copy i hst fp open_us c stt r =
     with_copy r (hop_sample_default\<lparr>hs_role := HopClient, hs_stream_id := i, hs_host := hst, hs_session_fp := fp,
       hs_copy := Some (elapsed_us now t_copy), hs_open := Some open_us, hs_first_rx := nz (hc_first_rx c),
       hs_last_rx := nz (hc_last_rx c), hs_first_tx := nz (hc_first_tx c), hs_rx_bytes := Some (hc_rx_bytes c),
       hs_tx_bytes := Some (hc_tx_bytes c), hs_stream := Some stt\<rparr>)"

definition server_sample ::
  "instant \<Rightarrow> instant \<Rightarrow> nat \<Rightarrow> bytes \<Rightarrow> bytes \<Rightarrow> nat \<Rightarrow> hop_clock \<Rightarrow> hop_clock \<Rightarrow> peer_slots
    \<Rightarrow> stream_stats \<Rightarrow> tcp_view option \<Rightarrow> (bytes + copy_outcome) \<Rightarrow> hop_sample" where
  "server_sample now t_copy i hst fp dial_us origin overlay sl stt tcp r =
     with_copy r (hop_sample_default\<lparr>hs_role := HopServer, hs_stream_id := i, hs_host := hst, hs_session_fp := fp,
       hs_copy := Some (elapsed_us now t_copy), hs_dial := Some dial_us,
       hs_origin_first_rx := nz (hc_first_rx origin), hs_origin_last_rx := nz (hc_last_rx origin),
       hs_client_first_rx := nz (hc_first_rx overlay), hs_client_last_rx := nz (hc_last_rx overlay),
       hs_crx_at_olast := nz (ps_crx_at_olast sl), hs_max_gap := nz (ps_max_gap sl),
       hs_crx_at_gap := nz (ps_crx_at_gap sl), hs_origin_at_gap := nz (ps_origin_at_gap sl),
       hs_rx_bytes := Some (hc_rx_bytes origin), hs_tx_bytes := Some (hc_tx_bytes origin),
       hs_stream := Some stt, hs_origin_tcp := tcp\<rparr>)"

definition dial_fail_sample :: "nat \<Rightarrow> bytes \<Rightarrow> bytes \<Rightarrow> nat \<Rightarrow> hop_sample" where
  "dial_fail_sample i hst fp dial_us =
     hop_sample_default\<lparr>hs_role := HopServer, hs_stream_id := i, hs_host := hst, hs_session_fp := fp,
       hs_outcome := HopDialFail, hs_dial := Some dial_us\<rparr>"

section \<open>Limiter and rank\<close>

fun or0 :: "nat option \<Rightarrow> nat" where "or0 None = 0" | "or0 (Some v) = v"

text \<open>
  The server's received bytes come from the origin, so when they prevail the server sends on the
  overlay; the client's come from the overlay.
\<close>

definition hop_overlay_sender :: "hop_sample \<Rightarrow> bool" where
  "hop_overlay_sender s \<longleftrightarrow> (hs_role s = HopServer) = (or0 (hs_rx_bytes s) \<ge> or0 (hs_tx_bytes s))"

definition hop_limiter :: "hop_sample \<Rightarrow> string option" where
  "hop_limiter s =
     (case hs_stream s of
        None \<Rightarrow> None
      | Some stt \<Rightarrow>
          (case hs_waits s of
             None \<Rightarrow> Some (limiter stt)
           | Some w \<Rightarrow>
               (let snd_ov = hop_overlay_sender s;
                    (far, near) = (if snd_ov then (local_read_us w, overlay_write_us w)
                                   else (overlay_read_us w, local_write_us w))
                in Some (limiter_by_time stt
                     \<lparr>far_us = far, near_us = near, copy_us = or0 (hs_copy s), overlay_sender = snd_ov,
                      local_name = (case hs_role s of HopServer \<Rightarrow> ''origin'' | HopClient \<Rightarrow> ''app'')\<rparr>))))"

definition hop_times :: "hop_sample \<Rightarrow> nat option list" where
  "hop_times s = [hs_copy s, hs_open s, hs_first_rx s, hs_last_rx s, hs_first_tx s, hs_dial s,
     hs_origin_first_rx s, hs_origin_last_rx s, hs_client_first_rx s, hs_client_last_rx s,
     hs_crx_at_olast s, hs_max_gap s, hs_crx_at_gap s, hs_origin_at_gap s]"

definition rank_us :: "hop_sample \<Rightarrow> nat" where
  "rank_us s = foldl max 0 (List.map_filter id (hop_times s))"

section \<open>Text\<close>

definition HOST_TAIL_MAX :: nat where "HOST_TAIL_MAX = 48"

text \<open>\<open>chars().take(n)\<close> on UTF-8: a continuation byte belongs to the character before it.\<close>

definition cont_byte :: "byte \<Rightarrow> bool" where "cont_byte b \<longleftrightarrow> 0x80 \<le> b \<and> b < 0xC0"

fun take_chars :: "nat \<Rightarrow> bytes \<Rightarrow> bytes" where
  "take_chars n [] = []"
| "take_chars n (b # bs) =
     (if cont_byte b then b # take_chars n bs
      else case n of 0 \<Rightarrow> [] | Suc m \<Rightarrow> b # take_chars m bs)"

definition truncate_host :: "bytes \<Rightarrow> bytes" where
  "truncate_host h = (if length h \<le> HOST_TAIL_MAX then h else take_chars HOST_TAIL_MAX h)"

text \<open>\<open>k=v\<close>.\<close>

definition kv :: "string \<Rightarrow> nat \<Rightarrow> bytes" where "kv k v = ascii k @ ascii ''='' @ dec_digits v"

definition push_dashable :: "string \<Rightarrow> nat option \<Rightarrow> bool \<Rightarrow> bytes" where
  "push_dashable k v copy_ran =
     (case v of
        Some x \<Rightarrow> ascii '' '' @ kv k x
      | None \<Rightarrow> if copy_ran then ascii '' '' @ ascii k @ ascii ''=-'' else [])"

definition push_known :: "string \<Rightarrow> nat option \<Rightarrow> bytes" where
  "push_known k v = (case v of Some x \<Rightarrow> ascii '' '' @ kv k x | None \<Rightarrow> [])"

definition format_tail :: "hop_sample \<Rightarrow> bytes" where
  "format_tail s =
     (let ran = (hs_copy s \<noteq> None)
      in truncate_host (hs_host s) @ ascii '' copy=''
         @ (case hs_copy s of Some v \<Rightarrow> dec_digits v | None \<Rightarrow> ascii ''-'')
         @ (if hs_session_fp s \<noteq> [] then ascii '' sfp='' @ hs_session_fp s else [])
         @ (case hs_role s of
              HopClient \<Rightarrow>
                push_known ''open'' (hs_open s) @ push_dashable ''first_rx'' (hs_first_rx s) ran
                @ push_dashable ''last_rx'' (hs_last_rx s) ran
            | HopServer \<Rightarrow>
                push_known ''dial'' (hs_dial s) @ push_dashable ''ofirst'' (hs_origin_first_rx s) ran
                @ push_dashable ''olast'' (hs_origin_last_rx s) ran
                @ push_dashable ''cfirst'' (hs_client_first_rx s) ran
                @ push_dashable ''clast'' (hs_client_last_rx s) ran
                @ push_dashable ''crx_at_olast'' (hs_crx_at_olast s) ran
                @ push_dashable ''max_gap'' (hs_max_gap s) ran
                @ push_dashable ''crx_at_gap'' (hs_crx_at_gap s) ran
                @ push_dashable ''origin_at_gap'' (hs_origin_at_gap s) ran)
         @ push_known ''rx'' (hs_rx_bytes s) @ push_known ''tx'' (hs_tx_bytes s)
         @ (case hs_copy_err s of Some e \<Rightarrow> ascii '' err='' @ e | None \<Rightarrow> [])
         @ ascii '' '' @ kv ''sid'' (hs_stream_id s))"

fun join_sp :: "bytes list \<Rightarrow> bytes" where
  "join_sp [] = []" | "join_sp [x] = x" | "join_sp (x # y # xs) = x @ ascii '' '' @ join_sp (y # xs)"

definition opt_kv :: "string \<times> nat option \<Rightarrow> bytes list" where
  "opt_kv kvo = (case kvo of (k, Some v) \<Rightarrow> [kv k v] | (k, None) \<Rightarrow> [])"

definition kvs :: "(string \<times> nat) list \<Rightarrow> bytes" where
  "kvs xs = join_sp (map (\<lambda>(k, v). kv k v) xs)"

definition debug_stream :: "hop_sample \<Rightarrow> stream_stats \<Rightarrow> bytes" where
  "debug_stream s x =
     join_sp [ascii ''limiter='' @ ascii (case hop_limiter s of Some l \<Rightarrow> l | None \<Rightarrow> ''none''),
       kvs [(''wblk'', ss_window_blocks x), (''bblk'', ss_budget_blocks x),
         (''wroom'', ss_window_limited_with_room x), (''cap_max'', ss_recv_cap_max x),
         (''hedges'', ss_hedges x), (''dup_rx'', ss_dup_rx_bytes x), (''paths'', ss_paths_used x),
         (''hole_us'', ss_hole_us x), (''hole_max'', ss_recv_hole_max x),
         (''backlog_max'', ss_app_backlog_max x), (''zw_hole'', ss_zero_win_hole x),
         (''zw_app'', ss_zero_win_app x), (''diverts'', ss_budget_diverts x)]]"

definition debug_waits :: "hop_sample \<Rightarrow> hop_waits \<Rightarrow> bytes" where
  "debug_waits s w =
     (let (lr, lw) = (case hs_role s of
          HopServer \<Rightarrow> (''origin_read_wait_us'', ''origin_write_wait_us'')
        | HopClient \<Rightarrow> (''app_read_wait_us'', ''app_write_wait_us''))
      in kvs [(lr, local_read_us w), (lw, local_write_us w), (''overlay_read_wait_us'', overlay_read_us w),
           (''overlay_write_wait_us'', overlay_write_us w)])"

definition debug_tcp :: "tcp_view \<Rightarrow> bytes" where
  "debug_tcp t =
     kvs [(''origin_tcp_rtt_us'', ti_rtt_us t), (''origin_tcp_retrans'', ti_total_retrans t),
       (''origin_tcp_bytes_retrans'', ti_bytes_retrans t), (''origin_tcp_bytes_sent'', ti_bytes_sent t),
       (''origin_tcp_app_limited'', if ti_app_limited t then 1 else 0),
       (''origin_tcp_rwnd_limited_us'', ti_rwnd_limited_us t), (''origin_tcp_rcv_ooopack'', ti_rcv_ooopack t)]"

definition format_debug_fields :: "hop_sample \<Rightarrow> bytes" where
  "format_debug_fields s =
     join_sp (concat (map opt_kv
        [(''copy_us'', hs_copy s), (''open_us'', hs_open s), (''first_rx_us'', hs_first_rx s),
         (''last_rx_us'', hs_last_rx s), (''first_tx_us'', hs_first_tx s), (''dial_us'', hs_dial s),
         (''origin_first_rx_us'', hs_origin_first_rx s), (''origin_last_rx_us'', hs_origin_last_rx s),
         (''client_first_rx_us'', hs_client_first_rx s), (''client_last_rx_us'', hs_client_last_rx s),
         (''crx_at_olast'', hs_crx_at_olast s), (''max_gap'', hs_max_gap s), (''crx_at_gap'', hs_crx_at_gap s),
         (''origin_at_gap'', hs_origin_at_gap s), (''rx_bytes'', hs_rx_bytes s), (''tx_bytes'', hs_tx_bytes s)])
      @ (if hs_session_fp s \<noteq> [] then [ascii ''session_fp='' @ hs_session_fp s] else [])
      @ (case hs_copy_err s of Some e \<Rightarrow> [ascii ''copy_err='' @ e] | None \<Rightarrow> [])
      @ (case hs_close s of Some c \<Rightarrow> [ascii ''close='' @ c] | None \<Rightarrow> [])
      @ opt_kv (''dropped_bytes'', hs_dropped s)
      @ (case hs_stream s of Some x \<Rightarrow> [debug_stream s x] | None \<Rightarrow> [])
      @ (case hs_waits s of Some w \<Rightarrow> [debug_waits s w] | None \<Rightarrow> [])
      @ (case hs_origin_tcp s of Some t \<Rightarrow> [debug_tcp t] | None \<Rightarrow> []))"

section \<open>What a probe has seen\<close>

text \<open>Reads of the two probes of a server, as (time, bytes); the overlay's clock is the origin's peer.\<close>

datatype probe_ev = Overlay_read instant nat | Origin_read instant nat

fun event_at :: "probe_ev \<Rightarrow> instant" where
  "event_at (Overlay_read t n) = t" | "event_at (Origin_read t n) = t"

record probes =
  pr_origin :: hop_clock
  pr_overlay :: hop_clock
  pr_slots :: peer_slots

fun probe_event :: "probe_ev \<Rightarrow> probes \<Rightarrow> probes" where
  "probe_event (Overlay_read t n) p =
     p\<lparr>pr_overlay := fst (probe_read t (Probe_bytes n) (pr_overlay p, None))\<rparr>"
| "probe_event (Origin_read t n) p =
     (case probe_read t (Probe_bytes n) (pr_origin p, Some (pr_overlay p, pr_slots p)) of
        (c, Some (_, sl)) \<Rightarrow> p\<lparr>pr_origin := c, pr_slots := sl\<rparr> | (c, None) \<Rightarrow> p)"

definition probes_new :: "instant \<Rightarrow> instant \<Rightarrow> probes" where
  "probes_new t0 t1 = \<lparr>pr_origin = hop_clock_new t0, pr_overlay = hop_clock_new t1, pr_slots = peer_slots_new\<rparr>"

text \<open>The last overlay read before each origin read, with the time of that origin read.\<close>

fun gaps :: "instant \<Rightarrow> instant \<Rightarrow> nat \<Rightarrow> probe_ev list \<Rightarrow> (nat \<times> nat) list" where
  "gaps t0 t1 crx [] = []"
| "gaps t0 t1 crx (Overlay_read t n # es) = gaps t0 t1 (if n > 0 then elapsed_us t t1 else crx) es"
| "gaps t0 t1 crx (Origin_read t n # es) =
     (if n > 0 then (crx, elapsed_us t t0) # gaps t0 t1 crx es else gaps t0 t1 crx es)"

fun origin_bytes :: "probe_ev list \<Rightarrow> nat" where
  "origin_bytes [] = 0"
| "origin_bytes (Origin_read t n # es) = n + origin_bytes es"
| "origin_bytes (Overlay_read t n # es) = origin_bytes es"

text \<open>The slots after more gaps: the strict maximum so far, with where it was seen.\<close>

definition gap_best :: "(nat \<times> nat) list \<Rightarrow> peer_slots \<Rightarrow> bool" where
  "gap_best gs sl \<longleftrightarrow> (\<forall>(crx, us)\<in>set gs. us - crx \<le> ps_max_gap sl)
     \<and> (ps_max_gap sl = 0
        \<or> (ps_crx_at_gap sl, ps_origin_at_gap sl) \<in> set gs \<and> ps_max_gap sl = ps_origin_at_gap sl - ps_crx_at_gap sl)"

lemma gap_best_sample:
  "gap_best gs sl \<Longrightarrow> gap_best (gs @ [(hc_last_rx peer, us)]) (sample_peer us peer sl)"
  by (auto simp: gap_best_def sample_peer_def Let_def)

lemma probe_fields:
  "hc_start (pr_origin (probe_event e p)) = hc_start (pr_origin p)"
  "hc_start (pr_overlay (probe_event e p)) = hc_start (pr_overlay p)"
  by (cases e; simp add: probe_read_def probe_clock_read_def Let_def)+

lemma probe_run_best:
  "gap_best gs (pr_slots p) \<Longrightarrow>
   gap_best (gs @ gaps (hc_start (pr_origin p)) (hc_start (pr_overlay p)) (hc_last_rx (pr_overlay p)) es)
     (pr_slots (fold probe_event es p))"
proof (induction es arbitrary: gs p)
  case (Cons e es)
  show ?case
  proof (cases e)
    case (Overlay_read t n)
    then show ?thesis
      using Cons.IH[of gs "probe_event e p"] Cons.prems probe_fields[of e p]
      by (cases "n > 0") (simp_all add: probe_read_def probe_clock_read_def Let_def)
  next
    case (Origin_read t n)
    let ?g = "(hc_last_rx (pr_overlay p), elapsed_us t (hc_start (pr_origin p)))"
    show ?thesis
    proof (cases "n > 0")
      case True
      have "gap_best (gs @ [?g]) (pr_slots (probe_event e p))"
        using gap_best_sample[OF Cons.prems] Origin_read True by (simp add: probe_read_def)
      from Cons.IH[OF this] show ?thesis
        using probe_fields[of e p] Origin_read True by (simp add: probe_read_def)
    next
      case False
      then show ?thesis using Cons.IH[OF Cons.prems] Origin_read by (simp add: probe_read_def)
    qed
  qed
qed simp

text \<open>
  The gap a server reports for a stream is the largest one: the longest time, over the reads of the
  origin, since the overlay last delivered, and the two times reported with it are those of that read.
\<close>

lemma probe_gap_largest:
  assumes "p = fold probe_event es (probes_new t0 t1)"
  shows "gap_best (gaps t0 t1 0 es) (pr_slots p)"
proof -
  have "gap_best [] (pr_slots (probes_new t0 t1))" by (simp add: gap_best_def probes_new_def peer_slots_new_def)
  from probe_run_best[OF this, of es] show ?thesis
    by (simp add: assms probes_new_def hop_clock_new_def)
qed

text \<open>A clock is 0 exactly while nothing was read, its first read is not after its last, and its bytes add up.\<close>

definition clock_ok :: "instant \<Rightarrow> hop_clock \<Rightarrow> bool" where
  "clock_ok now c \<longleftrightarrow> (hc_first_rx c = 0 \<longleftrightarrow> hc_rx_bytes c = 0) \<and> (hc_last_rx c = 0 \<longleftrightarrow> hc_rx_bytes c = 0)
     \<and> hc_first_rx c \<le> hc_last_rx c \<and> hc_last_rx c \<le> elapsed_us now (hc_start c)"

lemma elapsed_us_mono: "t \<le> u \<Longrightarrow> elapsed_us t s \<le> elapsed_us u s"
  unfolding elapsed_us_def by (intro max.mono as_micros_mono order_refl) (simp add: elapsed_def diff_le_mono)

lemma elapsed_us_pos: "0 < elapsed_us t s"
  by (simp add: elapsed_us_def)

lemma clock_read_ok:
  "clock_ok t c \<Longrightarrow> t \<le> u \<Longrightarrow> 0 < n \<Longrightarrow> clock_ok u (probe_clock_read u n c)"
  using elapsed_us_mono[of t u "hc_start c"] elapsed_us_pos[of u "hc_start c"]
  by (auto simp: clock_ok_def probe_clock_read_def Let_def intro: order_trans)

lemma clock_write_ok: "clock_ok t c \<Longrightarrow> clock_ok t (probe_write u ans c)"
  by (auto simp: clock_ok_def probe_write_def Let_def split: probe_poll.split)

section \<open>What a sample says\<close>

lemma foldl_max_ge: "(a::nat) \<le> foldl max a xs" "x \<in> set xs \<Longrightarrow> (x::nat) \<le> foldl max a xs"
proof (induction xs arbitrary: a x)
  case (Cons y ys)
  { case 1 then show ?case using Cons(1)[of "max a y"] by simp }
  { case 2 then show ?case using Cons(1)[of "max a y"] Cons(2)[of x "max a y"] by auto }
qed simp_all

lemma rank_covers: "Some v \<in> set (hop_times s) \<Longrightarrow> v \<le> rank_us s"
  unfolding rank_us_def by (rule foldl_max_ge(2)) (force simp: List.map_filter_def)

text \<open>The limiter names one side whatever was measured, and is silent only without stream counters.\<close>

lemma hop_limiter_names:
  "hop_limiter s = Some l \<Longrightarrow>
   l \<in> {''none'', ''budget'', ''window'', ''path'', ''overlay''} \<or> l = (case hs_role s of HopServer \<Rightarrow> ''origin'' | HopClient \<Rightarrow> ''app'')"
  by (auto simp: hop_limiter_def limiter_by_time_def limiter_def sender_limiter_def Let_def
      split: option.splits prod.splits if_splits)

text \<open>A truncated host is a prefix of the host and whole characters of it.\<close>

lemma take_chars_prefix: "\<exists>rest. h = take_chars n h @ rest"
  by (induction n h rule: take_chars.induct) (auto split: nat.split)

lemma take_chars_count: "length (filter (\<lambda>b. \<not> cont_byte b) (take_chars n h)) \<le> n"
  by (induction n h rule: take_chars.induct) (auto split: nat.split)

end
