(* ===== verification/Metrics.thy ===== *)
theory Metrics
  imports Wire_Frame Float64 Handshake Hop_Sample "HOL-Library.List_Lexorder"
begin

text \<open>
  \<open>nya-core/src/metrics.rs\<close>: histograms with fixed bounds, their snapshots, merging and
  percentiles; the roll-up of path rows into links; the counters of failed handshakes and the slowest
  hop of an interval. Counters are exact numbers: none of them can reach \<open>2^64\<close>.
\<close>

section \<open>Histograms\<close>

definition FAILOVER_MS_BOUNDS :: "nat list" where
  "FAILOVER_MS_BOUNDS = [5, 10, 20, 50, 100, 200, 500, 1000, 2000]"
definition STALL_MS_BOUNDS :: "nat list" where
  "STALL_MS_BOUNDS = [20, 50, 100, 200, 500, 1000, 2000, 5000, 10000]"
definition LIFETIME_MS_BOUNDS :: "nat list" where
  "LIFETIME_MS_BOUNDS = [100, 500, 1000, 5000, 30000, 60000, 300000]"
definition ACK_FLUSH_US_BOUNDS :: "nat list" where
  "ACK_FLUSH_US_BOUNDS = [500, 1000, 2000, 5000, 10000, 20000, 50000, 100000, 200000]"
definition RECV_CAP_BYTES_BOUNDS :: "nat list" where
  "RECV_CAP_BYTES_BOUNDS = [128 * 1024, 256 * 1024, 512 * 1024, 1024 * 1024, 2 * 1024 * 1024, 4 * 1024 * 1024, 8 * 1024 * 1024]"

record hist_snap =
  hs_buckets :: "nat list"
  hs_sum :: nat
  hs_count :: nat

record histogram = hist_snap +
  hs_bounds :: "nat list"

definition hist_new :: "nat list \<Rightarrow> histogram" where
  "hist_new bounds = \<lparr>hs_buckets = replicate (length bounds + 1) 0, hs_sum = 0, hs_count = 0, hs_bounds = bounds\<rparr>"

text \<open>The first bound that is not exceeded; past the last one for the rest.\<close>

fun bucket_of :: "nat list \<Rightarrow> nat \<Rightarrow> nat" where
  "bucket_of [] v = 0"
| "bucket_of (b # bs) v = (if v \<le> b then 0 else Suc (bucket_of bs v))"

definition hist_observe :: "nat \<Rightarrow> histogram \<Rightarrow> histogram" where
  "hist_observe v h =
     (let i = bucket_of (hs_bounds h) v in
      h\<lparr>hs_buckets := (hs_buckets h)[i := hs_buckets h ! i + 1], hs_sum := hs_sum h + v, hs_count := hs_count h + 1\<rparr>)"

definition hist_snapshot :: "histogram \<Rightarrow> hist_snap" where
  "hist_snapshot h = \<lparr>hs_buckets = hs_buckets h, hs_sum = hs_sum h, hs_count = hs_count h\<rparr>"

definition hist_zeroed :: "nat list \<Rightarrow> hist_snap" where
  "hist_zeroed bounds = \<lparr>hs_buckets = replicate (length bounds + 1) 0, hs_sum = 0, hs_count = 0\<rparr>"

text \<open>The mismatch of lengths is a debug assertion; a release build leaves the accumulator.\<close>

definition merge_add :: "hist_snap \<Rightarrow> hist_snap \<Rightarrow> hist_snap" where
  "merge_add s t =
     (if hs_buckets t = [] then s
      else if hs_buckets s = [] then t
      else if length (hs_buckets s) \<noteq> length (hs_buckets t) then s
      else \<lparr>hs_buckets = map2 (+) (hs_buckets s) (hs_buckets t), hs_sum = hs_sum s + hs_sum t,
             hs_count = hs_count s + hs_count t\<rparr>)"

section \<open>Percentiles\<close>

text \<open>\<open>f64::ceil\<close>, \<open>f64::round\<close> (ties away from zero) and \<open>f64::max\<close>.\<close>

fun f64_ceil :: "f64 \<Rightarrow> f64" where
  "f64_ceil (F64 a i) = F64 ((a + (2 ^ i - 1)) div 2 ^ i) 0"

fun f64_nearest :: "f64 \<Rightarrow> f64" where
  "f64_nearest (F64 a i) = F64 ((2 * a + 2 ^ i) div 2 ^ (i + 1)) 0"

definition f64_max :: "f64 \<Rightarrow> f64 \<Rightarrow> f64" where
  "f64_max x y = (if f64_le x y then y else x)"

definition pct_target :: "f64 \<Rightarrow> nat \<Rightarrow> nat" where
  "pct_target p n =
     f64_to_u64 (f64_max (f64_ceil (f64_mul (f64_div (f64_min p (F64 100 0)) (F64 100 0)) (f64_of_nat n))) (F64 1 0))"

definition last_bound :: "nat list \<Rightarrow> nat option" where
  "last_bound bounds = (if bounds = [] then None else Some (last bounds))"

text \<open>The value inside the bucket that holds the target.\<close>

definition pct_value :: "nat list \<Rightarrow> nat \<Rightarrow> nat \<Rightarrow> nat \<Rightarrow> nat \<Rightarrow> nat option" where
  "pct_value bounds target i before c =
     (if length bounds \<le> i then last_bound bounds
      else let lower = (if i = 0 then 0 else bounds ! (i - 1)); upper = bounds ! i;
               need = max (target - before) 1 in
        if c = 0 then Some upper
        else let frac = f64_min (f64_div (f64_of_nat need) (f64_of_nat c)) (F64 1 0) in
          Some (f64_to_u64 (f64_nearest
            (f64_add (f64_of_nat lower) (f64_mul (f64_of_nat (upper - lower)) frac)))))"

fun pct_scan :: "nat list \<Rightarrow> nat \<Rightarrow> nat \<Rightarrow> nat \<Rightarrow> nat list \<Rightarrow> nat option" where
  "pct_scan bounds target i acc [] = last_bound bounds"
| "pct_scan bounds target i acc (c # cs) =
     (let acc1 = sat_add acc c in
      if target \<le> acc1 then pct_value bounds target i (acc1 - c) c
      else pct_scan bounds target (i + 1) acc1 cs)"

definition percentile :: "hist_snap \<Rightarrow> nat list \<Rightarrow> f64 \<Rightarrow> nat option" where
  "percentile s bounds p =
     (if hs_count s = 0 \<or> hs_buckets s = [] \<or> num p = 0 then None
      else pct_scan bounds (pct_target p (hs_count s)) 0 0 (hs_buckets s))"

section \<open>Links\<close>

text \<open>The columns of a path row the roll-up reads.\<close>

record path_snap =
  ps_name :: bytes
  ps_link :: bytes
  ps_rtt_us :: nat
  ps_rtt_known :: bool
  ps_up :: bool
  ps_degraded :: bool
  ps_congested :: bool
  ps_inflight :: nat
  ps_sticky :: nat
  ps_last_rx_ago_us :: nat
  ps_queued_urgent :: nat
  ps_queued_bulk :: nat

record link_acc =
  la_conns :: nat
  la_up :: nat
  la_deg :: nat
  la_inflight :: nat
  la_sticky :: nat
  la_congested :: nat
  la_queued_urgent :: nat
  la_queued_bulk :: nat
  la_known :: nat
  la_rtt_min :: "nat option"
  la_rtt_max :: "nat option"
  la_any_min :: "nat option"
  la_any_max :: "nat option"
  la_rx_fresh :: "nat option"
  la_rx_stale :: "nat option"

definition link_acc_default :: link_acc where
  "link_acc_default = \<lparr>la_conns = 0, la_up = 0, la_deg = 0, la_inflight = 0, la_sticky = 0, la_congested = 0,
     la_queued_urgent = 0, la_queued_bulk = 0, la_known = 0, la_rtt_min = None, la_rtt_max = None,
     la_any_min = None, la_any_max = None, la_rx_fresh = None, la_rx_stale = None\<rparr>"

definition opt_min :: "nat option \<Rightarrow> nat \<Rightarrow> nat option" where
  "opt_min x v = Some (case x of None \<Rightarrow> v | Some y \<Rightarrow> min y v)"

definition opt_max :: "nat option \<Rightarrow> nat \<Rightarrow> nat option" where
  "opt_max x v = Some (case x of None \<Rightarrow> v | Some y \<Rightarrow> max y v)"

definition add_path :: "path_snap \<Rightarrow> link_acc \<Rightarrow> link_acc" where
  "add_path p a = a\<lparr>
     la_conns := la_conns a + 1,
     la_up := la_up a + (if ps_up p then 1 else 0),
     la_deg := la_deg a + (if \<not> ps_up p \<and> ps_degraded p then 1 else 0),
     la_congested := la_congested a + (if ps_congested p then 1 else 0),
     la_inflight := la_inflight a + ps_inflight p,
     la_sticky := la_sticky a + ps_sticky p,
     la_queued_urgent := la_queued_urgent a + ps_queued_urgent p,
     la_queued_bulk := la_queued_bulk a + ps_queued_bulk p,
     la_any_min := opt_min (la_any_min a) (ps_rtt_us p),
     la_any_max := opt_max (la_any_max a) (ps_rtt_us p),
     la_known := la_known a + (if ps_rtt_known p then 1 else 0),
     la_rtt_min := (if ps_rtt_known p then opt_min (la_rtt_min a) (ps_rtt_us p) else la_rtt_min a),
     la_rtt_max := (if ps_rtt_known p then opt_max (la_rtt_max a) (ps_rtt_us p) else la_rtt_max a),
     la_rx_fresh := opt_min (la_rx_fresh a) (ps_last_rx_ago_us p),
     la_rx_stale := opt_max (la_rx_stale a) (ps_last_rx_ago_us p)\<rparr>"

text \<open>\<open>BTreeMap::entry(k).or_default()\<close> on a map kept in key order.\<close>

fun btree_entry :: "'k::linorder \<Rightarrow> 'v \<Rightarrow> ('v \<Rightarrow> 'v) \<Rightarrow> ('k \<times> 'v) list \<Rightarrow> ('k \<times> 'v) list" where
  "btree_entry k z f [] = [(k, f z)]"
| "btree_entry k z f ((j, v) # r) =
     (if k < j then (k, f z) # (j, v) # r
      else if k = j then (j, f v) # r
      else (j, v) # btree_entry k z f r)"

record link_snap =
  ln_name :: bytes
  ln_conns :: nat
  ln_up :: nat
  ln_degraded :: nat
  ln_rtt_us :: nat
  ln_rtt_max_us :: nat
  ln_inflight :: nat
  ln_sticky :: nat
  ln_congested :: nat
  ln_rx_fresh_us :: nat
  ln_rx_stale_us :: nat
  ln_queued_urgent :: nat
  ln_queued_bulk :: nat
  ln_rtt_known :: nat

definition or_zero_of :: "nat option \<Rightarrow> nat" where
  "or_zero_of x = (case x of None \<Rightarrow> 0 | Some v \<Rightarrow> v)"

definition link_of_acc :: "bytes \<Rightarrow> link_acc \<Rightarrow> link_snap" where
  "link_of_acc name a =
     (let (lo, hi) = (case (la_rtt_min a, la_rtt_max a) of
            (Some lo, Some hi) \<Rightarrow> (lo, hi) | _ \<Rightarrow> (or_zero_of (la_any_min a), or_zero_of (la_any_max a))) in
      \<lparr>ln_name = name, ln_conns = la_conns a, ln_up = la_up a, ln_degraded = la_deg a, ln_rtt_us = lo,
       ln_rtt_max_us = hi, ln_inflight = la_inflight a, ln_sticky = la_sticky a, ln_congested = la_congested a,
       ln_rx_fresh_us = or_zero_of (la_rx_fresh a), ln_rx_stale_us = or_zero_of (la_rx_stale a),
       ln_queued_urgent = la_queued_urgent a, ln_queued_bulk = la_queued_bulk a, ln_rtt_known = la_known a\<rparr>)"

definition rollup_links :: "path_snap list \<Rightarrow> link_snap list" where
  "rollup_links paths =
     map (\<lambda>(name, a). link_of_acc name a)
       (foldl (\<lambda>m p. btree_entry (ps_link p) link_acc_default (add_path p) m) [] paths)"

text \<open>With several sessions the names of a session's paths and links get the session's prefix.\<close>

definition hex_digit :: "nat \<Rightarrow> byte" where
  "hex_digit n = (if n < 10 then word_of_nat (48 + n) else word_of_nat (87 + n))"

definition hex_byte :: "byte \<Rightarrow> bytes" where
  "hex_byte b = [hex_digit (unat b div 16), hex_digit (unat b mod 16)]"

definition hex4 :: "bytes \<Rightarrow> bytes" where
  "hex4 i = hex_byte (i ! 0) @ hex_byte (i ! 1)"

section \<open>Failed handshakes\<close>

record handshake_fails =
  hf_auth :: nat
  hf_version :: nat
  hf_unknown :: nat
  hf_other :: nat

fun contains :: "bytes \<Rightarrow> bytes \<Rightarrow> bool" where
  "contains pat [] = (pat = [])"
| "contains pat (x # xs) = (take (length pat) (x # xs) = pat \<or> contains pat xs)"

definition inc_handshake_fail :: "handshake_error \<Rightarrow> handshake_fails \<Rightarrow> handshake_fails" where
  "inc_handshake_fail e f =
     (case e of
        HsRejected m \<Rightarrow>
          if contains (ascii ''version'') m then f\<lparr>hf_version := hf_version f + 1\<rparr>
          else if contains (ascii ''auth'') m then f\<lparr>hf_auth := hf_auth f + 1\<rparr>
          else f\<lparr>hf_other := hf_other f + 1\<rparr>
      | HsUnknownSession \<Rightarrow> f\<lparr>hf_unknown := hf_unknown f + 1\<rparr>
      | _ \<Rightarrow> f\<lparr>hf_other := hf_other f + 1\<rparr>)"

section \<open>Hops\<close>

text \<open>
  What the process keeps of its hops: how many were reaped, a histogram for each time of interest,
  and the sample of the largest rank since the last report.
\<close>

record hop_counters =
  hm_reaped :: nat
  hm_open :: histogram
  hm_first_rx :: histogram
  hm_last_rx :: histogram
  hm_dial :: histogram
  hm_origin_first :: histogram
  hm_origin_last :: histogram
  hm_tail :: "hop_sample option"

definition hop_counters_new :: hop_counters where
  "hop_counters_new =
     (let h = hist_new STALL_MS_BOUNDS
      in \<lparr>hm_reaped = 0, hm_open = h, hm_first_rx = h, hm_last_rx = h, hm_dial = h, hm_origin_first = h,
          hm_origin_last = h, hm_tail = None\<rparr>)"

definition observe_us_as_ms :: "nat option \<Rightarrow> histogram \<Rightarrow> histogram" where
  "observe_us_as_ms us h = (case us of Some v \<Rightarrow> hist_observe (v div 1000) h | None \<Rightarrow> h)"

definition record_tail :: "hop_sample \<Rightarrow> hop_sample option \<Rightarrow> hop_sample option" where
  "record_tail s tail =
     (case tail of
        Some cur \<Rightarrow> if rank_us s \<le> rank_us cur then Some cur else Some s
      | None \<Rightarrow> Some s)"

definition record_hop :: "hop_sample \<Rightarrow> hop_counters \<Rightarrow> hop_counters" where
  "record_hop s c =
     (let c1 = (if hs_close s = Some (ascii ''reaped'') then c\<lparr>hm_reaped := hm_reaped c + 1\<rparr> else c);
          c2 = (case hs_role s of
                  HopClient \<Rightarrow> c1\<lparr>hm_open := observe_us_as_ms (hs_open s) (hm_open c1),
                    hm_first_rx := observe_us_as_ms (hs_first_rx s) (hm_first_rx c1),
                    hm_last_rx := observe_us_as_ms (hs_last_rx s) (hm_last_rx c1)\<rparr>
                | HopServer \<Rightarrow> c1\<lparr>hm_dial := observe_us_as_ms (hs_dial s) (hm_dial c1),
                    hm_origin_first := observe_us_as_ms (hs_origin_first_rx s) (hm_origin_first c1),
                    hm_origin_last := observe_us_as_ms (hs_origin_last_rx s) (hm_origin_last c1)\<rparr>)
      in c2\<lparr>hm_tail := record_tail s (hm_tail c2)\<rparr>)"

definition take_interval_tail :: "hop_counters \<Rightarrow> hop_sample option \<times> hop_counters" where
  "take_interval_tail c = (hm_tail c, c\<lparr>hm_tail := None\<rparr>)"

end
