(* ===== verification/Metrics_Facts.thy ===== *)
theory Metrics_Facts
  imports Metrics "HOL-Library.Multiset"
begin

text \<open>
  What the metrics promise: merged histograms are those of all observations together, a percentile
  lies in the bucket of the observation of its rank, and the roll-up is a grouping by link.
\<close>

section \<open>Histograms\<close>

definition hist_of :: "nat list \<Rightarrow> nat list \<Rightarrow> hist_snap" where
  "hist_of bounds vs = hist_snapshot (foldl (\<lambda>h v. hist_observe v h) (hist_new bounds) vs)"

definition in_bucket :: "nat list \<Rightarrow> nat \<Rightarrow> nat list \<Rightarrow> nat" where
  "in_bucket bounds i vs = length (filter (\<lambda>v. bucket_of bounds v = i) vs)"

lemma bucket_of_le: "bucket_of bounds v \<le> length bounds"
  by (induction bounds) auto

lemma bucket_of_mono: "v \<le> w \<Longrightarrow> bucket_of bounds v \<le> bucket_of bounds w"
  by (induction bounds) auto

text \<open>The buckets count, by bucket, what was observed.\<close>

lemma hist_counts:
  "foldl (\<lambda>h v. hist_observe v h) (hist_new bounds) vs
   = \<lparr>hs_buckets = map (\<lambda>i. in_bucket bounds i vs) [0..<length bounds + 1], hs_sum = sum_list vs,
      hs_count = length vs, hs_bounds = bounds\<rparr>"
proof (induction vs rule: rev_induct)
  case Nil
  show ?case by (simp add: hist_new_def in_bucket_def map_replicate_const)
next
  case (snoc v vs)
  have b: "bucket_of bounds v < length bounds + 1" using bucket_of_le[of bounds v] by simp
  have "(map (\<lambda>i. in_bucket bounds i vs) [0..<length bounds + 1])
        [bucket_of bounds v := in_bucket bounds (bucket_of bounds v) vs + 1]
      = map (\<lambda>i. in_bucket bounds i (vs @ [v])) [0..<length bounds + 1]"
    by (rule nth_equalityI) (auto simp: nth_list_update in_bucket_def simp del: upt_Suc)
  then show ?case unfolding foldl_append foldl.simps snoc.IH
    using b by (simp add: hist_observe_def Let_def del: upt_Suc)
qed

lemma hist_of_counts:
  "hist_of bounds vs = \<lparr>hs_buckets = map (\<lambda>i. in_bucket bounds i vs) [0..<length bounds + 1],
     hs_sum = sum_list vs, hs_count = length vs\<rparr>"
  by (simp add: hist_of_def hist_counts hist_snapshot_def)

text \<open>
  Merging histograms loses nothing. The snapshot of a histogram merged with that of another over
  the same bounds is the snapshot of one histogram that made both lots of observations; a zeroed
  snapshot adds nothing, and the buckets add up to the count.
\<close>

lemma hist_merge_both:
  "merge_add (hist_of bounds vs) (hist_of bounds ws) = hist_of bounds (vs @ ws)
   \<and> merge_add (hist_zeroed bounds) (hist_of bounds vs) = hist_of bounds vs
   \<and> sum_list (hs_buckets (hist_of bounds vs)) = hs_count (hist_of bounds vs)"
proof -
  have "sum_list (map (\<lambda>i. in_bucket bounds i vs) [0..<length bounds + 1]) = length vs"
  proof (induction vs)
    case (Cons v vs)
    have "in_bucket bounds i (v # vs) = (if i = bucket_of bounds v then 1 else 0) + in_bucket bounds i vs" for i
      by (simp add: in_bucket_def)
    then have "sum_list (map (\<lambda>i. in_bucket bounds i (v # vs)) [0..<length bounds + 1])
        = (\<Sum>i\<leftarrow>[0..<length bounds + 1]. if i = bucket_of bounds v then 1 else 0)
          + sum_list (map (\<lambda>i. in_bucket bounds i vs) [0..<length bounds + 1])"
      by (simp only: sum_list_addf)
    moreover have "(\<Sum>i\<leftarrow>[0..<length bounds + 1]. if i = bucket_of bounds v then 1 else (0::nat)) = 1"
      using bucket_of_le[of bounds v] by (subst interv_sum_list_conv_sum_set_nat) (simp add: sum.delta)
    ultimately show ?case using Cons by simp
  qed (simp add: in_bucket_def sum_list_triv)
  moreover have "map2 (+) (map f xs) (map g xs) = map (\<lambda>i. f i + g i) xs" for f g :: "nat \<Rightarrow> nat" and xs
    by (induction xs) simp_all
  moreover have "map2 (+) (replicate n 0) (map f [0..<n]) = map f [0..<n]" for f :: "nat \<Rightarrow> nat" and n
    by (rule nth_equalityI) simp_all
  ultimately show ?thesis
    by (simp add: hist_of_counts merge_add_def hist_zeroed_def in_bucket_def del: upt_Suc replicate_Suc)
qed

section \<open>Rounding\<close>

lemma rnd53_scaled: "n < 2 ^ 53 \<Longrightarrow> rnd53 (n * 2 ^ s) = n * 2 ^ s"
proof -
  assume n: "n < 2 ^ 53"
  define b where "b = floorlog 2 (n * 2 ^ s)"
  have "n * 2 ^ s < 2 ^ (53 + s)" using n by (simp add: power_add)
  then have b: "b - 53 \<le> s" using floorlog2_le_iff[of "n * 2 ^ s" "53 + s"] by (simp add: b_def)
  then have "n * 2 ^ s = n * 2 ^ (s - (b - 53)) * 2 ^ (b - 53)" by (simp flip: power_add add: mult.assoc)
  then have "rne (n * 2 ^ s) (b - 53) = n * 2 ^ (s - (b - 53))" using rne_exact by metis
  then show ?thesis using b by (simp add: rnd53_def b_def[symmetric] Let_def flip: power_add add: mult.assoc)
qed

text \<open>A value is at most a small integer when its numerator is.\<close>

lemma rnd53_le_scaled: "m \<le> n * 2 ^ s \<Longrightarrow> n < 2 ^ 53 \<Longrightarrow> rnd53 m \<le> n * 2 ^ s"
  using rnd53_mono[of m "n * 2 ^ s"] rnd53_scaled[of n s] by simp

lemma rnd53_ge_scaled: "n * 2 ^ s \<le> m \<Longrightarrow> n < 2 ^ 53 \<Longrightarrow> n * 2 ^ s \<le> rnd53 m"
  using rnd53_mono[of "n * 2 ^ s" m] rnd53_scaled[of n s] by simp

definition f64_at_most :: "f64 \<Rightarrow> nat \<Rightarrow> bool" where
  "f64_at_most x n \<longleftrightarrow> num x \<le> n * 2 ^ sh x"

lemma min_at_most: "f64_at_most (f64_min x (F64 n 0)) n"
  by (cases x) (auto simp: f64_min_def f64_at_most_def)

lemma mul_at_most:
  assumes "n < 2 ^ 53" and "f64_at_most x 1"
  shows "f64_at_most (f64_mul (f64_of_nat n) x) n \<and> f64_at_most (f64_mul x (f64_of_nat n)) n"
proof (cases x)
  case (F64 a i)
  have "n * a \<le> n * 2 ^ i" using assms(2) F64 by (simp add: f64_at_most_def)
  then have "rnd53 (n * a) \<le> n * 2 ^ i" by (rule rnd53_le_scaled[OF _ assms(1)])
  then show ?thesis using F64 assms(1) by (simp add: f64_of_nat_exact f64_at_most_def mult.commute)
qed

lemma div_100_at_most: "f64_at_most x 100 \<Longrightarrow> f64_at_most (f64_div x (F64 100 0)) 1"
proof (cases x)
  case (F64 a i)
  assume "f64_at_most x 100"
  then have a: "a \<le> 100 * 2 ^ i" using F64 by (simp add: f64_at_most_def)
  have fl: "floorlog 2 (100::nat) = 7" by (simp add: compute_floorlog)
  let ?q = "a * 2 ^ 69 div 100" and ?r = "a * 2 ^ 69 mod 100"
  have "a * 2 ^ 69 \<le> 100 * 2 ^ (i + 69)" using a by (simp add: power_add)
  then have q: "?q \<le> 2 ^ (i + 69)" by (simp add: div_le_mono[of _ "100 * 2 ^ (i + 69)" 100, simplified])
  have "2 * ?q + (if ?r = 0 then 0 else 1) \<le> 2 ^ (i + 70)"
  proof (cases "?r = 0")
    case True
    then show ?thesis using q by (simp add: power_add)
  next
    case False
    have "?q \<noteq> 2 ^ (i + 69)"
    proof
      assume "?q = 2 ^ (i + 69)"
      then have "a * 2 ^ 69 = 2 ^ (i + 69) * 100 + ?r" by (metis div_mult_mod_eq)
      then show False using False a by (simp add: power_add)
    qed
    then show ?thesis using q False by (simp add: power_add)
  qed
  then have r: "rnd53 (2 * ?q + (if ?r = 0 then 0 else 1)) \<le> 1 * 2 ^ (i + 70)"
    by (intro rnd53_le_scaled) simp_all
  have e: "f64_div (F64 a i) (F64 100 0) = F64 (rnd53 (2 * ?q + (if ?r = 0 then 0 else 1))) (i + 70)"
    by (simp add: fl Let_def)
  show ?thesis unfolding F64 e f64_at_most_def f64.sel by (rule r)
qed

lemma ceil_at_most: "f64_at_most x n \<Longrightarrow> f64_at_most (f64_ceil x) n"
proof (cases x)
  case (F64 a i)
  assume "f64_at_most x n"
  then have "a \<le> n * 2 ^ i" "(1::nat) \<le> 2 ^ i" using F64 by (simp_all add: f64_at_most_def)
  then have "a + (2 ^ i - 1) < (n + 1) * 2 ^ i" unfolding add_mult_distrib by linarith
  then have "(a + (2 ^ i - 1)) div 2 ^ i < n + 1" by (rule less_mult_imp_div_less)
  then show ?thesis using F64 by (simp add: f64_at_most_def)
qed

lemma pct_target_range:
  assumes "0 < n" "n < 2 ^ 53"
  shows "1 \<le> pct_target p n \<and> pct_target p n \<le> n"
proof -
  let ?c = "f64_ceil (f64_mul (f64_div (f64_min p (F64 100 0)) (F64 100 0)) (f64_of_nat n))"
  have c: "f64_at_most ?c n"
    using ceil_at_most mul_at_most[OF assms(2)] div_100_at_most[OF min_at_most] by blast
  obtain m where m: "?c = F64 m 0" by (cases "f64_mul (f64_div (f64_min p (F64 100 0)) (F64 100 0)) (f64_of_nat n)") simp
  have "m \<le> n" using c unfolding m f64_at_most_def by simp
  then show ?thesis using assms unfolding pct_target_def m by (simp add: f64_max_def u64_max_def)
qed

section \<open>Percentiles\<close>

text \<open>The value computed inside a bucket stays inside it.\<close>

lemma value_in_bucket:
  assumes "i < length bounds" "upper = bounds ! i" "lower = (if i = 0 then 0 else bounds ! (i - 1))"
    and "lower \<le> upper" "upper < 2 ^ 53"
  shows "\<exists>r. pct_value bounds target i before c = Some r \<and> lower \<le> r \<and> r \<le> upper"
proof (cases "c = 0")
  case True
  then show ?thesis using assms by (simp add: pct_value_def Let_def)
next
  case False
  let ?w = "upper - lower" and ?x = "f64_min (f64_div (f64_of_nat (max (target - before) 1)) (f64_of_nat c)) (F64 1 0)"
  let ?m = "f64_mul (f64_of_nat ?w) ?x"
  have w: "?w < 2 ^ 53" "lower < 2 ^ 53" using assms by auto
  obtain a i' where m: "?m = F64 a i'" by (cases ?m)
  have a: "a \<le> ?w * 2 ^ i'" using mul_at_most[OF w(1) min_at_most[of _ 1, of "f64_div (f64_of_nat (max (target - before) 1)) (f64_of_nat c)"]]
    unfolding m f64_at_most_def by simp
  let ?s = "rnd53 (lower * 2 ^ i' + a)"
  have s: "f64_add (f64_of_nat lower) ?m = F64 ?s i'" unfolding m f64_of_nat_exact[OF w(2)] by simp
  have "lower * 2 ^ i' + a \<le> lower * 2 ^ i' + ?w * 2 ^ i'" using a by simp
  also have "\<dots> = upper * 2 ^ i'" using assms(4) by (simp flip: add_mult_distrib)
  finally have up: "?s \<le> upper * 2 ^ i'" by (rule rnd53_le_scaled[OF _ assms(5)])
  have lo: "lower * 2 ^ i' \<le> ?s" by (rule rnd53_ge_scaled[OF _ w(2)]) simp
  let ?r = "(2 * ?s + 2 ^ i') div 2 ^ (i' + 1)"
  have "(upper + 1) * 2 ^ (i' + 1) = 2 * (upper * 2 ^ i') + 2 * 2 ^ i'" by (simp add: algebra_simps)
  moreover have "(0::nat) < 2 ^ i'" by simp
  ultimately have "2 * ?s + 2 ^ i' < (upper + 1) * 2 ^ (i' + 1)" using up by linarith
  then have "?r < upper + 1" by (rule less_mult_imp_div_less)
  then have r: "?r \<le> upper" by simp
  have "lower * 2 ^ (i' + 1) \<le> 2 * ?s + 2 ^ i'" using lo by simp
  then have l: "lower \<le> ?r" by (simp only: less_eq_div_iff_mult_less_eq zero_less_power zero_less_numeral)
  have "upper \<le> u64_max" using assms(5) by (simp add: u64_max_def)
  then have "f64_to_u64 (f64_nearest (F64 ?s i')) = ?r" using r by simp
  then have "pct_value bounds target i before c = Some ?r"
    using assms(1-3) False s by (simp add: pct_value_def Let_def)
  with l r show ?thesis by blast
qed

text \<open>The scan stops at the bucket in which the running count reaches the target.\<close>

lemma scan_hits:
  assumes "acc < target" "target \<le> acc + sum_list cs" "acc + sum_list cs \<le> u64_max"
  shows "\<exists>j < length cs. acc + sum_list (take j cs) < target \<and> target \<le> acc + sum_list (take (j + 1) cs)
    \<and> pct_scan bounds target i acc cs = pct_value bounds target (i + j) (acc + sum_list (take j cs)) (cs ! j)"
  using assms
proof (induction cs arbitrary: i acc)
  case (Cons c cs)
  have s: "sat_add acc c = acc + c" using Cons.prems(3) by (simp add: sat_add_exact)
  show ?case
  proof (cases "target \<le> acc + c")
    case True
    then show ?thesis using Cons.prems(1) by (intro exI[of _ 0]) (simp add: s Let_def)
  next
    case False
    from Cons.IH[of "acc + c" "i + 1"] False Cons.prems obtain j where j: "j < length cs"
      "acc + c + sum_list (take j cs) < target" "target \<le> acc + c + sum_list (take (j + 1) cs)"
      "pct_scan bounds target (i + 1) (acc + c) cs = pct_value bounds target (i + 1 + j) (acc + c + sum_list (take j cs)) (cs ! j)"
      by (auto simp: add.assoc)
    then show ?thesis using False by (intro exI[of _ "Suc j"]) (simp add: s Let_def add.assoc)
  qed
qed simp

lemma take_in_bucket:
  "j \<le> n \<Longrightarrow> sum_list (take j (map (\<lambda>i. in_bucket bounds i vs) [0..<n])) = length (filter (\<lambda>v. bucket_of bounds v < j) vs)"
proof (induction j)
  case (Suc j)
  have "length (filter (\<lambda>v. bucket_of bounds v < Suc j) vs)
      = length (filter (\<lambda>v. bucket_of bounds v < j) vs) + in_bucket bounds j vs"
    unfolding in_bucket_def by (induction vs) auto
  then show ?case using Suc by (simp add: take_Suc_conv_app_nth)
qed simp

lemma sorted_prefix:
  "sorted ys \<Longrightarrow> (\<And>x y. x \<le> y \<Longrightarrow> P y \<Longrightarrow> P x) \<Longrightarrow> k < length ys \<Longrightarrow> P (ys ! k) \<longleftrightarrow> k < length (filter P ys)"
proof (induction ys arbitrary: k)
  case (Cons y ys)
  have none: "\<not> P z" if "\<not> P y" "z \<in> set ys" for z using that Cons.prems(1,2) by auto
  show ?case
  proof (cases "P y")
    case True
    then show ?thesis using Cons by (cases k) auto
  next
    case False
    then have "filter P ys = []" using none by (auto simp: filter_empty_conv)
    then show ?thesis using False none Cons.prems(3) by (cases k) auto
  qed
qed simp

text \<open>
  C39: A percentile lies in the bucket of the observation of its rank. For any observations under
  increasing bounds the rank is between 1 and their number, and the value returned is between the
  bounds of the bucket that holds the observation of that rank in sorted order, or the last bound
  when that observation is past it.
\<close>

theorem percentile_in_bucket:
  assumes "sorted bounds" "bounds \<noteq> []" "last bounds < 2 ^ 53"
    and "0 < length vs" "length vs < 2 ^ 53" "num p \<noteq> 0"
  defines "rank \<equiv> pct_target p (length vs)"
  defines "i \<equiv> bucket_of bounds (sort vs ! (rank - 1))"
  shows "1 \<le> rank \<and> rank \<le> length vs
    \<and> (\<exists>r. percentile (hist_of bounds vs) bounds p = Some r
        \<and> (if i < length bounds then (if i = 0 then 0 else bounds ! (i - 1)) \<le> r \<and> r \<le> bounds ! i
           else r = last bounds))"
proof -
  let ?B = "map (\<lambda>i. in_bucket bounds i vs) [0..<length bounds + 1]"
  let ?below = "\<lambda>j. length (filter (\<lambda>v. bucket_of bounds v < j) vs)"
  have t: "1 \<le> rank" "rank \<le> length vs" using pct_target_range[OF assms(4,5)] unfolding rank_def by blast+
  have all: "sum_list ?B = length vs"
    using hist_merge_both[of bounds vs] by (simp add: hist_of_counts del: upt_Suc)
  have "length vs \<le> u64_max" using assms(5) by (simp add: u64_max_def)
  then obtain j where j: "j < length bounds + 1" "sum_list (take j ?B) < rank" "rank \<le> sum_list (take (j + 1) ?B)"
    and sc: "pct_scan bounds rank 0 0 ?B = pct_value bounds rank j (sum_list (take j ?B)) (?B ! j)"
    using scan_hits[of 0 rank ?B bounds 0] t all by (auto simp del: upt_Suc)
  have below: "?below j < rank" "rank \<le> ?below (j + 1)"
    using j take_in_bucket[of j "length bounds + 1"] take_in_bucket[of "j + 1" "length bounds + 1"]
    by (simp_all del: upt_Suc)
  have cnt: "length (filter Q (sort vs)) = length (filter Q vs)" for Q
    by (metis mset_filter mset_sort size_mset)
  have pos: "bucket_of bounds (sort vs ! (rank - 1)) < k \<longleftrightarrow> rank - 1 < ?below k" for k
  proof -
    have "bucket_of bounds (sort vs ! (rank - 1)) < k \<longleftrightarrow> rank - 1 < length (filter (\<lambda>v. bucket_of bounds v < k) (sort vs))"
      by (rule sorted_prefix) (use t in \<open>auto intro: le_less_trans[OF bucket_of_mono]\<close>)
    then show ?thesis unfolding cnt .
  qed
  have i: "i = j" using pos[of j] pos[of "j + 1"] below t unfolding i_def by linarith
  have val: "percentile (hist_of bounds vs) bounds p = pct_value bounds rank j (sum_list (take j ?B)) (?B ! j)"
    using assms(4,6) sc by (simp add: percentile_def hist_of_counts rank_def del: upt_Suc)
  have "\<exists>r. percentile (hist_of bounds vs) bounds p = Some r
        \<and> (if i < length bounds then (if i = 0 then 0 else bounds ! (i - 1)) \<le> r \<and> r \<le> bounds ! i
           else r = last bounds)"
  proof (cases "j < length bounds")
    case True
    have "bounds ! j \<le> last bounds" using assms(1,2) True by (simp add: last_conv_nth sorted_nth_mono)
    then have "bounds ! j < 2 ^ 53" using assms(3) by simp
    moreover have "(if j = 0 then 0 else bounds ! (j - 1)) \<le> bounds ! j"
      using assms(1) True by (simp add: sorted_nth_mono)
    ultimately show ?thesis using value_in_bucket[OF True refl refl] True unfolding val i by simp
  next
    case False
    then show ?thesis using assms(2) unfolding val i by (simp add: pct_value_def last_bound_def)
  qed
  then show ?thesis using t by blast
qed

theorem percentile_in_bucket_witness:
  "\<exists>r. percentile (hist_of STALL_MS_BOUNDS [30, 7, 900]) STALL_MS_BOUNDS (F64 50 0) = Some r \<and> 20 \<le> r \<and> r \<le> 50"
proof -
  let ?vs = "[30, 7, 900] :: nat list"
  have t: "pct_target (F64 50 0) (length ?vs) = 2"
    by (simp add: pct_target_def f64_max_def f64_eval)
  have b: "sorted STALL_MS_BOUNDS" "STALL_MS_BOUNDS \<noteq> []" "last STALL_MS_BOUNDS < 2 ^ 53"
    by (simp_all add: STALL_MS_BOUNDS_def)
  have i: "bucket_of STALL_MS_BOUNDS (sort ?vs ! (2 - 1)) = 1" by (simp add: STALL_MS_BOUNDS_def)
  have v: "0 < length ?vs" "length ?vs < 2 ^ 53" "num (F64 50 0) \<noteq> 0" by simp_all
  from percentile_in_bucket[OF b v, unfolded t i] show ?thesis
    by (auto simp: STALL_MS_BOUNDS_def)
qed

section \<open>Links\<close>

text \<open>What one link's row should be: the sums and extremes over its paths.\<close>

definition count_of :: "('a \<Rightarrow> bool) \<Rightarrow> 'a list \<Rightarrow> nat" where
  "count_of P xs = length (filter P xs)"

definition link_row :: "bytes \<Rightarrow> path_snap list \<Rightarrow> link_snap" where
  "link_row name ps =
     (let timed = (if count_of ps_rtt_known ps = 0 then ps else filter ps_rtt_known ps) in
      \<lparr>ln_name = name, ln_conns = length ps, ln_up = count_of ps_up ps,
       ln_degraded = count_of (\<lambda>p. \<not> ps_up p \<and> ps_degraded p) ps,
       ln_rtt_us = Min (ps_rtt_us ` set timed), ln_rtt_max_us = Max (ps_rtt_us ` set timed),
       ln_inflight = sum_list (map ps_inflight ps), ln_sticky = sum_list (map ps_sticky ps),
       ln_congested = count_of ps_congested ps,
       ln_rx_fresh_us = Min (ps_last_rx_ago_us ` set ps), ln_rx_stale_us = Max (ps_last_rx_ago_us ` set ps),
       ln_queued_urgent = sum_list (map ps_queued_urgent ps), ln_queued_bulk = sum_list (map ps_queued_bulk ps),
       ln_rtt_known = count_of ps_rtt_known ps\<rparr>)"

definition extreme :: "(nat set \<Rightarrow> nat) \<Rightarrow> ('a \<Rightarrow> nat) \<Rightarrow> 'a list \<Rightarrow> nat option" where
  "extreme M f xs = (if xs = [] then None else Some (M (f ` set xs)))"

lemma extreme_snoc:
  "opt_min (extreme Min f xs) (f x) = extreme Min f (xs @ [x])"
  "opt_max (extreme Max f xs) (f x) = extreme Max f (xs @ [x])"
  by (auto simp: extreme_def opt_min_def opt_max_def Min_insert2 min.commute max.commute)

definition acc_of :: "path_snap list \<Rightarrow> link_acc" where
  "acc_of ps = \<lparr>la_conns = length ps, la_up = count_of ps_up ps, la_deg = count_of (\<lambda>p. \<not> ps_up p \<and> ps_degraded p) ps,
     la_inflight = sum_list (map ps_inflight ps), la_sticky = sum_list (map ps_sticky ps),
     la_congested = count_of ps_congested ps, la_queued_urgent = sum_list (map ps_queued_urgent ps),
     la_queued_bulk = sum_list (map ps_queued_bulk ps), la_known = count_of ps_rtt_known ps,
     la_rtt_min = extreme Min ps_rtt_us (filter ps_rtt_known ps), la_rtt_max = extreme Max ps_rtt_us (filter ps_rtt_known ps),
     la_any_min = extreme Min ps_rtt_us ps, la_any_max = extreme Max ps_rtt_us ps,
     la_rx_fresh = extreme Min ps_last_rx_ago_us ps, la_rx_stale = extreme Max ps_last_rx_ago_us ps\<rparr>"

lemma acc_of_nil: "acc_of [] = link_acc_default"
  by (simp add: acc_of_def link_acc_default_def count_of_def extreme_def)

lemma acc_of_snoc: "acc_of (ps @ [p]) = add_path p (acc_of ps)"
  by (simp add: acc_of_def add_path_def count_of_def extreme_snoc)

lemma link_of_acc_row: "ps \<noteq> [] \<Longrightarrow> link_of_acc name (acc_of ps) = link_row name ps"
  by (auto simp: link_of_acc_def acc_of_def link_row_def extreme_def or_zero_of_def count_of_def Let_def
      filter_empty_conv)

lemma btree_keys:
  "sorted_wrt (<) (map fst m) \<Longrightarrow>
   sorted_wrt (<) (map fst (btree_entry k z f m)) \<and> set (map fst (btree_entry k z f m)) = insert k (set (map fst m))"
proof (induction m)
  case (Cons x m)
  obtain j v where x: "x = (j, v)" by (cases x)
  show ?case using Cons by (auto simp: x not_less intro: less_trans)
qed simp

lemma btree_lookup:
  "sorted_wrt (<) (map fst m) \<Longrightarrow>
   map_of (btree_entry k z f m) = (map_of m)(k \<mapsto> f (case map_of m k of None \<Rightarrow> z | Some v \<Rightarrow> v))"
proof (induction m)
  case (Cons x m)
  obtain j v where x: "x = (j, v)" by (cases x)
  have none: "map_of m k = None" if "k < j"
    using that Cons.prems by (auto simp: x map_of_eq_None_iff)
  show ?case using Cons none by (auto simp: x fun_eq_iff)
qed simp

definition link_map :: "path_snap list \<Rightarrow> (bytes \<times> link_acc) list" where
  "link_map paths = foldl (\<lambda>m p. btree_entry (ps_link p) link_acc_default (add_path p) m) [] paths"

lemma link_map_ok:
  "sorted_wrt (<) (map fst (link_map paths)) \<and> set (map fst (link_map paths)) = ps_link ` set paths
   \<and> map_of (link_map paths) k = (if k \<in> ps_link ` set paths
       then Some (acc_of (filter (\<lambda>p. ps_link p = k) paths)) else None)"
proof (induction paths arbitrary: k rule: rev_induct)
  case Nil
  show ?case by (simp add: link_map_def)
next
  case (snoc p paths)
  have s: "sorted_wrt (<) (map fst (link_map paths))" using snoc by blast
  have e: "link_map (paths @ [p]) = btree_entry (ps_link p) link_acc_default (add_path p) (link_map paths)"
    by (simp add: link_map_def)
  have f: "filter (\<lambda>q. ps_link q = ps_link p) paths = []" if "ps_link p \<notin> ps_link ` set paths"
  proof (rule filter_False, intro ballI notI)
    fix x assume x: "x \<in> set paths" "ps_link x = ps_link p"
    have "ps_link p \<in> ps_link ` set paths" by (rule rev_image_eqI[OF x(1)]) (simp add: x(2))
    with that show False by contradiction
  qed
  show ?case unfolding e btree_lookup[OF s]
    using btree_keys[OF s, of "ps_link p" link_acc_default "add_path p"] snoc
    by (auto simp: acc_of_snoc f acc_of_nil[symmetric])
qed

text \<open>
  The roll-up is the grouping of paths by link. It has one row a link, in the order of their
  names, and each row holds the number of the link's paths, the sums of their counters and the
  extremes of their times, the RTTs over the paths whose RTT is known when there is one.
\<close>

lemma rollup_groups:
  "rollup_links paths
   = map (\<lambda>k. link_row k (filter (\<lambda>p. ps_link p = k) paths)) (sorted_list_of_set (ps_link ` set paths))"
proof -
  let ?m = "link_map paths"
  have s: "sorted_wrt (<) (map fst ?m)" "set (map fst ?m) = ps_link ` set paths" using link_map_ok by blast+
  have keys: "map fst ?m = sorted_list_of_set (ps_link ` set paths)"
    unfolding s(2)[symmetric] using s(1)
    by (simp only: strict_sorted_iff sorted_list_of_set.idem_if_sorted_distinct)
  have row: "(case kv of (k, a) \<Rightarrow> link_of_acc k a) = link_row (fst kv) (filter (\<lambda>p. ps_link p = fst kv) paths)"
    if "kv \<in> set ?m" for kv
  proof -
    obtain k a where kv: "kv = (k, a)" by (cases kv)
    have "distinct (map fst ?m)" using s(1) by (simp add: strict_sorted_iff)
    then have "map_of ?m k = Some a" using that kv by simp
    then have a: "a = acc_of (filter (\<lambda>p. ps_link p = k) paths)" "k \<in> ps_link ` set paths"
      using link_map_ok[of paths k] by (auto split: if_splits)
    then have "filter (\<lambda>p. ps_link p = k) paths \<noteq> []" by (auto simp: filter_empty_conv)
    then show ?thesis using link_of_acc_row a(1) by (simp add: kv)
  qed
  have "rollup_links paths = map (\<lambda>kv. case kv of (k, a) \<Rightarrow> link_of_acc k a) ?m"
    by (simp add: rollup_links_def link_map_def)
  also have "\<dots> = map (\<lambda>kv. link_row (fst kv) (filter (\<lambda>p. ps_link p = fst kv) paths)) ?m"
    using row by (rule map_cong[OF refl])
  also have "\<dots> = map (\<lambda>k. link_row k (filter (\<lambda>p. ps_link p = k) paths)) (map fst ?m)" by simp
  finally show ?thesis unfolding keys .
qed

end
