(* ===== verification/Client_Links.thy ===== *)
theory Client_Links
  imports Handshake
begin

text \<open>
  \<open>nya-client/src/lib.rs\<close>: the tasks that keep the links of a client connected. They share a
  \<open>SessionJoin\<close>: the id of the session to join and a flag claimed by the one task that creates it.
  A task is cut at its accesses to the two; handshakes end as they like.
\<close>

section \<open>Sharing a session\<close>

record session_join =
  sj_id :: "bytes option"
  sj_creating :: bool

definition join_new :: session_join where
  "join_new = \<lparr>sj_id = None, sj_creating = False\<rparr>"

definition set_id :: "bytes \<Rightarrow> session_join \<Rightarrow> session_join" where
  "set_id i j = j\<lparr>sj_id := Some i\<rparr>"

definition clear_if :: "bytes \<Rightarrow> session_join \<Rightarrow> bool \<times> session_join" where
  "clear_if i j = (if sj_id j = Some i then (True, j\<lparr>sj_id := None, sj_creating := False\<rparr>) else (False, j))"

text \<open>\<open>creating.compare_exchange(false, true)\<close>.\<close>

definition claim :: "session_join \<Rightarrow> bool \<times> session_join" where
  "claim j = (if sj_creating j then (False, j) else (True, j\<lparr>sj_creating := True\<rparr>))"

definition give_up :: "session_join \<Rightarrow> session_join" where
  "give_up j = j\<lparr>sj_creating := False\<rparr>"

text \<open>
  Where a task is in \<open>connect_one\<close>: about to look at the id, about to claim the flag, about to look
  again, waiting, about to look at the flag in the waiting loop, in the create or a join handshake,
  or out.
\<close>

datatype link_phase = Looking | Claiming | LookingAgain | Waiting | Checking | Creating | Joining bytes | Out

definition look_id :: "session_join \<Rightarrow> link_phase \<Rightarrow> link_phase" where
  "look_id j none = (case sj_id j of Some i \<Rightarrow> Joining i | None \<Rightarrow> none)"

datatype create_end = SessionMade bytes | CreateBroke

datatype join_end = JoinDone | SessionUnknown | JoinBroke

text \<open>One access of a task to the shared state, and where it leaves the task.\<close>

definition task_looks :: "session_join \<Rightarrow> link_phase" where
  "task_looks j = look_id j Claiming"

definition task_claims :: "session_join \<Rightarrow> link_phase \<times> session_join" where
  "task_claims j = (case claim j of (True, j1) \<Rightarrow> (LookingAgain, j1) | (False, j1) \<Rightarrow> (Waiting, j1))"

definition task_looks_again :: "session_join \<Rightarrow> link_phase" where
  "task_looks_again j = look_id j Creating"

definition task_waits :: "session_join \<Rightarrow> link_phase" where
  "task_waits j = look_id j Checking"

definition task_checks :: "session_join \<Rightarrow> link_phase" where
  "task_checks j = (if sj_creating j then Waiting else Out)"

definition create_ends :: "create_end \<Rightarrow> session_join \<Rightarrow> session_join" where
  "create_ends r j = (case r of SessionMade i \<Rightarrow> set_id i j | CreateBroke \<Rightarrow> give_up j)"

definition join_ends :: "bytes \<Rightarrow> join_end \<Rightarrow> session_join \<Rightarrow> session_join" where
  "join_ends i r j = (case r of SessionUnknown \<Rightarrow> snd (clear_if i j) | _ \<Rightarrow> j)"

text \<open>All the tasks of a client: a task that is out comes back after its backoff.\<close>

record link_tasks =
  lt_join :: session_join
  lt_phase :: "nat \<Rightarrow> link_phase"

definition links_start :: link_tasks where
  "links_start = \<lparr>lt_join = join_new, lt_phase = (\<lambda>_. Out)\<rparr>"

definition task_goes :: "nat \<Rightarrow> link_phase \<times> session_join \<Rightarrow> link_tasks \<Rightarrow> link_tasks" where
  "task_goes n x t = t\<lparr>lt_join := snd x, lt_phase := (lt_phase t)(n := fst x)\<rparr>"

inductive link_step :: "link_tasks \<Rightarrow> link_tasks \<Rightarrow> bool" where
  dial: "lt_phase t n = Out \<Longrightarrow> link_step t (task_goes n (Looking, lt_join t) t)"
| look: "lt_phase t n = Looking \<Longrightarrow> link_step t (task_goes n (task_looks (lt_join t), lt_join t) t)"
| claim: "lt_phase t n = Claiming \<Longrightarrow> link_step t (task_goes n (task_claims (lt_join t)) t)"
| again: "lt_phase t n = LookingAgain \<Longrightarrow> link_step t (task_goes n (task_looks_again (lt_join t), lt_join t) t)"
| wait: "lt_phase t n = Waiting \<Longrightarrow> link_step t (task_goes n (task_waits (lt_join t), lt_join t) t)"
| check: "lt_phase t n = Checking \<Longrightarrow> link_step t (task_goes n (task_checks (lt_join t), lt_join t) t)"
| create: "lt_phase t n = Creating \<Longrightarrow> link_step t (task_goes n (Out, create_ends r (lt_join t)) t)"
| join: "lt_phase t n = Joining i \<Longrightarrow> link_step t (task_goes n (Out, join_ends i r (lt_join t)) t)"

section \<open>Backoff\<close>

text \<open>
  The pause before the next attempt of \<open>run_link\<close>: back to the least after a path that lived long
  enough, and doubled after every pause.
\<close>

definition backoff_after :: "duration \<Rightarrow> bool \<Rightarrow> duration \<Rightarrow> duration" where
  "backoff_after least lived d = (if lived then least else d)"

definition backoff_next :: "duration \<Rightarrow> duration \<Rightarrow> duration" where
  "backoff_next most d = min (d * 2) most"

text \<open>The pauses of a run of attempts, by whether each ended with a path that lived long enough.\<close>

fun backoff_run :: "duration \<Rightarrow> duration \<Rightarrow> duration \<Rightarrow> bool list \<Rightarrow> duration list" where
  "backoff_run least most d [] = []"
| "backoff_run least most d (s # ss) =
     (let p = backoff_after least s d in p # backoff_run least most (backoff_next most p) ss)"

definition handshake_limit :: "duration \<Rightarrow> duration option \<Rightarrow> duration" where
  "handshake_limit timeout known =
     (case known of None \<Rightarrow> timeout | Some r \<Rightarrow> clamp_nat (from_millis 400) (from_secs 3) (r * 20))"

section \<open>Facts\<close>

definition claimed :: "link_phase \<Rightarrow> bool" where
  "claimed p \<longleftrightarrow> p = LookingAgain \<or> p = Creating"

definition claimers :: "link_tasks \<Rightarrow> nat set" where
  "claimers t = {n. claimed (lt_phase t n)}"

text \<open>
  What the tasks share is in one of three states: nobody creates and no session is known, one task
  holds the claim and no session is known, or a session is known and nobody creates.
\<close>

definition links_idle :: "link_tasks \<Rightarrow> bool" where
  "links_idle t \<longleftrightarrow> \<not> sj_creating (lt_join t) \<and> sj_id (lt_join t) = None \<and> claimers t = {}"

definition links_making :: "link_tasks \<Rightarrow> nat \<Rightarrow> bool" where
  "links_making t n \<longleftrightarrow> sj_creating (lt_join t) \<and> sj_id (lt_join t) = None \<and> claimers t = {n}"

definition links_known :: "link_tasks \<Rightarrow> bytes \<Rightarrow> bool" where
  "links_known t i \<longleftrightarrow> sj_creating (lt_join t) \<and> sj_id (lt_join t) = Some i \<and> claimers t = {}"

definition links_inv :: "link_tasks \<Rightarrow> bool" where
  "links_inv t \<longleftrightarrow> links_idle t \<or> (\<exists>n. links_making t n) \<or> (\<exists>i. links_known t i)"

inductive_cases link_stepE: "link_step t u"

lemmas link_ops = task_looks_def task_claims_def task_looks_again_def task_waits_def task_checks_def
  create_ends_def join_ends_def look_id_def claim_def set_id_def clear_if_def give_up_def

lemmas link_states = links_inv_def links_idle_def links_making_def links_known_def

lemma claimed_simps [simp]:
  "claimed LookingAgain" "claimed Creating" "\<not> claimed Looking" "\<not> claimed Claiming"
  "\<not> claimed Waiting" "\<not> claimed Checking" "\<not> claimed (Joining i)" "\<not> claimed Out"
  by (simp_all add: claimed_def)

lemma task_goes_join [simp]: "lt_join (task_goes n x t) = snd x"
  by (simp add: task_goes_def)

lemma claimers_goes [simp]:
  "claimers (task_goes n x t) = (if claimed (fst x) then insert n (claimers t) else claimers t - {n})"
  by (auto simp: claimers_def task_goes_def)

lemma claimers_phase: "n \<in> claimers t \<longleftrightarrow> claimed (lt_phase t n)"
  by (simp add: claimers_def)

lemma links_inv_start: "links_inv links_start"
  by (simp add: link_states links_start_def join_new_def claimers_def)

text \<open>A task that holds no claim and keeps the state of the join leaves everything as it is.\<close>

lemma links_inv_same:
  assumes "links_inv t" "\<not> claimed (lt_phase t n)" "\<not> claimed (fst x)" "snd x = lt_join t"
  shows "links_inv (task_goes n x t)"
proof -
  have "n \<notin> claimers t" using assms(2) by (simp add: claimers_phase)
  then have "claimers t - {n} = claimers t" by simp
  then show ?thesis using assms by (simp add: link_states)
qed

lemma claimed_making: "claimed (lt_phase t n) \<Longrightarrow> links_inv t \<Longrightarrow> links_making t n"
  using claimers_phase [of n t] by (auto simp: link_states)

lemma links_inv_step: "link_step t u \<Longrightarrow> links_inv t \<Longrightarrow> links_inv u"
proof (induction rule: link_step.induct)
  case (dial t n)
  then show ?case by (intro links_inv_same) simp_all
next
  case (look t n)
  then show ?case by (intro links_inv_same) (simp_all add: link_ops split: option.split)
next
  case (claim t n)
  have n: "n \<notin> claimers t" using claim by (simp add: claimers_phase)
  show ?case
  proof (cases "sj_creating (lt_join t)")
    case True
    then show ?thesis using claim by (intro links_inv_same) (simp_all add: link_ops)
  next
    case False
    then show ?thesis using claim by (auto simp: link_states link_ops)
  qed
next
  case (again t n)
  then have "links_making t n" by (intro claimed_making) simp_all
  then show ?case by (auto simp: link_states link_ops)
next
  case (wait t n)
  then show ?case by (intro links_inv_same) (simp_all add: link_ops split: option.split)
next
  case (check t n)
  then show ?case by (intro links_inv_same) (simp_all add: link_ops)
next
  case (create t n r)
  then have "links_making t n" by (intro claimed_making) simp_all
  then show ?case by (cases r) (auto simp: link_states link_ops)
next
  case (join t n i r)
  have n: "claimers t - {n} = claimers t" using join by (simp add: claimers_phase)
  show ?case
  proof (cases "r = SessionUnknown \<and> sj_id (lt_join t) = Some i")
    case True
    then show ?thesis using join(2) n by (auto simp: link_states link_ops)
  next
    case False
    then show ?thesis using join
      by (intro links_inv_same) (auto simp: link_ops split: join_end.split)
  qed
qed

lemma links_inv_run: "link_step\<^sup>*\<^sup>* t u \<Longrightarrow> links_inv t \<Longrightarrow> links_inv u"
  by (induction rule: rtranclp_induct) (auto intro: links_inv_step)

text \<open>Two tasks: the first creates, the second waits for it.\<close>

definition demo_links :: link_tasks where
  "demo_links = \<lparr>lt_join = \<lparr>sj_id = None, sj_creating = True\<rparr>,
     lt_phase = (\<lambda>_. Out)(0 := Creating, 1 := Waiting)\<rparr>"

lemma demo_links_run: "link_step\<^sup>*\<^sup>* links_start demo_links"
proof -
  let ?j = "\<lparr>sj_id = None, sj_creating = True\<rparr>"
  let ?t = "\<lambda>j p q. \<lparr>lt_join = j, lt_phase = (\<lambda>_. Out)(0 := p, Suc 0 := q)\<rparr>"
  have goes: "task_goes 0 (p', j') (?t j p q) = ?t j' p' q" "task_goes (Suc 0) (q', j') (?t j p q) = ?t j' p q'"
    for p q p' q' j j' by (auto simp: task_goes_def fun_eq_iff)
  have start: "links_start = ?t join_new Out Out" by (simp add: links_start_def fun_eq_iff)
  note [trans] = rtranclp.rtrancl_into_rtrancl[where r = link_step]
  have "link_step\<^sup>*\<^sup>* (?t join_new Out Out) (?t join_new Out Out)" by simp
  also have "link_step (?t join_new Out Out) (?t join_new Looking Out)"
    using link_step.dial[of "?t join_new Out Out" 0] by (simp add: goes)
  also have "link_step (?t join_new Looking Out) (?t join_new Claiming Out)"
    using link_step.look[of "?t join_new Looking Out" 0] by (simp add: goes link_ops join_new_def)
  also have "link_step (?t join_new Claiming Out) (?t ?j LookingAgain Out)"
    using link_step.claim[of "?t join_new Claiming Out" 0] by (simp add: goes link_ops join_new_def)
  also have "link_step (?t ?j LookingAgain Out) (?t ?j Creating Out)"
    using link_step.again[of "?t ?j LookingAgain Out" 0] by (simp add: goes link_ops)
  also have "link_step (?t ?j Creating Out) (?t ?j Creating Looking)"
    using link_step.dial[of "?t ?j Creating Out" "Suc 0"] by (simp add: goes)
  also have "link_step (?t ?j Creating Looking) (?t ?j Creating Claiming)"
    using link_step.look[of "?t ?j Creating Looking" "Suc 0"] by (simp add: goes link_ops)
  also have "link_step (?t ?j Creating Claiming) (?t ?j Creating Waiting)"
    using link_step.claim[of "?t ?j Creating Claiming" "Suc 0"] by (simp add: goes link_ops)
  finally show ?thesis unfolding start demo_links_def by (simp add: One_nat_def)
qed

section \<open>Properties\<close>

text \<open>
  C16: A client creates one session at a time and no task waits in vain. However the tasks of its
  links interleave: while one is creating, or is about to, no other is and no session is known; the
  second look at the id after the claim finds none, so the claim leads to a create; a task that
  waits has a session to join, or a creator at work, or finds the flag down at its next two looks and
  fails; and a join that is told late that its session is unknown leaves a newer session alone.
\<close>

theorem one_creator:
  assumes "link_step\<^sup>*\<^sup>* links_start t"
  shows "(\<forall>n m. claimed (lt_phase t n) \<longrightarrow> claimed (lt_phase t m) \<longrightarrow> m = n)
    \<and> (\<forall>n. claimed (lt_phase t n) \<longrightarrow> sj_id (lt_join t) = None \<and> task_looks_again (lt_join t) = Creating)
    \<and> (sj_id (lt_join t) \<noteq> None \<longrightarrow> fst (task_claims (lt_join t)) = Waiting)
    \<and> (task_waits (lt_join t) = Checking \<longrightarrow> task_checks (lt_join t) = Waiting
         \<longrightarrow> (\<exists>n. claimed (lt_phase t n)))
    \<and> (sj_id (lt_join t) = Some k \<longrightarrow> k \<noteq> i \<longrightarrow> join_ends i r (lt_join t) = lt_join t)"
proof -
  have "links_inv t" using links_inv_run[OF assms links_inv_start] .
  then have inv: "links_idle t \<or> (\<exists>n. links_making t n) \<or> (\<exists>i. links_known t i)"
    by (simp add: links_inv_def)
  have c: "claimed (lt_phase t n) \<longleftrightarrow> n \<in> claimers t" for n by (simp add: claimers_phase)
  have "sj_id (lt_join t) = Some k \<Longrightarrow> k \<noteq> i \<Longrightarrow> join_ends i r (lt_join t) = lt_join t"
    by (cases r) (simp_all add: link_ops)
  then show ?thesis using inv unfolding c
    by (auto simp: links_idle_def links_making_def links_known_def link_ops)
qed

theorem one_creator_witness:
  "lt_phase demo_links 0 = Creating \<and> task_waits (lt_join demo_links) = Checking
   \<and> task_checks (lt_join demo_links) = Waiting \<and> (\<exists>n. claimed (lt_phase demo_links n))
   \<and> task_looks_again (lt_join demo_links) = Creating"
  using one_creator[OF demo_links_run]
  by (simp add: demo_links_def link_ops)

section \<open>Pauses\<close>

text \<open>Every pause of \<open>run_link\<close> is between the two bounds, and a stable path brings it back to the least.\<close>

lemma backoff_bounds:
  "least \<le> d \<Longrightarrow> d \<le> most \<Longrightarrow> p \<in> set (backoff_run least most d ss) \<Longrightarrow> least \<le> p \<and> p \<le> most"
proof (induction ss arbitrary: d)
  case (Cons s ss)
  have "least \<le> backoff_next most (backoff_after least s d)" "backoff_next most (backoff_after least s d) \<le> most"
    using Cons.prems by (auto simp: backoff_next_def backoff_after_def)
  from Cons.IH[OF this] Cons.prems show ?case
    by (auto simp: Let_def backoff_after_def)
qed simp

text \<open>After \<open>k\<close> attempts in a row without a stable path the pause has doubled \<open>k\<close> times, up to the most.\<close>

lemma backoff_doubles:
  "d \<le> most \<Longrightarrow> k < n \<Longrightarrow> backoff_run least most d (replicate n False) ! k = min (d * 2 ^ k) most"
proof (induction n arbitrary: d k)
  case (Suc n)
  show ?case
  proof (cases k)
    case 0
    then show ?thesis using Suc.prems by (simp add: backoff_after_def Let_def min_absorb1)
  next
    case (Suc j)
    have "min (min (d * 2) most * 2 ^ j) most = min (d * 2 ^ Suc j) most"
    proof (cases "d * 2 \<le> most")
      case True
      then show ?thesis by (simp add: min_absorb1 mult.assoc)
    next
      case False
      have "most \<le> most * 2 ^ j" "most \<le> d * 2 * 2 ^ j" using False by (auto intro: order_trans[of _ "d * 2"])
      then show ?thesis using False by (simp add: min_absorb2 mult.assoc)
    qed
    then show ?thesis using Suc.prems Suc.IH[of "min (d * 2) most" j] \<open>k = Suc j\<close>
      by (simp add: backoff_after_def backoff_next_def Let_def)
  qed
qed simp

end
