(* ===== verification/Client_Inbound.thy ===== *)
theory Client_Inbound
  imports Wire_Codec
begin

text \<open>
  \<open>nya-client/src/inbound.rs\<close>: what an inbound connection makes of the bytes the application sends.
  \<open>serve_socks5\<close> is a function of everything the application sends, of whether each of its two
  writes succeeds and of which targets \<open>open_stream\<close> can open; the copy that follows is \<open>Hop_Copy\<close>.
  The texts of the addresses are those of the standard library.
\<close>

section \<open>Address texts\<close>

text \<open>\<open>Ipv4Addr\<close>: four decimal octets.\<close>

definition ipv4_text :: "byte list \<Rightarrow> bytes" where
  "ipv4_text a = concat (map2 (\<lambda>sep b. sep @ dec_digits (unat b)) [[], [46], [46], [46]] a)"

definition hex_digit :: "nat \<Rightarrow> byte" where
  "hex_digit d = word_of_nat (if d < 10 then 48 + d else 87 + d)"

fun hex_text :: "nat \<Rightarrow> bytes" where
  "hex_text n = (if n < 16 then [hex_digit n] else hex_text (n div 16) @ [hex_digit (n mod 16)])"

declare hex_text.simps [simp del]

fun segments :: "byte list \<Rightarrow> nat list" where
  "segments (a # b # r) = (unat a * 256 + unat b) # segments r"
| "segments _ = []"

text \<open>The first longest run of zero segments: its start and length.\<close>

fun zero_run :: "nat \<Rightarrow> nat \<times> nat \<Rightarrow> nat \<times> nat \<Rightarrow> nat list \<Rightarrow> nat \<times> nat" where
  "zero_run i longest current [] = longest"
| "zero_run i longest current (x # xs) =
     (if x = 0 then
        let c = (if snd current = 0 then (i, 1) else (fst current, snd current + 1)) in
        zero_run (i + 1) (if snd longest < snd c then c else longest) c xs
      else zero_run (i + 1) longest (0, 0) xs)"

fun join_hex :: "nat list \<Rightarrow> bytes" where
  "join_hex [] = []"
| "join_hex [x] = hex_text x"
| "join_hex (x # xs) = hex_text x @ 58 # join_hex xs"

definition ipv6_text :: "byte list \<Rightarrow> bytes" where
  "ipv6_text a =
     (if take 12 a = replicate 10 0 @ [0xFF, 0xFF]
      then [58, 58] @ replicate 4 102 @ [58] @ ipv4_text (drop 12 a)
      else case zero_run 0 (0, 0) (0, 0) (segments a) of (start, len) \<Rightarrow>
        if 1 < len then join_hex (take start (segments a)) @ [58, 58] @ join_hex (drop (start + len) (segments a))
        else join_hex (segments a))"

section \<open>SOCKS5\<close>

text \<open>How a connection ends, and what it has left behind.\<close>

datatype socks_end =
    ReadFailed | WriteFailed | NotSocks | BadSocksVersion | OnlyConnect | BadDomain | BadAddressType
  | OpenFailed | CopyStarted target

record socks_run =
  sk_sent :: bytes
  sk_asked :: "target option"
  sk_rejects :: nat
  sk_accepts :: nat
  sk_open_fails :: nat
  sk_end :: socks_end

definition read_exact :: "nat \<Rightarrow> bytes \<Rightarrow> socks_end + (bytes \<times> bytes)" where
  "read_exact n input = (if length input < n then Inl ReadFailed else Inr (take n input, drop n input))"

definition socks_reply :: "byte \<Rightarrow> bytes" where
  "socks_reply rep = [5, rep, 0, 1, 0, 0, 0, 0, 0, 0]"

definition method_reply :: bytes where
  "method_reply = [5, 0]"

text \<open>The end of a connection that asked for nothing.\<close>

definition no_ask :: "bytes \<Rightarrow> nat \<Rightarrow> socks_end \<Rightarrow> socks_run" where
  "no_ask sent rejects e =
     \<lparr>sk_sent = sent, sk_asked = None, sk_rejects = rejects, sk_accepts = 0, sk_open_fails = 0, sk_end = e\<rparr>"

text \<open>A refusal: counted, answered with \<open>rep\<close>, and the error unless the answer cannot be written.\<close>

definition refuse :: "bool \<Rightarrow> byte \<Rightarrow> socks_end \<Rightarrow> socks_run" where
  "refuse reply_ok rep e =
     (if reply_ok then no_ask (method_reply @ socks_reply rep) 1 e else no_ask method_reply 1 WriteFailed)"

text \<open>The address of a request, by its type; \<open>BadAddressType\<close> is answered by the caller.\<close>

definition read_host :: "byte \<Rightarrow> bytes \<Rightarrow> socks_end + (bytes \<times> bytes)" where
  "read_host atyp input =
     (if atyp = 1 then rbind (read_exact 4 input) (\<lambda>(a, r). Inr (ipv4_text a, r))
      else if atyp = 3 then
        rbind (read_exact 1 input) (\<lambda>(l, r).
        rbind (read_exact (unat (hd l)) r) (\<lambda>(d, r).
        if utf8_valid d then Inr (d, r) else Inl BadDomain))
      else if atyp = 4 then rbind (read_exact 16 input) (\<lambda>(a, r). Inr (ipv6_text a, r))
      else Inl BadAddressType)"

text \<open>The request after the version and the command have been accepted.\<close>

definition read_target :: "byte \<Rightarrow> bytes \<Rightarrow> socks_end + target" where
  "read_target atyp input =
     rbind (read_host atyp input) (\<lambda>(h, r).
     rbind (read_exact 2 r) (\<lambda>(pb, _). Inr \<lparr>host = h, port = unat (hd pb) * 256 + unat (pb ! 1)\<rparr>))"

definition ask_open :: "bool \<Rightarrow> (target \<Rightarrow> bool) \<Rightarrow> target \<Rightarrow> socks_run" where
  "ask_open reply_ok opens t =
     (let run = \<lparr>sk_sent = method_reply, sk_asked = Some t, sk_rejects = 0, sk_accepts = 0,
                 sk_open_fails = 0, sk_end = WriteFailed\<rparr>
      in if opens t then
           (if reply_ok then run\<lparr>sk_accepts := 1, sk_sent := method_reply @ socks_reply 0, sk_end := CopyStarted t\<rparr>
            else run\<lparr>sk_accepts := 1\<rparr>)
         else
           (if reply_ok then run\<lparr>sk_open_fails := 1, sk_sent := method_reply @ socks_reply 4, sk_end := OpenFailed\<rparr>
            else run\<lparr>sk_open_fails := 1\<rparr>))"

definition serve_request :: "bool \<Rightarrow> (target \<Rightarrow> bool) \<Rightarrow> bytes \<Rightarrow> bytes \<Rightarrow> socks_run" where
  "serve_request reply_ok opens req r =
     (if hd req \<noteq> 5 then no_ask method_reply 1 BadSocksVersion
      else if req ! 1 \<noteq> 1 then refuse reply_ok 7 OnlyConnect
      else case read_target (req ! 3) r of
          Inl BadAddressType \<Rightarrow> refuse reply_ok 8 BadAddressType
        | Inl e \<Rightarrow> no_ask method_reply 0 e
        | Inr t \<Rightarrow> ask_open reply_ok opens t)"

definition serve_socks5 :: "bool \<Rightarrow> bool \<Rightarrow> (target \<Rightarrow> bool) \<Rightarrow> bytes \<Rightarrow> socks_run" where
  "serve_socks5 greet_ok reply_ok opens input =
     (case read_exact 2 input of
        Inl e \<Rightarrow> no_ask [] 0 e
      | Inr (hdr, r) \<Rightarrow>
          if hd hdr \<noteq> 5 then no_ask [] 1 NotSocks
          else (case read_exact (unat (hdr ! 1)) r of
              Inl e \<Rightarrow> no_ask [] 0 e
            | Inr (_, r) \<Rightarrow>
                if \<not> greet_ok then no_ask [] 0 WriteFailed
                else (case read_exact 4 r of
                    Inl e \<Rightarrow> no_ask method_reply 0 e
                  | Inr (req, r) \<Rightarrow> serve_request reply_ok opens req r)))"

section \<open>Forwarding\<close>

text \<open>A connection of a forward listener asks for the one target the listener was given.\<close>

definition serve_forward :: "(target \<Rightarrow> bool) \<Rightarrow> bytes \<Rightarrow> proto_error + socks_run" where
  "serve_forward opens dest_text =
     rbind (target_parse dest_text) (\<lambda>t.
       Inr (if opens t
            then \<lparr>sk_sent = [], sk_asked = Some t, sk_rejects = 0, sk_accepts = 1, sk_open_fails = 0, sk_end = CopyStarted t\<rparr>
            else \<lparr>sk_sent = [], sk_asked = Some t, sk_rejects = 0, sk_accepts = 0, sk_open_fails = 1, sk_end = OpenFailed\<rparr>))"

section \<open>What a request is\<close>

datatype socks_addr = SockV4 bytes | SockName bytes | SockV6 bytes

fun addr_ok :: "socks_addr \<Rightarrow> bool" where
  "addr_ok (SockV4 a) = (length a = 4)"
| "addr_ok (SockName d) = (length d < 256 \<and> utf8_valid d)"
| "addr_ok (SockV6 a) = (length a = 16)"

fun addr_bytes :: "socks_addr \<Rightarrow> bytes" where
  "addr_bytes (SockV4 a) = 1 # a"
| "addr_bytes (SockName d) = 3 # word_of_nat (length d) # d"
| "addr_bytes (SockV6 a) = 4 # a"

fun addr_text :: "socks_addr \<Rightarrow> bytes" where
  "addr_text (SockV4 a) = ipv4_text a"
| "addr_text (SockName d) = d"
| "addr_text (SockV6 a) = ipv6_text a"

definition port_bytes :: "nat \<Rightarrow> bytes" where
  "port_bytes p = [word_of_nat (p div 256), word_of_nat (p mod 256)]"

definition socks_connect :: "bytes \<Rightarrow> byte \<Rightarrow> socks_addr \<Rightarrow> nat \<Rightarrow> bytes" where
  "socks_connect methods rsv a p =
     [5, word_of_nat (length methods)] @ methods @ [5, 1, rsv] @ addr_bytes a @ port_bytes p"

lemma byte_bound: "unat (b :: byte) < 256"
  using unsigned_less[of b] by simp

lemma read_exact_Inr: "read_exact n i = Inr (a, r) \<longleftrightarrow> i = a @ r \<and> length a = n"
  by (auto simp: read_exact_def)

lemma read_exact_app [simp]: "length a = n \<Longrightarrow> read_exact n (a @ r) = Inr (a, r)"
  by (simp add: read_exact_def)

lemma read_host_addr:
  "addr_ok a \<Longrightarrow> read_host (hd (addr_bytes a)) (tl (addr_bytes a) @ r) = Inr (addr_text a, r)"
  by (cases a) (auto simp: read_host_def read_exact_def unat_of_nat)

lemma read_host_Inr:
  assumes "read_host t i = Inr (h, r)"
  obtains a where "addr_ok a" "t # i = addr_bytes a @ r" "h = addr_text a"
proof -
  consider (v4) "t = 1" | (name) "t = 3" | (v6) "t = 4"
    using assms by (auto simp: read_host_def split: if_splits)
  then show thesis
  proof cases
    case v4
    then obtain a where "i = a @ r" "length a = 4" "h = ipv4_text a"
      using assms by (auto simp: read_host_def rbind_Inr_iff read_exact_Inr)
    then show ?thesis using that[of "SockV4 a"] v4 by simp
  next
    case name
    then obtain l i' d where l: "i = l @ i'" "length l = 1" "i' = d @ r" "length d = unat (hd l)"
        "utf8_valid d" "h = d"
      using assms by (auto simp: read_host_def rbind_Inr_iff read_exact_Inr split: if_splits)
    from l(2) obtain b where b: "l = [b]" by (cases l) auto
    have "unat b < 256" using byte_bound by simp
    moreover have "word_of_nat (length d) = b" using l(4) b by simp
    ultimately show ?thesis using that[of "SockName d"] name l b by simp
  next
    case v6
    then obtain a where "i = a @ r" "length a = 16" "h = ipv6_text a"
      using assms by (auto simp: read_host_def rbind_Inr_iff read_exact_Inr)
    then show ?thesis using that[of "SockV6 a"] v6 by simp
  qed
qed

lemma port_bytes_back:
  assumes "length pb = 2"
  shows "port_bytes (unat (hd pb) * 256 + unat (pb ! 1)) = pb" "unat (hd pb) * 256 + unat (pb ! 1) < 65536"
proof -
  from assms obtain x y where pb: "pb = [x, y]" by (auto simp: length_Suc_conv numeral_2_eq_2)
  have "unat x < 256" "unat y < 256" using byte_bound[of x] byte_bound[of y] by simp_all
  then show "port_bytes (unat (hd pb) * 256 + unat (pb ! 1)) = pb" "unat (hd pb) * 256 + unat (pb ! 1) < 65536"
    by (simp_all add: port_bytes_def pb)
qed

lemma port_back: "p < 65536 \<Longrightarrow> unat (hd (port_bytes p)) * 256 + unat (port_bytes p ! 1) = p"
  by (simp add: port_bytes_def unat_of_nat)

lemma read_target_addr:
  assumes "addr_ok a" "p < 65536"
  shows "read_target (hd (addr_bytes a)) (tl (addr_bytes a) @ port_bytes p @ rest)
    = Inr \<lparr>host = addr_text a, port = p\<rparr>"
proof -
  have "length (port_bytes p) = 2" by (simp add: port_bytes_def)
  then show ?thesis using read_host_addr[OF assms(1)] port_back[OF assms(2)]
    by (simp add: read_target_def)
qed

lemma read_target_Inr:
  assumes "read_target ty i = Inr t"
  obtains a p rest where "addr_ok a" "p < 65536" "ty # i = addr_bytes a @ port_bytes p @ rest"
    "t = \<lparr>host = addr_text a, port = p\<rparr>"
proof -
  from assms obtain h r pb r' where h: "read_host ty i = Inr (h, r)" and r: "r = pb @ r'" "length pb = 2"
    and t: "t = \<lparr>host = h, port = unat (hd pb) * 256 + unat (pb ! 1)\<rparr>"
    by (auto simp: read_target_def rbind_Inr_iff read_exact_Inr)
  from read_host_Inr[OF h] obtain a where "addr_ok a" "ty # i = addr_bytes a @ r" "h = addr_text a" .
  then show thesis using that[of a "unat (hd pb) * 256 + unat (pb ! 1)" r'] r t
      port_bytes_back[OF r(2)] by simp
qed

lemma ask_open_asks: "sk_asked (ask_open k opens t) = Some t"
  by (simp add: ask_open_def Let_def)

lemma refuse_asks: "sk_asked (refuse k rep e) = None" "sk_asked (no_ask b n e) = None"
  by (simp_all add: refuse_def no_ask_def)

lemma serve_request_asks:
  "sk_asked (serve_request k opens req r) = Some t
     \<longleftrightarrow> hd req = 5 \<and> req ! 1 = 1 \<and> read_target (req ! 3) r = Inr t"
  by (auto simp: serve_request_def refuse_asks ask_open_asks split: sum.splits socks_end.splits)

lemma serve_asks_iff:
  "sk_asked (serve_socks5 g k opens input) = Some t \<longleftrightarrow>
     g \<and> (\<exists>methods rsv a p rest. length methods < 256 \<and> addr_ok a \<and> p < 65536
       \<and> input = socks_connect methods rsv a p @ rest \<and> t = \<lparr>host = addr_text a, port = p\<rparr>)"
  (is "?asks \<longleftrightarrow> g \<and> ?req")
proof
  assume ?asks
  then obtain hdr r1 ms r2 req r3 where 1: "input = hdr @ r1" "length hdr = 2" "hd hdr = 5"
      and 2: "r1 = ms @ r2" "length ms = unat (hdr ! 1)" and g
      and 3: "r2 = req @ r3" "length req = 4" "hd req = 5" "req ! 1 = 1" and t: "read_target (req ! 3) r3 = Inr t"
    by (auto simp: serve_socks5_def refuse_asks serve_request_asks read_exact_Inr split: sum.splits if_splits)
  from 1(2,3) obtain n where h: "hdr = [5, n]" by (auto simp: length_Suc_conv numeral_2_eq_2)
  from 3(2-4) obtain rsv ty where q: "req = [5, 1, rsv, ty]"
    by (auto simp: length_Suc_conv numeral_eq_Suc)
  from read_target_Inr[OF t] obtain a p rest where a: "addr_ok a" "p < 65536"
    "req ! 3 # r3 = addr_bytes a @ port_bytes p @ rest" "t = \<lparr>host = addr_text a, port = p\<rparr>" .
  have n: "length ms < 256" "word_of_nat (length ms) = n" using 2(2) h byte_bound[of n] by simp_all
  have "input = socks_connect ms rsv a p @ rest"
    using 1 2 3 h q n a(3) by (simp add: socks_connect_def numeral_3_eq_3)
  then show "g \<and> ?req" using \<open>g\<close> n(1) a by blast
next
  assume "g \<and> ?req"
  then obtain ms rsv a p rest where g and m: "length ms < 256" and a: "addr_ok a" "p < 65536"
    and i: "input = socks_connect ms rsv a p @ rest" and t: "t = \<lparr>host = addr_text a, port = p\<rparr>" by blast
  have ab: "addr_bytes a = hd (addr_bytes a) # tl (addr_bytes a)" by (cases a) simp_all
  have "input = [5, word_of_nat (length ms)] @ ms @ [5, 1, rsv, hd (addr_bytes a)]
      @ tl (addr_bytes a) @ port_bytes p @ rest"
    unfolding i socks_connect_def by (subst ab) simp
  then show ?asks using \<open>g\<close> m read_target_addr[OF a] t
    by (simp add: serve_socks5_def serve_request_asks unat_of_nat
        read_exact_def[of 2] read_exact_def[of 4] del: append_Cons)
qed

text \<open>What a connection counts and answers.\<close>

definition socks_fair :: "bool \<Rightarrow> (target \<Rightarrow> bool) \<Rightarrow> socks_run \<Rightarrow> bool" where
  "socks_fair k opens run \<longleftrightarrow>
     sk_accepts run + sk_open_fails run = (if sk_asked run = None then 0 else 1)
     \<and> sk_rejects run + sk_accepts run + sk_open_fails run \<le> 1
     \<and> (\<forall>t. sk_end run = CopyStarted t \<longleftrightarrow> sk_asked run = Some t \<and> opens t \<and> k)
     \<and> (sk_sent run = method_reply @ socks_reply 0 \<longleftrightarrow> (\<exists>t. sk_end run = CopyStarted t))
     \<and> (sk_sent run = method_reply @ socks_reply 4 \<longleftrightarrow> sk_end run = OpenFailed)
     \<and> (sk_sent run = method_reply @ socks_reply 7 \<longleftrightarrow> sk_end run = OnlyConnect)
     \<and> (sk_sent run = method_reply @ socks_reply 8 \<longleftrightarrow> sk_end run = BadAddressType)"

lemma reply_neq [simp]:
  "socks_reply x \<noteq> []" "socks_reply x = socks_reply y \<longleftrightarrow> x = y" "method_reply \<noteq> []"
  "method_reply \<noteq> method_reply @ socks_reply x" "[] \<noteq> method_reply @ socks_reply x"
  by (simp_all add: socks_reply_def method_reply_def)

lemma fair_no_ask: "(\<forall>t. e \<noteq> CopyStarted t) \<Longrightarrow> e \<notin> {OpenFailed, OnlyConnect, BadAddressType} \<Longrightarrow> n \<le> 1
    \<Longrightarrow> b \<in> {[], method_reply} \<Longrightarrow> socks_fair k opens (no_ask b n e)"
  by (auto simp: socks_fair_def no_ask_def)

lemma fair_refuse: "(c, e) \<in> {(7, OnlyConnect), (8, BadAddressType)} \<Longrightarrow> socks_fair k opens (refuse k c e)"
  by (auto simp: socks_fair_def no_ask_def refuse_def)

lemma fair_ask: "socks_fair k opens (ask_open k opens t)"
  by (auto simp: socks_fair_def ask_open_def Let_def)

lemma read_exact_end: "read_exact n i = Inl e \<Longrightarrow> e = ReadFailed"
  by (simp add: read_exact_def split: if_splits)

lemma read_target_end: "read_target t i = Inl e \<Longrightarrow> e \<in> {ReadFailed, BadDomain, BadAddressType}"
  by (auto simp: read_target_def read_host_def rbind_Inl_iff dest!: read_exact_end split: if_splits)

lemma fair_request: "socks_fair k opens (serve_request k opens req r)"
  unfolding serve_request_def
  by (auto intro!: fair_no_ask fair_refuse fair_ask dest!: read_target_end split: sum.split socks_end.split)

lemma fair_serve: "socks_fair k opens (serve_socks5 g k opens input)"
  unfolding serve_socks5_def
  by (auto intro!: fair_no_ask fair_request dest!: read_exact_end split: sum.split)

section \<open>Properties\<close>

text \<open>
  C17: A SOCKS5 connection asks the session for a target exactly when the application has sent a
  complete greeting and a complete CONNECT request, and then for exactly the address and port the
  request names, whatever follows it. Every connection counts at most once, as a reject, an accept or
  a failed open; each answer is sent for one outcome only, success exactly when the copy begins.
\<close>

theorem socks_asks_request:
  "(sk_asked (serve_socks5 g k opens input) = Some t \<longleftrightarrow>
     g \<and> (\<exists>methods rsv a p rest. length methods < 256 \<and> addr_ok a \<and> p < 65536
       \<and> input = socks_connect methods rsv a p @ rest \<and> t = \<lparr>host = addr_text a, port = p\<rparr>))
   \<and> socks_fair k opens (serve_socks5 g k opens input)"
  by (simp add: serve_asks_iff fair_serve)

end
