(* ===== verification/Server_Accept.thy ===== *)
theory Server_Accept
  imports Metrics
begin

text \<open>
  \<open>nya-server/src/lib.rs\<close> and the start of \<open>outbound.rs\<close>: what becomes of an accepted connection,
  the pulse that keeps failed TLS handshakes from flooding the log, and how the end of an origin dial
  is handed on. The interleaving of an accept with a shutdown is \<open>Table_Race\<close>.
\<close>

section \<open>The pulse\<close>

record tls_pulse =
  tp_last_emit :: "instant option"
  tp_last_error :: bytes
  tp_suppressed :: nat

definition pulse_new :: tls_pulse where
  "pulse_new = \<lparr>tp_last_emit = None, tp_last_error = [], tp_suppressed = 0\<rparr>"

definition pulse_emit :: "instant \<Rightarrow> bytes \<Rightarrow> nat \<Rightarrow> nat option \<times> tls_pulse" where
  "pulse_emit now err n = (Some n, \<lparr>tp_last_emit = Some now, tp_last_error = err, tp_suppressed = 0\<rparr>)"

text \<open>\<open>duration_since\<close> is zero when the clock stood still, and never less.\<close>

definition tls_pulse_should_emit :: "tls_pulse \<Rightarrow> instant \<Rightarrow> duration \<Rightarrow> bytes \<Rightarrow> nat option \<times> tls_pulse" where
  "tls_pulse_should_emit p now every err =
     (case tp_last_emit p of
        None \<Rightarrow> pulse_emit now err 0
      | Some prev \<Rightarrow>
          if err \<noteq> tp_last_error p then pulse_emit now err (tp_suppressed p)
          else if every \<le> now - prev then pulse_emit now err (tp_suppressed p)
          else (None, p\<lparr>tp_suppressed := tp_suppressed p + 1\<rparr>))"

definition TLS_PULSE_EVERY :: duration where "TLS_PULSE_EVERY = from_secs 60"

text \<open>Calls of \<open>tls_accept_warn\<close> in the order they take the lock, with what each reports.\<close>

fun pulse_run :: "duration \<Rightarrow> tls_pulse \<Rightarrow> (instant \<times> bytes) list \<Rightarrow> nat option list \<times> tls_pulse" where
  "pulse_run every p [] = ([], p)"
| "pulse_run every p ((now, err) # cs) =
     (case tls_pulse_should_emit p now every err of (r, q) \<Rightarrow>
        (case pulse_run every q cs of (rs, q') \<Rightarrow> (r # rs, q')))"

section \<open>An accepted connection\<close>

text \<open>
  \<open>serve_one\<close> looks at the closed flag three times: \<open>shut n\<close> is what look \<open>n\<close> finds. A connection
  ends ignored, refused, shut down after its session was made, or with its path added.
\<close>

datatype conn_end =
    SocketRefused | TableClosed | TlsRefused | NoExporter | NoiseDropped | HandshakeFailed
  | SessionShut bytes | JoinDropped | PathAdded bytes bytes

record accept_counts =
  ac_create_ok :: nat
  ac_join_ok :: nat
  ac_fails :: handshake_fails

record accept_run =
  ar_end :: conn_end
  ar_serves :: "bytes option"
  ar_counts :: accept_counts

definition accept_ends :: "conn_end \<Rightarrow> accept_counts \<Rightarrow> accept_run" where
  "accept_ends e c = \<lparr>ar_end = e, ar_serves = None, ar_counts = c\<rparr>"

text \<open>\<open>ar_serves\<close>: the session whose incoming streams a task started here dials.\<close>

definition serve_created :: "bool \<Rightarrow> bytes \<Rightarrow> bytes \<Rightarrow> accept_counts \<Rightarrow> accept_run" where
  "serve_created shut i path c =
     (let c1 = c\<lparr>ac_create_ok := ac_create_ok c + 1\<rparr> in
      if shut then accept_ends (SessionShut i) c1
      else (accept_ends (PathAdded i path) c1)\<lparr>ar_serves := Some i\<rparr>)"

definition serve_joined :: "bool \<Rightarrow> bytes \<Rightarrow> bytes \<Rightarrow> accept_counts \<Rightarrow> accept_run" where
  "serve_joined shut i path c =
     (let c1 = c\<lparr>ac_join_ok := ac_join_ok c + 1\<rparr> in
      if shut then accept_ends JoinDropped c1 else accept_ends (PathAdded i path) c1)"

definition serve_failed :: "handshake_error \<Rightarrow> accept_counts \<Rightarrow> accept_run" where
  "serve_failed e c =
     (let c1 = c\<lparr>ac_fails := inc_handshake_fail e (ac_fails c)\<rparr> in
      accept_ends (if handshake_is_noise e then NoiseDropped else HandshakeFailed) c1)"

definition serve_one ::
  "bool \<Rightarrow> (nat \<Rightarrow> bool) \<Rightarrow> bool \<Rightarrow> bool \<Rightarrow> handshake_error + handshake_result \<Rightarrow> accept_counts \<Rightarrow> accept_run" where
  "serve_one nodelay_ok shut tls_ok exporter_ok hs c =
     (if \<not> nodelay_ok then accept_ends SocketRefused c
      else if shut 0 then accept_ends TableClosed c
      else if \<not> tls_ok then accept_ends TlsRefused c
      else if shut 1 then accept_ends TableClosed c
      else if \<not> exporter_ok then accept_ends NoExporter c
      else case hs of
          Inr (Created i path) \<Rightarrow> serve_created (shut 2) i path c
        | Inr (Joined i path) \<Rightarrow> serve_joined (shut 2) i path c
        | Inl e \<Rightarrow> serve_failed e c)"

section \<open>An incoming stream\<close>

text \<open>The dial of an incoming stream: on success its copy begins, otherwise the stream is reset.\<close>

datatype incoming_end = CopyBegins | ResetWith reset_reason

record dial_counts =
  dc_ok :: nat
  dc_fail :: nat

definition incoming_dialled :: "bool \<Rightarrow> dial_counts \<Rightarrow> incoming_end \<times> dial_counts" where
  "incoming_dialled dialled c =
     (if dialled then (CopyBegins, c\<lparr>dc_ok := dc_ok c + 1\<rparr>)
      else (ResetWith DialFailed, c\<lparr>dc_fail := dc_fail c + 1\<rparr>))"

section \<open>Facts\<close>

text \<open>No failed handshake is lost: each is reported or counted in a later report, or still pending.\<close>

definition reported :: "nat option list \<Rightarrow> nat" where
  "reported rs = sum_list (map (\<lambda>r. case r of None \<Rightarrow> 0 | Some n \<Rightarrow> n + 1) rs)"

definition pulse_ok :: "tls_pulse \<Rightarrow> bool" where
  "pulse_ok p \<longleftrightarrow> (tp_last_emit p = None \<longrightarrow> tp_suppressed p = 0)"

lemma pulse_step:
  assumes "tls_pulse_should_emit p now every err = (r, q)" "pulse_ok p"
  shows "pulse_ok q" "reported [r] + tp_suppressed q = tp_suppressed p + 1"
  using assms
  by (auto simp: tls_pulse_should_emit_def pulse_emit_def pulse_ok_def reported_def split: option.splits if_splits)

lemma pulse_accounts:
  "pulse_run every p cs = (rs, q) \<Longrightarrow> pulse_ok p \<Longrightarrow>
   length rs = length cs \<and> reported rs + tp_suppressed q = length cs + tp_suppressed p"
proof (induction every p cs arbitrary: rs q rule: pulse_run.induct)
  case (2 every p now err cs)
  obtain r p1 where r: "tls_pulse_should_emit p now every err = (r, p1)" by force
  obtain rs1 q1 where rs: "pulse_run every p1 cs = (rs1, q1)" by force
  have "length rs1 = length cs \<and> reported rs1 + tp_suppressed q1 = length cs + tp_suppressed p1"
    using "2.IH"[OF r[symmetric] rs] pulse_step(1)[OF r] "2.prems"(2) by simp
  then show ?case using "2.prems" r rs pulse_step(2)[OF r "2.prems"(2)] by (auto simp: reported_def)
qed (simp add: reported_def)

text \<open>A connection counts once, by how far it got; only a handshake that succeeded leaves a path or a session.\<close>

lemma serve_one_counts:
  "serve_one n shut tls x hs c = r \<Longrightarrow>
   ac_create_ok (ar_counts r) + ac_join_ok (ar_counts r)
     = ac_create_ok c + ac_join_ok c + (if \<exists>i p. ar_end r \<in> {PathAdded i p, SessionShut i, JoinDropped} then 1 else 0)
   \<and> (ar_serves r \<noteq> None \<longrightarrow> \<not> shut 2 \<and> (\<exists>i p. hs = Inr (Created i p) \<and> ar_serves r = Some i))"
  by (auto simp: serve_one_def serve_created_def serve_joined_def serve_failed_def accept_ends_def Let_def
      split: sum.splits handshake_result.splits if_splits)

end
