(* ===== verification/Session_Carry.thy ===== *)
theory Session_Carry
  imports Session_View Stream_Recv
begin

text \<open>
  What the session sends is what its pumps were given. The pumps of a session cut the bytes of
  stream \<open>i\<close> into the pieces \<open>C i\<close>; \<open>carries C s\<close> says that every data frame queued on a path and
  every unacknowledged piece is one of these pieces at its place, and that every stream knows how
  far its pump has cut. This theory has the rules for the updates the operations are made of.
\<close>

named_theorems carry

section \<open>The invariant\<close>

type_synonym cuts = "nat \<Rightarrow> byte list list"

fun frame_fit :: "cuts \<Rightarrow> frame \<Rightarrow> bool" where
  "frame_fit C (StreamData d) = is_piece (C (sd_stream_id d)) (sd_offset d) (sd_data d)"
| "frame_fit C _ = True"

definition path_fit :: "cuts \<Rightarrow> path_state \<Rightarrow> bool" where
  "path_fit C p \<longleftrightarrow> (\<forall>f\<in>set (urgent_q p) \<union> set (writer_q p). frame_fit C f)"

definition stream_fit :: "cuts \<Rightarrow> stream_state \<Rightarrow> bool" where
  "stream_fit C x \<longleftrightarrow> send_next x = length (concat (C (sid x)))
     \<and> (\<forall>ku\<in>set (unacked_q x). is_piece (C (sid x)) (fst ku) (ua_data (snd ku)))"

definition held :: "session \<Rightarrow> stream_state set" where
  "held s = set (streamtab s) \<union> set (departed s)"

text \<open>A client issues stream ids upwards: an id it has not issued has no stream and no pieces.\<close>

definition issued :: "nat \<Rightarrow> session \<Rightarrow> bool" where
  "issued i s \<longleftrightarrow> (is_client s \<longrightarrow> i < next_stream_id s)"

definition sids :: "session \<Rightarrow> nat list" where
  "sids s = map sid (streamtab s) @ map sid (departed s)"

definition carries :: "cuts \<Rightarrow> session \<Rightarrow> bool" where
  "carries C s \<longleftrightarrow> (\<forall>p\<in>set (pathtab s). path_fit C p)
     \<and> (\<forall>x\<in>held s. stream_fit C x \<and> issued (sid x) s) \<and> (\<forall>i. \<not> issued i s \<longrightarrow> C i = []) \<and> distinct (sids s)"

section \<open>What it depends on\<close>

definition qv :: "path_state \<Rightarrow> frame list \<times> frame list" where
  "qv p = (urgent_q p, writer_q p)"

definition dq :: "nat \<times> unacked \<Rightarrow> nat \<times> byte list" where
  "dq ku = (fst ku, ua_data (snd ku))"

definition tv :: "stream_state \<Rightarrow> nat \<times> nat \<times> (nat \<times> byte list) list" where
  "tv x = (sid x, send_next x, map dq (unacked_q x))"

lemma path_fit_qv: "qv p = qv q \<Longrightarrow> path_fit C p = path_fit C q"
  by (simp add: qv_def path_fit_def)

lemma stream_fit_dq: "stream_fit C x \<longleftrightarrow> send_next x = length (concat (C (sid x)))
    \<and> (\<forall>kd\<in>set (map dq (unacked_q x)). is_piece (C (sid x)) (fst kd) (snd kd))"
  by (auto simp: stream_fit_def dq_def)

lemma stream_fit_tv: "tv x = tv y \<Longrightarrow> stream_fit C x = stream_fit C y"
  unfolding stream_fit_dq tv_def by simp

lemma carriesD:
  "carries C s \<Longrightarrow> p \<in> set (pathtab s) \<Longrightarrow> path_fit C p"
  "carries C s \<Longrightarrow> x \<in> held s \<Longrightarrow> stream_fit C x"
  "carries C s \<Longrightarrow> x \<in> held s \<Longrightarrow> issued (sid x) s"
  by (simp_all add: carries_def)

lemma sids_held: "set (sids s) = sid ` held s"
  by (simp add: sids_def held_def image_Un)

text \<open>An operation may drop frames, paths, pieces and streams, and rewrite the rest in place.\<close>

lemma carries_mono:
  assumes "carries C s" "is_client t = is_client s" "next_stream_id t = next_stream_id s"
    and "\<And>p. p \<in> set (pathtab t) \<Longrightarrow> path_fit C p"
    and "\<And>x. x \<in> held t \<Longrightarrow> stream_fit C x \<and> issued (sid x) s"
    and "distinct (sids t)"
  shows "carries C t"
proof -
  have "issued i t = issued i s" for i by (simp add: issued_def assms(2,3))
  then show ?thesis using assms by (simp add: carries_def)
qed

lemma carries_upd_path:
  "carries C s \<Longrightarrow> (\<And>p. path_fit C p \<Longrightarrow> path_fit C (f p)) \<Longrightarrow> carries C (upd_path i f s)"
  by (rule carries_mono) (auto simp: upd_path_def tbl_upd_def held_def carries_def sids_def comp_def)

lemma carries_upd_path_qv [carry]:
  "carries C s \<Longrightarrow> (\<And>p. qv (f p) = qv p) \<Longrightarrow> carries C (upd_path i f s)"
  by (rule carries_upd_path) (simp_all add: path_fit_qv[of "f _"])

lemma carries_set_path:
  "carries C s \<Longrightarrow> path_fit C q \<Longrightarrow> carries C (upd_path i (\<lambda>_. q) s)"
  by (rule carries_upd_path)

lemma carries_get_path: "carries C s \<Longrightarrow> get_path i s = Some p \<Longrightarrow> path_fit C p"
  using get_path_pid carriesD(1) by blast

lemma fit_tbl_upd:
  assumes "carries C s" "\<And>x. stream_fit C x \<Longrightarrow> sid x = i \<Longrightarrow> stream_fit C (f x) \<and> sid (f x) = i"
    and "set xs \<subseteq> held s"
  shows "map sid (tbl_upd sid i f xs) = map sid xs"
    and "x \<in> set (tbl_upd sid i f xs) \<Longrightarrow> stream_fit C x \<and> issued (sid x) s"
  using assms(2) carriesD(2,3)[OF assms(1)] assms(3) by (auto simp: tbl_upd_def)

lemma carries_streamtab:
  assumes "carries C s" "map sid xs = map sid (streamtab s)" "\<And>x. x \<in> set xs \<Longrightarrow> stream_fit C x"
  shows "carries C (s\<lparr>streamtab := xs\<rparr>)"
proof (rule carries_mono[OF assms(1)])
  have e: "sid ` set xs = sid ` set (streamtab s)" using assms(2) by (metis set_map)
  fix x assume "x \<in> held (s\<lparr>streamtab := xs\<rparr>)"
  then consider "x \<in> set xs" | "x \<in> set (departed s)" by (auto simp: held_def)
  then show "stream_fit C x \<and> issued (sid x) s"
  proof cases
    case 1
    then obtain y where "y \<in> set (streamtab s)" "sid x = sid y" using e by (metis imageE imageI)
    with 1 assms(3) carriesD(3)[OF assms(1), of y] show ?thesis by (simp add: held_def)
  next
    case 2
    then show ?thesis using carriesD(2,3)[OF assms(1), of x] by (simp add: held_def)
  qed
qed (use assms(1,2) in \<open>simp_all add: carries_def sids_def\<close>)

lemma carries_departed:
  assumes "carries C s" "map sid xs = map sid (departed s)" "\<And>x. x \<in> set xs \<Longrightarrow> stream_fit C x"
  shows "carries C (s\<lparr>departed := xs\<rparr>)"
proof (rule carries_mono[OF assms(1)])
  have e: "sid ` set xs = sid ` set (departed s)" using assms(2) by (metis set_map)
  fix x assume "x \<in> held (s\<lparr>departed := xs\<rparr>)"
  then consider "x \<in> set xs" | "x \<in> set (streamtab s)" by (auto simp: held_def)
  then show "stream_fit C x \<and> issued (sid x) s"
  proof cases
    case 1
    then obtain y where "y \<in> set (departed s)" "sid x = sid y" using e by (metis imageE imageI)
    with 1 assms(3) carriesD(3)[OF assms(1), of y] show ?thesis by (simp add: held_def)
  next
    case 2
    then show ?thesis using carriesD(2,3)[OF assms(1), of x] by (simp add: held_def)
  qed
qed (use assms(1,2) in \<open>simp_all add: carries_def sids_def\<close>)

lemma carries_upd_stream:
  assumes "carries C s" "\<And>x. stream_fit C x \<Longrightarrow> sid x = i \<Longrightarrow> stream_fit C (f x) \<and> sid (f x) = i"
  shows "carries C (upd_stream i f s)"
  unfolding upd_stream_def
  by (rule carries_streamtab[OF assms(1)]) (rule fit_tbl_upd[OF assms] conjunct1[OF fit_tbl_upd(2)[OF assms]], auto simp: held_def)+

lemma carries_upd_held:
  assumes "carries C s" "\<And>x. stream_fit C x \<Longrightarrow> sid x = i \<Longrightarrow> stream_fit C (f x) \<and> sid (f x) = i"
  shows "carries C (upd_held i f s)"
proof (cases "get_stream i s = None")
  case True
  have "carries C (s\<lparr>departed := tbl_upd sid i f (departed s)\<rparr>)"
    by (rule carries_departed[OF assms(1)])
      (rule fit_tbl_upd[OF assms] conjunct1[OF fit_tbl_upd(2)[OF assms]], auto simp: held_def)+
  with True show ?thesis by (simp add: upd_held_def)
next
  case False
  with carries_upd_stream[OF assms] show ?thesis by (simp add: upd_held_def)
qed

lemma tv_fit: "tv (f x) = tv x \<Longrightarrow> stream_fit C x \<Longrightarrow> stream_fit C (f x) \<and> sid (f x) = sid x"
  using stream_fit_tv[of "f x" x C] by (simp add: tv_def)

lemma carries_upd_stream_tv [carry]:
  "carries C s \<Longrightarrow> (\<And>x. tv (f x) = tv x) \<Longrightarrow> carries C (upd_stream i f s)"
  by (rule carries_upd_stream) (simp_all add: tv_fit)

lemma carries_upd_held_tv [carry]:
  "carries C s \<Longrightarrow> (\<And>x. tv (f x) = tv x) \<Longrightarrow> carries C (upd_held i f s)"
  by (rule carries_upd_held) (simp_all add: tv_fit)

lemma carries_get_stream: "carries C s \<Longrightarrow> get_stream i s = Some x \<Longrightarrow> stream_fit C x \<and> sid x = i"
  using get_stream_sid[of i s x] carriesD(2)[of C s x] by (simp add: held_def)

lemma carries_put_stream:
  assumes "carries C s" "get_stream i s = Some x" "tv y = tv x"
  shows "carries C (upd_stream i (\<lambda>_. y) s)"
proof -
  have "stream_fit C y \<and> sid y = i"
    using carries_get_stream[OF assms(1,2)] stream_fit_tv[OF assms(3)] assms(3) by (auto simp: tv_def)
  then show ?thesis by (intro carries_upd_stream[OF assms(1)]) simp_all
qed

lemma carries_get_held: "carries C s \<Longrightarrow> get_held i s = Some x \<Longrightarrow> stream_fit C x \<and> sid x = i"
  unfolding get_held_def or_else_eq_Some
  using carries_get_stream tbl_find_Some[of sid i "departed s" x] carriesD(2)[of C s x] by (auto simp: held_def)

lemma carries_get_piece: "carries C s \<Longrightarrow> get_piece i off s = Some u \<Longrightarrow> is_piece (C i) off (ua_data u)"
  using carries_get_stream[of C s i]
  by (fastforce simp: get_piece_def stream_fit_def dest: map_of_SomeD split: option.splits)

lemma carries_fields [carry]:
  "carries C (s\<lparr>incoming := a\<rparr>) = carries C s" "carries C (s\<lparr>sess_dead := b\<rparr>) = carries C s"
  "carries C (s\<lparr>all_down_since := c\<rparr>) = carries C s" "carries C (s\<lparr>correlated_since := c\<rparr>) = carries C s"
  "carries C (s\<lparr>pool_ref_us := n\<rparr>) = carries C s" "carries C (s\<lparr>counters := e\<rparr>) = carries C s"
  "carries C (s\<lparr>observed := f\<rparr>) = carries C s" "carries C (s\<lparr>proc_live := n\<rparr>) = carries C s"
  "carries C (s\<lparr>proc_dead := n\<rparr>) = carries C s" "carries C (s\<lparr>last_rtt_us := g\<rparr>) = carries C s"
  "carries C (s\<lparr>last_lived := g\<rparr>) = carries C s" "carries C (s\<lparr>opens := h\<rparr>) = carries C s"
  "carries C (s\<lparr>closes := k\<rparr>) = carries C s" "carries C (s\<lparr>resets := l\<rparr>) = carries C s"
  "carries C (s\<lparr>early := m\<rparr>) = carries C s" "carries C (s\<lparr>recv_cap_extra := n\<rparr>) = carries C s"
  "carries C (s\<lparr>next_path_id := n\<rparr>) = carries C s"
  by (simp_all add: carries_def held_def issued_def sids_def)

lemma carries_fold: "(\<And>x s. carries C s \<Longrightarrow> carries C (f x s)) \<Longrightarrow> carries C s \<Longrightarrow> carries C (fold f xs s)"
  by (induction xs arbitrary: s) auto

lemma carries_fold_in:
  "(\<And>x s. x \<in> set xs \<Longrightarrow> carries C s \<Longrightarrow> carries C (f x s)) \<Longrightarrow> carries C s \<Longrightarrow> carries C (fold f xs s)"
  by (induction xs arbitrary: s) auto

text \<open>Paths rewritten in place, or some of them written back.\<close>

lemma carries_pathtab:
  "carries C s \<Longrightarrow> (\<And>p. p \<in> set ps \<Longrightarrow> path_fit C p) \<Longrightarrow> carries C (s\<lparr>pathtab := ps\<rparr>)"
  by (rule carries_mono) (auto simp: held_def carries_def sids_def comp_def)

lemma carries_map_paths:
  "carries C s \<Longrightarrow> (\<And>p. qv (f p) = qv p) \<Longrightarrow> carries C (s\<lparr>pathtab := map f (pathtab s)\<rparr>)"
  by (rule carries_pathtab) (auto simp: path_fit_qv[of "f _"] carries_def)

lemma set_put_paths: "p \<in> set (put_paths us ps) \<Longrightarrow> p \<in> set us \<or> p \<in> set ps"
  by (auto simp: put_paths_def dest: find_Some_in split: option.splits)

lemma carries_put_paths:
  assumes "carries C s" "\<And>q. q \<in> set us \<Longrightarrow> path_fit C q"
  shows "carries C (s\<lparr>pathtab := put_paths us (pathtab s)\<rparr>)"
  by (rule carries_pathtab[OF assms(1)]) (use set_put_paths assms carriesD(1) in blast)

end
