(* ===== verification/Carry_Ops.thy ===== *)
theory Carry_Ops
  imports Session_Carry
begin

text \<open>
  The operations that cut nothing: each keeps \<open>carries C\<close>. Most leave the queues and the pieces
  alone; those that queue a frame queue one that is no data, or a piece.
\<close>

section \<open>One path\<close>

lemma fit_queue_frame:
  assumes "frame_fit C f" "path_fit C p" shows "path_fit C (snd (queue_frame now urg f p))"
  using assms
  by (auto simp: queue_frame_def note_enqueue_def undo_enqueue_def try_send_def path_fit_def Let_def
      split: option.splits)

lemma qv_budget_limited [carry]: "qv (note_budget_limited p) = qv p"
  by (simp add: note_budget_limited_def qv_def)

lemma qv_room_mark [carry]: "qv (snd (has_room_or_mark p)) = qv p"
  by (simp add: has_room_or_mark_def carry)

lemma qv_loop_fit [carry]: "qv (snd (loop_fit now cfg r p)) = qv p"
  by (simp add: loop_fit_def qv_def Let_def)

lemma qv_mark_degraded [carry]: "qv (mark_degraded p) = qv p"
  by (simp add: mark_degraded_def qv_def)

lemma qv_merge_ack [carry]: "qv (merge_ack a p) = qv p"
  by (simp add: merge_ack_def qv_def split: option.splits)

lemma qv_restore_acks [carry]: "qv (restore_acks as p) = qv p"
  unfolding restore_acks_def by (induction as arbitrary: p) (simp_all add: carry)

lemma qv_take_all_acks [carry]: "qv (snd (take_all_acks p)) = qv p"
  by (simp add: take_all_acks_def qv_def)

lemma qv_outlier [carry]: "qv (snd (mark_outlier now p)) = qv p" "qv (clear_outlier p) = qv p"
  by (simp_all add: mark_outlier_def clear_outlier_def qv_def Let_def)

lemma qv_expire [carry]: "qv (snd (expire_path_pings now s p)) = qv p"
  by (simp add: expire_path_pings_def expire_stale_pings_def drop_ancient_pings_def qv_def Let_def)

lemma qv_rtts [carry]: "qv (p\<lparr>rtts := r\<rparr>) = qv p" "qv (p\<lparr>bud := b\<rparr>) = qv p"
  by (simp_all add: qv_def)

lemma qv_pong [carry]: "qv (on_pong_record now q rec cap late p) = qv p"
  by (simp add: on_pong_record_def feed_pong_def qv_def Let_def split: option.splits)

lemma qv_bw_sample [carry]: "qv (note_bw_sample now rate us p) = qv p"
  by (simp add: note_bw_sample_def end_budget_round_def qv_def Let_def split: prod.splits)

lemma qv_ack_rtt [carry]: "qv (record_ack_rtt now d p) = qv p"
  by (simp add: record_ack_rtt_def qv_def Let_def)

lemma qv_ack_clock [carry]: "qv (note_ack_clock now t u d p) = qv p"
  unfolding note_ack_clock_def Let_def by (simp add: carry)

lemma qv_ack_sample [carry]: "qv (ack_rtt_sample now s n u d p) = qv p"
  by (simp add: ack_rtt_sample_def carry)

lemma qv_stamp [carry]: "dq (k, stamp now p u) = dq (k, u)"
  by (simp add: stamp_def dq_def ua_len_def)

section \<open>One stream\<close>

lemma tv_stick_change [carry]: "tv (note_stick_change now x) = tv x"
  by (simp add: note_stick_change_def tv_def)

lemma tv_path_used [carry]: "tv (note_path_used i x) = tv x"
  by (simp add: note_path_used_def tv_def)

lemma tv_close_started [carry]: "tv (note_close_started now x) = tv x"
  by (simp add: note_close_started_def tv_def)

lemma tv_clear_stall [carry]: "tv (clear_stall x) = tv x"
  by (simp add: clear_stall_def tv_def)

lemma tv_inbound [carry]: "tv (inbound_send_lossy m x) = tv x"
  by (simp add: inbound_send_lossy_def inbound_send_def tv_def)

lemma tv_recv_flags [carry]:
  "tv (x\<lparr>recv_fin := b\<rparr>) = tv x" "tv (x\<lparr>recv_close_off := c\<rparr>) = tv x"
  "tv (x\<lparr>was_reset := b\<rparr>) = tv x" "tv (x\<lparr>counted_close := b\<rparr>) = tv x"
  "tv (x\<lparr>send_fin_sent := b\<rparr>) = tv x" "tv (x\<lparr>hedges := n\<rparr>) = tv x"
  "tv (x\<lparr>send_window := n\<rparr>) = tv x"
  "tv (x\<lparr>send_acked := n\<rparr>) = tv x" "tv (x\<lparr>last_ack_ms := n\<rparr>) = tv x"
  "tv (x\<lparr>last_sack_ms := n\<rparr>) = tv x" "tv (x\<lparr>sacked := n\<rparr>) = tv x"
  "tv (x\<lparr>ack_dirty := b\<rparr>) = tv x" "tv (x\<lparr>ack_flush_from_us := n\<rparr>) = tv x"
  "tv (x\<lparr>buffered_in := n\<rparr>) = tv x" "tv (x\<lparr>inbound_q := q\<rparr>) = tv x"
  "tv (x\<lparr>bulk := b\<rparr>) = tv x" "tv (x\<lparr>stalled := b\<rparr>) = tv x"
  "tv (x\<lparr>stall_from_ms := n\<rparr>) = tv x" "tv (x\<lparr>recv_hole_since_ms := n\<rparr>) = tv x"
  "tv (x\<lparr>zero_win_hole := n\<rparr>) = tv x" "tv (x\<lparr>zero_win_app := n\<rparr>) = tv x"
  "tv (x\<lparr>budget_diverts := n\<rparr>) = tv x" "tv (x\<lparr>budget_blocks := n\<rparr>) = tv x"
  "tv (x\<lparr>window_blocks := n\<rparr>) = tv x" "tv (x\<lparr>window_limited_with_room := n\<rparr>) = tv x"
  by (simp_all add: tv_def)

lemma tv_accept [carry]: "tv (snd (accept_piece path off d x)) = tv x"
  by (simp add: accept_piece_def tv_def Let_def split: option.splits)

lemma tv_drain_loop: "tv (snd (snd (drain_loop now got x))) = tv x"
proof (induction now got x rule: drain_loop.induct)
  case (1 now got x)
  show ?case
  proof (cases "map_of (recv_buf x) (recv_next x)")
    case (Some chunk)
    then show ?thesis using 1[OF Some]
      by (subst drain_loop.simps) (auto simp: tv_def inbound_send_def split: option.splits)
  qed (subst drain_loop.simps, simp)
qed

lemma tv_track_hole [carry]: "tv (track_hole now full x) = tv x"
proof -
  have [simp]: "tv (sample_hole_bytes now n y) = tv y" "tv (sample_hole now n y) = tv y"
    "tv (y\<lparr>hole := h\<rparr>) = tv y"
    "tv (y\<lparr>recv_hole_max := a, app_backlog_max := b\<rparr>) = tv y" for n y h a b
    by (simp_all add: sample_hole_bytes_def sample_hole_def Let_def tv_def)
  show ?thesis
    by (cases "hole x") (simp_all add: track_hole_def Let_def split: prod.splits)
qed

lemma tv_drain [carry]: "tv (snd (drain_core now x)) = tv x"
  using tv_drain_loop[of now 0 x]
  by (cases "drain_loop now 0 x") (simp add: drain_core_def carry)

lemma tv_note_deliver [carry]: "tv (snd (note_deliver now n d x)) = tv x"
  unfolding note_deliver_def Let_def by (simp add: tv_def split: option.splits)

lemma tv_upd_pieces:
  "(\<And>k u. (k, u) \<in> set q \<Longrightarrow> dq (k, f k u) = dq (k, u)) \<Longrightarrow>
   map dq (map (\<lambda>(k, u). (k, f k u)) q) = map dq q"
  by (induction q) auto

section \<open>Counters and tables\<close>

lemma carries_counters [carry]:
  "carries C (bump_by n m s) = carries C s" "carries C (bump m s) = carries C s"
  "carries C (gauge m n s) = carries C s" "carries C (observe h n s) = carries C s"
  by (simp_all add: bump_by_def bump_def gauge_def observe_def carry)

lemma get_recounted [carry]:
  "get_path i (bump_by n m s) = get_path i s" "get_path i (bump m s) = get_path i s"
  "get_stream i (bump_by n m s) = get_stream i s" "get_stream i (bump m s) = get_stream i s"
  by (simp_all add: bump_by_def bump_def get_path_def get_stream_def)

lemma carries_retry_tables [carry]:
  "carries C (remember_open now i p t s) = carries C s" "carries C (forget_open i s) = carries C s"
  "carries C (remember_close now i p b f s) = carries C s" "carries C (forget_close i s) = carries C s"
  "carries C (remember_reset now i p w s) = carries C s" "carries C (forget_reset i s) = carries C s"
  "carries C (push_early_data now p d s) = carries C s" "carries C (snd (take_early_data i s)) = carries C s"
  "carries C (expire_early_data now s) = carries C s"
  "carries C (upd_open i f1 s) = carries C s" "carries C (upd_close i f2 s) = carries C s"
  "carries C (upd_reset i f3 s) = carries C s"
  by (simp_all add: remember_open_def forget_open_def remember_close_def forget_close_def
      remember_reset_def forget_reset_def push_early_data_def take_early_data_def
      expire_early_data_def upd_open_def upd_close_def upd_reset_def Let_def carry)

lemma carries_reaps [carry]:
  "carries C s \<Longrightarrow> carries C (reap_closes now s)" "carries C s \<Longrightarrow> carries C (reap_resets now s)"
  by (auto simp: reap_closes_def reap_resets_def Let_def carry intro!: carries_fold)

lemma carries_upd_piece [carry]:
  "carries C s \<Longrightarrow> (\<And>k u. dq (k, f u) = dq (k, u)) \<Longrightarrow> carries C (upd_piece i off f s)"
  unfolding upd_piece_def
  by (rule carries_upd_stream_tv) (auto simp: tv_def intro!: tv_upd_pieces)

lemma carries_upd_held_piece [carry]:
  "carries C s \<Longrightarrow> (\<And>k u. dq (k, f u) = dq (k, u)) \<Longrightarrow> carries C (upd_held_piece i off f s)"
  unfolding upd_held_piece_def
  by (rule carries_upd_held_tv) (auto simp: tv_def intro!: tv_upd_pieces)

lemma dq_fields [carry]:
  "dq (k, u\<lparr>ua_dropped := b\<rparr>) = dq (k, u)" "dq (k, u\<lparr>ua_not_before := n\<rparr>) = dq (k, u)"
  "dq (k, u\<lparr>ua_last_sent := n\<rparr>) = dq (k, u)" "dq (k, u\<lparr>ua_tried := t\<rparr>) = dq (k, u)"
  by (simp_all add: dq_def ua_len_def)

lemma carries_note_data [carry]:
  "carries C s \<Longrightarrow> carries C (note_data_dropped now i off s)"
  "carries C s \<Longrightarrow> carries C (defer_piece i off t s)"
  by (simp_all add: note_data_dropped_def defer_piece_def carry)

section \<open>Frames\<close>

lemma fit_no_data [carry]:
  "frame_fit C (open_frame i t)" "frame_fit C (close_frame i e)" "frame_fit C (reset_frame i w)"
  by (simp_all add: open_frame_def close_frame_def reset_frame_def)

lemma carries_send_on_path [carry]:
  assumes "carries C s" "frame_fit C f" shows "carries C (snd (send_on_path now i f s))"
proof (cases "get_path i s")
  case (Some p)
  have "carries C (upd_path i (\<lambda>_. snd (queue_frame now u f p)) s)" for u
    by (intro carries_set_path fit_queue_frame assms carries_get_path[OF assms(1) Some])
  with Some assms show ?thesis by (simp add: send_on_path_def Let_def case_prod_unfold carry)
qed (simp add: send_on_path_def assms)

lemma carries_send_on_path' [carry]:
  "send_on_path now i f s = (ok, t) \<Longrightarrow> carries C s \<Longrightarrow> frame_fit C f \<Longrightarrow> carries C t"
  using carries_send_on_path[of C s f now i] by simp

lemma carries_send_data [carry]:
  "carries C s \<Longrightarrow> is_piece (C i) off d \<Longrightarrow> carries C (snd (send_data_frame now i off d k s))"
  by (simp add: send_data_frame_def carry)

lemma carries_send_data' [carry]:
  "send_data_frame now i off d k s = (ok, t) \<Longrightarrow> carries C s \<Longrightarrow> is_piece (C i) off d \<Longrightarrow> carries C t"
  using carries_send_data[of C s i off d now k] by simp

lemma carries_notes [carry]:
  "carries C (note_retry a b s) = carries C s"
  "carries C (note_unknown_pick i s) = carries C s"
  "carries C (note_migrate m s) = carries C s"
  by (simp_all add: note_retry_def note_unknown_pick_def note_migrate_def Let_def carry
      split: option.splits)

lemma carries_note_pick [carry]: "carries C s \<Longrightarrow> carries C (note_pick i s)"
  by (auto simp: note_pick_def carry qv_def split: option.splits)

lemma carries_note_ack_sent: "carries C s \<Longrightarrow> carries C (note_ack_sent now i k s)"
  by (auto simp: note_ack_sent_def carry tv_def Let_def split: option.splits)

lemma carries_observe_failover [carry]: "carries C s \<Longrightarrow> carries C (observe_failover now i s)"
  by (auto simp: observe_failover_def carry qv_def split: option.splits)

lemma carries_note_resent [carry]: "carries C s \<Longrightarrow> carries C (note_resent i a b w d s)"
  by (simp add: note_resent_def Let_def carry)

section \<open>The pool\<close>

lemma fit_filter_upd:
  assumes "\<And>p. qv (snd (f p)) = qv p" "\<And>p. p \<in> set xs \<Longrightarrow> path_fit C p"
    "q \<in> set (fst (filter_upd f xs)) \<or> q \<in> set (snd (filter_upd f xs))"
  shows "path_fit C q"
proof -
  have "\<exists>p\<in>set xs. qv q = qv p"
    using assms(1,3) filter_upd_all[of q f xs] filter_upd_kept[of q f xs] by (metis snd_conv)
  then show ?thesis using assms(2) path_fit_qv by blast
qed

lemma fit_loop_fit_or_all:
  "(\<And>p. p \<in> set xs \<Longrightarrow> path_fit C p) \<Longrightarrow> q \<in> set (snd (loop_fit_or_all now cfg r xs)) \<Longrightarrow> path_fit C q"
  using fit_filter_upd[of "loop_fit now cfg r" xs C q]
  by (auto simp: loop_fit_or_all_def carry Let_def split: prod.splits)

lemma carries_loop_fit_id [carry]: "carries C s \<Longrightarrow> carries C (snd (loop_fit_id now i s))"
  by (auto simp: loop_fit_id_def carry split: option.splits)

lemma carries_bulk_overflow [carry]:
  assumes "carries C s" shows "carries C (snd (bulk_overflow now k s))"
proof -
  let ?f = "\<lambda>p. if pid p \<noteq> k \<and> is_schedulable p \<and> is_quiet_fresh now (scfg s) p
                then (let (fit, p1) = loop_fit now (scfg s) (pool_ref s) p
                      in if fit then has_room_or_mark p1 else (False, p1))
                else (False, p)"
  have f: "qv (snd (?f p)) = qv p" for p
    using qv_loop_fit[of now "scfg s" "pool_ref s" p]
    by (cases "loop_fit now (scfg s) (pool_ref s) p") (simp add: carry)
  have "carries C (s\<lparr>pathtab := put_paths (snd (filter_upd ?f (fastest_class_set (scfg s) (pathtab s)))) (pathtab s)\<rparr>)"
    by (rule carries_put_paths[OF assms], rule fit_filter_upd[OF f _ disjI2])
      (use fastest_subset carriesD(1)[OF assms] in blast)+
  then show ?thesis
    by (cases "filter_upd ?f (fastest_class_set (scfg s) (pathtab s))")
       (simp add: bulk_overflow_def bulk_overflow_pick_def Let_def)
qed

lemma carries_pick_bulk_home [carry]:
  assumes "carries C s" shows "carries C (snd (pick_bulk_home now e s))"
proof -
  let ?fresh = "filter_or_all (is_quiet_fresh now (scfg s))
     (filter (\<lambda>p. is_schedulable p \<and> Some (pid p) \<noteq> e) (fastest_class_set (scfg s) (pathtab s)))"
  have sub: "path_fit C p" if "p \<in> set ?fresh" for p
    using that fastest_subset[of p "scfg s" "pathtab s"] filter_or_all_subset carriesD(1)[OF assms] by fastforce
  let ?us = "snd (filter_upd has_room_or_mark ?fresh)" and ?room = "fst (filter_upd has_room_or_mark ?fresh)"
  let ?t = "s\<lparr>pathtab := put_paths ?us (pathtab s)\<rparr>"
  note room = fit_filter_upd[of has_room_or_mark ?fresh C, OF qv_room_mark sub]
  have t: "carries C ?t" by (rule carries_put_paths[OF assms]) (use room in blast)
  have "carries C (?t\<lparr>pathtab := put_paths (snd (loop_fit_or_all now (scfg s) (pool_ref s) ?room)) (pathtab ?t)\<rparr>)"
    by (rule carries_put_paths[OF t], rule fit_loop_fit_or_all) (use room in blast)+
  with t show ?thesis
    by (simp add: pick_bulk_home_def pick_bulk_def Let_def case_prod_unfold)
qed

lemma carries_bulk_affinity_mark [carry]: "carries C s \<Longrightarrow> carries C (upd_path k note_budget_limited s)"
  by (simp add: carry)

lemma carries_hol_place [carry]:
  assumes "carries C s" shows "carries C (snd (hol_place_bulk now c s))"
proof -
  have "carries C (s\<lparr>pathtab := put_paths (snd (loop_fit_or_all now (scfg s) r (filter P (pathtab s)))) (pathtab s)\<rparr>)"
    for r P by (rule carries_put_paths[OF assms], rule fit_loop_fit_or_all) (use carriesD(1)[OF assms] in auto)
  with assms show ?thesis
    by (simp add: hol_place_bulk_def hol_place_bulk_fallback_def Let_def case_prod_unfold split: option.splits)
qed

lemma carries_tick_pings [carry]:
  assumes "carries C s" shows "carries C (snd (tick_pings now s))"
proof -
  have "carries C (s\<lparr>pathtab := map (\<lambda>p. snd (expire_path_pings now s p)) (pathtab s)\<rparr>)"
    by (rule carries_map_paths[OF assms]) (simp add: carry)
  then show ?thesis by (simp add: tick_pings_def Let_def carry comp_def)
qed

lemma carries_sample_fits [carry]:
  assumes "carries C s" shows "carries C (sample_fits now s)"
proof -
  have "carries C (s\<lparr>pool_ref_us := n\<rparr>)" for n using assms by (simp add: carry)
  from carries_map_paths[OF this] show ?thesis by (simp add: sample_fits_def Let_def carry)
qed

lemma carries_note_correlated [carry]: "carries C (note_correlated now c s) = carries C s"
  by (simp add: note_correlated_def carry)

lemma carries_retry_open [carry]: "carries C s \<Longrightarrow> carries C (retry_open now k s)"
  by (cases k) (simp add: carry split: option.splits prod.splits)

lemma carries_retry_opens [carry]: "carries C s \<Longrightarrow> carries C (retry_opens now s)"
  unfolding retry_opens_def by (rule carries_fold) (simp_all add: carry del: retry_open.simps)

lemma carries_move_open [carry]: "carries C s \<Longrightarrow> carries C (move_open now g k s)"
  by (cases k) (simp add: carry split: option.splits prod.splits)

lemma carries_retry_open_from [carry]: "carries C s \<Longrightarrow> carries C (retry_open_from now g s)"
  unfolding retry_open_from_def by (rule carries_fold) (simp_all add: carry del: move_open.simps)

lemma carries_close_again [carry]:
  "carries C s \<Longrightarrow> (\<And>t. carries C t \<Longrightarrow> carries C (g t)) \<Longrightarrow> carries C (send_close_again now i tr f g s)"
  by (simp add: send_close_again_def carry split: option.splits prod.splits)

lemma carries_retry_close [carry]: "carries C s \<Longrightarrow> carries C (retry_close now k s)"
  by (cases k) (simp add: carry)

lemma carries_retry_closes [carry]: "carries C s \<Longrightarrow> carries C (retry_closes now s)"
  unfolding retry_closes_def Let_def
  by (rule carries_fold) (simp_all add: carry del: retry_close.simps)

lemma carries_move_close [carry]: "carries C s \<Longrightarrow> carries C (move_close now k s)"
  by (cases k) (simp add: carry)

lemma carries_retry_close_from [carry]: "carries C s \<Longrightarrow> carries C (retry_close_from now g s)"
  unfolding retry_close_from_def by (rule carries_fold) (simp_all add: carry del: move_close.simps)

lemma carries_reset_again [carry]:
  "carries C s \<Longrightarrow> (\<And>t. carries C t \<Longrightarrow> carries C (g t)) \<Longrightarrow> carries C (send_reset_again now i tr w g s)"
  by (simp add: send_reset_again_def carry split: option.splits prod.splits)

lemma carries_retry_reset [carry]: "carries C s \<Longrightarrow> carries C (retry_reset now k s)"
  by (cases k) (simp add: carry)

lemma carries_retry_resets [carry]: "carries C s \<Longrightarrow> carries C (retry_resets now s)"
  unfolding retry_resets_def Let_def
  by (rule carries_fold) (simp_all add: carry del: retry_reset.simps)

lemma carries_retry_reset_from [carry]: "carries C s \<Longrightarrow> carries C (retry_reset_from now g s)"
  unfolding retry_reset_from_def by (rule carries_fold) (simp_all add: carry split: prod.splits)

section \<open>The end of a stream, before it leaves\<close>

lemma carries_wire_reset [carry]: "carries C s \<Longrightarrow> carries C (wire_reset pick now i w s)"
  by (simp add: wire_reset_def carry split: option.splits prod.splits)

lemma carries_wire_close [carry]: "carries C s \<Longrightarrow> carries C (wire_close now i b f s)"
  by (simp add: wire_close_def carry split: option.splits prod.splits)

lemma carries_observe_end_times [carry]: "carries C s \<Longrightarrow> carries C (observe_end_times now x s)"
  by (simp add: observe_end_times_def Let_def carry)

lemma carries_observe_stream_end [carry]: "carries C s \<Longrightarrow> carries C (observe_stream_end now r i s)"
  by (simp add: observe_stream_end_def Let_def carry split: option.splits)

lemma carries_claim_close [carry]: "carries C s \<Longrightarrow> carries C (snd (claim_close i s))"
  by (simp add: claim_close_def carry split: option.splits)

lemma carries_claim_close' [carry]: "claim_close i s = (b, t) \<Longrightarrow> carries C s \<Longrightarrow> carries C t"
  using carries_claim_close[of C s i] by simp

lemma carries_count_close [carry]: "carries C s \<Longrightarrow> carries C (count_close now r i s)"
  by (simp add: count_close_def carry split: prod.splits)

lemma carries_reset_once [carry]: "carries C s \<Longrightarrow> carries C (reset_once now r b i s)"
  by (simp add: reset_once_def Let_def carry split: option.splits)

lemma carries_recv_fin_once [carry]: "carries C s \<Longrightarrow> carries C (recv_fin_once i s)"
  unfolding recv_fin_once_def by (rule carries_upd_stream_tv) (simp_all add: carry)

section \<open>ACKs\<close>

lemma carries_mark_ack_dirty [carry]: "carries C s \<Longrightarrow> carries C (mark_ack_dirty now i s)"
  unfolding mark_ack_dirty_def by (rule carries_upd_stream_tv) (simp_all add: carry tv_def)

lemma carries_store_ack [carry]: "carries C s \<Longrightarrow> carries C (snd (store_ack now i k a s))"
  by (simp add: store_ack_def carry qv_def split: option.splits)

lemma carries_store_ack' [carry]: "store_ack now i k a s = (b, t) \<Longrightarrow> carries C s \<Longrightarrow> carries C t"
  using carries_store_ack[of C s now i k a] by simp

lemma carries_note_zero [carry]: "carries C s \<Longrightarrow> carries C (note_zero_window i x s)"
  by (simp add: note_zero_window_def carry split: prod.splits)

lemma carries_send_ack [carry]:
  assumes "carries C s" shows "carries C (send_ack now i k s)"
proof (cases "get_stream i s")
  case (Some x)
  let ?a = "ack_of x"
  let ?t1 = "if sa_window ?a = 0 then note_zero_window i x s else s"
  have k1: "carries C ?t1" using assms by (simp add: carry)
  obtain b2 t2 where r2: "store_ack now i k ?a ?t1 = (b2, t2)" by fastforce
  then have k2: "carries C t2" using k1 by (rule carries_store_ack')
  obtain b3 t3 where r3: "(if sticky x \<noteq> 0 \<and> sticky x \<noteq> k then store_ack now i (sticky x) ?a t2
      else (False, t2)) = (b3, t3)" by fastforce
  then have k3: "carries C t3" using k2 carries_store_ack' by (metis prod.inject)
  obtain b4 t4 where r4: "(case pick_pref now PickInteractive t3 of
        Some j \<Rightarrow> if j \<noteq> k \<and> j \<noteq> sticky x then store_ack now i j ?a t3 else (False, t3)
      | None \<Rightarrow> (False, t3)) = (b4, t4)" by fastforce
  then have k4: "carries C t4" using k3
    by (cases "pick_pref now PickInteractive t3")
       (auto dest: carries_store_ack' split: if_splits)
  show ?thesis
    unfolding send_ack_def Some option.case Let_def r2 prod.case r3 r4
    using k2 k3 k4 by (simp add: carry)
qed (simp add: send_ack_def assms)

lemma carries_merge_pending [carry]: "carries C s \<Longrightarrow> carries C (merge_pending_acks now g t s)"
  by (simp add: merge_pending_acks_def carry split: option.splits)

section \<open>Marks\<close>

lemma carries_on_pong [carry]: "carries C s \<Longrightarrow> carries C (on_pong_frame now i q s)"
  by (simp add: on_pong_frame_def carry split: option.splits)

lemma tv_recv_stall: "tv (snd (recv_stall now t x)) = tv x"
  by (simp add: recv_stall_def Let_def carry)

lemma carries_scan_stall [carry]:
  assumes "carries C s" shows "carries C (scan_stall now i s)"
proof (cases "get_stream i s")
  case (Some x)
  obtain b x1 where r: "recv_stall now (stall_thresh_ms x s) x = (b, x1)" by fastforce
  have "tv x1 = tv x" using tv_recv_stall[of now "stall_thresh_ms x s" x] r by simp
  then have "carries C (upd_stream i (\<lambda>_. x1) s)"
    by (rule carries_put_stream[OF assms Some])
  with Some r assms show ?thesis by (simp add: scan_stall_def Let_def carry split: option.splits)
qed (simp add: scan_stall_def assms)

lemma carries_count_divert [carry]: "carries C s \<Longrightarrow> carries C (count_divert i s)"
  by (simp add: count_divert_def carry)

lemma carries_bulk_home [carry]: "carries C s \<Longrightarrow> carries C (snd (snd (bulk_home now k s)))"
  by (simp add: bulk_home_def carry split: option.splits)

lemma carries_snd_eqs [carry]:
  "bulk_home now k s = (r, b, t) \<Longrightarrow> carries C s \<Longrightarrow> carries C t"
  "pick_bulk_home now e s = (r', t) \<Longrightarrow> carries C s \<Longrightarrow> carries C t"
  "loop_fit_id now i s = (r'', t) \<Longrightarrow> carries C s \<Longrightarrow> carries C t"
  "bulk_overflow now k s = (r', t) \<Longrightarrow> carries C s \<Longrightarrow> carries C t"
  "hol_place_bulk now c s = (r', t) \<Longrightarrow> carries C s \<Longrightarrow> carries C t"
  using carries_bulk_home[of C s now k] carries_pick_bulk_home[of C s now e] carries_loop_fit_id[of C s now i]
    carries_bulk_overflow[of C s now k] carries_hol_place[of C s now c] by simp_all

lemma carries_bulk_elsewhere [carry]: "carries C s \<Longrightarrow> carries C (snd (bulk_elsewhere now k b s))"
  by (auto simp: bulk_elsewhere_def Let_def carry split: option.splits prod.splits)

lemma carries_pick_bulk_path [carry]: "carries C s \<Longrightarrow> carries C (snd (pick_bulk_path now i k s))"
  by (auto simp: pick_bulk_path_def carry split: option.splits prod.splits)

lemma carries_pick_send_path [carry]: "carries C s \<Longrightarrow> carries C (snd (pick_send_path now b i k s))"
  by (simp add: pick_send_path_def carry)

lemma carries_place_unfit [carry]: "carries C s \<Longrightarrow> carries C (snd (place_unfit now k b s))"
  by (auto simp: place_unfit_def carry split: option.splits prod.splits)

lemma carries_place_first [carry]: "carries C s \<Longrightarrow> carries C (snd (place_first_bulk now k b s))"
  by (auto simp: place_first_bulk_def carry split: option.splits prod.splits)

lemma carries_budget_block [carry]:
  assumes "carries C s" shows "carries C (count_budget_block i s)"
proof -
  have "carries C (upd_held i (\<lambda>y. y\<lparr>budget_blocks := budget_blocks y + 1\<rparr>) (bump M_budget_blocks s))"
    using assms by (simp add: carry)
  from carries_map_paths[OF this] show ?thesis by (simp add: count_budget_block_def Let_def carry)
qed

lemma carries_no_path [carry]: "carries C s \<Longrightarrow> carries C (snd (no_path_yet now i b off d w t s))"
  by (simp add: no_path_yet_def Let_def carry)

lemma carries_window_block [carry]: "carries C s \<Longrightarrow> carries C (count_window_block i s)"
  by (simp add: count_window_block_def Let_def carry)

lemma carries_stamp_delivered [carry]:
  assumes "carries C s" shows "carries C (stamp_delivered now i off j s)"
proof (cases "get_path j s")
  case (Some p)
  have "carries C (upd_path j (\<lambda>_. if c then p\<lparr>bud := b\<rparr> else p) s)" for c b
    using carries_get_path[OF assms Some] by (intro carries_set_path[OF assms]) (simp add: path_fit_qv[of "p\<lparr>bud := b\<rparr>" p] carry)
  then show ?thesis
    unfolding stamp_delivered_def Some option.case Let_def
    by (intro carries_upd_held_piece) (simp_all add: carry)
qed (simp add: stamp_delivered_def assms)

lemma carries_mark_enqueued [carry]: "carries C s \<Longrightarrow> carries C (mark_enqueued now i k off s)"
  unfolding mark_enqueued_def
  by (intro carries_stamp_delivered carries_upd_held_piece) (simp_all add: dq_def ua_len_def)

end
