(* ===== verification/Carry_Moves.thy ===== *)
theory Carry_Moves
  imports Carry_Ops Session_Keep
begin

text \<open>
  The operations on streams and their pieces keep \<open>carries C\<close>: streams leave, data and ACKs arrive,
  pieces are sent again and change paths, paths come and go, and the health tick.
\<close>

section \<open>Streams leave\<close>

lemma qv_inflight [carry]: "qv (add_inflight n p) = qv p" "qv (sub_inflight n p) = qv p"
  "qv (add_sticky p) = qv p" "qv (drop_sticky p) = qv p"
  by (simp_all add: add_inflight_def sub_inflight_def add_sticky_def drop_sticky_def qv_def)

lemma tv_sticky [carry]: "tv (x\<lparr>sticky := k\<rparr>) = tv x"
  by (simp add: tv_def)

lemma carries_sticky [carry]:
  "carries C s \<Longrightarrow> carries C (set_sticky now i k s)" "carries C s \<Longrightarrow> carries C (unstick i s)"
  by (simp_all add: set_sticky_def unstick_def Let_def carry split: option.splits)

lemma carries_xfer [carry]: "carries C s \<Longrightarrow> carries C (xfer_inflight a b n s)"
  by (simp add: xfer_inflight_def carry)

lemma carries_release_pieces [carry]: "carries C s \<Longrightarrow> carries C (release_pieces us s)"
  unfolding release_pieces_def by (rule carries_fold) (simp_all add: credit_piece_def carry)

lemma release_fields:
  "streamtab (release_pieces us s) = streamtab s" "departed (release_pieces us s) = departed s"
  "next_stream_id (release_pieces us s) = next_stream_id s" "is_client (release_pieces us s) = is_client s"
  unfolding release_pieces_def
  by (induction us arbitrary: s) (simp_all add: credit_piece_def upd_path_def)

lemma carries_remove_held [carry]:
  assumes a: "carries C s" shows "carries C (remove_held_stream i s)"
proof (cases "get_stream i s")
  case (Some x)
  have x: "stream_fit C x" "issued (sid x) s"
    using carries_get_stream[OF a Some] get_stream_sid[OF Some] carriesD(3)[OF a, of x] by (auto simp: held_def)
  let ?y = "x\<lparr>sticky := 0, unacked_q := [], gone := True\<rparr>"
  let ?s1 = "s\<lparr>streamtab := tbl_del sid i (streamtab s)\<rparr>"
  define t where "t = forget_open i (release_pieces (map snd (unacked_q x))
      (if sticky x = 0 then ?s1 else upd_path (sticky x) drop_sticky ?s1))"
  have "carries C ?s1"
    by (rule carries_mono[OF a])
      (use a in \<open>auto simp: held_def tbl_del_def carries_def sids_def intro: distinct_map_filter\<close>)
  then have t: "carries C t" unfolding t_def by (simp add: carry)
  have f: "next_stream_id t = next_stream_id s" "is_client t = is_client s"
    by (simp_all add: t_def forget_open_def release_fields upd_path_def)
  have h: "sid x \<notin> set (sids t)"
  proof -
    have "distinct (sids s)" "x \<in> set (streamtab s)" "sid x = i"
      using a get_stream_sid[OF Some] by (simp_all add: carries_def)
    then show ?thesis by (auto simp: sids_def t_def forget_open_def release_fields upd_path_def tbl_del_def)
  qed
  have y: "stream_fit C ?y" "issued (sid ?y) t" using x f by (simp_all add: stream_fit_def issued_def)
  have "carries C (t\<lparr>departed := ?y # departed t\<rparr>)"
    by (rule carries_mono[OF t]) (use t y h in \<open>auto simp: held_def carries_def sids_def\<close>)
  then show ?thesis by (simp add: remove_held_stream_def Some Let_def t_def)
qed (simp add: remove_held_stream_def a)

lemma carries_drop_departed [carry]:
  assumes a: "carries C s" shows "carries C (drop_departed n s)"
proof (cases "n < length (departed s)")
  case True
  let ?d = "take n (departed s) @ drop (Suc n) (departed s)"
  have d: "departed s = take n (departed s) @ departed s ! n # drop (Suc n) (departed s)"
    using True by (rule id_take_nth_drop)
  have "distinct (map sid (streamtab s) @ map sid (departed s))" using a by (simp add: carries_def sids_def)
  then have "distinct (map sid (streamtab s) @ map sid ?d)" by (subst (asm) d) auto
  moreover have "set ?d \<subseteq> set (departed s)" by (auto dest: in_set_takeD in_set_dropD)
  ultimately have "carries C (s\<lparr>recv_cap_extra := m, departed := ?d\<rparr>)" for m
    using a by (intro carries_mono[OF a]) (auto simp: held_def carries_def sids_def simp del: set_append)
  then show ?thesis using True by (simp add: drop_departed_def)
qed (simp add: drop_departed_def a)

section \<open>Ends of streams\<close>

lemma carries_finish [carry]: "carries C s \<Longrightarrow> carries C (finish_stream now r b i s)"
  by (simp add: finish_stream_def carry)

lemma carries_reset_stream [carry]: "carries C s \<Longrightarrow> carries C (reset_stream now w i s)"
  by (simp add: reset_stream_def carry)

lemma carries_linger [carry]: "carries C s \<Longrightarrow> carries C (linger_reap_progress_fine now i s)"
  by (auto simp: linger_reap_progress_fine_def carry split: option.splits prod.splits)

lemma carries_residual [carry]: "carries C s \<Longrightarrow> carries C (residual_d_client now i s)"
  by (auto simp: residual_d_client_def carry split: option.splits prod.splits)

lemma carries_graceful [carry]: "carries C s \<Longrightarrow> carries C (maybe_count_graceful now i s)"
  by (simp add: maybe_count_graceful_def carry split: option.splits)

lemma carries_close_send [carry]: "carries C s \<Longrightarrow> carries C (close_send now i s)"
  by (simp add: close_send_def carry split: option.splits)

lemma carries_reap_stream [carry]: "carries C s \<Longrightarrow> carries C (reap_stream now i s)"
  by (simp add: reap_stream_def carry split: option.splits)

lemma carries_apply_fin [carry]: "carries C s \<Longrightarrow> carries C (apply_recv_fin now i s)"
  by (simp add: apply_recv_fin_def carry)

lemma carries_try_finish [carry]: "carries C s \<Longrightarrow> carries C (try_finish_recv_close now i s)"
  by (simp add: try_finish_recv_close_def carry split: option.splits)

lemma carries_peer_close [carry]: "carries C s \<Longrightarrow> carries C (on_peer_close now c s)"
proof -
  assume a: "carries C s"
  have "carries C (upd_stream i (\<lambda>y. let y1 = note_close_started now y in
          if recv_close_off y1 = None then y1\<lparr>recv_close_off := Some off\<rparr> else y1) s)" for i off
    by (rule carries_upd_stream_tv[OF a]) (simp add: Let_def carry)
  then show ?thesis using a by (simp add: on_peer_close_def Let_def carry split: option.splits)
qed

lemma carries_expire_closes [carry]: "carries C s \<Longrightarrow> carries C (expire_recv_closes now s)"
  unfolding expire_recv_closes_def by (rule carries_fold) (simp_all add: carry)

lemma carries_peer_reset [carry]: "carries C s \<Longrightarrow> carries C (on_peer_reset now i w s)"
  by (simp add: on_peer_reset_def carry)

lemma carries_mark_dead [carry]: "carries C s \<Longrightarrow> carries C (mark_dead now b s)"
  unfolding mark_dead_def Let_def
  by (auto simp: carry intro!: carries_fold carries_finish split: option.splits)

lemma carries_shutdown [carry]: "carries C s \<Longrightarrow> carries C (shutdown now s)"
  by (simp add: shutdown_def carry)

section \<open>The receive side\<close>

lemma carries_tune [carry]:
  assumes a: "carries C s" shows "carries C (tune_recv_cap now i s)"
proof (cases "get_stream i s")
  case (Some x)
  obtain y n where t: "tune_recv_core now (stuning s) (bdp_rtt now x s) (alive_path_count s) (recv_cap_extra s) x = (y, n)"
    by fastforce
  then have "tv y = tv x" by (auto simp: tune_recv_core_def tv_def Let_def split: if_splits prod.splits)
  from carries_put_stream[OF _ _ this] a Some show ?thesis
    by (simp add: tune_recv_cap_def t carry get_stream_def)
qed (simp add: tune_recv_cap_def a)

lemma carries_tune_windows [carry]: "carries C s \<Longrightarrow> carries C (tune_recv_windows now s)"
  unfolding tune_recv_windows_def by (rule carries_fold) (simp_all add: carry)

lemma carries_drain [carry]:
  assumes a: "carries C s" shows "carries C (drain_recv now i k s)"
proof (cases "get_stream i s")
  case (Some x)
  obtain got x1 where d: "drain_core now x = (got, x1)" by fastforce
  have x1: "tv x1 = tv x" using tv_drain[of now x] d by simp
  let ?s1 = "upd_stream i (\<lambda>_. x1) s"
  have s1: "carries C ?s1" using x1 by (rule carries_put_stream[OF a Some])
  let ?y = "snd (note_deliver now got (deliver_min_dt now x1 ?s1) x1)"
  have sid: "sid x1 = i" using x1 get_stream_sid[OF Some] by (simp add: tv_def)
  have g1: "get_stream i ?s1 = Some x1" using Some sid by (rule get_stream_set)
  have "carries C (upd_stream i (\<lambda>_. ?y) ?s1)" by (rule carries_put_stream[OF s1 g1]) (simp add: carry)
  then show ?thesis using s1 by (simp add: drain_recv_def Some d Let_def carry)
qed (simp add: drain_recv_def a)

lemma carries_deliver [carry]:
  assumes a: "carries C s" shows "carries C (deliver_data now k d s)"
proof (cases "get_stream (sd_stream_id d) s")
  case (Some x)
  obtain w x1 where p: "accept_piece k (sd_offset d) (sd_data d) x = (w, x1)" by fastforce
  have "tv x1 = tv x" using tv_accept[of k "sd_offset d" "sd_data d" x] p by simp
  from carries_put_stream[OF a Some this] a show ?thesis
    by (cases w) (simp_all add: deliver_data_def Let_def Some p carry)
qed (simp add: deliver_data_def a)

lemma carries_on_data [carry]: "carries C s \<Longrightarrow> carries C (on_data now k d s)"
  by (simp add: on_data_def carry)

lemma carries_app_read [carry]: "carries C s \<Longrightarrow> carries C (note_app_read now i k s)"
  by (simp add: note_app_read_def carry split: option.splits)

lemma carries_pump_recv [carry]: "carries C s \<Longrightarrow> carries C (snd (pump_recv now i s))"
  by (simp add: pump_recv_def Let_def carry split: option.splits list.splits inbound.splits)

end
