(* ===== verification/Carry_Run.thy ===== *)
theory Carry_Run
  imports Carry_Moves
begin

text \<open>
  What sends data again or for the first time keeps \<open>carries C\<close>, given that it sends a piece; and so
  do the tick and every arriving frame.
\<close>

section \<open>ACKs\<close>

lemma carries_release_piece [carry]:
  assumes a: "carries C s" shows "carries C (release_piece now u s)"
proof (cases "get_path (ua_path u) s")
  case (Some p)
  have "carries C (upd_path (ua_path u) (\<lambda>_. ack_rtt_sample now s n u d (note_ack_clock now (stuning s) u d
      (sub_inflight m p))) s)" for n d m
    using carries_get_path[OF a Some]
    by (intro carries_set_path[OF a]) (simp add: path_fit_qv[of "ack_rtt_sample now s n u d _" p] carry)
  then show ?thesis by (simp add: release_piece_def Some Let_def carry)
qed (simp add: release_piece_def a)

lemma stream_fit_fewer:
  "stream_fit C x \<Longrightarrow> set q \<subseteq> set (unacked_q x) \<Longrightarrow> stream_fit C (x\<lparr>unacked_q := q\<rparr>)"
  by (auto simp: stream_fit_def)

lemma carries_drop_piece [carry]: "carries C s \<Longrightarrow> carries C (drop_piece i k s)"
  unfolding drop_piece_def
  by (rule carries_upd_stream) (auto intro!: stream_fit_fewer simp: bt_remove_def)

lemma carries_ack_piece [carry]: "carries C s \<Longrightarrow> carries C (ack_piece now i ku s)"
  by (cases ku) (simp add: carry)

lemma carries_on_ack [carry]: "carries C s \<Longrightarrow> carries C (on_ack now a s)"
proof -
  have f: "carries C t \<Longrightarrow> carries C (fold (ack_piece now i) due t)" for i due t
    by (rule carries_fold) (simp_all add: carry del: ack_piece.simps)
  have c: "carries C t \<Longrightarrow> carries C (ack_cumulative now a t)" for t
    by (simp add: ack_cumulative_def Let_def f carry split: option.splits)
  have e: "carries C t \<Longrightarrow> carries C (ack_selective now a t)" for t
    by (simp add: ack_selective_def Let_def f carry split: option.splits)
  assume "carries C s"
  then show ?thesis by (simp add: on_ack_def Let_def c e carry)
qed

section \<open>Pieces sent again\<close>

lemma dq_moved [carry]:
  "dq (k, moved_piece now j u) = dq (k, u)" "dq (k, stamp now p u) = dq (k, u)"
  "dq (k, u\<lparr>ua_tried := t, ua_dropped := b, ua_not_before := m\<rparr>) = dq (k, u)"
  "dq (k, u\<lparr>ua_dropped := b, ua_not_before := m\<rparr>) = dq (k, u)"
  "dq (k, u\<lparr>ua_last_sent := n, ua_not_before := m, ua_dropped := b\<rparr>) = dq (k, u)"
  by (simp_all add: dq_def moved_piece_def stamp_def)

lemma carries_rehome [carry]: "carries C s \<Longrightarrow> carries C (rehome_unacked now i off j s)"
  by (simp add: rehome_unacked_def Let_def carry split: option.splits)

lemma carries_retransmit [carry]:
  assumes a: "carries C s" shows "carries C (retransmit_from_on now i g k s)"
proof (cases "get_stream i s")
  case (Some x)
  let ?f = "\<lambda>(off, u) s. snd (send_data_frame now i off (ua_data u) k (rehome_unacked now i off k s))"
  have "\<forall>ku\<in>set (unacked_q x). is_piece (C i) (fst ku) (ua_data (snd ku))"
    using carries_get_stream[OF a Some] by (auto simp: stream_fit_def)
  then have "carries C (fold ?f (filter (\<lambda>(_, u). ua_path u = g) (unacked_q x)) s)"
    by (intro carries_fold_in[OF _ a]) (auto simp: carry)
  then show ?thesis using a by (simp add: retransmit_from_on_def Some Let_def carry)
qed (simp add: retransmit_from_on_def a)

lemma carries_rehome_from [carry]: "carries C s \<Longrightarrow> carries C (rehome_unacked_from now g s)"
  unfolding rehome_unacked_from_def
  by (auto intro!: carries_fold carries_retransmit split: option.splits)

definition due_fit :: "cuts \<Rightarrow> nat \<Rightarrow> due \<Rightarrow> bool" where
  "due_fit C i d \<longleftrightarrow> is_piece (C i) (du_off d) (du_data d)"

lemma carries_resend_interactive [carry]:
  "carries C s \<Longrightarrow> due_fit C i d \<Longrightarrow> carries C (resend_interactive now i d s)"
  by (simp add: resend_interactive_def due_fit_def Let_def carry split: option.splits prod.splits)

lemma carries_resend_bulk_to [carry]:
  "carries C s \<Longrightarrow> due_fit C i d \<Longrightarrow> carries C (resend_bulk_to now i d alt s)"
  by (simp add: resend_bulk_to_def due_fit_def Let_def carry split: prod.splits)

lemma carries_resend_bulk [carry]:
  assumes a: "carries C s" and d: "due_fit C i d" shows "carries C (resend_bulk now i d s)"
proof -
  obtain home r where r: "(if du_dropped d then resend_on_source now i d s else (False, s)) = (home, r)" by fastforce
  have "carries C r"
    using r a d by (auto simp: resend_on_source_def due_fit_def carry split: if_splits)
  then show ?thesis using d by (simp add: resend_bulk_def r Let_def carry split: option.splits)
qed

lemma carries_retry_expired [carry]:
  assumes a: "carries C s" shows "carries C (retry_expired_unacked now i s)"
proof (cases "get_stream i s")
  case (Some x)
  have "\<forall>d\<in>set (due_pieces now x s). due_fit C i d"
    using carries_get_stream[OF a Some]
    by (force simp: due_pieces_def map_filter_def stream_fit_def due_fit_def)
  then have "carries C (fold (resend_due now i l al) (due_pieces now x s) s)" for l al
    by (intro carries_fold_in[OF _ a]) (auto simp: resend_due_def carry)
  with a show ?thesis by (simp add: retry_expired_unacked_def Some Let_def)
qed (simp add: retry_expired_unacked_def a)

section \<open>Paths come and go\<close>

lemma carries_start_path [carry]: "carries C s \<Longrightarrow> carries C (snd (start_path now nm s))"
proof -
  assume a: "carries C s"
  have "path_fit C (fresh_path now k nm t)" for k t
    by (simp add: path_fit_def fresh_path_def path_new_def Let_def)
  then have "carries C (s\<lparr>next_path_id := n, pathtab := pathtab s @ [fresh_path now k nm t]\<rparr>)" for n k t
    using carriesD(1)[OF a] a by (intro carries_pathtab) (auto simp: carry)
  then show ?thesis using a by (simp add: start_path_def Let_def carry)
qed

lemma carries_del_path [carry]:
  "carries C s \<Longrightarrow> carries C (s\<lparr>pathtab := tbl_del pid i (pathtab s)\<rparr>)"
  by (rule carries_pathtab) (auto simp: tbl_del_def carries_def)

lemma carries_leave_pool [carry]: "carries C s \<Longrightarrow> carries C (leave_pool now i s)"
  by (simp add: leave_pool_def Let_def carry comp_def)

lemma carries_path_failed [carry]: "carries C s \<Longrightarrow> carries C (path_failed now i s)"
proof -
  assume a: "carries C s"
  have "carries C (upd_path i (\<lambda>p. p\<lparr>pstate := DOWN\<rparr>) t)" if "carries C t" for t
    using that by (rule carries_upd_path_qv) (simp add: qv_def)
  with a show ?thesis by (simp add: path_failed_def Let_def carry split: option.splits)
qed

section \<open>Streams enter\<close>

lemma sids_next [simp]:
  "held (s\<lparr>next_stream_id := n\<rparr>) = held s" "sids (s\<lparr>next_stream_id := n\<rparr>) = sids s"
  by (simp_all add: held_def sids_def)

lemma carries_next_stream [carry]:
  assumes "carries C s" shows "carries C (s\<lparr>next_stream_id := next_stream_id s + 1\<rparr>)"
proof -
  have "issued i s \<Longrightarrow> issued i (s\<lparr>next_stream_id := next_stream_id s + 1\<rparr>)" for i by (auto simp: issued_def)
  then show ?thesis using assms unfolding carries_def held_def by auto
qed

text \<open>An id the session holds no stream for and has cut nothing for.\<close>

definition fresh_id :: "cuts \<Rightarrow> nat \<Rightarrow> session \<Rightarrow> bool" where
  "fresh_id C i s \<longleftrightarrow> C i = [] \<and> i \<notin> set (sids s)"

lemma carries_alloc [carry]:
  assumes "carries C s" "C i = []" "issued i s" "i \<notin> set (sids s)"
  shows "carries C (alloc_stream now i s)"
  by (rule carries_mono[OF assms(1)])
    (use assms in \<open>auto simp: alloc_stream_def held_def carries_def stream_fit_def stream_new_def sids_def\<close>)

lemma carries_open_stream [carry]:
  assumes a: "carries C s" shows "carries C (snd (open_stream now t s))"
proof -
  let ?i = "next_stream_id s" and ?s1 = "s\<lparr>next_stream_id := next_stream_id s + 1\<rparr>"
  have s1: "carries C ?s1" by (rule carries_next_stream[OF a])
  have al: "is_client s \<Longrightarrow> carries C (alloc_stream now ?i ?s1)"
    using a by (intro carries_alloc[OF s1]) (auto simp: carries_def issued_def sids_held)
  show ?thesis using a s1 al
    by (auto simp: open_stream_def Let_def carry split: option.split prod.split)
qed

lemma carries_accept [carry]:
  assumes a: "carries C s" and new: "get_stream (so_stream_id op) s = None \<Longrightarrow> fresh_id C (so_stream_id op) s"
    and srv: "\<not> is_client s"
  shows "carries C (accept_remote_stream now acc path op s)"
proof (cases "get_stream (so_stream_id op) s")
  case None
  let ?i = "so_stream_id op"
  let ?s1 = "bump M_streams_opened (set_sticky now ?i path (alloc_stream now ?i s))"
  obtain es s2' where e: "take_early_data ?i ?s1 = (es, s2')" by fastforce
  have "carries C ?s1" using new[OF None] srv a by (simp add: carry issued_def fresh_id_def)
  then have b2: "carries C s2'" using e carries_retry_tables(8)[of C ?i ?s1] by simp
  have b3: "carries C (fold (\<lambda>e. deliver_data now (pe_path e) (pe_data e)) es s2')"
    by (rule carries_fold[OF _ b2]) (simp add: carry)
  then show ?thesis
    by (simp add: accept_remote_stream_def None Let_def e carry split: option.splits)
qed (simp add: accept_remote_stream_def a)

section \<open>The tick\<close>

lemma carries_restick_to [carry]: "carries C s \<Longrightarrow> carries C (restick_to now i k s)"
  by (simp add: restick_to_def carry qv_def)

lemma qv_restick: "qv (snd (restick_cand now c s p)) = qv p"
  using qv_loop_fit[of now "scfg s" "pool_ref s" p]
  by (cases "loop_fit now (scfg s) (pool_ref s) p") (simp add: restick_cand_def)

lemma carries_restick [carry]:
  assumes a: "carries C s" shows "carries C (snd (maybe_restick_unfit now i c s))"
proof -
  obtain fit s1 where l: "loop_fit_id now c s = (fit, s1)" by fastforce
  have s1: "carries C s1" using carries_loop_fit_id[OF a, of now c] l by simp
  let ?xs = "fastest_class_set (scfg s1) (pathtab s1)"
  obtain cands us where f: "filter_upd (restick_cand now c s1) ?xs = (cands, us)" by fastforce
  have "path_fit C q" if "q \<in> set us" for q
  proof (rule fit_filter_upd[of "restick_cand now c s1", OF qv_restick])
    show "path_fit C p" if "p \<in> set ?xs" for p using that fastest_subset carriesD(1)[OF s1] by blast
    show "q \<in> set (fst (filter_upd (restick_cand now c s1) ?xs)) \<or> q \<in> set (snd (filter_upd (restick_cand now c s1) ?xs))"
      using that f by simp
  qed
  then have "carries C (s1\<lparr>pathtab := put_paths us (pathtab s1)\<rparr>)" by (rule carries_put_paths[OF s1])
  with s1 show ?thesis
    by (simp add: maybe_restick_unfit_def l f Let_def carry split: option.splits)
qed

lemma carries_restick' [carry]:
  "maybe_restick_unfit now i c s = (b, t) \<Longrightarrow> carries C s \<Longrightarrow> carries C t"
  using carries_restick[of C s now i c] by simp

lemma carries_hol_move [carry]: "carries C s \<Longrightarrow> carries C (hol_move now i c dest s)"
  by (cases dest) (simp_all add: hol_move_def carry)

lemma carries_hol [carry]: "carries C s \<Longrightarrow> carries C (maybe_hol now i s)"
  by (auto simp: maybe_hol_def carry split: option.splits prod.splits)

lemma carries_count_failback [carry]: "carries C (count_failback c w s) = carries C s"
  by (simp add: count_failback_def carry)

lemma carries_failback [carry]: "carries C s \<Longrightarrow> carries C (maybe_failback now i s)"
  by (simp add: maybe_failback_def carry split: option.splits)

lemma carries_tend_path [carry]: "carries C s \<Longrightarrow> carries C (tend_path now c sp m i s)"
  by (simp add: tend_path_def carry split: option.splits)

lemma carries_reset_all [carry]: "carries C s \<Longrightarrow> carries C (reset_all now s)"
  by (auto simp: reset_all_def carry intro!: carries_fold)

lemma carries_tend_pool [carry]:
  assumes a: "carries C s" shows "carries C (tend_pool now s)"
proof -
  obtain ms s1 where t: "tick_pings now s = (ms, s1)" by fastforce
  have "carries C s1" using carries_tick_pings[OF a, of now] t by simp
  then have "carries C (fold (tend_path now c sp ms) ks (note_correlated now c (sample_fits now s1)))" for c sp ks
    by (intro carries_fold carries_tend_path) (simp_all add: carry)
  then show ?thesis by (simp add: tend_pool_def t Let_def carry)
qed

lemma carries_recycle [carry]:
  assumes a: "carries C s" shows "carries C (maybe_recycle_outliers now s)"
proof -
  have "carries C (s\<lparr>pathtab := map (\<lambda>p. if is_outlier now s p then snd (mark_outlier now p)
                                      else clear_outlier p) (pathtab s)\<rparr>)"
    by (rule carries_map_paths[OF a]) (simp add: carry)
  then show ?thesis
    unfolding maybe_recycle_outliers_def Let_def
    by (rule carries_fold[rotated]) (simp add: recycle_path_def carry split: option.splits)
qed

lemma carries_reap_lingered [carry]: "carries C s \<Longrightarrow> carries C (reap_lingered now i s)"
  by (simp add: reap_lingered_def carry split: option.splits)

lemma carries_reap_closed [carry]: "carries C s \<Longrightarrow> carries C (reap_closed_streams now s)"
  unfolding reap_closed_streams_def Let_def
  by (intro carries_fold carries_reap_lingered carries_remove_held)

lemma carries_tend_streams [carry]:
  assumes a: "carries C s" shows "carries C (tend_streams now s)"
proof -
  have "carries C (fold (scan_stall now) ids (fold (maybe_hol now) ids s))" for ids
    by (intro carries_fold carries_scan_stall carries_hol a)
  then show ?thesis
    unfolding tend_streams_def Let_def
    by (intro carries_fold carries_retry_expired) (simp_all add: carry)
qed

lemma carries_retry_tables' [carry]: "carries C s \<Longrightarrow> carries C (retry_tables now s)"
  by (simp add: retry_tables_def carry)

lemma carries_tend_all_down [carry]: "carries C s \<Longrightarrow> carries C (tend_all_down now s)"
  by (simp add: tend_all_down_def Let_def carry)

lemma carries_maintain [carry]: "carries C s \<Longrightarrow> carries C (maintain now s)"
  by (simp add: maintain_def Let_def carry)

section \<open>Frames\<close>

lemma carries_handle_frame:
  assumes "carries C s"
    and "\<And>op. f = StreamOpen op \<Longrightarrow> get_stream (so_stream_id op) s = None \<Longrightarrow> fresh_id C (so_stream_id op) s"
  shows "carries C (handle_frame now acc i f s)"
  using assms by (cases f) (simp_all add: handle_frame_def carry)

end
