(* ===== verification/Carry_Pump.thy ===== *)
theory Carry_Pump
  imports Carry_Run
begin

text \<open>
  The pump: whatever a resumption cuts off its data becomes the next piece of the stream, and the
  piece it parks with, queues, or sends around a full path is that piece.
\<close>

section \<open>Pieces\<close>

lemma is_piece_append: "is_piece cs off c \<Longrightarrow> is_piece (cs @ [d]) off c"
  unfolding is_piece_def cut_def by (metis length_append_singleton less_SucI nth_append take_append
      append_Nil2 diff_is_0_eq less_imp_le take_0)

lemma is_piece_last: "is_piece (cs @ [d]) (length (concat cs)) d"
  unfolding is_piece_def cut_def by (rule exI[of _ "length cs"]) simp

definition cut_off :: "cuts \<Rightarrow> nat \<Rightarrow> byte list \<Rightarrow> byte list \<Rightarrow> cuts" where
  "cut_off C i rest rest' =
     (if length rest' < length rest then C(i := C i @ [take (length rest - length rest') rest]) else C)"

fun phase_fit :: "cuts \<Rightarrow> nat \<Rightarrow> send_phase \<Rightarrow> bool" where
  "phase_fit C i (AtWindow w) = True"
| "phase_fit C i (AtPick off d w t) = is_piece (C i) off d"
| "phase_fit C i (AtBulk k off d dl) = is_piece (C i) off d"

fun out_fit :: "cuts \<Rightarrow> nat \<Rightarrow> send_out \<Rightarrow> bool" where
  "out_fit C i (Wait ph) = phase_fit C i ph"
| "out_fit C i _ = True"

section \<open>Custody\<close>

lemma stream_fit_insert:
  "stream_fit C x \<Longrightarrow> is_piece (C (sid x)) off d \<Longrightarrow>
   stream_fit C (x\<lparr>unacked_q := bt_insert off (new_piece now k d) (unacked_q x)\<rparr>)"
  using set_bt_insert[of off "new_piece now k d" "unacked_q x"]
  by (fastforce simp: stream_fit_def new_piece_def)

lemma stream_fit_used: "stream_fit C (note_path_used k x) = stream_fit C x" "sid (note_path_used k x) = sid x"
  by (rule stream_fit_tv) (simp_all add: carry, simp add: note_path_used_def)

lemma carries_charge [carry]:
  assumes "carries C s" "is_piece (C i) off d" shows "carries C (charge_piece now i off d path s)"
  unfolding charge_piece_def
  by (intro carries_stamp_delivered carries_upd_path_qv carries_upd_held assms(1))
    (use assms(2) in \<open>auto simp: stream_fit_used stream_fit_insert carry\<close>)

lemma carries_migrate [carry]:
  "carries C s \<Longrightarrow> is_piece (C i) off d \<Longrightarrow> carries C (migrate_send_blocked now i path off d s)"
  by (simp add: migrate_send_blocked_def Let_def carry split: option.splits prod.splits)

lemma carries_bulk_head:
  "carries C s \<Longrightarrow> is_piece (C i) off d \<Longrightarrow>
   carries C (snd (bulk_wait_head now i k off d dl s)) \<and> out_fit C i (fst (bulk_wait_head now i k off d dl s))"
  by (auto simp: bulk_wait_head_def Let_def carry split: prod.splits)

lemma carries_bulk_wait:
  "carries C s \<Longrightarrow> is_piece (C i) off d \<Longrightarrow>
   carries C (snd (bulk_wait now w i k off d dl s)) \<and> out_fit C i (fst (bulk_wait now w i k off d dl s))"
  by (auto simp: bulk_wait_def Let_def carry carries_bulk_head split: prod.splits)

lemma carries_begin_wait:
  "carries C s \<Longrightarrow> is_piece (C i) off d \<Longrightarrow>
   carries C (snd (begin_bulk_wait now i k off d s)) \<and> out_fit C i (fst (begin_bulk_wait now i k off d s))"
  by (auto simp: begin_bulk_wait_def Let_def carry carries_bulk_head split: option.splits)

lemma carries_place_first' [carry]:
  "place_first_bulk now k b s = (r, t) \<Longrightarrow> carries C s \<Longrightarrow> carries C t"
  using carries_place_first[of C s now k b] by simp

lemma carries_place_piece:
  assumes a: "carries C s" and d: "is_piece (C i) off d"
  shows "carries C (snd (place_piece now i off d k o' s)) \<and> out_fit C i (fst (place_piece now i off d k o' s))"
proof -
  let ?big = "length d > interactive_max (stuning s)"
  let ?u1 = "if ?big then upd_held i (\<lambda>x. x\<lparr>bulk := True\<rparr>) s else s"
  have u1: "carries C ?u1" using a by (simp add: carry)
  obtain path ov u2 where p: "(if ?big \<and> \<not> (case get_held i s of Some x \<Rightarrow> bulk x | None \<Rightarrow> False)
      then place_first_bulk now k o' ?u1 else ((k, o'), ?u1)) = ((path, ov), u2)"
    by (metis surj_pair)
  have u2: "carries C u2" using p u1 by (auto simp: carry split: if_splits)
  let ?u3 = "charge_piece now i off d path (if ov then u2 else set_sticky now i path u2)"
  obtain ok u4 where f: "send_data_frame now i off d path ?u3 = (ok, u4)" by fastforce
  have "carries C ?u3" using u2 d by (simp add: carry)
  from carries_send_data'[OF f this d] have u4: "carries C u4" .
  show ?thesis
    unfolding place_piece_def Let_def p prod.case f
    using u4 d carries_begin_wait[OF u4 d] by (auto simp: carry)
qed

lemma carries_pick_and_place:
  assumes a: "carries C s" and d: "is_piece (C i) off d"
  shows "carries C (snd (pick_and_place now i off d w t s)) \<and> out_fit C i (fst (pick_and_place now i off d w t s))"
proof (cases "get_held i s")
  case (Some x)
  obtain r ov u1 where p: "pick_send_path now (bulk x) i (sticky x) s = ((r, ov), u1)" by (metis surj_pair)
  have u1: "carries C u1" using carries_pick_send_path[OF a, of now "bulk x" i "sticky x"] p by simp
  have "out_fit C i (fst (no_path_yet now i b off d w t u1))" for b
    using d by (simp add: no_path_yet_def Let_def)
  with u1 carries_place_piece[OF u1 d] show ?thesis
    by (simp add: pick_and_place_def Some p carry split: option.splits)
qed (simp add: pick_and_place_def a)

section \<open>A resumption\<close>

lemma cut_off_same [simp]: "cut_off C i rest rest = C"
  by (simp add: cut_off_def)

lemma frame_fit_append: "frame_fit C f \<Longrightarrow> frame_fit (C(i := C i @ [c])) f"
  by (cases f) (auto simp: is_piece_append)

lemma path_fit_append: "path_fit C p \<Longrightarrow> path_fit (C(i := C i @ [c])) p"
  by (simp add: path_fit_def frame_fit_append)

lemma pieces_fit_append: "is_piece (C j) off d \<Longrightarrow> is_piece ((C(i := C i @ [c])) j) off d"
  by (auto simp: is_piece_append)

lemma get_held_in: "get_held i s = Some x \<Longrightarrow> x \<in> held s"
  using get_stream_sid[of i s x] tbl_find_Some[of sid i "departed s" x]
  by (cases "get_stream i s") (auto simp: get_held_def held_def)

text \<open>A piece is cut off: the stream that is found under the id is the only one with it.\<close>

lemma carries_cut:
  assumes a: "carries C s" and x: "get_held i s = Some x"
  shows "carries (C(i := C i @ [c])) (upd_held i (\<lambda>y. y\<lparr>send_next := send_next y + length c\<rparr>) s)"
    (is "carries ?C ?t")
proof -
  let ?f = "\<lambda>y. y\<lparr>send_next := send_next y + length c\<rparr>"
  have d: "distinct (map sid (streamtab s) @ map sid (departed s))" using a by (simp add: carries_def sids_def)
  have fit: "stream_fit ?C y" if "stream_fit C y" "sid y \<noteq> i" for y
    using that by (simp add: stream_fit_def)
  have fit_i: "stream_fit ?C (?f y)" if "stream_fit C y" "sid y = i" for y
    using that by (auto simp: stream_fit_def is_piece_append)
  have up: "stream_fit ?C z" if "z \<in> set (tbl_upd sid i ?f xs)" "set xs \<subseteq> held s" for xs z
    using that carriesD(2)[OF a] fit fit_i by (auto simp: tbl_upd_def)
  have no: "stream_fit ?C z" if "z \<in> held s" "sid z \<noteq> i" for z
    using that carriesD(2)[OF a] fit by blast
  have h: "stream_fit ?C z" if z: "z \<in> held ?t" for z
  proof (cases "get_stream i s")
    case None
    then have "\<forall>y\<in>set (streamtab s). sid y \<noteq> i" by (simp add: get_stream_def tbl_find_None)
    with None z show ?thesis using up[of z "departed s"] no[of z] by (auto simp: upd_held_def held_def)
  next
    case (Some y)
    then have "\<forall>y\<in>set (departed s). sid y \<noteq> i" using get_stream_sid[OF Some] d by auto
    with Some z show ?thesis
      using up[of z "streamtab s"] no[of z] by (auto simp: upd_held_def upd_stream_def held_def)
  qed
  have m: "map sid (tbl_upd sid i ?f xs) = map sid xs" for xs by (auto simp: tbl_upd_def)
  have sids: "sids ?t = sids s" unfolding sids_def upd_held_def upd_stream_def by (simp add: m del: not_None_eq)
  have iss: "issued j ?t = issued j s" for j by (simp add: issued_def upd_held_def upd_stream_def)
  have pt: "pathtab ?t = pathtab s" by (simp add: upd_held_def upd_stream_def)
  have isi: "issued i s" using carriesD(3)[OF a get_held_in[OF x]] carries_get_held[OF a x] by simp
  have is_t: "issued (sid z) ?t" if z: "z \<in> held ?t" for z
  proof -
    have "sid z \<in> set (sids s)" unfolding sids[symmetric] sids_held using z by (rule imageI)
    then obtain y where "y \<in> held s" "sid z = sid y" unfolding sids_held by (rule imageE)
    then show ?thesis using carriesD(3)[OF a] iss by simp
  qed
  show ?thesis unfolding carries_def pt
  proof (intro conjI ballI allI impI)
    fix p assume "p \<in> set (pathtab s)"
    then show "path_fit ?C p" by (rule path_fit_append[OF carriesD(1)[OF a]])
  next
    fix z assume z: "z \<in> held ?t"
    then show "stream_fit ?C z" by (rule h)
    show "issued (sid z) ?t" using z by (rule is_t)
  next
    fix j assume "\<not> issued j ?t"
    then have "\<not> issued j s" by (simp only: iss not_False_eq_True)
    then show "?C j = []" using isi a unfolding carries_def by (cases "j = i") simp_all
  next
    show "distinct (sids ?t)" using d by (simp only: sids) (simp add: sids_def)
  qed
qed

lemma cut_len_pos: "rest \<noteq> [] \<Longrightarrow> 0 < cut_len x rest \<and> cut_len x rest \<le> length rest"
  by (auto simp: cut_len_def MAX_STREAM_PAYLOAD_def)

lemma carries_at_window:
  assumes a: "carries C s" and r: "at_window now tm i w rest s = ((out, rest'), t)"
  shows "carries (cut_off C i rest rest') t \<and> out_fit (cut_off C i rest rest') i out
    \<and> concat (cut_off C i rest rest' i) @ rest' = concat (C i) @ rest \<and> (out = Done \<longrightarrow> rest' = [])"
proof (cases "rest \<noteq> [] \<and> (\<exists>x. get_held i s = Some x \<and> window_ok x 1)")
  case True
  then obtain x where x: "get_held i s = Some x" "window_ok x 1" and ne: "rest \<noteq> []" by blast
  let ?n = "cut_len x rest"
  let ?c = "take ?n rest" and ?C = "C(i := C i @ [take ?n rest])"
  let ?s = "upd_held i (\<lambda>y. y\<lparr>send_next := send_next y + ?n\<rparr>) s"
  have n: "0 < ?n" "?n \<le> length rest" using cut_len_pos[OF ne] by auto
  obtain out' u where p: "pick_and_place now i (send_next x) ?c False now ?s = (out', u)" by fastforce
  have eq: "out = out'" "rest' = drop ?n rest" "t = u"
    using r x ne p by (auto simp: at_window_def Let_def)
  have "length (drop ?n rest) < length rest" using n ne by simp
  then have C: "cut_off C i rest rest' = ?C" using n by (simp add: cut_off_def eq)
  have s: "carries ?C ?s" using carries_cut[OF a x(1), of ?c] n by simp
  have d: "is_piece (?C i) (send_next x) ?c"
    using carries_get_held[OF a x(1)] is_piece_last[of "C i" ?c] by (auto simp: stream_fit_def)
  have i: "concat (?C i) @ drop ?n rest = concat (C i) @ rest" by simp
  have "out' \<noteq> Done"
    using p by (auto simp: pick_and_place_def place_piece_def no_path_yet_def begin_bulk_wait_def bulk_wait_head_def
        Let_def split: option.splits prod.splits if_splits)
  then show ?thesis
    unfolding C unfolding eq using carries_pick_and_place[OF s d, of now False now] i
    unfolding p fst_conv snd_conv by blast
next
  case False
  then show ?thesis using r a
    by (cases "rest = []"; cases "get_held i s") (auto simp: at_window_def Let_def carry split: if_splits)
qed

lemma send_resume_carries:
  assumes "carries C s" "phase_fit C i ph" "send_resume now flag i ph rest s = ((out, rest'), t)"
  shows "carries (cut_off C i rest rest') t \<and> out_fit (cut_off C i rest rest') i out
    \<and> concat (cut_off C i rest rest' i) @ rest' = concat (C i) @ rest \<and> (out = Done \<longrightarrow> rest' = [])"
proof (cases ph)
  case (AtWindow w)
  then show ?thesis using carries_at_window[OF assms(1)] assms(3) by (simp add: send_resume_def)
next
  case (AtPick off d w t0)
  have "out \<noteq> Done"
    using assms(3) AtPick by (auto simp: send_resume_def pick_and_place_def place_piece_def no_path_yet_def
        begin_bulk_wait_def bulk_wait_head_def Let_def split: option.splits prod.splits if_splits)
  then show ?thesis using assms AtPick carries_pick_and_place[OF assms(1), of i off d now w t0]
    by (auto simp: send_resume_def split: prod.splits)
next
  case (AtBulk k off d dl)
  have "out \<noteq> Done"
    using assms(3) AtBulk by (auto simp: send_resume_def bulk_wait_def bulk_wait_head_def Let_def
        split: option.splits prod.splits if_splits)
  then show ?thesis using assms AtBulk carries_bulk_wait[OF assms(1), of i off d now flag k dl]
    by (auto simp: send_resume_def split: prod.splits)
qed

end
