(* ===== verification/Endpoint.thy ===== *)
theory Endpoint
  imports Carry_Pump Session_Run
begin

text \<open>
  An endpoint: a session with the send halves of its pumps (\<open>spawn_pump\<close>) and the frames its path
  writers have put on the wire. Its runs interleave the pumps with every other task of the session;
  what the peer can read off the wire for a stream is the bytes the application gave that stream.
\<close>

section \<open>The writer\<close>

lemma fit_flush_urgent:
  assumes "flush_urgent ts dl p = (w, q)" "path_fit C p"
  shows "path_fit C q \<and> (\<forall>f\<in>set w. frame_fit C f)"
proof -
  obtain lost where "urgent_q p = w @ lost @ urgent_q q" "writer_q q = writer_q p"
    using flush_urgent_queues[OF assms(1)] by blast
  then show ?thesis using assms(2) by (simp add: path_fit_def ball_Un)
qed

lemma fit_after_write:
  assumes "path_fit C p" "\<forall>f\<in>set w. frame_fit C f"
  shows "path_fit C (wr_path (after_write e now w out n p))
     \<and> (\<forall>f\<in>set (wr_written (after_write e now w out n p)). frame_fit C f)"
proof (cases out)
  case (Interrupted b)
  then show ?thesis using fit_flush_urgent[OF _ assms(1)] by (simp add: after_write_def split: prod.split)
qed (use assms in \<open>simp_all add: after_write_def\<close>)

lemma qv_writer_parts:
  "qv (write_one now out p) = qv p" "qv (note_dequeue u p) = qv p" "qv (snd (next_ping now p)) = qv p"
  "qv (snd (take_acks k p)) = qv p"
  by (simp_all add: qv_def write_one_def note_dequeue_def undo_enqueue_def take_acks_def)

lemma fit_writer_parts:
  "path_fit C (write_one now out p) = path_fit C p" "path_fit C (note_dequeue u p) = path_fit C p"
  "path_fit C (snd (next_ping now p)) = path_fit C p" "path_fit C (snd (take_acks k p)) = path_fit C p"
  by (rule path_fit_qv, rule qv_writer_parts)+

lemma fit_flush_acks: "flush_acks now outs i as p = (w, r, q) \<Longrightarrow> path_fit C p \<Longrightarrow> path_fit C q"
  using flush_acks_frame[of now outs i as p w r q] by (simp add: path_fit_def)

lemma fit_park:
  assumes "park_stream_data f p = (d, q)" "path_fit C p" "frame_fit C f"
  shows "path_fit C q"
proof -
  have m: "urgent_q q = urgent_q p"
    "mset (writer_q q) + mset (case d of None \<Rightarrow> [] | Some g \<Rightarrow> [g]) = add_mset f (mset (writer_q p))"
    using park_conserves[OF assms(1)] by blast+
  have "set_mset (mset (writer_q q)) \<subseteq> set_mset (add_mset f (mset (writer_q p)))"
    unfolding m(2)[symmetric] by simp
  then show ?thesis using assms(2,3) m(1) by (auto simp: path_fit_def)
qed

lemma fit_pop_urgent: "path_fit C p \<Longrightarrow> urgent_q p = f # fs \<Longrightarrow> frame_fit C f \<and> path_fit C (p\<lparr>urgent_q := fs\<rparr>)"
  by (simp add: path_fit_def)

lemma fit_pop_bulk: "path_fit C p \<Longrightarrow> writer_q p = f # fs \<Longrightarrow> frame_fit C f \<and> path_fit C (p\<lparr>writer_q := fs\<rparr>)"
  by (simp add: path_fit_def)

definition res_fit :: "cuts \<Rightarrow> writer_res \<Rightarrow> bool" where
  "res_fit C r \<longleftrightarrow> path_fit C (wr_path r) \<and> (\<forall>f\<in>set (wr_written r). frame_fit C f)"

lemma res_after_write:
  "path_fit C p \<Longrightarrow> \<forall>f\<in>set w. frame_fit C f \<Longrightarrow> res_fit C (after_write e now w out n p)"
  unfolding res_fit_def by (rule fit_after_write)

lemma fit_writer_acks:
  assumes "flush_acks now outs 0 as p = (w, r, q)" "path_fit C p"
  shows "res_fit C (case r of
       None \<Rightarrow> \<lparr>wr_written = map StreamAck w, wr_dropped = [], wr_next = Loop n, wr_path = q\<rparr>
     | Some out \<Rightarrow>
         (let r' = after_write e now [] out n q in r'\<lparr>wr_written := map StreamAck w @ wr_written r'\<rparr>))"
  using fit_after_write[OF fit_flush_acks[OF assms], of "[]"] fit_flush_acks[OF assms]
  by (auto simp: res_fit_def Let_def split: option.split)

lemma fit_writer_step: "path_fit C p \<Longrightarrow> res_fit C (writer_step e now na p)"
proof -
  assume p: "path_fit C p"
  obtain w0 p0 where fl: "flush_urgent (we_flush e) (now + we_ping_max e) p = (w0, p0)" by fastforce
  obtain sq p1 where np: "next_ping now p = (sq, p1)" by fastforce
  obtain rows p2 where ta: "take_acks ACK_FLUSH_K p = (rows, p2)" by fastforce
  obtain w r p3 where fa: "flush_acks now (we_outs e) 0 rows p2 = (w, r, p3)" by (rule prod_cases3)
  have p1: "path_fit C p1" and p2: "path_fit C p2"
    using p fit_writer_parts(3)[of C now p] fit_writer_parts(4)[of C ACK_FLUSH_K p] np ta by simp_all
  consider (shut) "we_close e" | (ping) "\<not> we_close e" "ping_due now na (we_dead e) (we_every e) p"
    | (acks) "\<not> we_close e" "\<not> ping_due now na (we_dead e) (we_every e) p" "pending_acks p \<noteq> []"
    | (urg) f fs where "\<not> we_close e" "\<not> ping_due now na (we_dead e) (we_every e) p" "pending_acks p = []"
        "urgent_q p = f # fs"
    | (rest) "\<not> we_close e" "\<not> ping_due now na (we_dead e) (we_every e) p" "pending_acks p = []" "urgent_q p = []"
    by (cases "urgent_q p") auto
  then show ?thesis
  proof cases
    case shut
    then show ?thesis using fit_flush_urgent[OF fl p] by (simp add: writer_step_def fl res_fit_def)
  next
    case ping
    then show ?thesis
      using p1 by (auto simp: writer_step_def np Let_def fit_writer_parts intro!: res_after_write)
  next
    case acks
    then show ?thesis
      using fit_writer_acks[OF fa p2, of na e] by (simp add: writer_step_def Let_def ta fa)
  next
    case (urg f fs)
    have f: "frame_fit C f" and q: "path_fit C (note_dequeue True (p\<lparr>urgent_q := fs\<rparr>))"
      using fit_pop_urgent[OF p urg(4)] by (simp_all add: fit_writer_parts)
    obtain d p4 where pk: "park_stream_data f (note_dequeue True (p\<lparr>urgent_q := fs\<rparr>)) = (d, p4)" by fastforce
    then show ?thesis
      using urg f q fit_park[OF pk q f]
      by (simp add: writer_step_def Let_def res_after_write fit_writer_parts, simp add: res_fit_def)
  next
    case rest
    then show ?thesis
      using p fit_pop_bulk[OF p]
      by (cases "writer_q p"; cases "rtt_known p")
        (simp_all add: writer_step_def Let_def res_after_write fit_writer_parts, simp_all add: res_fit_def)
  qed
qed

section \<open>The endpoint\<close>

text \<open>
  The send half of a pump: waiting for the application, inside \<open>send_data\<close> with the data still to
  cut, or out of its loop.
\<close>

datatype pump = Idle | Sending send_phase "byte list" | Ended

text \<open>
  \<open>ep_cuts\<close> is a ghost; \<open>ep_given\<close> is what the pump of each stream has read from the application
  and \<open>ep_wire\<close> what the writers of the paths have written.
\<close>

record endpoint =
  ep_sess :: session
  ep_pump :: "nat \<Rightarrow> pump"
  ep_given :: "nat \<Rightarrow> byte list"
  ep_wire :: "frame list"
  ep_cuts :: cuts

definition endpoint_new :: "session \<Rightarrow> endpoint" where
  "endpoint_new s = \<lparr>ep_sess = s, ep_pump = (\<lambda>_. Idle), ep_given = (\<lambda>_. []), ep_wire = [], ep_cuts = (\<lambda>_. [])\<rparr>"

fun pump_after :: "send_out \<Rightarrow> byte list \<Rightarrow> pump" where
  "pump_after Done rest = Idle"
| "pump_after (Wait ph) rest = Sending ph rest"
| "pump_after (Failed_send er) rest = Ended"

text \<open>\<open>Ok(n)\<close>: the pump enters \<open>send_data\<close> with what it read.\<close>

definition pump_read :: "instant \<Rightarrow> nat \<Rightarrow> byte list \<Rightarrow> endpoint \<Rightarrow> endpoint" where
  "pump_read now i chunk e =
     e\<lparr>ep_given := (ep_given e)(i := ep_given e i @ chunk),
       ep_pump := (ep_pump e)(i := pump_after (send_data now i (ep_sess e)) chunk)\<rparr>"

text \<open>The executor polls a pump that waits; what the poll cuts off the data is the next piece.\<close>

definition pump_poll :: "instant \<Rightarrow> bool \<Rightarrow> nat \<Rightarrow> endpoint \<Rightarrow> endpoint" where
  "pump_poll now flag i e =
     (case ep_pump e i of
        Sending ph rest \<Rightarrow>
          (let ((out, rest'), s) = send_resume now flag i ph rest (ep_sess e)
           in e\<lparr>ep_sess := s, ep_pump := (ep_pump e)(i := pump_after out rest'),
                ep_cuts := cut_off (ep_cuts e) i rest rest'\<rparr>)
      | _ \<Rightarrow> e)"

text \<open>\<open>Ok(0)\<close> closes the sending side; \<open>Err(_)\<close> leaves the loop.\<close>

definition pump_eof :: "instant \<Rightarrow> nat \<Rightarrow> endpoint \<Rightarrow> endpoint" where
  "pump_eof now i e = e\<lparr>ep_sess := close_send now i (ep_sess e), ep_pump := (ep_pump e)(i := Ended)\<rparr>"

definition pump_break :: "nat \<Rightarrow> endpoint \<Rightarrow> endpoint" where
  "pump_break i e = e\<lparr>ep_pump := (ep_pump e)(i := Ended)\<rparr>"

definition wire_write :: "writer_env \<Rightarrow> instant \<Rightarrow> instant \<Rightarrow> nat \<Rightarrow> endpoint \<Rightarrow> endpoint" where
  "wire_write env now na k e =
     (case get_path k (ep_sess e) of
        None \<Rightarrow> e
      | Some p \<Rightarrow>
          (let r = writer_step env now na p
           in e\<lparr>ep_sess := upd_path k (\<lambda>_. wr_path r) (ep_sess e), ep_wire := ep_wire e @ wr_written r\<rparr>))"

text \<open>
  A \<open>StreamOpen\<close> that would make a stream uses an id whose stream was never written to and is not
  held any more: the peer issues every id once, and its retries end with the first answer.
\<close>

definition open_fresh :: "frame \<Rightarrow> endpoint \<Rightarrow> bool" where
  "open_fresh f e \<longleftrightarrow>
     (case f of
        StreamOpen op \<Rightarrow>
          (let i = so_stream_id op
           in get_stream i (ep_sess e) = None \<longrightarrow>
                ep_given e i = [] \<and> ep_pump e i = Idle \<and> i \<notin> set (sids (ep_sess e)))
      | _ \<Rightarrow> True)"

text \<open>The other tasks of the session, none of which the pumps' data goes through.\<close>

inductive session_task :: "session \<Rightarrow> session \<Rightarrow> bool" where
  attach: "session_task s (snd (start_path now name s))"
| fail: "session_task s (path_failed now k s)"
| touch: "session_task s (upd_path k (touch_rx now) s)"
| ack_sent: "session_task s (note_ack_sent now i k s)"
| tick: "session_task s (maintain now s)"
| opened: "session_task s (snd (open_stream now t s))"
| reset: "session_task s (reset_stream now w i s)"
| reap: "session_task s (reap_stream now i s)"
| read: "session_task s (snd (pump_recv now i s))"
| consumed: "session_task s (note_app_read now i k s)"
| let_go: "session_task s (drop_departed j s)"
| die: "session_task s (mark_dead now b s)"
| stop: "session_task s (shutdown now s)"

inductive endpoint_step :: "endpoint \<Rightarrow> endpoint \<Rightarrow> bool" where
  given: "ep_pump e i = Idle \<Longrightarrow> get_held i (ep_sess e) \<noteq> None \<Longrightarrow> endpoint_step e (pump_read now i chunk e)"
| poll: "endpoint_step e (pump_poll now flag i e)"
| eof: "ep_pump e i = Idle \<Longrightarrow> endpoint_step e (pump_eof now i e)"
| break: "ep_pump e i = Idle \<Longrightarrow> endpoint_step e (pump_break i e)"
| wire: "endpoint_step e (wire_write env now na k e)"
| frame: "open_fresh f e \<Longrightarrow> endpoint_step e (e\<lparr>ep_sess := handle_frame now acceptor k f (ep_sess e)\<rparr>)"
| task: "session_task (ep_sess e) s \<Longrightarrow> endpoint_step e (e\<lparr>ep_sess := s\<rparr>)"

inductive endpoint_run :: "endpoint \<Rightarrow> endpoint \<Rightarrow> bool" where
  here: "endpoint_run e e"
| more: "endpoint_run e f \<Longrightarrow> endpoint_step f g \<Longrightarrow> endpoint_run e g"

section \<open>What the pumps have cut is what they were given\<close>

text \<open>Between the pieces cut and what the application gave lies what the pump still has to cut.\<close>

fun pump_fit :: "cuts \<Rightarrow> nat \<Rightarrow> byte list \<Rightarrow> pump \<Rightarrow> bool" where
  "pump_fit C i src Idle \<longleftrightarrow> src = concat (C i)"
| "pump_fit C i src (Sending ph rest) \<longleftrightarrow> src = concat (C i) @ rest \<and> phase_fit C i ph"
| "pump_fit C i src Ended \<longleftrightarrow> (\<exists>lost. src = concat (C i) @ lost)"

definition endpoint_ok :: "endpoint \<Rightarrow> bool" where
  "endpoint_ok e \<longleftrightarrow> carries (ep_cuts e) (ep_sess e) \<and> (\<forall>f\<in>set (ep_wire e). frame_fit (ep_cuts e) f)
     \<and> (\<forall>i. pump_fit (ep_cuts e) i (ep_given e i) (ep_pump e i) \<and> [] \<notin> set (ep_cuts e i))"

lemma endpoint_okD:
  "endpoint_ok e \<Longrightarrow> carries (ep_cuts e) (ep_sess e)"
  "endpoint_ok e \<Longrightarrow> f \<in> set (ep_wire e) \<Longrightarrow> frame_fit (ep_cuts e) f"
  "endpoint_ok e \<Longrightarrow> pump_fit (ep_cuts e) i (ep_given e i) (ep_pump e i)"
  "endpoint_ok e \<Longrightarrow> [] \<notin> set (ep_cuts e i)"
  by (simp_all add: endpoint_ok_def)

lemma endpoint_ok_sess: "endpoint_ok e \<Longrightarrow> carries (ep_cuts e) s \<Longrightarrow> endpoint_ok (e\<lparr>ep_sess := s\<rparr>)"
  by (simp add: endpoint_ok_def)

lemma pump_fit_prefix: "pump_fit C i src q \<Longrightarrow> \<exists>lost. src = concat (C i) @ lost"
  by (cases q) simp_all

lemma send_data_out: "send_data now i s = Wait (AtWindow False) \<or> (\<exists>er. send_data now i s = Failed_send er)"
  by (simp add: send_data_def split: option.split)

lemma ok_pump_read:
  assumes "endpoint_ok e" "ep_pump e i = Idle"
  shows "endpoint_ok (pump_read now i chunk e)"
proof -
  have "pump_fit (ep_cuts e) i (ep_given e i @ chunk) (pump_after (send_data now i (ep_sess e)) chunk)"
    using endpoint_okD(3)[OF assms(1), of i] assms(2) send_data_out[of now i "ep_sess e"]
    by auto
  then show ?thesis using assms(1) by (simp add: endpoint_ok_def pump_read_def)
qed

lemma phase_fit_cut: "phase_fit C j ph \<Longrightarrow> phase_fit (cut_off C i rest rest') j ph"
  by (cases ph) (auto simp: cut_off_def intro: is_piece_append)

lemma pump_fit_cut: "i \<noteq> j \<Longrightarrow> pump_fit C j src q \<Longrightarrow> pump_fit (cut_off C i rest rest') j src q"
  by (cases q) (auto simp: phase_fit_cut, auto simp: cut_off_def)

lemma pieces_cut: "[] \<notin> set (C j) \<Longrightarrow> [] \<notin> set (cut_off C i rest rest' j)"
  by (auto simp: cut_off_def)

lemma frame_fit_cut: "frame_fit C f \<Longrightarrow> frame_fit (cut_off C i rest rest') f"
  by (simp add: cut_off_def frame_fit_append)

lemma ok_pump_poll:
  assumes ok: "endpoint_ok e" shows "endpoint_ok (pump_poll now flag i e)"
proof (cases "ep_pump e i")
  case (Sending ph rest)
  let ?C = "ep_cuts e"
  obtain out rest' s where r: "send_resume now flag i ph rest (ep_sess e) = ((out, rest'), s)"
    by (metis prod.exhaust)
  let ?D = "cut_off ?C i rest rest'"
  have g: "ep_given e i = concat (?C i) @ rest" and ph: "phase_fit ?C i ph"
    using endpoint_okD(3)[OF ok, of i] Sending by simp_all
  have d: "carries ?D s" "out_fit ?D i out" "concat (?D i) @ rest' = concat (?C i) @ rest" "out = Done \<longrightarrow> rest' = []"
    using send_resume_carries[OF endpoint_okD(1)[OF ok] ph r] by blast+
  have i: "pump_fit ?D i (ep_given e i) (pump_after out rest')"
    unfolding g d(3)[symmetric] using d(2,4) by (cases out) simp_all
  have j: "pump_fit ?D j (ep_given e j) (ep_pump e j)" if "j \<noteq> i" for j
    using pump_fit_cut[of i j] endpoint_okD(3)[OF ok, of j] that by simp
  show ?thesis
    using d(1) i j frame_fit_cut endpoint_okD(2,4)[OF ok] pieces_cut[of ?C]
    by (simp add: pump_poll_def Sending r endpoint_ok_def)
qed (simp_all add: pump_poll_def ok)

lemma ok_pump_end: "endpoint_ok e \<Longrightarrow> endpoint_ok (pump_break i e)"
  unfolding endpoint_ok_def pump_break_def using pump_fit_prefix by fastforce

lemma pump_eof_alt: "pump_eof now i e = (pump_break i e)\<lparr>ep_sess := close_send now i (ep_sess e)\<rparr>"
  by (simp add: pump_eof_def pump_break_def)

lemma ok_pump_eof: "endpoint_ok e \<Longrightarrow> endpoint_ok (pump_eof now i e)"
  unfolding pump_eof_alt
  by (rule endpoint_ok_sess[OF ok_pump_end]) (simp_all add: pump_break_def carries_close_send endpoint_okD(1))

lemma ok_wire_write:
  assumes ok: "endpoint_ok e" shows "endpoint_ok (wire_write env now na k e)"
proof (cases "get_path k (ep_sess e)")
  case (Some p)
  have "res_fit (ep_cuts e) (writer_step env now na p)"
    by (rule fit_writer_step[OF carries_get_path[OF endpoint_okD(1)[OF ok] Some]])
  then show ?thesis
    using ok by (auto simp: wire_write_def Some Let_def endpoint_ok_def res_fit_def carries_set_path)
qed (simp add: wire_write_def ok)

lemma ok_frame:
  assumes ok: "endpoint_ok e" and f: "open_fresh f e"
  shows "endpoint_ok (e\<lparr>ep_sess := handle_frame now acceptor k f (ep_sess e)\<rparr>)"
proof (rule endpoint_ok_sess[OF ok], rule carries_handle_frame[OF endpoint_okD(1)[OF ok]])
  fix op assume o: "f = StreamOpen op" and n: "get_stream (so_stream_id op) (ep_sess e) = None"
  let ?i = "so_stream_id op"
  show "fresh_id (ep_cuts e) ?i (ep_sess e)"
    using f o n endpoint_okD(3,4)[OF ok, of ?i]
    by (cases "ep_cuts e ?i") (auto simp: open_fresh_def fresh_id_def Let_def)
qed

lemma carries_task: "session_task s t \<Longrightarrow> carries C s \<Longrightarrow> carries C t"
  by (induction rule: session_task.induct) (simp_all add: carry carries_note_ack_sent touch_rx_def Let_def qv_def)

lemma endpoint_step_ok: "endpoint_step e f \<Longrightarrow> endpoint_ok e \<Longrightarrow> endpoint_ok f"
proof (induction rule: endpoint_step.induct)
  case (task e s)
  then show ?case by (intro endpoint_ok_sess carries_task[OF task(1)] endpoint_okD(1))
qed (simp_all add: ok_pump_read ok_pump_poll ok_pump_eof ok_pump_end ok_wire_write ok_frame)

lemma endpoint_run_ok: "endpoint_run e f \<Longrightarrow> endpoint_ok e \<Longrightarrow> endpoint_ok f"
  by (induction rule: endpoint_run.induct) (simp_all add: endpoint_step_ok)

lemma endpoint_new_ok: "endpoint_ok (endpoint_new (session_new cfg client live gone_n))"
  by (simp add: endpoint_ok_def endpoint_new_def carries_def held_def sids_def session_new_def)

section \<open>End to end\<close>

lemma piece_of_append: "piece_of src off d \<Longrightarrow> piece_of (src @ suf) off d"
  by (simp add: piece_of_def)

lemma wire_piece:
  assumes "endpoint_ok e" "StreamData d \<in> set (ep_wire e)"
  shows "piece_of (ep_given e (sd_stream_id d)) (sd_offset d) (sd_data d)"
proof -
  have "piece_of (concat (ep_cuts e (sd_stream_id d))) (sd_offset d) (sd_data d)"
    using endpoint_okD(2)[OF assms] by (simp add: is_piece_piece_of)
  then show ?thesis
    using pump_fit_prefix[OF endpoint_okD(3)[OF assms(1), of "sd_stream_id d"]] by (auto intro: piece_of_append)
qed

text \<open>
  The peer's stream \<open>i\<close>: it takes data frames of the stream off the wire \<open>W\<close>, any of them, in any
  order and any number of times, and its application reads; \<open>arr\<close> is what has arrived and \<open>out\<close>
  what the application has read.
\<close>

inductive rx_from :: "frame set \<Rightarrow> nat \<Rightarrow> stream_state \<Rightarrow> (nat \<times> byte list) set \<Rightarrow> byte list \<Rightarrow> bool"
  for W i where
  start: "rx_from W i (stream_new i cap win now) {} []"
| arrive: "rx_from W i s arr out \<Longrightarrow> StreamData d \<in> W \<Longrightarrow> sd_stream_id d = i
    \<Longrightarrow> rx_from W i (recv_piece now path (sd_offset d) (sd_data d) s)
          (insert (sd_offset d, sd_data d) arr) out"
| read: "rx_from W i s arr out \<Longrightarrow> app_read_core now s = Some (InData b, s')
    \<Longrightarrow> rx_from W i s' arr (out @ b)"

text \<open>What arrives from the wire of an endpoint is a receiver's run on the pieces its pump cut.\<close>

lemma rx_from_run:
  assumes "rx_from (set (ep_wire e)) i s arr out" "endpoint_ok e"
  shows "rx_run (ep_cuts e i) s arr out"
  using assms(1)
proof (induction rule: rx_from.induct)
  case (arrive s arr out d now path)
  have "is_piece (ep_cuts e i) (sd_offset d) (sd_data d)"
    using endpoint_okD(2)[OF assms(2) arrive(2)] arrive(3) by simp
  then show ?case by (rule rx_run.arrive[OF arrive(4)])
qed (auto intro: rx_run.start rx_run.read)

lemma rx_run_pieces: "rx_run cs s arr out \<Longrightarrow> (off, d) \<in> arr \<Longrightarrow> is_piece cs off d"
  by (induction arbitrary: off d rule: rx_run.induct) auto

lemma rx_from_prefix:
  assumes "rx_from (set (ep_wire e)) i s arr out" "endpoint_ok e"
  shows "out @ data_of (inbound_q s) = take (recv_next s) (ep_given e i)"
proof -
  have "rx_inv (concat (ep_cuts e i)) out s" by (rule rx_run_prefix[OF rx_from_run[OF assms]])
  then show ?thesis
    using pump_fit_prefix[OF endpoint_okD(3)[OF assms(2), of i]] by (auto simp: rx_inv_def)
qed

definition covers :: "(nat \<times> byte list) set \<Rightarrow> nat \<Rightarrow> bool" where
  "covers arr n \<longleftrightarrow> (\<forall>b<n. \<exists>(off, d)\<in>arr. off \<le> b \<and> b < off + length d)"

lemma covers_all_pieces:
  assumes c: "covers arr (length (concat cs))" and p: "\<And>off d. (off, d) \<in> arr \<Longrightarrow> is_piece cs off d"
    and ne: "\<forall>c\<in>set cs. c \<noteq> []" and j: "j < length cs"
  shows "(cut cs j, cs ! j) \<in> arr"
proof -
  have "cut cs j < cut cs (length cs)" using cut_strict[OF ne j] by simp
  then obtain off d where a: "(off, d) \<in> arr" "off \<le> cut cs j" "cut cs j < off + length d"
    using c unfolding covers_def cut_length by blast
  obtain k where k: "k < length cs" "off = cut cs k" "d = cs ! k" using p[OF a(1)] by (auto simp: is_piece_def)
  have "\<not> j < k" using cut_strict[OF ne, of j k] k a(2) by auto
  moreover have "\<not> k < j"
    using cut_mono[of "Suc k" j cs] cut_Suc[OF k(1)] k a(3) by auto
  ultimately show ?thesis using a(1) k by (cases "j = k") auto
qed

lemma rx_from_complete:
  assumes r: "rx_from (set (ep_wire e)) i s arr out" and ok: "endpoint_ok e"
    and c: "covers arr (length (ep_given e i))" and room: "channel_room s"
  shows "out @ data_of (inbound_q s) = ep_given e i"
proof -
  let ?cs = "ep_cuts e i"
  have run: "rx_run ?cs s arr out" by (rule rx_from_run[OF r ok])
  have ne: "\<forall>c\<in>set ?cs. c \<noteq> []" using endpoint_okD(4)[OF ok, of i] by metis
  obtain lost where g: "ep_given e i = concat ?cs @ lost" using pump_fit_prefix[OF endpoint_okD(3)[OF ok, of i]] by blast
  have "lost = []"
  proof (rule ccontr)
    assume "lost \<noteq> []"
    then have "length (concat ?cs) < length (ep_given e i)" using g by simp
    then obtain off d where a: "(off, d) \<in> arr" "length (concat ?cs) < off + length d"
      using c unfolding covers_def by blast
    then show False using is_piece_piece_of[OF rx_run_pieces[OF run a(1)]] by (simp add: piece_of_def)
  qed
  then have g': "ep_given e i = concat ?cs" using g by simp
  have "\<forall>j<length ?cs. (cut ?cs j, ?cs ! j) \<in> arr"
    using covers_all_pieces[OF c[unfolded g'] rx_run_pieces[OF run] ne] by blast
  then show ?thesis using rx_run_complete[OF run ne _ room] g' by simp
qed

end
