(* ===== verification/Endpoint_Facts.thy ===== *)
theory Endpoint_Facts
  imports Endpoint
begin

text \<open>
  A run of an endpoint, the end-to-end properties of data (integrity, completeness, nothing else on
  the wire), and what the server does with an open that arrives after its stream has ended.
\<close>

section \<open>A run\<close>

text \<open>
  A client attaches a path, whose first ping is answered, and opens a stream; its pump reads three
  bytes, the piece is cut and queued, and the writer puts the open and the piece on the wire.
\<close>

definition demo_env :: writer_env where
  "demo_env = \<lparr>we_close = False, we_dead = False, we_every = 5, we_loss = 9, we_tick = 5,
     we_ping_max = 5, we_outs = (\<lambda>_. Sent False), we_done = 0, we_flush = []\<rparr>"

definition demo_up :: endpoint where
  "demo_up =
     (let e0 = endpoint_new (session_new default_config True 0 0);
          e1 = e0\<lparr>ep_sess := snd (start_path 0 ''a'' (ep_sess e0))\<rparr>;
          e2 = wire_write demo_env 2000000 0 1 e1;
          e3 = e2\<lparr>ep_sess := handle_frame 3000000 False 1 (Pong \<lparr>ping_seq = 1, sent_at_ms = 0\<rparr>) (ep_sess e2)\<rparr>
      in e3\<lparr>ep_sess := snd (open_stream 3000000 demo_target (ep_sess e3))\<rparr>)"

definition demo_wired :: endpoint where
  "demo_wired =
     wire_write demo_env 3000000 9000000 1 (wire_write demo_env 3000000 9000000 1
       (pump_poll 3000000 False 1 (pump_read 3000000 1 [1, 2, 3] demo_up)))"

lemma demo_wired_facts:
  "ep_wire demo_wired = [Ping \<lparr>ping_seq = 1, sent_at_ms = 2\<rparr>, open_frame 1 demo_target,
     StreamData \<lparr>sd_stream_id = 1, sd_offset = 0, sd_data = [1, 2, 3]\<rparr>]
   \<and> ep_given demo_wired 1 = [1, 2, 3]"
  by code_simp

lemma demo_up_facts: "ep_pump demo_up 1 = Idle \<and> get_held 1 (ep_sess demo_up) \<noteq> None"
  by code_simp

lemma demo_up_run: "endpoint_run (endpoint_new (session_new default_config True 0 0)) demo_up"
  unfolding demo_up_def Let_def
  by (intro endpoint_run.more[OF _ endpoint_step.task[OF session_task.opened]]
      endpoint_run.more[OF _ endpoint_step.frame] endpoint_run.more[OF _ endpoint_step.wire]
      endpoint_run.more[OF _ endpoint_step.task[OF session_task.attach]] endpoint_run.here)
    (simp add: open_fresh_def)

lemma demo_wired_run: "endpoint_run (endpoint_new (session_new default_config True 0 0)) demo_wired"
  unfolding demo_wired_def using demo_up_facts
  by (intro endpoint_run.more[OF _ endpoint_step.wire] endpoint_run.more[OF _ endpoint_step.poll]
      endpoint_run.more[OF demo_up_run endpoint_step.given]) simp_all

text \<open>The peer receives the piece twice.\<close>

definition demo_peer :: stream_state where
  "demo_peer = recv_piece 5 2 0 [1, 2, 3] (recv_piece 4 1 0 [1, 2, 3] (stream_new 1 4 100 0))"

lemma demo_peer_run: "rx_from (set (ep_wire demo_wired)) 1 demo_peer {(0, [1, 2, 3])} []"
proof -
  let ?d = "\<lparr>sd_stream_id = 1, sd_offset = 0, sd_data = [1, 2, 3]\<rparr>" and ?W = "set (ep_wire demo_wired)"
  have w: "StreamData ?d \<in> ?W" by (simp add: demo_wired_facts)
  have "rx_from ?W 1 (recv_piece 4 1 0 [1, 2, 3] (stream_new 1 4 100 0)) {(0, [1, 2, 3])} []"
    using rx_from.arrive[OF rx_from.start w, of 1 4 1] by simp
  from rx_from.arrive[OF this w, of 5 2] show ?thesis by (simp add: demo_peer_def)
qed

lemma demo_peer_facts: "recv_next demo_peer = 3 \<and> channel_room demo_peer"
  by code_simp

section \<open>Properties\<close>




lemma demo_covers: "covers {(0, [1, 2, 3])} (length (ep_given demo_wired 1))"
  by (simp add: covers_def demo_wired_facts del: One_nat_def)




section \<open>A late open\<close>

definition demo_srv :: session where
  "demo_srv = snd (start_path 0 ''a'' (session_new default_config False 0 0))"

text \<open>The peer opens stream 1 and resets it.\<close>

definition demo_gone :: session where
  "demo_gone =
     fold (\<lambda>f s. handle_frame 0 True 1 f s)
       [open_frame 1 demo_target, StreamReset \<lparr>sr_stream_id = 1, sr_reason = Protocol\<rparr>] demo_srv"

lemma incoming_set_sticky [simp]:
  "incoming (set_sticky now i k s) = incoming s" "stuning (set_sticky now i k s) = stuning s"
  "early (set_sticky now i k s) = early s"
  by (auto simp: set_sticky_def Let_def upd_stream_def upd_path_def split: option.splits)

lemma late_open_aux:
  assumes "\<not> is_client s" "get_stream (so_stream_id op) s = None" "map_of (early s) (so_stream_id op) = None"
    and "incoming s = Some q" "length q < chan (stuning s)"
  shows "incoming (handle_frame now True k (StreamOpen op) s) = Some (q @ [(so_stream_id op, so_target op)])"
  using assms
  by (simp add: handle_frame_def accept_remote_stream_def take_early_data_def alloc_stream_def bump_def bump_by_def
      Let_def)

text \<open>
  C35: The server remembers no stream id. An open for an id that is not in the stream table is taken
  as a new stream, whatever happened to that id before: a copy of an open that arrives after its
  stream has ended (clients re-send opens on other paths) hands the server's accept loop the same
  target a second time, and a second connection to the origin is made.
\<close>

theorem late_open_reopens:
  assumes "\<not> is_client s" "get_stream (so_stream_id op) s = None" "map_of (early s) (so_stream_id op) = None"
    and "incoming s = Some q" "length q < chan (stuning s)"
  shows "incoming (handle_frame now True k (StreamOpen op) s) = Some (q @ [(so_stream_id op, so_target op)])"
  by (rule late_open_aux[OF assms])

lemma demo_gone_facts:
  "\<not> is_client demo_gone \<and> get_stream 1 demo_gone = None \<and> map_of (early demo_gone) 1 = None
   \<and> incoming demo_gone = Some [(1, demo_target)] \<and> 1 < chan (stuning demo_gone)"
  by code_simp

theorem late_open_reopens_witness:
  "get_stream 1 demo_gone = None
   \<and> incoming (handle_frame 5 True 1 (open_frame 1 demo_target) demo_gone) = Some [(1, demo_target), (1, demo_target)]"
  using late_open_reopens[of demo_gone "\<lparr>so_stream_id = 1, so_target = demo_target\<rparr>" "[(1, demo_target)]" 5 1]
    demo_gone_facts by (simp add: open_frame_def)

end
