(* ===== verification/Session_Snap.thy ===== *)
theory Session_Snap
  imports Session_Run Metrics_Facts
begin

text \<open>
  Snapshots: what a session reports of itself (\<open>Counters::snap_with_paths\<close>, \<open>Session::snapshot\<close>,
  \<open>stream_snaps\<close>), how the snapshots of all sessions are added up (\<open>Snapshot::add_counters\<close>,
  \<open>SessionTable::aggregate_snapshot\<close>), and what the report says of the session's books. Counters that
  no code of the session ever moves have no \<open>metric\<close> and are left out of the sums.
\<close>

section \<open>Snapshots of paths and streams\<close>

record path_view = path_snap +
  px_stable_rtt_us :: nat
  px_class_rtt_us :: nat
  px_alive :: bool
  px_write_stalled :: bool
  px_last_tx_ago_us :: nat
  px_pending_ping :: nat
  px_ack_pending :: nat
  px_backup :: bool
  px_picks :: nat
  px_tcp :: "tcp_view option"
  px_budget_bytes :: nat
  px_bw_bytes_s :: nat
  px_ack_rtt_us :: nat
  px_delivered :: nat
  px_min_rtt_us :: nat
  px_loop_fit :: bool
  px_loop_unfit_total :: nat

text \<open>\<open>tcp\<close> is what the kernel answers for the socket of a path.\<close>

definition snap_path :: "instant \<Rightarrow> (nat \<Rightarrow> tcp_view option) \<Rightarrow> path_state \<Rightarrow> path_view" where
  "snap_path now tcp p =
     \<lparr>ps_name = ascii (pname p), ps_link = ascii (link_key (pname p)), ps_rtt_us = rtt_us p,
      ps_rtt_known = rtt_known p, ps_up = (pstate p = UP), ps_degraded = (pstate p = DEGRADED),
      ps_congested = congested p, ps_inflight = inflight p, ps_sticky = sticky_streams p,
      ps_last_rx_ago_us = as_micros (last_rx_ago now p), ps_queued_urgent = urgent_queued p,
      ps_queued_bulk = bulk_queued p, px_stable_rtt_us = as_micros (stable_rtt p),
      px_class_rtt_us = as_micros (class_rtt p), px_alive = is_alive p, px_write_stalled = write_stalled p,
      px_last_tx_ago_us = as_micros (elapsed now (last_tx p)), px_pending_ping = pending_ping_count p,
      px_ack_pending = length (pending_acks p), px_backup = False, px_picks = picks p, px_tcp = tcp (pid p),
      px_budget_bytes = budget_bytes p, px_bw_bytes_s = bw_bytes_s now p, px_ack_rtt_us = ack_rtt_us (bud p),
      px_delivered = delivered (bud p),
      px_min_rtt_us = (case min_rtt now p of Some d \<Rightarrow> as_micros d | None \<Rightarrow> 0),
      px_loop_fit = loop_fit_last p, px_loop_unfit_total = loop_unfit_total p\<rparr>"

definition STREAM_SNAP_CAP :: nat where "STREAM_SNAP_CAP = 64"

record stream_snap =
  sn_id :: nat
  sn_path :: bytes
  sn_bulk :: bool
  sn_stalled :: bool
  sn_unacked :: nat

definition snap_stream :: "session \<Rightarrow> stream_state \<Rightarrow> stream_snap" where
  "snap_stream s x =
     \<lparr>sn_id = sid x,
      sn_path = (case get_path (sticky x) s of Some p \<Rightarrow> ascii (pname p) | None \<Rightarrow> ascii ''id:'' @ dec_digits (sticky x)),
      sn_bulk = bulk x, sn_stalled = stalled x, sn_unacked = length (unacked_q x)\<rparr>"

definition stream_snaps :: "session \<Rightarrow> nat \<times> nat \<times> stream_snap list" where
  "stream_snaps s =
     (let living = filter is_steerable (streamtab s)
      in (length (streamtab s), length living, map (snap_stream s) (take STREAM_SNAP_CAP living)))"

section \<open>The snapshot of a session\<close>

record snapshot =
  sn_counters :: "metric \<Rightarrow> nat"
  sn_held :: nat
  sn_live :: nat
  sn_hists :: "hist \<Rightarrow> hist_snap"
  sn_paths :: "path_view list"
  sn_links :: "link_snap list"
  sn_streams :: "stream_snap list"

fun hist_bounds :: "hist \<Rightarrow> nat list" where
  "hist_bounds H_failover_ms = FAILOVER_MS_BOUNDS"
| "hist_bounds H_stall_ms = STALL_MS_BOUNDS"
| "hist_bounds H_lifetime_ms = LIFETIME_MS_BOUNDS"
| "hist_bounds H_ack_flush_us = ACK_FLUSH_US_BOUNDS"
| "hist_bounds H_ack_loop_ms = STALL_MS_BOUNDS"
| "hist_bounds H_recv_cap_max = RECV_CAP_BYTES_BOUNDS"

text \<open>A histogram of the session holds what the session has observed into it, oldest first.\<close>

definition session_hist :: "session \<Rightarrow> hist \<Rightarrow> hist_snap" where
  "session_hist s h =
     hist_snapshot (foldl (\<lambda>g v. hist_observe v g) (hist_new (hist_bounds h))
       (map snd (filter (\<lambda>hv. fst hv = h) (rev (observed s)))))"

definition snap_with_paths :: "instant \<Rightarrow> (nat \<Rightarrow> tcp_view option) \<Rightarrow> session \<Rightarrow> snapshot" where
  "snap_with_paths now tcp s =
     \<lparr>sn_counters = counters s, sn_held = 0, sn_live = 0, sn_hists = session_hist s,
      sn_paths = map (snap_path now tcp) (pathtab s), sn_links = [], sn_streams = []\<rparr>"

text \<open>Paths of a known RTT are marked as backups against the best class of the session.\<close>

definition mark_backups :: "session_config \<Rightarrow> path_view list \<Rightarrow> path_view list" where
  "mark_backups cfg ps =
     (case list_min (map px_class_rtt_us (filter ps_rtt_known ps)) of
        None \<Rightarrow> ps
      | Some lo \<Rightarrow>
          map (\<lambda>p. if ps_rtt_known p
                then p\<lparr>px_backup := is_backup cfg (from_micros (px_class_rtt_us p)) (from_micros lo)\<rparr> else p) ps)"

definition links_of :: "path_view list \<Rightarrow> link_snap list" where
  "links_of ps = rollup_links (map path_snap.truncate ps)"

definition session_snapshot :: "instant \<Rightarrow> (nat \<Rightarrow> tcp_view option) \<Rightarrow> session \<Rightarrow> snapshot" where
  "session_snapshot now tcp s =
     (let sn0 = snap_with_paths now tcp s; ps = mark_backups (scfg s) (sn_paths sn0);
          (held_n, live_n, sample) = stream_snaps s
      in sn0\<lparr>sn_paths := ps, sn_held := held_n, sn_live := live_n, sn_links := links_of ps, sn_streams := sample\<rparr>)"

section \<open>All sessions\<close>

definition zeroed_hists :: snapshot where
  "zeroed_hists =
     \<lparr>sn_counters = (\<lambda>_. 0), sn_held = 0, sn_live = 0, sn_hists = (\<lambda>h. hist_zeroed (hist_bounds h)),
      sn_paths = [], sn_links = [], sn_streams = []\<rparr>"

definition add_counters :: "snapshot \<Rightarrow> snapshot \<Rightarrow> snapshot" where
  "add_counters a b =
     a\<lparr>sn_counters := (\<lambda>m. if m = M_pick_rtt_us
                           then (if sn_counters b m \<noteq> 0 then sn_counters b m else sn_counters a m)
                           else sn_counters a m + sn_counters b m),
       sn_held := sn_held a + sn_held b, sn_live := sn_live a + sn_live b,
       sn_hists := (\<lambda>h. merge_add (sn_hists a h) (sn_hists b h))\<rparr>"

definition prefixed :: "bytes \<Rightarrow> path_view \<Rightarrow> path_view" where
  "prefixed tag p = p\<lparr>ps_name := tag @ [58] @ ps_name p, ps_link := tag @ [58] @ ps_link p\<rparr>"

definition flatten_paths :: "(bytes \<times> snapshot) list \<Rightarrow> path_view list" where
  "flatten_paths ss =
     concat (map (\<lambda>(i, sn). map (\<lambda>p. if 1 < length ss then prefixed (hex4 i) p else p) (sn_paths sn)) ss)"

definition flat_streams :: "(bytes \<times> snapshot) list \<Rightarrow> stream_snap list" where
  "flat_streams ss =
     take STREAM_SNAP_CAP
       (concat (map (\<lambda>(i, sn). map (\<lambda>x. if 1 < length ss then x\<lparr>sn_path := hex4 i @ [58] @ sn_path x\<rparr> else x)
          (sn_streams sn)) ss))"

definition aggregate_snapshot ::
  "instant \<Rightarrow> (bytes \<Rightarrow> nat \<Rightarrow> tcp_view option) \<Rightarrow> (bytes \<times> session) list
    \<Rightarrow> snapshot \<times> (bytes \<times> session) list" where
  "aggregate_snapshot now tcp tab =
     (let kept = filter (\<lambda>(_, s). \<not> sess_dead s) tab;
          ss = map (\<lambda>(i, s). (i, session_snapshot now (tcp i) s)) kept;
          acc = foldl (\<lambda>a (_, sn). add_counters a sn) zeroed_hists ss;
          ps = flatten_paths ss
      in (acc\<lparr>sn_paths := ps, sn_links := links_of ps, sn_streams := flat_streams ss\<rparr>, kept))"

end
