(* ===== verification/Snap_Facts.thy ===== *)
theory Snap_Facts
  imports Session_Snap
begin

text \<open>
  What the snapshots say: the links of a session's report add up to its paths and, on every run, to
  the bytes its streams have in flight; the report of the process adds up to its sessions.
\<close>

section \<open>A roll-up loses nothing\<close>

lemma btree_sum:
  assumes "g z = (0::nat)" "\<And>a. g (f a) = n + g a"
  shows "(\<Sum>(k, a)\<leftarrow>btree_entry k z f m. g a) = n + (\<Sum>(k, a)\<leftarrow>m. g a)"
  using assms by (induction k z f m rule: btree_entry.induct) auto

lemma rollup_sum:
  assumes "g link_acc_default = (0::nat)" "\<And>p a. g (add_path p a) = w p + g a"
    and "\<And>k a. h (link_of_acc k a) = g a"
  shows "(\<Sum>l\<leftarrow>rollup_links ps. h l) = (\<Sum>p\<leftarrow>ps. w p)"
proof -
  have "(\<Sum>(k, a)\<leftarrow>foldl (\<lambda>m p. btree_entry (ps_link p) link_acc_default (add_path p) m) m0 ps. g a)
      = (\<Sum>(k, a)\<leftarrow>m0. g a) + (\<Sum>p\<leftarrow>ps. w p)" for m0
    by (induction ps arbitrary: m0) (simp_all add: btree_sum[where g = g, OF assms(1,2)])
  from this[of "[]"] show ?thesis
    by (simp add: rollup_links_def assms(3) comp_def case_prod_unfold)
qed

lemma link_sums:
  "(\<Sum>l\<leftarrow>rollup_links ps. ln_inflight l) = (\<Sum>p\<leftarrow>ps. ps_inflight p)"
  "(\<Sum>l\<leftarrow>rollup_links ps. ln_sticky l) = (\<Sum>p\<leftarrow>ps. ps_sticky p)"
  "(\<Sum>l\<leftarrow>rollup_links ps. ln_conns l) = length ps"
proof -
  show "(\<Sum>l\<leftarrow>rollup_links ps. ln_inflight l) = (\<Sum>p\<leftarrow>ps. ps_inflight p)"
    by (rule rollup_sum[where g = la_inflight])
      (simp_all add: link_acc_default_def add_path_def link_of_acc_def case_prod_unfold Let_def)
  show "(\<Sum>l\<leftarrow>rollup_links ps. ln_sticky l) = (\<Sum>p\<leftarrow>ps. ps_sticky p)"
    by (rule rollup_sum[where g = la_sticky])
      (simp_all add: link_acc_default_def add_path_def link_of_acc_def case_prod_unfold Let_def)
  have "(\<Sum>l\<leftarrow>rollup_links ps. ln_conns l) = (\<Sum>p\<leftarrow>ps. 1)"
    by (rule rollup_sum[where g = la_conns])
      (simp_all add: link_acc_default_def add_path_def link_of_acc_def case_prod_unfold Let_def)
  then show "(\<Sum>l\<leftarrow>rollup_links ps. ln_conns l) = length ps" by (simp add: sum_list_triv)
qed

lemma view_fields [simp]:
  "ps_inflight (path_snap.truncate p) = ps_inflight p" "ps_sticky (path_snap.truncate p) = ps_sticky p"
  "ps_inflight (prefixed t p) = ps_inflight p" "ps_sticky (prefixed t p) = ps_sticky p"
  "ps_inflight (snap_path now tcp q) = inflight q" "ps_sticky (snap_path now tcp q) = sticky_streams q"
  by (simp_all add: path_snap.truncate_def prefixed_def snap_path_def)

lemma links_of_sums:
  "(\<Sum>l\<leftarrow>links_of ps. ln_inflight l) = (\<Sum>p\<leftarrow>ps. ps_inflight p)"
  "(\<Sum>l\<leftarrow>links_of ps. ln_sticky l) = (\<Sum>p\<leftarrow>ps. ps_sticky p)"
  "(\<Sum>l\<leftarrow>links_of ps. ln_conns l) = length ps"
  by (simp_all add: links_of_def link_sums comp_def)

lemma mark_backups_map:
  "\<exists>f. mark_backups cfg ps = map f ps \<and> (\<forall>p. ps_inflight (f p) = ps_inflight p \<and> ps_sticky (f p) = ps_sticky p)"
proof (cases "list_min (map px_class_rtt_us (filter ps_rtt_known ps))")
  case None
  then show ?thesis by (intro exI[of _ id]) (simp add: mark_backups_def)
next
  case (Some lo)
  show ?thesis
    by (rule exI[of _ "\<lambda>p. if ps_rtt_known p
          then p\<lparr>px_backup := is_backup cfg (from_micros (px_class_rtt_us p)) (from_micros lo)\<rparr> else p"])
      (simp add: mark_backups_def Some)
qed

lemma session_snapshot_sums:
  "(\<Sum>l\<leftarrow>sn_links (session_snapshot now tcp s). ln_inflight l) = (\<Sum>p\<leftarrow>pathtab s. inflight p)"
  "(\<Sum>l\<leftarrow>sn_links (session_snapshot now tcp s). ln_sticky l) = (\<Sum>p\<leftarrow>pathtab s. sticky_streams p)"
  "(\<Sum>l\<leftarrow>sn_links (session_snapshot now tcp s). ln_conns l) = length (pathtab s)"
proof -
  obtain f where f: "mark_backups (scfg s) (sn_paths (snap_with_paths now tcp s)) = map f (sn_paths (snap_with_paths now tcp s))"
    "\<And>p. ps_inflight (f p) = ps_inflight p" "\<And>p. ps_sticky (f p) = ps_sticky p"
    using mark_backups_map[of "scfg s" "sn_paths (snap_with_paths now tcp s)"] by blast
  have l: "sn_links (session_snapshot now tcp s) = links_of (map f (map (snap_path now tcp) (pathtab s)))"
    using f(1) by (simp add: session_snapshot_def Let_def case_prod_unfold) (simp add: snap_with_paths_def)
  show
    "(\<Sum>l\<leftarrow>sn_links (session_snapshot now tcp s). ln_inflight l) = (\<Sum>p\<leftarrow>pathtab s. inflight p)"
    "(\<Sum>l\<leftarrow>sn_links (session_snapshot now tcp s). ln_sticky l) = (\<Sum>p\<leftarrow>pathtab s. sticky_streams p)"
    "(\<Sum>l\<leftarrow>sn_links (session_snapshot now tcp s). ln_conns l) = length (pathtab s)"
    by (simp_all add: l links_of_sums f(2,3) comp_def)
qed

section \<open>The links and the books\<close>

lemma sum_over_paths:
  fixes w :: "nat \<Rightarrow> nat"
  assumes "distinct (map pid ps)"
  shows "(\<Sum>p\<leftarrow>ps. if pid p = k then w k else 0) = (if k \<in> pid ` set ps then w k else 0)"
  using assms by (induction ps) (auto simp: image_iff)

lemma sum_swap:
  fixes w :: "'a \<Rightarrow> 'b \<Rightarrow> nat"
  shows "(\<Sum>x\<leftarrow>xs. \<Sum>y\<leftarrow>ys. w x y) = (\<Sum>y\<leftarrow>ys. \<Sum>x\<leftarrow>xs. w x y)"
  by (induction xs) (simp_all add: sum_list_addf)

lemma inflight_of_pieces:
  assumes "distinct (map pid ps)"
  shows "(\<Sum>p\<leftarrow>ps. \<Sum>x\<leftarrow>xs. \<Sum>(off, u)\<leftarrow>unacked_q x. if ua_path u = pid p then ua_len u else 0)
    = (\<Sum>x\<leftarrow>xs. \<Sum>(off, u)\<leftarrow>unacked_q x. if ua_path u \<in> pid ` set ps then ua_len u else 0)"
proof -
  have "(\<Sum>p\<leftarrow>ps. \<Sum>(off, u)\<leftarrow>q. if ua_path u = pid p then ua_len u else 0)
      = (\<Sum>(off, u)\<leftarrow>q. if ua_path u \<in> pid ` set ps then ua_len u else 0)" for q :: "(nat \<times> unacked) list"
  proof (induction q)
    case (Cons ou q)
    have "(\<Sum>p\<leftarrow>ps. if ua_path (snd ou) = pid p then ua_len (snd ou) else 0)
        = (if ua_path (snd ou) \<in> pid ` set ps then ua_len (snd ou) else 0)"
      using sum_over_paths[OF assms, of "ua_path (snd ou)" "\<lambda>_. ua_len (snd ou)"] by (simp only: eq_commute)
    with Cons show ?case by (simp add: sum_list_addf case_prod_unfold)
  qed (simp add: sum_list_triv)
  then show ?thesis by (subst sum_swap) simp
qed

lemma sticky_of_streams:
  assumes "distinct (map pid ps)"
  shows "(\<Sum>p\<leftarrow>ps. length (filter (\<lambda>x. sticky x = pid p) xs)) = length (filter (\<lambda>x. sticky x \<in> pid ` set ps) xs)"
proof (induction xs)
  case (Cons x xs)
  have "(\<Sum>p\<leftarrow>ps. if sticky x = pid p then 1 else 0) = (if sticky x \<in> pid ` set ps then 1 else (0::nat))"
    using sum_over_paths[OF assms, of "sticky x" "\<lambda>_. 1"] by (simp add: eq_commute[of "sticky x"])
  moreover have "(\<Sum>p\<leftarrow>ps. length (filter (\<lambda>x. sticky x = pid p) (x # xs)))
      = (\<Sum>p\<leftarrow>ps. if sticky x = pid p then 1 else 0) + (\<Sum>p\<leftarrow>ps. length (filter (\<lambda>x. sticky x = pid p) xs))"
    by (simp add: sum_list_addf[symmetric]) (rule arg_cong[of _ _ sum_list], simp)
  ultimately show ?case using Cons by simp
qed simp

lemma snapshot_books:
  assumes "books_ok s"
  shows "(\<Sum>l\<leftarrow>sn_links (session_snapshot now tcp s). ln_inflight l)
      = (\<Sum>x\<leftarrow>streamtab s. \<Sum>(off, u)\<leftarrow>unacked_q x. if ua_path u \<in> pid ` set (pathtab s) then ua_len u else 0)"
    and "(\<Sum>l\<leftarrow>sn_links (session_snapshot now tcp s). ln_sticky l)
      = length (filter (\<lambda>x. sticky x \<in> pid ` set (pathtab s)) (streamtab s))"
proof -
  have d: "distinct (map pid (pathtab s))" using assms by (simp add: books_ok_def)
  have i: "map inflight (pathtab s)
      = map (\<lambda>p. \<Sum>x\<leftarrow>streamtab s. \<Sum>(off, u)\<leftarrow>unacked_q x. if ua_path u = pid p then ua_len u else 0) (pathtab s)"
    using assms by (simp add: books_ok_def)
  have t: "map sticky_streams (pathtab s) = map (\<lambda>p. length (filter (\<lambda>x. sticky x = pid p) (streamtab s))) (pathtab s)"
    using assms by (simp add: books_ok_def)
  show "(\<Sum>l\<leftarrow>sn_links (session_snapshot now tcp s). ln_inflight l)
      = (\<Sum>x\<leftarrow>streamtab s. \<Sum>(off, u)\<leftarrow>unacked_q x. if ua_path u \<in> pid ` set (pathtab s) then ua_len u else 0)"
    unfolding session_snapshot_sums i by (rule inflight_of_pieces[OF d])
  show "(\<Sum>l\<leftarrow>sn_links (session_snapshot now tcp s). ln_sticky l)
      = length (filter (\<lambda>x. sticky x \<in> pid ` set (pathtab s)) (streamtab s))"
    unfolding session_snapshot_sums t by (rule sticky_of_streams[OF d])
qed

section \<open>The report of the process\<close>

lemma session_hist_of:
  "session_hist s h = hist_of (hist_bounds h) (map snd (filter (\<lambda>hv. fst hv = h) (rev (observed s))))"
  by (simp add: session_hist_def hist_of_def)

definition observations :: "hist \<Rightarrow> session \<Rightarrow> nat list" where
  "observations h s = map snd (filter (\<lambda>hv. fst hv = h) (rev (observed s)))"

lemma snapshot_fields:
  "sn_counters (session_snapshot now tcp s) = counters s"
  "sn_hists (session_snapshot now tcp s) h = hist_of (hist_bounds h) (observations h s)"
  "sn_held (session_snapshot now tcp s) = length (streamtab s)"
  "sn_live (session_snapshot now tcp s) = length (filter is_steerable (streamtab s))"
  by (simp_all add: session_snapshot_def snap_with_paths_def stream_snaps_def Let_def session_hist_of observations_def)

lemma zeroed_is_empty: "hist_zeroed bounds = hist_of bounds []"
  by (simp add: hist_of_counts hist_zeroed_def in_bucket_def map_replicate_const)

abbreviation added :: "instant \<Rightarrow> (bytes \<Rightarrow> nat \<Rightarrow> tcp_view option) \<Rightarrow> snapshot \<Rightarrow> (bytes \<times> session) list \<Rightarrow> snapshot" where
  "added now tcp a ss \<equiv>
     foldl (\<lambda>a (_, sn). add_counters a sn) a (map (\<lambda>(i, s). (i, session_snapshot now (tcp i) s)) ss)"

lemma added_counters:
  "m \<noteq> M_pick_rtt_us \<Longrightarrow> sn_counters (added now tcp a ss) m = sn_counters a m + (\<Sum>(i, s)\<leftarrow>ss. counters s m)"
  by (induction ss arbitrary: a) (auto simp: add_counters_def snapshot_fields)

lemma added_hists:
  "sn_hists a h = hist_of (hist_bounds h) vs \<Longrightarrow>
   sn_hists (added now tcp a ss) h = hist_of (hist_bounds h) (vs @ concat (map (\<lambda>(i, s). observations h s) ss))"
proof (induction ss arbitrary: a vs)
  case (Cons is' ss)
  obtain i s where is': "is' = (i, s)" by (cases is')
  have "sn_hists (add_counters a (session_snapshot now (tcp i) s)) h = hist_of (hist_bounds h) (vs @ observations h s)"
    by (simp add: add_counters_def snapshot_fields hist_merge_both Cons(2))
  from Cons(1)[OF this] show ?case by (simp add: is')
qed simp

lemma flatten_paths_sum:
  assumes "\<And>t p. w (prefixed t p) = (w p :: nat)"
  shows "(\<Sum>p\<leftarrow>flatten_paths ss. w p) = (\<Sum>(i, sn)\<leftarrow>ss. \<Sum>p\<leftarrow>sn_paths sn. w p)"
proof -
  have "(\<Sum>p\<leftarrow>concat (map (\<lambda>(i, sn). map (\<lambda>p. if b then prefixed (hex4 i) p else p) (sn_paths sn)) ts). w p)
      = (\<Sum>(i, sn)\<leftarrow>ts. \<Sum>p\<leftarrow>sn_paths sn. w p)" for b ts
    by (induction ts) (auto simp: assms comp_def intro!: arg_cong[where f = sum_list])
  then show ?thesis by (simp add: flatten_paths_def)
qed

lemma session_paths_sum:
  "(\<Sum>p\<leftarrow>sn_paths (session_snapshot now tcp s). ps_inflight p) = (\<Sum>p\<leftarrow>pathtab s. inflight p)"
proof -
  obtain f where f: "mark_backups (scfg s) (sn_paths (snap_with_paths now tcp s)) = map f (sn_paths (snap_with_paths now tcp s))"
    "\<And>p. ps_inflight (f p) = ps_inflight p"
    using mark_backups_map[of "scfg s" "sn_paths (snap_with_paths now tcp s)"] by blast
  have "sn_paths (session_snapshot now tcp s) = map f (map (snap_path now tcp) (pathtab s))"
    using f(1) by (simp add: session_snapshot_def Let_def case_prod_unfold) (simp add: snap_with_paths_def)
  then show ?thesis by (simp add: f(2) comp_def)
qed

text \<open>The bytes of the session's streams that are charged to one of its paths.\<close>

definition charged_bytes :: "session \<Rightarrow> nat" where
  "charged_bytes s =
     (\<Sum>x\<leftarrow>streamtab s. \<Sum>(off, u)\<leftarrow>unacked_q x. if ua_path u \<in> pid ` set (pathtab s) then ua_len u else 0)"

lemma charged_bytes_books: "books_ok s \<Longrightarrow> (\<Sum>p\<leftarrow>pathtab s. inflight p) = charged_bytes s"
  using snapshot_books(1)[of s] by (simp add: session_snapshot_sums charged_bytes_def)

lemma aggregate_accounts:
  assumes r: "aggregate_snapshot now tcp tab = (r, kept)" and ok: "\<forall>(i, s)\<in>set tab. books_ok s"
  shows "(\<Sum>l\<leftarrow>sn_links r. ln_inflight l) = (\<Sum>(i, s)\<leftarrow>kept. charged_bytes s)"
    and "m \<noteq> M_pick_rtt_us \<Longrightarrow> sn_counters r m = (\<Sum>(i, s)\<leftarrow>kept. counters s m)"
    and "sn_hists r h = hist_of (hist_bounds h) (concat (map (\<lambda>(i, s). observations h s) kept))"
    and "length (sn_streams r) \<le> STREAM_SNAP_CAP"
proof -
  let ?ss = "map (\<lambda>(i, s). (i, session_snapshot now (tcp i) s)) kept"
  have k: "kept = filter (\<lambda>(_, s). \<not> sess_dead s) tab" using r by (auto simp: aggregate_snapshot_def Let_def)
  have e: "r = (added now tcp zeroed_hists kept)
      \<lparr>sn_paths := flatten_paths ?ss, sn_links := links_of (flatten_paths ?ss), sn_streams := flat_streams ?ss\<rparr>"
    using r by (auto simp: aggregate_snapshot_def Let_def)
  have "(\<Sum>(i, s)\<leftarrow>ts. \<Sum>p\<leftarrow>pathtab s. inflight p) = (\<Sum>(i, s)\<leftarrow>ts. charged_bytes s)"
    if "\<And>i s. (i, s) \<in> set ts \<Longrightarrow> books_ok s" for ts :: "(bytes \<times> session) list"
    using that
  proof (induction ts)
    case (Cons t ts)
    have "books_ok (snd t)" using Cons(2)[of "fst t" "snd t"] by simp
    then have "(\<Sum>p\<leftarrow>pathtab (snd t). inflight p) = charged_bytes (snd t)" by (rule charged_bytes_books)
    moreover have "(\<Sum>(i, s)\<leftarrow>ts. \<Sum>p\<leftarrow>pathtab s. inflight p) = (\<Sum>(i, s)\<leftarrow>ts. charged_bytes s)"
      by (rule Cons(1)) (use Cons(2) in auto)
    ultimately show ?case by (simp add: case_prod_unfold)
  qed simp
  from this[of kept] have "(\<Sum>(i, s)\<leftarrow>kept. \<Sum>p\<leftarrow>pathtab s. inflight p) = (\<Sum>(i, s)\<leftarrow>kept. charged_bytes s)"
    using ok by (auto simp: k)
  moreover have "(\<Sum>(i, sn)\<leftarrow>map (\<lambda>(i, s). (i, session_snapshot now (tcp i) s)) ts. \<Sum>p\<leftarrow>sn_paths sn. ps_inflight p)
      = (\<Sum>(i, s)\<leftarrow>ts. \<Sum>p\<leftarrow>pathtab s. inflight p)" for ts
    by (induction ts) (auto simp: session_paths_sum)
  ultimately show "(\<Sum>l\<leftarrow>sn_links r. ln_inflight l) = (\<Sum>(i, s)\<leftarrow>kept. charged_bytes s)"
    by (simp add: e links_of_sums flatten_paths_sum)
  show "m \<noteq> M_pick_rtt_us \<Longrightarrow> sn_counters r m = (\<Sum>(i, s)\<leftarrow>kept. counters s m)"
    using added_counters[where m = m and now = now and tcp = tcp and a = zeroed_hists and ss = kept] by (simp add: e) (simp add: zeroed_hists_def)
  have "sn_hists zeroed_hists h = hist_of (hist_bounds h) []" by (simp add: zeroed_hists_def zeroed_is_empty)
  from added_hists[OF this, where now = now and tcp = tcp and ss = kept]
  show "sn_hists r h = hist_of (hist_bounds h) (concat (map (\<lambda>(i, s). observations h s) kept))" by (simp add: e)
  show "length (sn_streams r) \<le> STREAM_SNAP_CAP" by (simp add: e flat_streams_def)
qed


lemma demo_report_facts: "\<not> sess_dead demo_sent \<and> charged_bytes demo_sent = 3 \<and> counters demo_sent M_streams_opened = 1"
  by code_simp


end
