(* ===== verification/Catalog.thy ===== *)
theory Catalog
  imports Session_Snap
begin

text \<open>
  The metric catalog (\<open>catalog.rs\<close>): the walk over a report that names every series, and the sinks
  that consume it: descriptors, Prometheus text, the names of the text, and the flat form of the log.
  A sink's callbacks are the cases of \<open>sample_ev\<close>. Counters that no code moves read 0.
\<close>

section \<open>The walk\<close>

text \<open>The counters of the process with what \<open>/proc/self\<close> answered; its hop histograms are not exported.\<close>

record process_snap =
  pc_handshake_create_ok :: nat
  pc_handshake_join_ok :: nat
  pc_handshake_fail_auth :: nat
  pc_handshake_fail_version :: nat
  pc_handshake_fail_unknown :: nat
  pc_handshake_fail_other :: nat
  pc_inbound_accept :: nat
  pc_inbound_reject :: nat
  pc_inbound_open_fail :: nat
  pc_outbound_dial_ok :: nat
  pc_outbound_dial_fail :: nat
  pc_reconnect_ok :: nat
  pc_reconnect_fail :: nat
  pc_sessions_created :: nat
  pc_sessions_dead :: nat
  pc_sessions_live :: nat
  pc_hop_reaped :: nat
  pc_process_cpu_ms :: nat
  pc_process_open_fds :: nat
  pc_process_open_fds_baseline :: nat
  pc_process_rss_bytes :: nat

type_synonym labels = "(string \<times> bytes) list"

datatype sample_ev =
    Counter string string nat
  | Gauge string string labels nat
  | Hist string string "nat list" hist_snap
  | Counter_l string string labels nat

definition flag :: "bool \<Rightarrow> nat" where "flag b = (if b then 1 else 0)"

definition state_code :: "path_view \<Rightarrow> nat" where
  "state_code p = (if ps_up p then 1 else if ps_degraded p then 2 else 3)"

definition visit_paths_streams :: "snapshot \<Rightarrow> sample_ev list" where
  "visit_paths_streams s =
     [Counter ''nya_path_added_total'' (''paths added'') (sn_counters s M_path_added),
       Counter ''nya_path_down_total'' (''paths marked down'') (sn_counters s M_path_down),
       Counter ''nya_path_degraded_total'' (''paths marked degraded'') (sn_counters s M_path_degraded),
       Counter ''nya_path_outlier_recycle_total'' (''same-link outlier TCP recycles'') (sn_counters s M_path_outlier_recycle),
       Counter ''nya_correlated_silence_total'' (''correlated-silence episodes'') (sn_counters s M_correlated_silence),
       Counter ''nya_migrates_total'' (''stream resticks'') (sn_counters s M_migrates),
       Counter ''nya_migrates_speculative_total'' (''speculative resticks'') (0),
       Counter ''nya_migrates_path_down_total'' (''resticks after path down'') (0),
       Counter ''nya_migrates_ensure_sticky_total'' (''ensure_sticky resticks'') (0),
       Counter ''nya_migrates_send_blocked_total'' (''send-blocked resticks'') (sn_counters s M_migrates_send_blocked),
       Counter ''nya_data_retransmit_total'' (''STREAM_DATA retransmits'') (sn_counters s M_data_retransmit),
       Counter ''nya_data_hedge_total'' (''STREAM_DATA hedge copies'') (sn_counters s M_data_hedge),
       Counter ''nya_close_retry_total'' (''STREAM_CLOSE rehomes onto another path'') (sn_counters s M_close_retry),
       Counter ''nya_reset_retry_total'' (''STREAM_RESET rehomes onto another path'') (sn_counters s M_reset_retry),
       Counter ''nya_probe_miss_total'' (''pings expired without pong'') (sn_counters s M_probe_miss),
       Counter ''nya_pings_total'' (''pings written to the wire, all paths'') (sn_counters s M_pings_sent),
       Counter ''nya_window_blocks_total'' (''times send waited on stream window'') (sn_counters s M_window_blocks),
       Counter ''nya_send_budget_blocks_total'' (''bulk piece waited for per-path budget room'') (sn_counters s M_budget_blocks),
       Counter ''nya_send_window_limited_with_room_total'' (''window wait while a path had budget room'') (sn_counters s M_window_limited_with_room),
       Counter ''nya_data_dup_rx_bytes_total'' (''duplicate STREAM_DATA payload bytes received'') (sn_counters s M_data_dup_rx_bytes),
       Counter ''nya_ack_after_fin_total'' (''ACKs for duplicates after recv_fin / past close_off'') (sn_counters s M_ack_after_fin),
       Counter ''nya_data_dropped_resend_total'' (''pieces re-sent after the frame never reached a writer queue'') (sn_counters s M_data_dropped_resend),
       Counter ''nya_data_sacked_total'' (''pieces released by a SACK range: delivered behind a hole on another path'') (sn_counters s M_data_sacked),
       Counter ''nya_picks_unknown_rtt_total'' (''new streams picked onto unknown-RTT path'') (sn_counters s M_picks_unknown_rtt),
       Counter ''nya_picks_unknown_over_known_total'' (''unknown-RTT pick while a sampled path existed'') (sn_counters s M_picks_unknown_over_known),
       Counter ''nya_failbacks_total'' (''cross-link failbacks'') (sn_counters s M_failbacks),
       Counter ''nya_failbacks_upgrade_total'' (''cross-link upgrade failbacks'') (sn_counters s M_failbacks_upgrade),
       Counter ''nya_failbacks_class_empty_total'' (''cross-link class-empty failbacks'') (sn_counters s M_failbacks_class_empty),
       Counter ''nya_failbacks_same_link_total'' (''same-link failbacks'') (sn_counters s M_failbacks_same_link),
       Counter ''nya_hol_rebalances_total'' (''HOL rebalances'') (sn_counters s M_hol_rebalances)]"

definition visit_ends :: "snapshot \<Rightarrow> sample_ev list" where
  "visit_ends s =
     [Counter ''nya_streams_opened_total'' (''streams opened'') (sn_counters s M_streams_opened),
       Counter ''nya_streams_closed_total'' (''streams closed gracefully'') (sn_counters s M_streams_closed),
       Counter ''nya_stream_reaps_linger_total'' (''half-close linger reaps; not a TTFB timeout'') (sn_counters s M_stream_reaps_linger),
       Counter ''nya_stream_resets_total'' (''streams reset'') (sn_counters s M_stream_resets),
       Counter ''nya_stream_resets_dial_failed_total'' (''resets: dial failed'') (sn_counters s M_resets_dial_failed),
       Counter ''nya_stream_resets_timeout_total'' (''resets: timeout'') (sn_counters s M_resets_timeout),
       Counter ''nya_stream_resets_peer_total'' (''resets: peer'') (sn_counters s M_resets_peer),
       Counter ''nya_stream_resets_session_dead_total'' (''resets: session dead'') (sn_counters s M_resets_session_dead),
       Counter ''nya_stream_resets_protocol_total'' (''resets: protocol'') (sn_counters s M_resets_protocol),
       Counter ''nya_bytes_data_tx_total'' (''overlay StreamData payload tx'') (sn_counters s M_bytes_data_tx),
       Counter ''nya_bytes_data_rx_total'' (''overlay StreamData payload rx'') (sn_counters s M_bytes_data_rx),
       Counter ''nya_bytes_ctrl_tx_total'' (''overlay control bytes tx'') (sn_counters s M_bytes_ctrl_tx),
       Counter ''nya_bytes_ctrl_rx_total'' (''overlay control bytes rx'') (sn_counters s M_bytes_ctrl_rx),
       Counter ''nya_frame_send_drop_total'' (''frames dropped (queue full)'') (sn_counters s M_frame_send_drop),
       Counter ''nya_session_all_down_resets_total'' (''all-down session resets'') (sn_counters s M_all_down_resets)]"

definition visit_reasons :: "snapshot \<Rightarrow> sample_ev list" where
  "visit_reasons s =
     map (\<lambda>(k, v). Counter_l ''nya_stall_enter_total'' (''stall entries by kind (since v0.1.7: busy bursts no longer count; not comparable with earlier versions)'') [(''kind'', ascii k)] v)
        [(''send'', sn_counters s M_stall_send), (''send_zero_window'', sn_counters s M_stall_send_zero_window), (''recv_hole'', sn_counters s M_stall_recv_hole), (''both'', sn_counters s M_stall_both)]
     @ map (\<lambda>(k, v). Counter_l ''nya_data_resend_total'' (''pieces re-sent by reason'') [(''why'', ascii k)] v)
        [(''silence'', sn_counters s M_resend_silence), (''belt'', sn_counters s M_resend_belt), (''down'', sn_counters s M_resend_down), (''gone'', sn_counters s M_resend_gone), (''dropped'', sn_counters s M_resend_dropped), (''age'', sn_counters s M_resend_age), (''allquiet'', 0)]
     @ map (\<lambda>(k, v). Counter_l ''nya_data_resend_skipped_total'' (''due re-sends not performed, by reason'') [(''reason'', ascii k)] v)
        [(''no_fresh_alt'', sn_counters s M_skip_no_fresh_alt), (''allquiet_wait'', 0), (''queue_full'', sn_counters s M_skip_queue_full), (''write_stalled'', sn_counters s M_skip_write_stalled), (''all_tried'', sn_counters s M_skip_all_tried), (''no_alt'', sn_counters s M_skip_no_alt)]
     @ map (\<lambda>(k, v). Counter_l ''nya_zero_window_total'' (''ACKs advertising window 0, by what holds the bytes'') [(''cause'', ascii k)] v)
        [(''hole'', sn_counters s M_zero_window_hole), (''app'', sn_counters s M_zero_window_app)]
     @ [Counter ''nya_send_budget_diverts_total'' (''bulk pieces diverted or parked because the sticky lacked budget room (P4)'') (sn_counters s M_budget_diverts),
       Counter ''nya_migrates_loop_unfit_total'' (''bulk re-sticks off a loop-unfit sticky (P3)'') (sn_counters s M_migrates_loop_unfit)]"

definition visit_process :: "process_snap \<Rightarrow> sample_ev list" where
  "visit_process p =
     [Counter ''nya_handshake_create_ok_total'' (''create-session ok'') (pc_handshake_create_ok p),
       Counter ''nya_handshake_join_ok_total'' (''join-session ok'') (pc_handshake_join_ok p),
       Counter ''nya_handshake_fail_auth_total'' (''handshake auth fail'') (pc_handshake_fail_auth p),
       Counter ''nya_handshake_fail_version_total'' (''handshake version fail'') (pc_handshake_fail_version p),
       Counter ''nya_handshake_fail_unknown_total'' (''handshake unknown session'') (pc_handshake_fail_unknown p),
       Counter ''nya_handshake_fail_other_total'' (''handshake other fail'') (pc_handshake_fail_other p),
       Counter ''nya_inbound_accept_total'' (''inbound accepts'') (pc_inbound_accept p),
       Counter ''nya_inbound_reject_total'' (''inbound rejects'') (pc_inbound_reject p),
       Counter ''nya_inbound_open_fail_total'' (''inbound open_stream fail'') (pc_inbound_open_fail p),
       Counter ''nya_outbound_dial_ok_total'' (''outbound dial ok'') (pc_outbound_dial_ok p),
       Counter ''nya_outbound_dial_fail_total'' (''outbound dial fail'') (pc_outbound_dial_fail p),
       Counter ''nya_reconnect_ok_total'' (''path up (incl first)'') (pc_reconnect_ok p),
       Counter ''nya_reconnect_fail_total'' (''link connect fail'') (pc_reconnect_fail p),
       Counter ''nya_sessions_created_total'' (''sessions created'') (pc_sessions_created p),
       Counter ''nya_sessions_dead_total'' (''sessions dead'') (pc_sessions_dead p),
       Counter ''nya_hop_reaped_total'' (''hop copies ended by stream removal while the local peer had not sent EOF'') (pc_hop_reaped p)]"

definition visit_gauges :: "snapshot \<Rightarrow> process_snap \<Rightarrow> sample_ev list" where
  "visit_gauges s p =
     [Gauge ''nya_streams_stalled'' (''streams currently stalled'') [] (sn_counters s M_streams_stalled),
       Gauge ''nya_streams_live'' (''live streams'') [] (sn_live s),
       Gauge ''nya_streams_held'' (''streams still in the session table (incl. unreaped closes)'') [] (sn_held s),
       Gauge ''nya_sessions_live'' (''live sessions'') [] (pc_sessions_live p),
       Counter ''nya_process_cpu_ms_total'' (''process CPU time user+sys, ms (/proc/self/stat; Linux only)'') (pc_process_cpu_ms p),
       Gauge ''nya_process_open_fds'' (''open file descriptors (/proc/self/fd; Linux only)'') [] (pc_process_open_fds p),
       Gauge ''nya_process_open_fds_baseline'' (''open fds recorded at process start before any session or listener'') [] (pc_process_open_fds_baseline p),
       Gauge ''nya_process_rss_bytes'' (''resident set size (/proc/self/status VmRSS; Linux only)'') [] (pc_process_rss_bytes p),
       Gauge ''nya_recv_cap_extra_bytes'' (''sum over live streams of recv_cap above the floor (P2.4)'') [] (sn_counters s M_recv_cap_extra_bytes),
       Gauge ''nya_pick_rtt_us'' (''fast RTT of last open_stream pick'') [] (sn_counters s M_pick_rtt_us)]"

definition visit_hists :: "snapshot \<Rightarrow> sample_ev list" where
  "visit_hists s =
     [Hist ''nya_failover_ms'' (''overlay path-silence to restick/down, milliseconds'') FAILOVER_MS_BOUNDS (sn_hists s H_failover_ms),
       Hist ''nya_stall_ms'' (''send-unacked or recv-hole stall duration, milliseconds (clock redefined in v0.1.7; not comparable with earlier versions)'') STALL_MS_BOUNDS (sn_hists s H_stall_ms),
       Hist ''nya_stream_lifetime_ms'' (''stream lifetime, milliseconds'') LIFETIME_MS_BOUNDS (sn_hists s H_lifetime_ms),
       Hist ''nya_ack_flush_us'' (''STREAM_ACK register store to wire, microseconds'') ACK_FLUSH_US_BOUNDS (sn_hists s H_ack_flush_us),
       Hist ''nya_ack_loop_ms'' (''bulk piece send to ACK, milliseconds'') STALL_MS_BOUNDS (sn_hists s H_ack_loop_ms),
       Hist ''nya_recv_cap_max_bytes'' (''per-stream max recv_cap at stream end'') RECV_CAP_BYTES_BOUNDS (sn_hists s H_recv_cap_max)]"

definition visit_link :: "link_snap \<Rightarrow> sample_ev list" where
  "visit_link l =
     (let lab = [(''link'', ln_name l)] in
      [Gauge ''nya_link_conns'' (''TCP connections on link'') lab (ln_conns l),
       Gauge ''nya_link_up'' (''UP connections on link'') lab (ln_up l),
       Gauge ''nya_link_degraded'' (''DEGRADED connections on link'') lab (ln_degraded l),
       Gauge ''nya_link_rtt_us'' (''best known RTT on link'') lab (ln_rtt_us l),
       Gauge ''nya_link_rtt_max_us'' (''worst known RTT on link'') lab (ln_rtt_max_us l),
       Gauge ''nya_link_inflight_bytes'' (''inflight on link'') lab (ln_inflight l),
       Gauge ''nya_link_sticky'' (''sticky streams on link'') lab (ln_sticky l),
       Gauge ''nya_link_congested'' (''congested connections on link'') lab (ln_congested l),
       Gauge ''nya_link_rx_fresh_us'' (''freshest last-rx on link'') lab (ln_rx_fresh_us l),
       Gauge ''nya_link_rx_stale_us'' (''stalest last-rx on link'') lab (ln_rx_stale_us l),
       Gauge ''nya_link_queued_urgent'' (''urgent queue on link'') lab (ln_queued_urgent l),
       Gauge ''nya_link_queued_bulk'' (''bulk queue on link'') lab (ln_queued_bulk l)])"

definition visit_path_state :: "labels \<Rightarrow> path_view \<Rightarrow> sample_ev list" where
  "visit_path_state lab p =
      [Gauge ''nya_path_rtt_us'' (''path fast RTT'') lab (ps_rtt_us p),
       Counter_l ''nya_path_picks_total'' (''open_stream picks onto this dest'') lab (px_picks p),
       Gauge ''nya_path_stable_rtt_us'' (''path stable RTT'') lab (px_stable_rtt_us p),
       Gauge ''nya_path_class_rtt_us'' (''path class RTT'') lab (px_class_rtt_us p),
       Gauge ''nya_path_inflight_bytes'' (''path inflight'') lab (ps_inflight p),
       Gauge ''nya_path_sticky'' (''sticky streams'') lab (ps_sticky p),
       Gauge ''nya_path_alive'' (''path alive'') lab (flag (px_alive p)),
       Gauge ''nya_path_state'' (''1=up 2=deg'') lab (state_code p),
       Gauge ''nya_path_congested'' (''path send-blocked'') lab (flag (ps_congested p)),
       Gauge ''nya_path_last_rx_ago_us'' (''us since last rx'') lab (ps_last_rx_ago_us p),
       Gauge ''nya_path_last_tx_ago_us'' (''us since last tx'') lab (px_last_tx_ago_us p),
       Gauge ''nya_path_pending_ping'' (''in-flight pings'') lab (px_pending_ping p),
       Gauge ''nya_path_queued_urgent'' (''urgent writer queue'') lab (ps_queued_urgent p),
       Gauge ''nya_path_queued_bulk'' (''bulk writer queue'') lab (ps_queued_bulk p),
       Gauge ''nya_path_ack_pending'' (''STREAM_ACK overwrite register depth'') lab (px_ack_pending p),
       Gauge ''nya_path_rtt_known'' (''1 if RTT sampled'') lab (flag (ps_rtt_known p)),
       Gauge ''nya_path_budget_bytes'' (''P2 send budget (2 '' @ [CHR 0xC3, CHR 0x97] @ '' bw '' @ [CHR 0xC3, CHR 0x97] @ '' min_rtt, clamped)'') lab (px_budget_bytes p),
       Gauge ''nya_path_bw_bytes_s'' (''ACK-clock delivery rate, windowed max'') lab (px_bw_bytes_s p),
       Gauge ''nya_path_ack_rtt_us'' (''loaded bulk send'' @ [CHR 0xE2, CHR 0x86, CHR 0x92] @ ''ACK EWMA'') lab (px_ack_rtt_us p),
       Counter_l ''nya_path_delivered_bytes_total'' (''payload bytes ACKed on this path'') lab (px_delivered p)]"

text \<open>The kernel's view of the path; all zero where it cannot answer.\<close>

definition visit_path_tcp :: "labels \<Rightarrow> path_view \<Rightarrow> sample_ev list" where
  "visit_path_tcp lab p =
     (let t = (case px_tcp p of Some t \<Rightarrow> t | None \<Rightarrow> tcp_view_zero) in
      [Gauge ''nya_path_tcp_known'' (''1 if TCP_INFO readable'') lab (flag (px_tcp p \<noteq> None)),
       Gauge ''nya_path_tcp_cwnd_bytes'' (''kernel snd_cwnd '' @ [CHR 0xC3, CHR 0x97] @ '' mss'') lab (ti_cwnd_bytes t),
       Gauge ''nya_path_tcp_rtt_us'' (''kernel srtt'') lab (ti_rtt_us t),
       Gauge ''nya_path_tcp_min_rtt_us'' (''kernel min rtt'') lab (ti_min_rtt_us t),
       Gauge ''nya_path_tcp_unacked_bytes'' (''kernel unacked '' @ [CHR 0xC3, CHR 0x97] @ '' mss'') lab (ti_unacked_bytes t),
       Gauge ''nya_path_tcp_notsent_bytes'' (''kernel not-yet-sent bytes'') lab (ti_notsent_bytes t),
       Gauge ''nya_path_tcp_delivery_rate_bytes_s'' (''kernel delivery rate'') lab (ti_delivery_rate_bytes_s t),
       Counter_l ''nya_path_tcp_retrans_total'' (''kernel total_retrans of this socket'') lab (ti_total_retrans t),
       Counter_l ''nya_path_tcp_bytes_retrans_total'' (''kernel bytes_retrans of this socket'') lab (ti_bytes_retrans t),
       Counter_l ''nya_path_tcp_bytes_sent_total'' (''kernel bytes_sent of this socket (incl. retransmits); ratio denominator'') lab (ti_bytes_sent t),
       Gauge ''nya_path_tcp_app_limited'' (''1 if the kernel's last delivery-rate sample was app-limited (we were the limiter)'') lab (flag (ti_app_limited t)),
       Gauge ''nya_path_tcp_busy_us'' (''kernel busy_time (monotone)'') lab (ti_busy_time_us t),
       Gauge ''nya_path_tcp_rwnd_limited_us'' (''kernel rwnd_limited (monotone)'') lab (ti_rwnd_limited_us t),
       Gauge ''nya_path_tcp_sndbuf_limited_us'' (''kernel sndbuf_limited (monotone)'') lab (ti_sndbuf_limited_us t)])"

definition visit_path_loop :: "labels \<Rightarrow> path_view \<Rightarrow> sample_ev list" where
  "visit_path_loop lab p =
      [Gauge ''nya_path_min_rtt_us'' (''overlay windowed min loop RTT (P3 fit reference)'') lab (px_min_rtt_us p),
       Gauge ''nya_path_loop_fit'' (''1 if bulk placement considers this path loop-fit (P3)'') lab (flag (px_loop_fit p)),
       Counter_l ''nya_path_loop_unfit_total'' (''fit to unfit transitions (P3)'') lab (px_loop_unfit_total p)]"

definition visit_path :: "path_view \<Rightarrow> sample_ev list" where
  "visit_path p =
     (let lab = [(''path'', ps_name p), (''link'', ps_link p)] in
      visit_path_state lab p @ visit_path_tcp lab p @ visit_path_loop lab p)"

definition visit_metrics :: "snapshot \<Rightarrow> process_snap \<Rightarrow> sample_ev list" where
  "visit_metrics s p =
     visit_paths_streams s @ visit_ends s @ visit_reasons s @ visit_process p @ visit_gauges s p @ visit_hists s
     @ concat (map visit_link (sn_links s)) @ concat (map visit_path (sn_paths s))"

section \<open>Descriptors\<close>

datatype instrument = IKCounter | IKGauge | IKHistogram

record metric_desc =
  md_name :: string
  md_help :: string
  md_kind :: instrument
  md_labels :: "string list"

fun desc_of :: "sample_ev \<Rightarrow> metric_desc" where
  "desc_of (Counter n h v) = \<lparr>md_name = n, md_help = h, md_kind = IKCounter, md_labels = []\<rparr>"
| "desc_of (Gauge n h l v) = \<lparr>md_name = n, md_help = h, md_kind = IKGauge, md_labels = map fst l\<rparr>"
| "desc_of (Hist n h b s) = \<lparr>md_name = n, md_help = h, md_kind = IKHistogram, md_labels = []\<rparr>"
| "desc_of (Counter_l n h l v) = \<lparr>md_name = n, md_help = h, md_kind = IKCounter, md_labels = map fst l\<rparr>"

text \<open>\<open>FirstSeen\<close>: the first event of a name describes it.\<close>

definition first_seen :: "metric_desc list \<Rightarrow> metric_desc \<Rightarrow> metric_desc list" where
  "first_seen ds d = (if md_name d \<in> md_name ` set ds then ds else ds @ [d])"

text \<open>A zeroed report with one link and one path, all of whose values are 0.\<close>

definition process_zero :: process_snap where
  "process_zero = \<lparr>pc_handshake_create_ok = 0, pc_handshake_join_ok = 0, pc_handshake_fail_auth = 0, pc_handshake_fail_version = 0, pc_handshake_fail_unknown = 0, pc_handshake_fail_other = 0, pc_inbound_accept = 0, pc_inbound_reject = 0, pc_inbound_open_fail = 0, pc_outbound_dial_ok = 0, pc_outbound_dial_fail = 0, pc_reconnect_ok = 0, pc_reconnect_fail = 0, pc_sessions_created = 0, pc_sessions_dead = 0, pc_sessions_live = 0, pc_hop_reaped = 0, pc_process_cpu_ms = 0, pc_process_open_fds = 0, pc_process_open_fds_baseline = 0, pc_process_rss_bytes = 0\<rparr>"

definition link_zero :: "bytes \<Rightarrow> link_snap" where
  "link_zero n = \<lparr>ln_name = n, ln_conns = 0, ln_up = 0, ln_degraded = 0, ln_rtt_us = 0, ln_rtt_max_us = 0,
     ln_inflight = 0, ln_sticky = 0, ln_congested = 0, ln_rx_fresh_us = 0, ln_rx_stale_us = 0,
     ln_queued_urgent = 0, ln_queued_bulk = 0, ln_rtt_known = 0\<rparr>"

definition path_zero :: "bytes \<Rightarrow> path_view" where
  "path_zero n = \<lparr>ps_name = n, ps_link = n, ps_rtt_us = 0, ps_rtt_known = False, ps_up = False, ps_degraded = False,
     ps_congested = False, ps_inflight = 0, ps_sticky = 0, ps_last_rx_ago_us = 0, ps_queued_urgent = 0,
     ps_queued_bulk = 0, px_stable_rtt_us = 0, px_class_rtt_us = 0, px_alive = False, px_write_stalled = False,
     px_last_tx_ago_us = 0, px_pending_ping = 0, px_ack_pending = 0, px_backup = False, px_picks = 0, px_tcp = None,
     px_budget_bytes = 0, px_bw_bytes_s = 0, px_ack_rtt_us = 0, px_delivered = 0, px_min_rtt_us = 0,
     px_loop_fit = False, px_loop_unfit_total = 0\<rparr>"

definition dummy_report :: snapshot where
  "dummy_report = zeroed_hists\<lparr>sn_links := [link_zero [95]], sn_paths := [path_zero [95]]\<rparr>"

definition metric_descriptors :: "metric_desc list" where
  "metric_descriptors = foldl first_seen [] (map desc_of (visit_metrics dummy_report process_zero))"

section \<open>Prometheus text\<close>

fun replace_byte :: "byte \<Rightarrow> bytes \<Rightarrow> bytes \<Rightarrow> bytes" where
  "replace_byte b w [] = []"
| "replace_byte b w (x # xs) = (if x = b then w else [x]) @ replace_byte b w xs"

text \<open>Backslashes are doubled first, then quotes get one.\<close>

definition prometheus_label :: "bytes \<Rightarrow> bytes" where
  "prometheus_label s = replace_byte 34 [92, 34] (replace_byte 92 [92, 92] s)"

definition nl :: bytes where "nl = [10]"

definition help_type :: "string \<Rightarrow> string \<Rightarrow> string \<Rightarrow> bytes" where
  "help_type n h ty = ascii ''# HELP '' @ ascii n @ ascii '' '' @ ascii h @ nl
     @ ascii ''# TYPE '' @ ascii n @ ascii '' '' @ ascii ty @ nl"

fun join_comma :: "bytes list \<Rightarrow> bytes" where
  "join_comma [] = []" | "join_comma [x] = x" | "join_comma (x # y # xs) = x @ ascii '','' @ join_comma (y # xs)"

definition label_text :: "(bytes \<Rightarrow> bytes) \<Rightarrow> labels \<Rightarrow> bytes" where
  "label_text esc l =
     (if l = [] then []
      else ascii ''{'' @ join_comma (map (\<lambda>(k, v). ascii k @ [61, 34] @ esc v @ [34]) l) @ ascii ''}'')"

definition sample_line :: "bytes \<Rightarrow> bytes \<Rightarrow> nat \<Rightarrow> bytes" where
  "sample_line n l v = n @ l @ ascii '' '' @ dec_digits v @ nl"

text \<open>The buckets of a histogram, cumulated; a bucket the snapshot lacks counts 0.\<close>

fun cum_rows :: "nat \<Rightarrow> nat list \<Rightarrow> nat list \<Rightarrow> (nat \<times> nat) list" where
  "cum_rows cum [] bs = []"
| "cum_rows cum (le # ls) [] = (le, cum) # cum_rows cum ls []"
| "cum_rows cum (le # ls) (b # bs) = (le, cum + b) # cum_rows (cum + b) ls bs"

definition cum_inf :: "nat list \<Rightarrow> nat list \<Rightarrow> nat" where
  "cum_inf bounds bs =
     sum_list (take (length bounds) bs) + (if length bs > length bounds then bs ! length bounds else 0)"

definition labeled :: "string \<Rightarrow> string \<Rightarrow> string \<Rightarrow> labels \<Rightarrow> nat \<Rightarrow> bytes \<Rightarrow> bytes" where
  "labeled ty n h l v o1 =
     o1 @ (if contains (ascii ''# TYPE '' @ ascii n @ ascii '' '') o1 then [] else help_type n h ty)
        @ sample_line (ascii n) (label_text prometheus_label l) v"

fun prom_event :: "bytes \<Rightarrow> sample_ev \<Rightarrow> bytes" where
  "prom_event o1 (Counter n h v) = o1 @ help_type n h ''counter'' @ sample_line (ascii n) [] v"
| "prom_event o1 (Counter_l n h l v) = labeled ''counter'' n h l v o1"
| "prom_event o1 (Gauge n h l v) = labeled ''gauge'' n h l v o1"
| "prom_event o1 (Hist n h bounds s) =
     o1 @ help_type n h ''histogram''
     @ concat (map (\<lambda>(le, c). sample_line (ascii n @ ascii ''_bucket'') (ascii ''{le='' @ [34] @ dec_digits le @ [34] @ ascii ''}'') c)
         (cum_rows 0 bounds (hs_buckets s)))
     @ sample_line (ascii n @ ascii ''_bucket'') (ascii ''{le='' @ [34] @ ascii ''+Inf'' @ [34] @ ascii ''}'')
         (cum_inf bounds (hs_buckets s))
     @ sample_line (ascii n @ ascii ''_sum'') [] (hs_sum s)
     @ sample_line (ascii n @ ascii ''_count'') [] (hs_count s)"

definition render_prometheus :: "snapshot \<Rightarrow> process_snap \<Rightarrow> bytes" where
  "render_prometheus s p = foldl prom_event [] (visit_metrics s p)"

text \<open>The names of the text, histograms with their three suffixes.\<close>

fun series_names :: "sample_ev \<Rightarrow> string list" where
  "series_names (Hist n h b s) = [n @ ''_bucket'', n @ ''_sum'', n @ ''_count'']"
| "series_names (Counter n h v) = [n]"
| "series_names (Gauge n h l v) = [n]"
| "series_names (Counter_l n h l v) = [n]"

definition prometheus_metric_names :: "string set" where
  "prometheus_metric_names = set (concat (map series_names (visit_metrics dummy_report process_zero)))"

section \<open>The flat form of the log\<close>

definition push_kv :: "string \<Rightarrow> labels \<Rightarrow> nat \<Rightarrow> bytes \<Rightarrow> bytes" where
  "push_kv n l v o1 =
     o1 @ (if o1 = [] then [] else ascii '' '') @ ascii n @ label_text (\<lambda>v. v) l @ ascii ''='' @ dec_digits v"

fun kv_event :: "bytes \<Rightarrow> sample_ev \<Rightarrow> bytes" where
  "kv_event o1 (Counter n h v) = push_kv n [] v o1"
| "kv_event o1 (Counter_l n h l v) = push_kv n l v o1"
| "kv_event o1 (Gauge n h l v) = push_kv n l v o1"
| "kv_event o1 (Hist n h bounds s) =
     (let o2 = foldl (\<lambda>o1 (le, c). push_kv (n @ ''_bucket'') [(''le'', dec_digits le)] c o1) o1
                 (cum_rows 0 bounds (hs_buckets s));
          o3 = push_kv (n @ ''_bucket'') [(''le'', ascii ''+Inf'')] (cum_inf bounds (hs_buckets s)) o2
      in push_kv (n @ ''_count'') [] (hs_count s) (push_kv (n @ ''_sum'') [] (hs_sum s) o3))"

definition format_snapshot_metrics :: "snapshot \<Rightarrow> process_snap \<Rightarrow> bytes" where
  "format_snapshot_metrics s p = foldl kv_event [] (visit_metrics s p)"

definition snapshot_p99 :: "snapshot \<Rightarrow> nat option \<times> nat option" where
  "snapshot_p99 s =
     (percentile (sn_hists s H_stall_ms) STALL_MS_BOUNDS (f64_of_nat 99),
      percentile (sn_hists s H_failover_ms) FAILOVER_MS_BOUNDS (f64_of_nat 99))"

end
