(* ===== verification/Catalog_Facts.thy ===== *)
theory Catalog_Facts
  imports Catalog
begin

text \<open>
  The catalog: its descriptors cover every series a report can show, whatever its links and paths;
  the bucket lines of a histogram count what was observed up to their bound; and a label is read back.
\<close>

section \<open>Every series is described\<close>

lemma first_seen_in: "d \<in> set ds \<Longrightarrow> d \<in> set (foldl first_seen ds es)"
  by (induction es arbitrary: ds) (auto simp: first_seen_def)

lemma first_seen_all:
  assumes "\<forall>c\<in>set (ds @ es). \<forall>d\<in>set (ds @ es). md_name c = md_name d \<longrightarrow> c = d"
  shows "set (foldl first_seen ds es) = set (ds @ es)"
  using assms
proof (induction es arbitrary: ds)
  case (Cons e es)
  have a: "set (first_seen ds e) = insert e (set ds)"
  proof (cases "md_name e \<in> md_name ` set ds")
    case True
    then obtain c where "c \<in> set ds" "md_name e = md_name c" by blast
    then have "e \<in> set ds" using Cons(2) by (metis Un_iff list.set_intros(1) set_append)
    then show ?thesis using True by (auto simp: first_seen_def)
  qed (simp add: first_seen_def)
  have "set (foldl first_seen (first_seen ds e) es) = set (first_seen ds e @ es)"
    by (rule Cons(1)) (use Cons(2) in \<open>simp only: set_append a set_simps Un_insert_left Un_insert_right\<close>)
  then show ?case using a by simp
qed simp

lemma descs_link: "map desc_of (visit_link l) = map desc_of (visit_link m)"
  by (simp add: visit_link_def Let_def)

lemma descs_path: "map desc_of (visit_path p) = map desc_of (visit_path q)"
  by (simp add: visit_path_def visit_path_state_def visit_path_tcp_def visit_path_loop_def Let_def)

lemma descs_fixed:
  "map desc_of (visit_paths_streams s) = map desc_of (visit_paths_streams t)"
  "map desc_of (visit_ends s) = map desc_of (visit_ends t)"
  "map desc_of (visit_reasons s) = map desc_of (visit_reasons t)"
  "map desc_of (visit_process p) = map desc_of (visit_process q)"
  "map desc_of (visit_gauges s p) = map desc_of (visit_gauges t q)"
  "map desc_of (visit_hists s) = map desc_of (visit_hists t)"
  by (simp_all add: visit_paths_streams_def visit_ends_def visit_reasons_def visit_process_def visit_gauges_def
      visit_hists_def)

lemma visit_described: "desc_of ` set (visit_metrics s p) \<subseteq> desc_of ` set (visit_metrics dummy_report process_zero)"
proof -
  let ?z = "process_zero"
  have e: "desc_of ` set a = desc_of ` set b" if "map desc_of a = map desc_of b" for a b
    using that by (metis set_map)
  have l: "desc_of ` set (visit_link l) \<subseteq> desc_of ` set (visit_metrics dummy_report ?z)" for l
    using e[OF descs_link[of l "link_zero [95]"]] by (auto simp: visit_metrics_def dummy_report_def)
  have v: "desc_of ` set (visit_path q) \<subseteq> desc_of ` set (visit_metrics dummy_report ?z)" for q
    using e[OF descs_path[of q "path_zero [95]"]] by (auto simp: visit_metrics_def dummy_report_def)
  note f = e[OF descs_fixed(1)[of s dummy_report]] e[OF descs_fixed(2)[of s dummy_report]]
    e[OF descs_fixed(3)[of s dummy_report]] e[OF descs_fixed(4)[of p ?z]]
    e[OF descs_fixed(5)[of s p dummy_report ?z]] e[OF descs_fixed(6)[of s dummy_report]]
  let ?D = "desc_of ` set (visit_metrics dummy_report ?z)"
  have "desc_of ` set (visit_paths_streams s) \<subseteq> ?D" unfolding f(1) by (auto simp: visit_metrics_def)
  moreover have "desc_of ` set (visit_ends s) \<subseteq> ?D" unfolding f(2) by (auto simp: visit_metrics_def)
  moreover have "desc_of ` set (visit_reasons s) \<subseteq> ?D" unfolding f(3) by (auto simp: visit_metrics_def)
  moreover have "desc_of ` set (visit_process p) \<subseteq> ?D" unfolding f(4) by (auto simp: visit_metrics_def)
  moreover have "desc_of ` set (visit_gauges s p) \<subseteq> ?D" unfolding f(5) by (auto simp: visit_metrics_def)
  moreover have "desc_of ` set (visit_hists s) \<subseteq> ?D" unfolding f(6) by (auto simp: visit_metrics_def)
  moreover have "desc_of ` set (concat (map visit_link (sn_links s))) \<subseteq> ?D" using l by fastforce
  moreover have "desc_of ` set (concat (map visit_path (sn_paths s))) \<subseteq> ?D" using v by fastforce
  ultimately show ?thesis unfolding visit_metrics_def[of s p] set_append image_Un Un_subset_iff by blast
qed

text \<open>Names that hash apart are apart; a name that occurs again occurs next to itself.\<close>

definition name_hash :: "string \<Rightarrow> nat" where
  "name_hash n = foldl (\<lambda>a c. 2 * a + of_char c) 0 n"

text \<open>Hashes of the names of a walk, of a name that occurs next to itself one.\<close>

definition hashes :: "sample_ev list \<Rightarrow> nat list" where
  "hashes es = map (\<lambda>d. name_hash (md_name d)) (remdups_adj (map desc_of es))"

lemma hashes_paths_streams:
  "hashes (visit_paths_streams dummy_report) =
    [115363094, 57688982, 922950422, 118160978390, 29495600214, 28839638, 118127366870, 29531718550,
     472506931798, 236254114326, 3678887446, 114949206, 230285014, 231050966, 115594966, 3609046,
     925695190, 29560773846, 60550081813334, 14714457814, 918502806, 58857654422, 229917206, 14773682326,
     1891031195542, 57485526, 14716319190, 235459778518, 58865123414, 1844321238]"
  by (simp add: hashes_def visit_paths_streams_def name_hash_def Let_def)

lemma hashes_ends:
  "hashes (visit_ends dummy_report) =
    [1852302614, 1852280342, 59270004630, 926101334, 3793309959958, 237081953814, 29635240342,
     7586622458902, 474163926294, 922602134, 922601878, 922640534, 922640278, 3686335254, 947016290134]"
  by (simp add: hashes_def visit_ends_def name_hash_def Let_def)

lemma hashes_reasons:
  "hashes (visit_reasons dummy_report) =
    [231326870, 229927062, 58861338902, 231594710, 59121560662, 59063539990]"
  by (simp add: hashes_def visit_reasons_def name_hash_def Let_def)

lemma hashes_process:
  "hashes (visit_process process_zero) =
    [58922777814, 14730724054, 58922709142, 471381732246, 471381739414, 117845429398, 1844551062,
     1844589846, 14756745750, 7404228310, 29616906774, 461719254, 1846870550, 7398854422, 924853270,
     115305238]"
  by (simp add: hashes_def visit_process_def name_hash_def Let_def)

lemma hashes_gauges:
  "hashes (visit_gauges dummy_report process_zero) =
    [57884686, 7235429, 7235360, 14450853, 1849892310, 115619275, 59197118773, 231240469, 1846655509,
     3606073]"
  by (simp add: hashes_def visit_gauges_def name_hash_def Let_def)

lemma hashes_hists:
  "hashes (visit_hists dummy_report) =
    [3594281, 451721, 463042913, 7176937, 3588761, 461662805]"
  by (simp add: hashes_def visit_hists_def name_hash_def Let_def)

lemma hashes_link:
  "hashes (visit_link (link_zero [95])) =
    [1802063, 225198, 14416390, 3604793, 57677833, 922731221, 3604739, 28834246, 115353705, 115355233,
     461414556, 115353431]"
  by (simp add: hashes_def visit_link_def name_hash_def Let_def)

lemma hashes_path_state:
  "hashes (visit_path_state lab (path_zero [95])) =
    [3605945, 115382486, 461556281, 230742585, 923026133, 3605891, 1802565, 1802881, 28843462, 923030689,
     923031201, 230763831, 461562012, 115390295, 115364359, 28848152, 230746965, 57686917, 57682489,
     118139399894]"
  by (simp add: hashes_def visit_path_state_def name_hash_def Let_def)

lemma hashes_path_tcp:
  "hashes (visit_path_tcp lab (path_zero [95])) =
    [28846232, 923079125, 57692857, 923081145, 7384676693, 7384678357, 1890459506053, 7384672854,
     472617249366, 59077155990, 1846153398, 115384945, 29538781321, 118154782857]"
  by (simp add: hashes_def visit_path_tcp_def name_hash_def Let_def)

lemma hashes_path_loop:
  "hashes (visit_path_loop lab (path_zero [95])) = [57690553, 14422902, 3692304662]"
  by (simp add: hashes_def visit_path_loop_def name_hash_def Let_def)

definition zero_walks :: "sample_ev list list" where
  "zero_walks =
     [visit_paths_streams dummy_report, visit_ends dummy_report, visit_reasons dummy_report, visit_process process_zero,
      visit_gauges dummy_report process_zero, visit_hists dummy_report, visit_link (link_zero [95]),
      visit_path_state [(''path'', [95]), (''link'', [95])] (path_zero [95]),
      visit_path_tcp [(''path'', [95]), (''link'', [95])] (path_zero [95]),
      visit_path_loop [(''path'', [95]), (''link'', [95])] (path_zero [95])]"

lemma zero_walk: "visit_metrics dummy_report process_zero = concat zero_walks"
  by (simp add: visit_metrics_def zero_walks_def visit_path_def dummy_report_def Let_def path_zero_def)

lemma hashes_distinct: "distinct (concat (map hashes zero_walks))"
  by (simp add: zero_walks_def hashes_paths_streams hashes_ends hashes_reasons hashes_process hashes_gauges hashes_hists hashes_link hashes_path_state hashes_path_tcp hashes_path_loop)

lemma descs_by_name:
  assumes "c \<in> desc_of ` set (concat zero_walks)" "d \<in> desc_of ` set (concat zero_walks)" "md_name c = md_name d"
  shows "c = d"
proof -
  let ?R = "concat (map (\<lambda>es. remdups_adj (map desc_of es)) zero_walks)"
  have "distinct (map (\<lambda>d. name_hash (md_name d)) ?R)"
    using hashes_distinct by (simp add: map_concat comp_def hashes_def[abs_def])
  moreover have "set ?R = desc_of ` set (concat zero_walks)" by auto
  ultimately show ?thesis using assms unfolding distinct_map by (metis (no_types, lifting) inj_onD)
qed

lemma descriptors_all: "set metric_descriptors = desc_of ` set (visit_metrics dummy_report process_zero)"
  using first_seen_all[of "[]" "map desc_of (concat zero_walks)"] descs_by_name
  by (simp add: metric_descriptors_def zero_walk)

lemma foldl_first_seen_distinct:
  "distinct (map md_name ds) \<Longrightarrow> distinct (map md_name (foldl first_seen ds es))"
  by (induction es arbitrary: ds) (auto simp: first_seen_def)

lemma series_by_desc: "desc_of e = desc_of f \<Longrightarrow> series_names e = series_names f"
  by (cases e; cases f) simp_all

text \<open>
  C38: The catalog describes whatever is exported. The descriptors, made once from an empty report with one
  link and one path, have one entry per name, and for any report of a process, with whatever links and
  paths, they hold the name, help, kind and label keys of every series the report shows; every name of
  the Prometheus text, the three of a histogram included, is among the static names.
\<close>

theorem catalog_describes:
  "distinct (map md_name metric_descriptors)
   \<and> desc_of ` set (visit_metrics s p) \<subseteq> set metric_descriptors
   \<and> set (concat (map series_names (visit_metrics s p))) \<subseteq> prometheus_metric_names"
proof (intro conjI subsetI)
  show "distinct (map md_name metric_descriptors)"
    unfolding metric_descriptors_def by (rule foldl_first_seen_distinct) simp
  show "d \<in> set metric_descriptors" if "d \<in> desc_of ` set (visit_metrics s p)" for d
    using visit_described[of s p] that unfolding descriptors_all by blast
  fix n assume "n \<in> set (concat (map series_names (visit_metrics s p)))"
  then obtain e where e: "e \<in> set (visit_metrics s p)" "n \<in> set (series_names e)" by auto
  then obtain f where "f \<in> set (visit_metrics dummy_report process_zero)" "desc_of e = desc_of f"
    using visit_described[of s p] by blast
  then show "n \<in> prometheus_metric_names"
    using e(2) series_by_desc[of e f] by (auto simp: prometheus_metric_names_def)
qed

section \<open>The text of a histogram\<close>

lemma cum_rows_nth:
  "cum_rows c ls bs = map (\<lambda>i. (ls ! i, c + sum_list (take (Suc i) bs))) [0..<length ls]"
proof (induction c ls bs rule: cum_rows.induct)
  case (2 c le ls)
  then show ?case by (simp add: upt_conv_Cons map_Suc_upt[symmetric] del: upt_Suc)
next
  case (3 c le ls b bs)
  then show ?case by (simp add: upt_conv_Cons map_Suc_upt[symmetric] add.assoc del: upt_Suc)
qed simp

lemma bucket_of_at_most:
  "sorted bounds \<Longrightarrow> i < length bounds \<Longrightarrow> bucket_of bounds v \<le> i \<longleftrightarrow> v \<le> bounds ! i"
proof (induction bounds arbitrary: i)
  case (Cons b bs)
  show ?case
  proof (cases i)
    case (Suc j)
    then have j: "sorted bs" "j < length bs" "b \<le> bs ! j" using Cons.prems by simp_all
    show ?thesis
    proof (cases "v \<le> b")
      case True
      then have "v \<le> bs ! j" using j(3) by (rule order_trans)
      then show ?thesis using True Suc by simp
    qed (simp add: Suc Cons.IH[OF j(1,2)])
  qed (use Cons.prems in auto)
qed simp

lemma sum_buckets:
  "n \<le> length bounds + 1 \<Longrightarrow>
   sum_list (take n (map (\<lambda>i. in_bucket bounds i vs) [0..<length bounds + 1]))
   = length (filter (\<lambda>v. bucket_of bounds v < n) vs)"
proof (induction vs)
  case (Cons v vs)
  have "in_bucket bounds i (v # vs) = (if i = bucket_of bounds v then 1 else 0) + in_bucket bounds i vs" for i
    by (simp add: in_bucket_def)
  then have "sum_list (map (\<lambda>i. in_bucket bounds i (v # vs)) [0..<n])
      = (\<Sum>i\<leftarrow>[0..<n]. if i = bucket_of bounds v then 1 else 0) + sum_list (map (\<lambda>i. in_bucket bounds i vs) [0..<n])"
    by (simp only: sum_list_addf)
  moreover have "(\<Sum>i\<leftarrow>[0..<n]. if i = bucket_of bounds v then 1 else (0::nat)) = (if bucket_of bounds v < n then 1 else 0)"
    by (subst interv_sum_list_conv_sum_set_nat) (simp add: sum.delta)
  ultimately show ?case using Cons by (simp add: take_map min_absorb1 del: upt_Suc)
qed (simp add: in_bucket_def take_map sum_list_triv del: upt_Suc)

text \<open>The rows and the last bucket of a histogram that observed \<open>vs\<close>.\<close>

lemma rows_count:
  assumes "sorted bounds"
  shows "cum_rows 0 bounds (hs_buckets (hist_of bounds vs)) = map (\<lambda>le. (le, length (filter (\<lambda>v. v \<le> le) vs))) bounds"
proof -
  have "sum_list (take (Suc i) (hs_buckets (hist_of bounds vs))) = length (filter (\<lambda>v. v \<le> bounds ! i) vs)"
    if "i < length bounds" for i
    using sum_buckets[of "Suc i" bounds vs] bucket_of_at_most[OF assms that] that
    by (simp add: hist_of_counts less_Suc_eq_le del: upt_Suc)
  then have "cum_rows 0 bounds (hs_buckets (hist_of bounds vs))
      = map (\<lambda>i. (bounds ! i, length (filter (\<lambda>v. v \<le> bounds ! i) vs))) [0..<length bounds]"
    by (simp add: cum_rows_nth)
  also have "\<dots> = map (\<lambda>le. (le, length (filter (\<lambda>v. v \<le> le) vs))) bounds"
    by (rule nth_equalityI) simp_all
  finally show ?thesis .
qed

lemma inf_count: "cum_inf bounds (hs_buckets (hist_of bounds vs)) = length vs"
proof -
  let ?bs = "map (\<lambda>i. in_bucket bounds i vs) [0..<length bounds + 1]"
  have "cum_inf bounds ?bs = sum_list (take (length bounds + 1) ?bs)"
    unfolding cum_inf_def by (simp add: take_map upt_Suc_append take_append nth_append)
  also have "\<dots> = length (filter (\<lambda>v. bucket_of bounds v < length bounds + 1) vs)" by (rule sum_buckets) simp
  also have "\<dots> = length vs" using bucket_of_le[of bounds] by (simp add: less_Suc_eq_le)
  finally show ?thesis by (simp add: hist_of_counts)
qed

text \<open>
  The text of a histogram. After its header every bound has a line with the number of observations up
  to it, then come the number of all observations, their sum and their number again.
\<close>

lemma histogram_text:
  assumes "sorted bounds"
  shows "prom_event o1 (Hist n h bounds (hist_of bounds vs)) =
    o1 @ help_type n h ''histogram''
    @ concat (map (\<lambda>le. sample_line (ascii n @ ascii ''_bucket'') (ascii ''{le='' @ [34] @ dec_digits le @ [34] @ ascii ''}'')
        (length (filter (\<lambda>v. v \<le> le) vs))) bounds)
    @ sample_line (ascii n @ ascii ''_bucket'') (ascii ''{le='' @ [34] @ ascii ''+Inf'' @ [34] @ ascii ''}'') (length vs)
    @ sample_line (ascii n @ ascii ''_sum'') [] (sum_list vs) @ sample_line (ascii n @ ascii ''_count'') [] (length vs)"
proof -
  have "hs_sum (hist_of bounds vs) = sum_list vs" "hs_count (hist_of bounds vs) = length vs"
    by (simp_all add: hist_of_counts)
  then show ?thesis using rows_count[OF assms, of vs] inf_count[of bounds vs] by (simp add: comp_def)
qed

section \<open>Labels\<close>

text \<open>How a scraper reads a label value: up to the quote that no backslash escapes.\<close>

fun read_label :: "bytes \<Rightarrow> (bytes \<times> bytes) option" where
  "read_label [] = None"
| "read_label [x] = (if x = 34 then Some ([], []) else None)"
| "read_label (x # y # xs) =
     (if x = 34 then Some ([], y # xs)
      else if x = 92 then map_option (\<lambda>(v, r). (y # v, r)) (read_label xs)
      else map_option (\<lambda>(v, r). (x # v, r)) (read_label (y # xs)))"

lemma prometheus_label_Cons:
  "prometheus_label [] = []"
  "prometheus_label (x # xs)
   = (if x = 92 then [92, 92] else if x = 34 then [92, 34] else [x]) @ prometheus_label xs"
  by (simp_all add: prometheus_label_def)

lemma label_back: "read_label (prometheus_label v @ 34 # rest) = Some (v, rest)"
proof (induction v)
  case Nil
  show ?case by (cases rest) (simp_all add: prometheus_label_Cons)
next
  case (Cons x xs)
  obtain y ys where y: "prometheus_label xs @ 34 # rest = y # ys" by (cases "prometheus_label xs @ 34 # rest") auto
  show ?case using Cons y by (auto simp: prometheus_label_Cons)
qed

end
